(* ===== verification/Prelude.thy ===== *)
theory Prelude
  imports Main "HOL-Library.Word"
begin

text \<open>
  Shared vocabulary of the development: results of fallible code, the two JavaScript containers
  whose iteration order the code observes (\<open>Map\<close> and \<open>Set\<close>), and stable sorting.

  Code that can throw returns a value of \<open>'e + 'a\<close>: \<open>Inl\<close> carries the thrown error, \<open>Inr\<close> the
  returned value. \<open>r_bind\<close> is sequencing (the rest of a block runs only when nothing was thrown),
  \<open>r_require\<close> is \<open>if (!cond) throw\<close>.

  A JavaScript \<open>Map\<close> iterates in the order in which keys were first inserted, and \<open>set\<close> on a
  present key keeps its place. It is an association list with distinct keys; \<open>js_set\<close>,
  \<open>js_get\<close> (\<open>map_of\<close>) and \<open>js_delete\<close> are its operations. \<open>js_add\<close> inserts into a \<open>Set\<close> that
  iterates in insertion order.
\<close>

type_synonym byte = "8 word"
type_synonym bytes = "byte list"

section \<open>Results\<close>

definition r_bind :: "'e + 'a \<Rightarrow> ('a \<Rightarrow> 'e + 'b) \<Rightarrow> 'e + 'b" where
  "r_bind m f = (case m of Inl e \<Rightarrow> Inl e | Inr x \<Rightarrow> f x)"

lemma r_bind_cong [fundef_cong]:
  "m = m' \<Longrightarrow> (\<And>x. m' = Inr x \<Longrightarrow> f x = g x) \<Longrightarrow> r_bind m f = r_bind m' g"
  by (cases m') (auto simp: r_bind_def)

definition r_require :: "bool \<Rightarrow> 'e \<Rightarrow> 'e + unit" where
  "r_require c e = (if c then Inr () else Inl e)"

lemma r_bind_Inl [simp]: "r_bind (Inl e) f = Inl e"
  by (simp add: r_bind_def)

lemma r_bind_Inr [simp]: "r_bind (Inr x) f = f x"
  by (simp add: r_bind_def)

lemma r_bind_eq_Inr: "r_bind m f = Inr y \<longleftrightarrow> (\<exists>x. m = Inr x \<and> f x = Inr y)"
  by (cases m) auto

lemma r_bind_InrE [elim!]:
  assumes "r_bind m f = Inr y"
  obtains x where "m = Inr x" and "f x = Inr y"
  using assms by (cases m) auto

lemma r_require_True [simp]: "r_require True e = Inr ()"
  by (simp add: r_require_def)

lemma r_require_False [simp]: "r_require False e = Inl e"
  by (simp add: r_require_def)

lemma r_require_Inr [simp]: "r_require c e = Inr u \<longleftrightarrow> c"
  by (simp add: r_require_def)

text \<open>Running a check on every element, in order, stopping at the first failure.\<close>

fun r_each :: "('a \<Rightarrow> 'e + unit) \<Rightarrow> 'a list \<Rightarrow> 'e + unit" where
  "r_each f [] = Inr ()"
| "r_each f (x # xs) = r_bind (f x) (\<lambda>_. r_each f xs)"

lemma r_each_Inr [simp]: "r_each f xs = Inr u \<longleftrightarrow> (\<forall>x \<in> set xs. f x = Inr ())"
  by (induction xs) (auto simp: r_bind_eq_Inr)

text \<open>\<open>xs.map(f)\<close> where \<open>f\<close> may throw.\<close>

fun r_map :: "('a \<Rightarrow> 'e + 'b) \<Rightarrow> 'a list \<Rightarrow> 'e + 'b list" where
  "r_map f [] = Inr []"
| "r_map f (x # xs) = r_bind (f x) (\<lambda>y. r_bind (r_map f xs) (\<lambda>ys. Inr (y # ys)))"

lemma r_map_length: "r_map f xs = Inr ys \<Longrightarrow> length ys = length xs"
  by (induction xs arbitrary: ys) auto

lemma r_map_all: "(\<And>x. x \<in> set xs \<Longrightarrow> f x = Inr (g x)) \<Longrightarrow> r_map f xs = Inr (map g xs)"
  by (induction xs) auto

lemma r_map_all2: "r_map f xs = Inr ys \<Longrightarrow> list_all2 (\<lambda>x y. f x = Inr y) xs ys"
  by (induction xs arbitrary: ys) auto

lemma find_Some: "List.find P xs = Some x \<Longrightarrow> x \<in> set xs \<and> P x"
  by (induction xs) (auto split: if_splits)

section \<open>Insertion-ordered maps and sets\<close>

fun js_set :: "'k \<Rightarrow> 'v \<Rightarrow> ('k \<times> 'v) list \<Rightarrow> ('k \<times> 'v) list" where
  "js_set k v [] = [(k, v)]"
| "js_set k v (p # m) = (if fst p = k then (k, v) # m else p # js_set k v m)"

definition js_get :: "('k \<times> 'v) list \<Rightarrow> 'k \<Rightarrow> 'v option" where
  "js_get m k = map_of m k"

definition js_delete :: "'k \<Rightarrow> ('k \<times> 'v) list \<Rightarrow> ('k \<times> 'v) list" where
  "js_delete k m = filter (\<lambda>p. fst p \<noteq> k) m"

definition js_add :: "'a \<Rightarrow> 'a list \<Rightarrow> 'a list" where
  "js_add x xs = (if x \<in> set xs then xs else xs @ [x])"

lemma js_get_set [simp]: "js_get (js_set k v m) k' = (if k' = k then Some v else js_get m k')"
  by (induction m) (auto simp: js_get_def)

lemma js_get_Nil [simp]: "js_get [] k = None"
  by (simp add: js_get_def)

lemma js_get_Cons [simp]: "js_get (p # m) k = (if fst p = k then Some (snd p) else js_get m k)"
  by (simp add: js_get_def)

lemma js_get_delete [simp]: "js_get (js_delete k m) k' = (if k' = k then None else js_get m k')"
  by (induction m) (auto simp: js_delete_def)

lemma keys_js_set: "set (map fst (js_set k v m)) = insert k (set (map fst m))"
  by (induction m) auto

lemma distinct_js_set: "distinct (map fst m) \<Longrightarrow> distinct (map fst (js_set k v m))"
  using keys_js_set [of k v] by (induction m) auto

lemma distinct_js_delete: "distinct (map fst m) \<Longrightarrow> distinct (map fst (js_delete k m))"
  by (induction m) (auto simp: js_delete_def)

lemma set_js_add [simp]: "set (js_add x xs) = insert x (set xs)"
  by (auto simp: js_add_def)

lemma distinct_js_add [simp]: "distinct (js_add x xs) \<longleftrightarrow> distinct xs"
  by (auto simp: js_add_def)

text \<open>\<open>js_get\<close> of a map with distinct keys is membership.\<close>

lemma js_get_in: "distinct (map fst m) \<Longrightarrow> js_get m k = Some v \<longleftrightarrow> (k, v) \<in> set m"
  by (auto simp: js_get_def)

lemma js_get_None: "js_get m k = None \<longleftrightarrow> k \<notin> set (map fst m)"
  by (auto simp: js_get_def map_of_eq_None_iff)

text \<open>A map from the keys of a list of items to the items.\<close>

definition keyed_by :: "('a \<Rightarrow> 'k) \<Rightarrow> 'a list \<Rightarrow> ('k \<times> 'a) list" where
  "keyed_by key xs = fold (\<lambda>c m. js_set (key c) c m) xs []"

lemma js_set_mem: "x \<in> set (js_set k v m) \<Longrightarrow> x = (k, v) \<or> x \<in> set m"
  by (induction m) (auto split: if_splits)

lemma keyed_fold:
  "distinct (map fst m) \<Longrightarrow> distinct (map fst (fold (\<lambda>c m. js_set (key c) c m) xs m))"
  "set (map fst (fold (\<lambda>c m. js_set (key c) c m) xs m)) = set (map fst m) \<union> key ` set xs"
  "x \<in> set (fold (\<lambda>c m. js_set (key c) c m) xs m) \<Longrightarrow> x \<in> set m \<or> x \<in> (\<lambda>c. (key c, c)) ` set xs"
proof (induction xs arbitrary: m)
  case (Cons c xs)
  {
    case 1
    then show ?case
      using Cons.IH(1) [OF distinct_js_set [OF 1]] by simp
  next
    case 2
    show ?case
      using Cons.IH(2) [of "js_set (key c) c m"] keys_js_set [of "key c" c m] by auto
  next
    case 3
    then show ?case
      using Cons.IH(3) [of "js_set (key c) c m"] js_set_mem [of x "key c" c m] by auto
  }
qed simp_all

lemma keyed_by_ok:
  "distinct (map fst (keyed_by key xs))" "set (map fst (keyed_by key xs)) = key ` set xs"
  "(k, c) \<in> set (keyed_by key xs) \<Longrightarrow> key c = k \<and> c \<in> set xs"
  using keyed_fold(1) [of "[]" key xs] keyed_fold(2) [where m = "[]" and key = key and xs = xs]
    keyed_fold(3) [of "(k, c)" key xs "[]"] by (auto simp: keyed_by_def)

text \<open>The last item with a key is the one that is kept.\<close>

lemma keyed_by_append: "keyed_by key (xs @ ys) = fold (\<lambda>c m. js_set (key c) c m) ys (keyed_by key xs)"
  by (simp add: keyed_by_def)

lemma js_get_keyed_fold:
  "js_get (fold (\<lambda>c m. js_set (key c) c m) xs m) k = (case List.find (\<lambda>x. key x = k) (rev xs) of Some x \<Rightarrow> Some x | None \<Rightarrow> js_get m k)"
proof (induction xs rule: rev_induct)
  case (snoc x xs)
  then show ?case
    by simp
qed simp

lemma js_get_keyed_by: "js_get (keyed_by key xs) k = List.find (\<lambda>x. key x = k) (rev xs)"
  by (simp add: keyed_by_def js_get_keyed_fold split: option.splits)

text \<open>The duplicate check every list validator of the code runs: a \<open>Set\<close> of the keys seen so far.\<close>

fun first_dup :: "('a \<Rightarrow> 'k) \<Rightarrow> 'k list \<Rightarrow> 'a list \<Rightarrow> 'a option" where
  "first_dup key seen [] = None"
| "first_dup key seen (x # xs) =
     (if key x \<in> set seen then Some x else first_dup key (key x # seen) xs)"

lemma first_dup_None:
  "first_dup key seen xs = None \<longleftrightarrow> distinct (map key xs) \<and> set (map key xs) \<inter> set seen = {}"
  by (induction xs arbitrary: seen) auto

section \<open>Sorting\<close>

text \<open>
  \<open>Array.prototype.sort\<close> is stable. With a comparator that compares an integer key it is
  \<open>sort_key\<close>; descending comparators negate the key.
\<close>

definition sort_desc :: "('a \<Rightarrow> int) \<Rightarrow> 'a list \<Rightarrow> 'a list" where
  "sort_desc f xs = sort_key (\<lambda>x. - f x) xs"

lemma set_sort_desc [simp]: "set (sort_desc f xs) = set xs"
  by (simp add: sort_desc_def)

lemma length_sort_desc [simp]: "length (sort_desc f xs) = length xs"
  by (simp add: sort_desc_def)

lemma sorted_sort_desc: "sorted_wrt (\<lambda>x y. f y \<le> f x) (sort_desc f xs)"
proof -
  have "sorted (map (\<lambda>x. - f x) (sort_key (\<lambda>x. - f x) xs))"
    by (rule sorted_sort_key)
  then show ?thesis
    by (simp add: sort_desc_def sorted_map)
qed

text \<open>
  Sorting with an arbitrary comparator (negative: first before second): stable insertion, which is
  what \<open>sort\<close> computes for every comparator that is a consistent total preorder.
\<close>

fun insert_by :: "('a \<Rightarrow> 'a \<Rightarrow> int) \<Rightarrow> 'a \<Rightarrow> 'a list \<Rightarrow> 'a list" where
  "insert_by cmp x [] = [x]"
| "insert_by cmp x (y # ys) = (if cmp x y \<le> 0 then x # y # ys else y # insert_by cmp x ys)"

definition sort_by :: "('a \<Rightarrow> 'a \<Rightarrow> int) \<Rightarrow> 'a list \<Rightarrow> 'a list" where
  "sort_by cmp xs = foldr (insert_by cmp) xs []"

lemma set_insert_by [simp]: "set (insert_by cmp x xs) = insert x (set xs)"
  by (induction xs) auto

lemma length_insert_by [simp]: "length (insert_by cmp x xs) = Suc (length xs)"
  by (induction xs) auto

lemma sort_by_simps [simp]: "sort_by cmp [] = []" "sort_by cmp (x # xs) = insert_by cmp x (sort_by cmp xs)"
  by (simp_all add: sort_by_def)

lemma set_sort_by [simp]: "set (sort_by cmp xs) = set xs"
  by (induction xs) auto

lemma length_sort_by [simp]: "length (sort_by cmp xs) = length xs"
  by (induction xs) auto

text \<open>\<open>s.includes(t)\<close>, and \<open>a ?? b\<close> with JavaScript truthiness of an optional string and flag.\<close>

definition str_includes :: "string \<Rightarrow> string \<Rightarrow> bool" where
  "str_includes hay needle = (\<exists>k \<in> set [0..<Suc (length hay)]. take (length needle) (drop k hay) = needle)"

definition or_default :: "'a option \<Rightarrow> 'a \<Rightarrow> 'a" where
  "or_default x d = (case x of Some y \<Rightarrow> y | None \<Rightarrow> d)"

lemma or_default_simps [simp]: "or_default (Some y) d = y" "or_default None d = d"
  by (simp_all add: or_default_def)

definition truthy_str :: "string option \<Rightarrow> bool" where
  "truthy_str s = (case s of Some t \<Rightarrow> t \<noteq> [] | None \<Rightarrow> False)"

definition truthy :: "bool option \<Rightarrow> bool" where
  "truthy b = (b = Some True)"

lemma truthy_simps [simp]: "truthy (Some b) = b" "truthy None = False"
  "truthy_str (Some t) = (t \<noteq> [])" "truthy_str None = False"
  by (simp_all add: truthy_def truthy_str_def)

section \<open>Decimal strings\<close>

definition digit_char :: "nat \<Rightarrow> char" where
  "digit_char d = char_of (48 + d)"

definition is_digit :: "char \<Rightarrow> bool" where
  "is_digit c \<longleftrightarrow> 48 \<le> (of_char c :: nat) \<and> (of_char c :: nat) \<le> 57"

fun nat_str :: "nat \<Rightarrow> string" where
  "nat_str n = (if n < 10 then [digit_char n] else nat_str (n div 10) @ [digit_char (n mod 10)])"

declare nat_str.simps [simp del]

definition parse_nat :: "string \<Rightarrow> nat" where
  "parse_nat s = foldl (\<lambda>a c. 10 * a + (of_char c - 48)) 0 s"

lemma of_digit_char: "d < 10 \<Longrightarrow> of_char (digit_char d) = 48 + d"
  by (simp add: digit_char_def)

lemma is_digit_char: "d < 10 \<Longrightarrow> is_digit (digit_char d)"
  by (simp add: is_digit_def of_digit_char)

lemma nat_str_digits: "nat_str n \<noteq> [] \<and> list_all is_digit (nat_str n)"
  by (induction n rule: nat_str.induct) (simp add: nat_str.simps is_digit_char)

lemma parse_nat_str [simp]: "parse_nat (nat_str n) = n"
proof (induction n rule: nat_str.induct)
  case (1 n)
  then show ?case
    by (cases "n < 10") (simp_all add: nat_str.simps [of n] parse_nat_def of_digit_char)
qed

text \<open>\<open>s.startsWith(p)\<close>, and \<open>xs.join(sep)\<close>.\<close>

definition starts_with :: "string \<Rightarrow> string \<Rightarrow> bool" where
  "starts_with p s \<longleftrightarrow> take (length p) s = p"

lemma starts_with_append [simp]: "starts_with p (p @ s)"
  by (simp add: starts_with_def)

fun join_with :: "string \<Rightarrow> string list \<Rightarrow> string" where
  "join_with sep [] = []"
| "join_with sep [x] = x"
| "join_with sep (x # y # xs) = x @ sep @ join_with sep (y # xs)"

end
