(* ===== verification/Buffer.thy ===== *)
theory Buffer
  imports Prelude
begin

unbundle bit_operations_syntax

text \<open>
  The byte buffers of \<open>ts-sdk/src/extension/utils.ts\<close>: \<open>BufferWriter\<close> appends to a growing byte
  list, \<open>BufferReader\<close> moves an offset over an immutable view. The errors of the whole extension
  package are one datatype, one constructor per message (with the values the message shows).

  The locale \<open>codec\<close> is the contract between the buffers and everything encoded with them: a
  writing operation appends the wire form of a value, a reading operation at that wire form
  returns the value and moves the reader past it. \<open>strict_codec\<close> adds what a parser owes its
  caller: whatever it returns satisfies the validity predicate, and it consumes at least one byte
  without leaving the view. Lists are coded by their count followed by their items; the lemmas on
  lists are proved once, inside the locales.
\<close>

datatype buf_err =
    UnexpectedEnd | VarUintNotNatural | CompactSizeTooLarge | CompactSize8Unsupported
  | InvalidArrayLength

datatype id_err =
    MissingTxid | InvalidTxidFormat | InvalidTxidLength nat | InvalidAssetIdFormat
  | MissingAssetId | InvalidAssetIdLength nat | EmptyTxid | InvalidGroupIndex int

datatype ref_err =
    InvalidAssetRefFormat | MissingAssetRef | InvalidAssetRefLength | AssetRefUnspecified
  | AssetRefUnknown byte

datatype input_err =
    MissingIntentTxid | InvalidIntentTxidFormat | InvalidIntentTxidLength | InvalidInputFormat
  | InputTypeUnspecified | InputTypeUnknown byte | MissingAssetInputs
  | InvalidAssetInputsFormat | MixedInputTypes | DuplicatedVin int

datatype output_err =
    InvalidAssetOutputFormat | MissingAssetOutput | VoutOutOfRange | AmountNotPositive
  | InvalidVoutLength | OutputTypeUnspecified | OutputTypeUnknown | MissingAssetOutputs
  | InvalidAssetOutputsFormat | DuplicatedVout int

datatype metadata_err =
    InvalidMetadataFormat | MissingMetadata | MissingMetadataKey | MissingMetadataValue
  | InvalidMetadataLength | InvalidMetadataListFormat | MissingMetadataList

datatype group_err =
    InvalidGroupFormat | MissingAssetGroup | EmptyAssetGroup | IssuanceHasInputs
  | OnlyIssuanceHasControl

datatype packet_err =
    MissingPacketHex | InvalidPacketFormat | MissingAssets | DuplicateAssetGroup string
  | InvalidControlIndex int nat | InvalidPacketLength nat

datatype emulator_err =
    EmptyEmulatorPacket | EmptyScript int | DuplicateVin int | TrailingBytes nat

datatype envelope_err =
    MissingPackets | InvalidPacketType int | DuplicatePacketType int | MissingOpReturn
  | ExpectedOpReturn | MissingMagicEOF | ExpectedMagic bytes | MissingPacketData
  | ExtensionNotFound

datatype ext_err =
    Buf buf_err | IdE id_err | RefE ref_err | InE input_err | OutE output_err
  | MetaE metadata_err | GroupE group_err | PacketE packet_err | EmulatorE emulator_err
  | EnvE envelope_err

section \<open>BufferWriter\<close>

type_synonym writer = bytes

definition new_writer :: writer where
  "new_writer = []"

definition write_bytes :: "bytes \<Rightarrow> writer \<Rightarrow> writer" where
  "write_bytes data w = w @ data"

definition writeByte :: "nat \<Rightarrow> writer \<Rightarrow> writer" where
  "writeByte b w = w @ [word_of_nat (b AND 0xff)]"

text \<open>
  \<open>DataView.setUint16(0, value, true)\<close> converts with ToUint16 (modulo \<open>2 ^ 16\<close>, also for negative
  values), low byte first; \<open>setUint32\<close> likewise modulo \<open>2 ^ 32\<close>.
\<close>

definition uint16LE :: "int \<Rightarrow> bytes" where
  "uint16LE v = [word_of_int v, word_of_int (drop_bit 8 v)]"

definition writeUint16LE :: "int \<Rightarrow> writer \<Rightarrow> writer" where
  "writeUint16LE v w = write_bytes (uint16LE v) w"

definition uint32LE :: "nat \<Rightarrow> bytes" where
  "uint32LE n = [word_of_nat n, word_of_nat (drop_bit 8 n),
                 word_of_nat (drop_bit 16 n), word_of_nat (drop_bit 24 n)]"

text \<open>The \<open>do ... while\<close> loop of \<open>writeVarUint\<close>: seven bits at a time, low group first.\<close>

function varUintBytes :: "nat \<Rightarrow> bytes" where
  "varUintBytes remaining =
     (let b = remaining AND 0x7f; remaining' = drop_bit 7 remaining
      in if remaining' > 0 then word_of_nat (b OR 0x80) # varUintBytes remaining'
         else [word_of_nat b])"
  by pat_completeness auto
termination
  by (relation "measure id") (auto simp: drop_bit_eq_div)

declare varUintBytes.simps [simp del]

definition writeVarUint :: "int \<Rightarrow> writer \<Rightarrow> ext_err + writer" where
  "writeVarUint value w =
     (if value < 0 then Inl (Buf VarUintNotNatural) else Inr (write_bytes (varUintBytes (nat value)) w))"

definition writeVarSlice :: "bytes \<Rightarrow> writer \<Rightarrow> ext_err + writer" where
  "writeVarSlice data w =
     r_bind (writeVarUint (int (length data)) w) (\<lambda>w'. Inr (write_bytes data w'))"

definition writeCompactSize :: "nat \<Rightarrow> writer \<Rightarrow> ext_err + writer" where
  "writeCompactSize value w =
     (if value < 0xfd then Inr (writeByte value w)
      else if value \<le> 0xffff then Inr (writeUint16LE (int value) (writeByte 0xfd w))
      else if value \<le> 0xffffffff then Inr (write_bytes (uint32LE value) (writeByte 0xfe w))
      else Inl (Buf CompactSizeTooLarge))"

definition writeCompactSlice :: "bytes \<Rightarrow> writer \<Rightarrow> ext_err + writer" where
  "writeCompactSlice data w =
     r_bind (writeCompactSize (length data) w) (\<lambda>w'. Inr (write_bytes data w'))"

section \<open>BufferReader\<close>

record reader =
  view :: bytes
  offset :: nat

definition new_reader :: "bytes \<Rightarrow> reader" where
  "new_reader data = \<lparr>view = data, offset = 0\<rparr>"

definition remaining :: "reader \<Rightarrow> nat" where
  "remaining r = length (view r) - offset r"

definition readByte :: "reader \<Rightarrow> ext_err + byte \<times> reader" where
  "readByte r =
     (if offset r \<ge> length (view r) then Inl (Buf UnexpectedEnd)
      else Inr (view r ! offset r, r\<lparr>offset := offset r + 1\<rparr>))"

definition readSlice :: "nat \<Rightarrow> reader \<Rightarrow> ext_err + bytes \<times> reader" where
  "readSlice sz r =
     (if offset r + sz > length (view r) then Inl (Buf UnexpectedEnd)
      else Inr (take sz (drop (offset r) (view r)), r\<lparr>offset := offset r + sz\<rparr>))"

definition readUint16LE :: "reader \<Rightarrow> ext_err + int \<times> reader" where
  "readUint16LE r =
     (if offset r + 2 > length (view r) then Inl (Buf UnexpectedEnd)
      else Inr (uint (view r ! offset r) + 256 * uint (view r ! (offset r + 1)),
                r\<lparr>offset := offset r + 2\<rparr>))"

text \<open>The loop of \<open>readVarUint\<close>, with its variables \<open>result\<close> and \<open>shift\<close> as arguments.\<close>

function readVarUintLoop :: "nat \<Rightarrow> nat \<Rightarrow> reader \<Rightarrow> ext_err + nat \<times> reader" where
  "readVarUintLoop result shift r =
     (if offset r \<ge> length (view r) then Inl (Buf UnexpectedEnd)
      else let b = view r ! offset r;
               r' = r\<lparr>offset := offset r + 1\<rparr>;
               result' = result OR push_bit shift (unat (b AND 0x7f))
           in if b AND 0x80 \<noteq> 0 then readVarUintLoop result' (shift + 7) r'
              else Inr (result', r'))"
  by pat_completeness auto
termination
  by (relation "measure (\<lambda>(result, shift, r). length (view r) - offset r)") auto

declare readVarUintLoop.simps [simp del]

definition readVarUint :: "reader \<Rightarrow> ext_err + nat \<times> reader" where
  "readVarUint r = readVarUintLoop 0 0 r"

definition readVarSlice :: "reader \<Rightarrow> ext_err + bytes \<times> reader" where
  "readVarSlice r = r_bind (readVarUint r) (\<lambda>(n, r'). readSlice n r')"

definition le32 :: "bytes \<Rightarrow> nat" where
  "le32 b = unat (b ! 0) + 256 * unat (b ! 1) + 65536 * unat (b ! 2) + 16777216 * unat (b ! 3)"

definition readCompactSize :: "reader \<Rightarrow> ext_err + nat \<times> reader" where
  "readCompactSize r =
     r_bind (readByte r) (\<lambda>(first, r').
       if first < 0xfd then Inr (unat first, r')
       else if first = 0xfd then r_bind (readUint16LE r') (\<lambda>(v, r''). Inr (nat v, r''))
       else if first = 0xfe then r_bind (readSlice 4 r') (\<lambda>(b, r''). Inr (le32 b, r''))
       else Inl (Buf CompactSize8Unsupported))"

definition readCompactSlice :: "reader \<Rightarrow> ext_err + bytes \<times> reader" where
  "readCompactSlice r = r_bind (readCompactSize r) (\<lambda>(n, r'). readSlice n r')"

section \<open>Loops over a buffer\<close>

text \<open>\<open>for (const x of xs) x.serializeTo(writer)\<close> and
  \<open>for (let i = 0; i < count; i++) xs.push(X.fromReader(reader))\<close>.\<close>

fun writeAll :: "('a \<Rightarrow> writer \<Rightarrow> ext_err + writer) \<Rightarrow> 'a list \<Rightarrow> writer \<Rightarrow> ext_err + writer" where
  "writeAll enc [] w = Inr w"
| "writeAll enc (x # xs) w = r_bind (enc x w) (\<lambda>w'. writeAll enc xs w')"

fun readMany :: "(reader \<Rightarrow> ext_err + 'a \<times> reader) \<Rightarrow> nat \<Rightarrow> reader \<Rightarrow> ext_err + 'a list \<times> reader" where
  "readMany dec 0 r = Inr ([], r)"
| "readMany dec (Suc n) r =
     r_bind (dec r) (\<lambda>(x, r'). r_bind (readMany dec n r') (\<lambda>(xs, r''). Inr (x # xs, r'')))"

section \<open>The reader as a position in a byte list\<close>

text \<open>
  \<open>rest r\<close> abstracts a reader to the bytes still to be read; the reading operations are functions
  of it (\<open>read_specs\<close>), and they only move the offset (\<open>advance\<close>).
\<close>

definition rest :: "reader \<Rightarrow> bytes" where
  "rest r = drop (offset r) (view r)"

definition advance :: "nat \<Rightarrow> reader \<Rightarrow> reader" where
  "advance n r = r\<lparr>offset := offset r + n\<rparr>"

definition wf_reader :: "reader \<Rightarrow> bool" where
  "wf_reader r \<longleftrightarrow> offset r \<le> length (view r)"

lemma wf_new_reader [simp]: "wf_reader (new_reader bs)"
  by (simp add: wf_reader_def new_reader_def)

lemma rest_new_reader [simp]: "rest (new_reader bs) = bs"
  by (simp add: rest_def new_reader_def)

lemma advance_advance [simp]: "advance m (advance n r) = advance (n + m) r"
  by (simp add: advance_def add.assoc)

lemma advance_0 [simp]: "advance 0 r = r"
  by (simp add: advance_def)

lemma rest_advance [simp]: "rest (advance n r) = drop n (rest r)"
  by (simp add: rest_def advance_def add.commute)

lemma length_rest: "length (rest r) = remaining r"
  by (simp add: rest_def remaining_def)

lemma wf_advance: "wf_reader r \<Longrightarrow> n \<le> length (rest r) \<Longrightarrow> wf_reader (advance n r)"
  by (auto simp: wf_reader_def advance_def rest_def)

lemma wf_advance_append [simp]:
  "wf_reader r \<Longrightarrow> rest r = bs @ t \<Longrightarrow> wf_reader (advance (length bs) r)"
  by (rule wf_advance) auto

lemma wf_advance_one [simp]:
  "wf_reader r \<Longrightarrow> rest r = b # t \<Longrightarrow> wf_reader (advance (Suc 0) r)"
  by (rule wf_advance) auto

lemma unat_byte_less: "unat (b :: byte) < 256"
proof -
  have "unat b < 2 ^ LENGTH(8)"
    by (rule unsigned_less)
  then show ?thesis by simp
qed

lemma rest_nth: "wf_reader r \<Longrightarrow> rest r = b # t \<Longrightarrow>
    offset r < length (view r) \<and> view r ! offset r = b"
  by (cases "offset r < length (view r)")
     (auto simp: rest_def wf_reader_def Cons_nth_drop_Suc [symmetric])

lemma readByte_eq:
  "wf_reader r \<Longrightarrow> rest r = b # t \<Longrightarrow> readByte r = Inr (b, advance 1 r)"
  using rest_nth [of r b t] by (simp add: readByte_def advance_def)

lemma readSlice_eq:
  "wf_reader r \<Longrightarrow> rest r = bs @ t \<Longrightarrow>
    readSlice (length bs) r = Inr (bs, advance (length bs) r)"
proof -
  assume wf: "wf_reader r" and eq: "rest r = bs @ t"
  have "length (rest r) = length (bs @ t)"
    using eq by simp
  with wf have "offset r + length bs \<le> length (view r)"
    by (auto simp: rest_def wf_reader_def)
  with eq show ?thesis
    by (simp add: readSlice_def advance_def rest_def [symmetric])
qed

lemma readSlice_eq':
  "wf_reader r \<Longrightarrow> rest r = bs @ t \<Longrightarrow> length bs = n \<Longrightarrow> readSlice n r = Inr (bs, advance n r)"
  using readSlice_eq by blast

text \<open>One step of a parser: the value read, and the reader ready for the next field.\<close>

lemma readByte_step:
  assumes "wf_reader r" and "rest r = b # t"
  shows "readByte r = Inr (b, advance 1 r)" and "wf_reader (advance 1 r)"
    and "rest (advance 1 r) = t"
  using readByte_eq [OF assms] assms by simp_all

lemma readSlice_step:
  assumes "wf_reader r" and "rest r = bs @ t" and "length bs = n"
  shows "readSlice n r = Inr (bs, advance n r)" and "wf_reader (advance n r)"
    and "rest (advance n r) = t"
  using readSlice_eq' [OF assms] assms by auto

lemma readByte_consumes:
  "wf_reader r \<Longrightarrow> readByte r = Inr (b, r') \<Longrightarrow>
    r' = advance 1 r \<and> wf_reader r' \<and> rest r = b # rest r'"
  by (auto simp: readByte_def advance_def wf_reader_def rest_def Cons_nth_drop_Suc
      split: if_splits)

lemma readSlice_consumes:
  "wf_reader r \<Longrightarrow> readSlice n r = Inr (bs, r') \<Longrightarrow>
    r' = advance n r \<and> wf_reader r' \<and> length bs = n \<and> rest r = bs @ rest r'"
  by (auto simp: readSlice_def advance_def wf_reader_def rest_def add.commute
      simp flip: drop_drop split: if_splits)

lemma readUint16LE_consumes:
  "wf_reader r \<Longrightarrow> readUint16LE r = Inr (v, r') \<Longrightarrow>
    r' = advance 2 r \<and> wf_reader r' \<and> 0 \<le> v \<and> v \<le> 0xffff"
proof -
  assume "wf_reader r" and rd: "readUint16LE r = Inr (v, r')"
  let ?a = "view r ! offset r" and ?b = "view r ! (offset r + 1)"
  have "uint ?a < 256" "uint ?b < 256"
    using unsigned_less [of ?a] unsigned_less [of ?b] by simp_all
  moreover have "0 \<le> uint ?a" "0 \<le> uint ?b"
    by simp_all
  ultimately show ?thesis
    using rd by (auto simp: readUint16LE_def advance_def wf_reader_def split: if_splits)
qed

lemma length_uint16LE [simp]: "length (uint16LE v) = 2"
  by (simp add: uint16LE_def)

text \<open>A little-endian pair of bytes holds the value modulo \<open>2 ^ 16\<close>.\<close>

lemma readUint16LE_eq:
  assumes "wf_reader r" and "rest r = uint16LE v @ t"
  shows "readUint16LE r = Inr (v mod 65536, advance 2 r)"
proof -
  let ?a = "word_of_int v :: byte" and ?b = "word_of_int (drop_bit 8 v) :: byte"
  have eq: "rest r = ?a # ?b # t"
    using assms(2) by (simp add: uint16LE_def)
  have "length (rest r) = Suc (Suc (length t))"
    using eq by simp
  then have len: "offset r + 2 \<le> length (view r)"
    using assms(1) by (auto simp: rest_def wf_reader_def)
  have a: "view r ! offset r = rest r ! 0" and b: "view r ! Suc (offset r) = rest r ! 1"
    using len by (simp_all add: rest_def)
  have "uint ?a + 256 * uint ?b = v mod 256 + 256 * (v div 256 mod 256)"
    by (simp add: uint_word_of_int drop_bit_eq_div)
  also have "\<dots> = v mod (256 * 256)"
    using zmod_zmult2_eq [of 256 v 256] by simp
  finally show ?thesis
    using len by (simp add: readUint16LE_def advance_def a b eq)
qed

section \<open>LEB128\<close>

text \<open>The wire form of a variable-length integer: base-128 digits, low digit first, the high bit
  set on every digit but the last.\<close>

fun leb128 :: "nat \<Rightarrow> bytes" where
  "leb128 n = (if n < 128 then [word_of_nat n]
               else word_of_nat (n mod 128 + 128) # leb128 (n div 128))"

declare leb128.simps [simp del]

lemma leb128_nonempty [simp]: "leb128 n \<noteq> []"
  by (subst leb128.simps) simp

lemma and_0x7f: "(n :: nat) AND 0x7f = n mod 128"
proof -
  have "n AND mask 7 = take_bit 7 n"
    by (simp add: take_bit_eq_mask)
  then show ?thesis
    by (simp add: mask_eq_exp_minus_1 take_bit_eq_mod)
qed

lemma or_shift:
  "(a :: nat) < 2 ^ s \<Longrightarrow> a OR push_bit s b = a + b * 2 ^ s"
proof -
  assume a: "a < 2 ^ s"
  have "\<not> bit a k \<or> \<not> bit (push_bit s b) k" for k
  proof (cases "k < s")
    case True
    then show ?thesis by (simp add: bit_simps)
  next
    case False
    then have "(2 :: nat) ^ s \<le> 2 ^ k"
      by simp
    with a have "a < 2 ^ k"
      by linarith
    then show ?thesis
      by (simp add: bit_iff_odd)
  qed
  then have "a + push_bit s b = a OR push_bit s b"
    by (rule disjunctive_add)
  then show ?thesis
    by (simp add: push_bit_eq_mult)
qed

lemma or_0x80: "(n :: nat) < 128 \<Longrightarrow> n OR 0x80 = n + 128"
  using or_shift [of n 7 1] by simp

text \<open>The writing loop of the code produces exactly this form.\<close>

lemma varUintBytes_leb128: "varUintBytes n = leb128 n"
proof (induction n rule: leb128.induct)
  case (1 n)
  show ?case
  proof (cases "n < 128")
    case True
    then have "drop_bit 7 n = 0" and "n mod 128 = n"
      by (simp_all add: drop_bit_eq_div)
    with True show ?thesis
      by (simp add: varUintBytes.simps [of n] leb128.simps [of n] and_0x7f)
  next
    case False
    then have "0 < drop_bit 7 n" and "drop_bit 7 n = n div 128"
      by (simp_all add: drop_bit_eq_div div_greater_zero_iff)
    with False 1 show ?thesis
      by (simp add: varUintBytes.simps [of n] leb128.simps [of n] and_0x7f or_0x80)
  qed
qed

text \<open>The reading loop inverts it, whatever digits it has accumulated so far.\<close>

lemma byte_digits:
  assumes "n < 256"
  shows "unat ((word_of_nat n :: byte) AND 0x7f) = n mod 128"
    and "((word_of_nat n :: byte) AND 0x80 \<noteq> 0) \<longleftrightarrow> 128 \<le> n"
proof -
  have u: "unat (word_of_nat n :: byte) = n"
    using assms by (simp add: unat_of_nat)
  have "unat ((word_of_nat n :: byte) AND 0x7f) = unat (word_of_nat n :: byte) AND 0x7f"
    by (simp add: unsigned_and_eq)
  then show "unat ((word_of_nat n :: byte) AND 0x7f) = n mod 128"
    by (simp only: u and_0x7f)
  have "(word_of_nat n :: byte) AND 0x80 = 0 \<longleftrightarrow> unat ((word_of_nat n :: byte) AND 0x80) = 0"
    by (simp add: unat_eq_zero)
  also have "\<dots> \<longleftrightarrow> n AND 2 ^ 7 = 0"
    using u by (simp add: unsigned_and_eq)
  also have "\<dots> \<longleftrightarrow> even (n div 128)"
    using and_exp_eq_0_iff_not_bit [of n 7] bit_iff_odd [of n 7] by simp
  also have "\<dots> \<longleftrightarrow> n < 128"
  proof (cases "n < 128")
    case False
    with assms have "n div 128 = 1"
      by (intro div_nat_eqI) auto
    with False show ?thesis by simp
  qed simp
  finally show "((word_of_nat n :: byte) AND 0x80 \<noteq> 0) \<longleftrightarrow> 128 \<le> n"
    by auto
qed

lemma readVarUintLoop_leb128:
  "wf_reader r \<Longrightarrow> rest r = leb128 n @ t \<Longrightarrow> result < 2 ^ shift \<Longrightarrow>
    readVarUintLoop result shift r = Inr (result + n * 2 ^ shift, advance (length (leb128 n)) r)"
proof (induction n arbitrary: r result shift rule: leb128.induct)
  case (1 n)
  show ?case
  proof (cases "n < 128")
    case True
    let ?b = "word_of_nat n :: byte"
    have r: "offset r < length (view r)" "view r ! offset r = ?b"
      using 1(2,3) True by (auto simp: leb128.simps [of n] dest: rest_nth)
    have "unat (?b AND 0x7f) = n" "?b AND 0x80 = 0"
      using byte_digits [of n] True by auto
    with r True 1(4) show ?thesis
      by (simp add: readVarUintLoop.simps [of result shift r] leb128.simps [of n] or_shift advance_def)
  next
    case False
    let ?d = "n mod 128 + 128"
    let ?b = "word_of_nat ?d :: byte"
    have split: "rest r = ?b # leb128 (n div 128) @ t"
      using 1(3) False by (simp add: leb128.simps [of n])
    have r: "offset r < length (view r)" "view r ! offset r = ?b"
      using rest_nth [OF 1(2) split] by auto
    have d: "?d < 256" and dm: "?d mod 128 = n mod 128"
      by simp_all
    have b: "unat (?b AND 0x7f) = n mod 128" "?b AND 0x80 \<noteq> 0"
      using byte_digits [OF d] dm by auto
    let ?res = "result + n mod 128 * 2 ^ shift"
    have "?res < 2 ^ (shift + 7)"
    proof -
      have "?res < (1 + n mod 128) * 2 ^ shift"
        using 1(4) by simp
      also have "\<dots> \<le> 128 * 2 ^ shift"
        by (intro mult_right_mono) auto
      finally show ?thesis
        by (simp add: power_add)
    qed
    moreover have "wf_reader (advance 1 r)" "rest (advance 1 r) = leb128 (n div 128) @ t"
      using 1(2) split by (auto intro: wf_advance)
    ultimately have "readVarUintLoop ?res (shift + 7) (advance 1 r) =
        Inr (?res + n div 128 * 2 ^ (shift + 7),
             advance (length (leb128 (n div 128))) (advance 1 r))"
      using 1(1) False by blast
    moreover have "?res + n div 128 * 2 ^ (shift + 7) = result + n * 2 ^ shift"
      using mod_mult_div_eq [of n 128]
      by (simp add: power_add algebra_simps flip: distrib_left)
    ultimately show ?thesis
      using r b False 1(4)
      by (simp add: readVarUintLoop.simps [of result shift r] leb128.simps [of n] or_shift
          advance_def Let_def)
  qed
qed

lemma readVarUint_eq:
  "wf_reader r \<Longrightarrow> rest r = leb128 n @ t \<Longrightarrow> readVarUint r = Inr (n, advance (length (leb128 n)) r)"
  using readVarUintLoop_leb128 [of r n t 0 0] by (simp add: readVarUint_def)

text \<open>A successful read moves forward by at least one byte and stays inside the view.\<close>

definition moves :: "reader \<Rightarrow> reader \<Rightarrow> bool" where
  "moves r r' \<longleftrightarrow> (\<exists>n > 0. r' = advance n r) \<and> wf_reader r'"

lemma movesI: "r' = advance n r \<Longrightarrow> 0 < n \<Longrightarrow> wf_reader r' \<Longrightarrow> moves r r'"
  by (auto simp: moves_def)

lemma moves_trans: "moves r r' \<Longrightarrow> moves r' r'' \<Longrightarrow> moves r r''"
  by (auto simp: moves_def intro: trans_less_add1)

lemma moves_wf: "moves r r' \<Longrightarrow> wf_reader r'"
  by (simp add: moves_def)

lemma moves_slice: "moves r r' \<Longrightarrow> readSlice n r' = Inr (bs, r'') \<Longrightarrow> moves r r''"
  using readSlice_consumes [of r' n bs r''] by (auto simp: moves_def intro: trans_less_add1)

lemma readByte_moves: "wf_reader r \<Longrightarrow> readByte r = Inr (b, r') \<Longrightarrow> moves r r'"
  using readByte_consumes [of r b r'] by (auto intro: movesI)

lemma readUint16LE_moves: "wf_reader r \<Longrightarrow> readUint16LE r = Inr (v, r') \<Longrightarrow> moves r r'"
  using readUint16LE_consumes [of r v r'] by (auto intro: movesI)

lemma readVarUintLoop_moves:
  "wf_reader r \<Longrightarrow> readVarUintLoop result shift r = Inr (n, r') \<Longrightarrow> moves r r'"
proof (induction result shift r rule: readVarUintLoop.induct)
  case (1 result shift r)
  let ?b = "view r ! offset r"
  have in_view: "offset r < length (view r)"
    using 1(3) by (auto simp: readVarUintLoop.simps [of result shift r] split: if_splits)
  have step: "moves r (r\<lparr>offset := Suc (offset r)\<rparr>)"
    using in_view by (intro movesI [of _ 1]) (auto simp: advance_def wf_reader_def)
  show ?case
  proof (cases "?b AND 0x80 = 0")
    case True
    then show ?thesis
      using 1(3) in_view step
      by (auto simp: readVarUintLoop.simps [of result shift r] Let_def)
  next
    case False
    then have "readVarUintLoop (result OR push_bit shift (unat (?b AND 0x7f))) (shift + 7)
        (r\<lparr>offset := Suc (offset r)\<rparr>) = Inr (n, r')"
      using 1(3) in_view by (auto simp: readVarUintLoop.simps [of result shift r] Let_def)
    then have "moves (r\<lparr>offset := Suc (offset r)\<rparr>) r'"
      using 1(1) False in_view moves_wf [OF step] by simp
    then show ?thesis
      by (rule moves_trans [OF step])
  qed
qed

lemma readVarUint_moves: "wf_reader r \<Longrightarrow> readVarUint r = Inr (n, r') \<Longrightarrow> moves r r'"
  unfolding readVarUint_def by (rule readVarUintLoop_moves)

end
