(* ===== verification/Codec.thy ===== *)
theory Codec
  imports Buffer
begin

text \<open>
  The contract between the buffers and the values encoded with them. \<open>codec enc dec wire ok\<close> says:
  writing a valid value appends its wire form, and reading at that wire form returns the value and
  leaves the reader right behind it. Both halves hold in any surrounding bytes, so codecs compose
  by concatenation. \<open>strict_codec\<close> adds that the reader returns valid values only and always makes
  progress. The primitive fields of \<open>BufferWriter\<close>/\<open>BufferReader\<close> are the first interpretations;
  the classes of the asset packet and of the emulator packet follow in their own theories.
\<close>

section \<open>The interface\<close>

locale codec =
  fixes enc :: "'a \<Rightarrow> writer \<Rightarrow> ext_err + writer"
    and dec :: "reader \<Rightarrow> ext_err + 'a \<times> reader"
    and wire :: "'a \<Rightarrow> bytes"
    and ok :: "'a \<Rightarrow> bool"
  assumes enc_wire: "ok x \<Longrightarrow> enc x w = Inr (w @ wire x)"
    and dec_wire: "ok x \<Longrightarrow> wf_reader r \<Longrightarrow> rest r = wire x @ t \<Longrightarrow>
      dec r = Inr (x, advance (length (wire x)) r)"
begin

lemma roundtrip:
  assumes "ok x"
  shows "\<exists>bs. enc x new_writer = Inr bs \<and>
    dec (new_reader bs) = Inr (x, advance (length bs) (new_reader bs))"
  using enc_wire [OF assms, of new_writer] dec_wire [OF assms, of "new_reader (wire x)" "[]"]
  by (simp add: new_writer_def)

lemma dec_wire_step:
  assumes "ok x" and "wf_reader r" and "rest r = wire x @ t"
  shows "dec r = Inr (x, advance (length (wire x)) r)"
    and "wf_reader (advance (length (wire x)) r)"
    and "rest (advance (length (wire x)) r) = t"
  using assms dec_wire by auto

text \<open>Wire forms are uniquely decodable, even when followed by other bytes.\<close>

lemma wire_unique:
  assumes "ok x" and "ok y" and "wire x @ s = wire y @ t"
  shows "x = y \<and> s = t"
proof -
  let ?r = "new_reader (wire x @ s)"
  have "dec ?r = Inr (x, advance (length (wire x)) ?r)"
    by (rule dec_wire [OF assms(1)]) auto
  moreover have "dec ?r = Inr (y, advance (length (wire y)) ?r)"
    by (rule dec_wire [OF assms(2)]) (auto simp: assms(3))
  ultimately show ?thesis
    using assms(3) by simp
qed

lemma writeAll_wire:
  "\<forall>x \<in> set xs. ok x \<Longrightarrow> writeAll enc xs w = Inr (w @ concat (map wire xs))"
  by (induction xs arbitrary: w) (auto simp: enc_wire)

lemma readMany_wire:
  "\<forall>x \<in> set xs. ok x \<Longrightarrow> wf_reader r \<Longrightarrow> rest r = concat (map wire xs) @ t \<Longrightarrow>
    readMany dec (length xs) r = Inr (xs, advance (length (concat (map wire xs))) r)"
proof (induction xs arbitrary: r)
  case Nil
  then show ?case by simp
next
  case (Cons x xs)
  let ?r = "advance (length (wire x)) r"
  have r: "rest r = wire x @ concat (map wire xs) @ t"
    using Cons.prems(3) by simp
  then have "dec r = Inr (x, ?r)"
    using Cons.prems by (intro dec_wire) auto
  moreover have "readMany dec (length xs) ?r =
      Inr (xs, advance (length (concat (map wire xs))) ?r)"
    using Cons.prems r by (intro Cons.IH) auto
  ultimately show ?case by simp
qed

end

locale strict_codec = codec +
  assumes dec_ok: "wf_reader r \<Longrightarrow> dec r = Inr (x, r') \<Longrightarrow> ok x"
    and dec_moves: "wf_reader r \<Longrightarrow> dec r = Inr (x, r') \<Longrightarrow> moves r r'"
begin

lemma readMany_ok:
  "wf_reader r \<Longrightarrow> readMany dec n r = Inr (xs, r') \<Longrightarrow> length xs = n \<and> (\<forall>x \<in> set xs. ok x)"
proof (induction n arbitrary: r xs)
  case 0
  then show ?case by simp
next
  case (Suc n)
  then obtain x r1 ys where "dec r = Inr (x, r1)" "readMany dec n r1 = Inr (ys, r')" "xs = x # ys"
    by auto
  with Suc show ?case
    using dec_ok [of r x r1] dec_moves [of r x r1] by (auto dest: moves_wf)
qed

lemma readMany_moves:
  "wf_reader r \<Longrightarrow> readMany dec n r = Inr (xs, r') \<Longrightarrow> (r' = r \<or> moves r r') \<and> wf_reader r'"
proof (induction n arbitrary: r xs)
  case 0
  then show ?case by simp
next
  case (Suc n)
  then obtain x r1 ys where d: "dec r = Inr (x, r1)" and m: "readMany dec n r1 = Inr (ys, r')"
    by auto
  have "moves r r1"
    using Suc.prems(1) d by (rule dec_moves)
  with Suc.IH [OF moves_wf m] show ?case
    by (auto intro: moves_trans)
qed

text \<open>Each item costs at least one byte, so a count can never promise more items than the input
  has bytes: the loop stops with an error instead.\<close>

lemma readMany_bound:
  "wf_reader r \<Longrightarrow> readMany dec n r = Inr (xs, r') \<Longrightarrow> offset r + n \<le> offset r'"
proof (induction n arbitrary: r xs)
  case 0
  then show ?case by simp
next
  case (Suc n)
  then obtain x r1 ys where d: "dec r = Inr (x, r1)" and m: "readMany dec n r1 = Inr (ys, r')"
    by auto
  have mv: "moves r r1"
    using Suc.prems(1) d by (rule dec_moves)
  then have "offset r < offset r1"
    by (auto simp: moves_def advance_def)
  with Suc.IH [OF moves_wf [OF mv] m] show ?case by simp
qed

end

section \<open>Counted lists\<close>

definition writeCounted :: "('a \<Rightarrow> writer \<Rightarrow> ext_err + writer) \<Rightarrow> 'a list \<Rightarrow> writer \<Rightarrow> ext_err + writer" where
  "writeCounted enc xs w = r_bind (writeVarUint (int (length xs)) w) (\<lambda>w'. writeAll enc xs w')"

definition readCounted :: "(reader \<Rightarrow> ext_err + 'a \<times> reader) \<Rightarrow> reader \<Rightarrow> ext_err + 'a list \<times> reader" where
  "readCounted dec r = r_bind (readVarUint r) (\<lambda>(count, r'). readMany dec count r')"

definition counted_wire :: "('a \<Rightarrow> bytes) \<Rightarrow> 'a list \<Rightarrow> bytes" where
  "counted_wire wire xs = leb128 (length xs) @ concat (map wire xs)"

lemma writeVarUint_nat: "writeVarUint (int n) w = Inr (w @ leb128 n)"
  by (simp add: writeVarUint_def varUintBytes_leb128 write_bytes_def)

context codec
begin

lemma counted: "codec (writeCounted enc) (readCounted dec) (counted_wire wire) (\<lambda>xs. \<forall>x \<in> set xs. ok x)"
proof
  fix xs w
  assume "\<forall>x \<in> set xs. ok x"
  then show "writeCounted enc xs w = Inr (w @ counted_wire wire xs)"
    by (simp add: writeCounted_def writeVarUint_nat writeAll_wire counted_wire_def)
next
  fix xs r t
  assume xs: "\<forall>x \<in> set xs. ok x" and wf: "wf_reader r" and r: "rest r = counted_wire wire xs @ t"
  let ?r = "advance (length (leb128 (length xs))) r"
  have eq: "rest r = leb128 (length xs) @ concat (map wire xs) @ t"
    using r by (simp add: counted_wire_def)
  then have "readVarUint r = Inr (length xs, ?r)"
    using wf by (rule readVarUint_eq [rotated])
  moreover have "readMany dec (length xs) ?r = Inr (xs, advance (length (concat (map wire xs))) ?r)"
    using xs wf eq by (intro readMany_wire) auto
  ultimately show "readCounted dec r = Inr (xs, advance (length (counted_wire wire xs)) r)"
    by (simp add: readCounted_def counted_wire_def)
qed

end

context strict_codec
begin

lemma counted_strict:
  "strict_codec (writeCounted enc) (readCounted dec) (counted_wire wire) (\<lambda>xs. \<forall>x \<in> set xs. ok x)"
proof (intro strict_codec.intro strict_codec_axioms.intro)
  show "codec (writeCounted enc) (readCounted dec) (counted_wire wire) (\<lambda>xs. \<forall>x \<in> set xs. ok x)"
    by (rule counted)
next
  fix r xs r'
  assume wf: "wf_reader r" and "readCounted dec r = Inr (xs, r')"
  then obtain n r1 where n: "readVarUint r = Inr (n, r1)" and m: "readMany dec n r1 = Inr (xs, r')"
    by (auto simp: readCounted_def)
  have mv: "moves r r1"
    using wf n by (rule readVarUint_moves)
  then show "\<forall>x \<in> set xs. ok x"
    using readMany_ok [OF moves_wf m] by blast
  show "moves r r'"
    using mv readMany_moves [OF moves_wf m] by (auto intro: moves_trans)
qed

end

section \<open>The primitive fields\<close>

definition u16_ok :: "int \<Rightarrow> bool" where
  "u16_ok v \<longleftrightarrow> 0 \<le> v \<and> v \<le> 0xffff"

interpretation u16: strict_codec "\<lambda>v w. Inr (writeUint16LE v w)" readUint16LE uint16LE u16_ok
proof (unfold_locales, goal_cases)
  case (1 x w)
  show ?case by (simp add: writeUint16LE_def write_bytes_def)
next
  case (2 x r t)
  then show ?case
    using readUint16LE_eq [of r x t] by (simp add: u16_ok_def)
next
  case (3 r x r')
  then show ?case
    using readUint16LE_consumes [of r x r'] by (simp add: u16_ok_def)
next
  case (4 r x r')
  then show ?case by (rule readUint16LE_moves)
qed

interpretation varuint: strict_codec "\<lambda>n. writeVarUint (int n)" readVarUint leb128 "\<lambda>n. True"
  by unfold_locales (auto simp: writeVarUint_nat readVarUint_eq intro: readVarUint_moves)

definition slice_wire :: "bytes \<Rightarrow> bytes" where
  "slice_wire data = leb128 (length data) @ data"

interpretation varslice: strict_codec writeVarSlice readVarSlice slice_wire "\<lambda>d. True"
proof (unfold_locales, goal_cases)
  case (1 x w)
  show ?case by (simp add: writeVarSlice_def writeVarUint_nat write_bytes_def slice_wire_def)
next
  case (2 x r t)
  let ?r = "advance (length (leb128 (length x))) r"
  have eq: "rest r = leb128 (length x) @ x @ t"
    using 2(3) by (simp add: slice_wire_def)
  have "readVarUint r = Inr (length x, ?r)"
    using 2(2) eq by (rule readVarUint_eq)
  moreover have "readSlice (length x) ?r = Inr (x, advance (length x) ?r)"
    using 2(2) eq by (intro readSlice_eq [of _ _ t]) auto
  ultimately show ?case
    by (simp add: readVarSlice_def slice_wire_def)
next
  case (3 r x r')
  show ?case by simp
next
  case (4 r x r')
  then show ?case
    by (auto simp: readVarSlice_def dest: readVarUint_moves intro: moves_slice)
qed

text \<open>Bitcoin's CompactSize, up to four bytes.\<close>

definition compact_wire :: "nat \<Rightarrow> bytes" where
  "compact_wire n =
     (if n < 0xfd then [word_of_nat n]
      else if n \<le> 0xffff then 0xfd # uint16LE (int n)
      else 0xfe # uint32LE n)"

definition compact_ok :: "nat \<Rightarrow> bool" where
  "compact_ok n \<longleftrightarrow> n \<le> 0xffffffff"

lemma writeByte_small: "b \<le> 255 \<Longrightarrow> writeByte b w = w @ [word_of_nat b]"
proof -
  assume "b \<le> 255"
  then have "b AND mask 8 = b"
    by (simp add: take_bit_eq_mask [symmetric] take_bit_nat_eq_self)
  then show ?thesis
    by (simp add: writeByte_def mask_eq_exp_minus_1)
qed

lemma le32_uint32LE:
  assumes "n < 4294967296"
  shows "le32 (uint32LE n) = n"
proof -
  have "le32 (uint32LE n) = n mod 256 + 256 * (n div 256 mod 256) + 65536 * (n div 65536 mod 256)
      + 16777216 * (n div 16777216 mod 256)"
    by (simp add: le32_def uint32LE_def unat_of_nat drop_bit_eq_div)
  also have "\<dots> = n mod (256 * 256) + 65536 * (n div 65536 mod 256) + 16777216 * (n div 16777216 mod 256)"
    using mod_mult2_eq [of n 256 256] by simp
  also have "\<dots> = n mod (65536 * 256) + 16777216 * (n div 16777216 mod 256)"
    using mod_mult2_eq [of n 65536 256] by simp
  also have "\<dots> = n mod (16777216 * 256)"
    using mod_mult2_eq [of n 16777216 256] by simp
  finally show ?thesis
    using assms by simp
qed

lemma le32_bound: "le32 b \<le> 4294967295"
proof -
  have "unat (b ! i) \<le> 255" for i
    using unat_byte_less [of "b ! i"] by simp
  from this [of 0] this [of 1] this [of 2] this [of 3] show ?thesis
    unfolding le32_def by linarith
qed

interpretation compact: strict_codec writeCompactSize readCompactSize compact_wire compact_ok
proof (unfold_locales, goal_cases)
  case (1 x w)
  then show ?case
    by (auto simp: compact_ok_def writeCompactSize_def compact_wire_def writeByte_small
        writeUint16LE_def write_bytes_def)
next
  case (2 x r t)
  consider "x < 0xfd" | "0xfd \<le> x" "x \<le> 0xffff" | "0xffff < x" by linarith
  then show ?case
  proof cases
    case 1
    then have b: "unat (word_of_nat x :: byte) = x"
      by (simp add: unat_of_nat)
    then have "(word_of_nat x :: byte) < 0xfd"
      using 1 by (simp add: word_less_nat_alt)
    with 1 b 2 show ?thesis
      using readByte_eq [of r "word_of_nat x" t] by (simp add: compact_wire_def readCompactSize_def)
  next
    case two: 2
    have eq: "rest r = 0xfd # uint16LE (int x) @ t"
      using 2(3) two by (simp add: compact_wire_def)
    have "readByte r = Inr (0xfd, advance 1 r)"
      using 2(2) eq by (rule readByte_eq)
    moreover have "readUint16LE (advance 1 r) = Inr (int x, advance 2 (advance 1 r))"
      using readUint16LE_eq [of "advance 1 r" "int x" t] 2(2) eq two by (auto intro: wf_advance)
    ultimately show ?thesis
      using two by (simp add: numeral_3_eq_3 compact_wire_def readCompactSize_def)
  next
    case 3
    have eq: "rest r = 0xfe # uint32LE x @ t"
      using 2(3) 3 by (simp add: compact_wire_def)
    have len: "length (uint32LE x) = 4"
      by (simp add: uint32LE_def)
    have "readByte r = Inr (0xfe, advance 1 r)"
      using 2(2) eq by (rule readByte_eq)
    moreover have "readSlice 4 (advance 1 r) = Inr (uint32LE x, advance 4 (advance 1 r))"
      using 2(2) eq len by (intro readSlice_eq' [of _ _ t]) (auto intro: wf_advance)
    ultimately show ?thesis
      using 3 2(1) len by (simp add: compact_wire_def readCompactSize_def compact_ok_def le32_uint32LE)
  qed
next
  case (3 r x r')
  then obtain b r1 where "readByte r = Inr (b, r1)" and wf: "wf_reader r1"
    by (auto simp: readCompactSize_def dest: readByte_consumes)
  with 3 show ?case
    using unat_byte_less [of b] le32_bound
    by (auto simp: readCompactSize_def compact_ok_def dest: readUint16LE_consumes split: if_splits)
next
  case (4 r x r')
  then obtain b r1 where b: "readByte r = Inr (b, r1)" and mv: "moves r r1"
    by (auto simp: readCompactSize_def dest: readByte_moves)
  with 4 show ?case
    by (auto simp: readCompactSize_def intro: moves_slice moves_trans
        dest: readUint16LE_moves [OF moves_wf] split: if_splits)
qed

definition compact_slice_wire :: "bytes \<Rightarrow> bytes" where
  "compact_slice_wire data = compact_wire (length data) @ data"

definition compact_slice_ok :: "bytes \<Rightarrow> bool" where
  "compact_slice_ok data \<longleftrightarrow> compact_ok (length data)"

interpretation compact_slice:
  strict_codec writeCompactSlice readCompactSlice compact_slice_wire compact_slice_ok
proof (unfold_locales, goal_cases)
  case (1 x w)
  then show ?case
    by (simp add: writeCompactSlice_def compact.enc_wire compact_slice_ok_def write_bytes_def
        compact_slice_wire_def)
next
  case (2 x r t)
  let ?r = "advance (length (compact_wire (length x))) r"
  have eq: "rest r = compact_wire (length x) @ x @ t"
    using 2(3) by (simp add: compact_slice_wire_def)
  have "readCompactSize r = Inr (length x, ?r)"
    using 2(1,2) eq by (intro compact.dec_wire) (auto simp: compact_slice_ok_def)
  moreover have "readSlice (length x) ?r = Inr (x, advance (length x) ?r)"
    using 2(2) eq by (intro readSlice_eq [of _ _ t]) auto
  ultimately show ?case
    by (simp add: readCompactSlice_def compact_slice_wire_def)
next
  case (3 r x r')
  then obtain n r1 where n: "readCompactSize r = Inr (n, r1)" and s: "readSlice n r1 = Inr (x, r')"
    by (auto simp: readCompactSlice_def)
  have "compact_ok n" "wf_reader r1"
    using 3(1) n compact.dec_ok compact.dec_moves moves_wf by blast+
  with s show ?case
    by (auto simp: compact_slice_ok_def dest: readSlice_consumes)
next
  case (4 r x r')
  then show ?case
    by (auto simp: readCompactSlice_def dest: compact.dec_moves intro: moves_slice)
qed

section \<open>Properties\<close>

text \<open>
  Variable-length integers: \<open>writeVarUint\<close> appends the LEB128 form of any non-negative integer,
  and \<open>readVarUint\<close> positioned at that form, with any bytes before and after it, returns the integer
  and stops right behind it. There is no bound on the integer.
\<close>

lemma varuint_roundtrip:
  "writeVarUint (int n) w = Inr (w @ leb128 n) \<and>
   readVarUint \<lparr>view = pre @ leb128 n @ post, offset = length pre\<rparr> =
     Inr (n, \<lparr>view = pre @ leb128 n @ post, offset = length pre + length (leb128 n)\<rparr>)"
proof -
  let ?r = "\<lparr>view = pre @ leb128 n @ post, offset = length pre\<rparr>"
  have "wf_reader ?r" and "rest ?r = leb128 n @ post"
    by (simp_all add: wf_reader_def rest_def)
  from readVarUint_eq [OF this] show ?thesis
    by (simp add: writeVarUint_nat advance_def)
qed

text \<open>
  CompactSize: every size up to \<open>2 ^ 32 - 1\<close> is written in one of the three forms and read back;
  a larger size is refused by the writer instead of being truncated.
\<close>

lemma compact_size_roundtrip:
  "(n < 2 ^ 32 \<and> (\<exists>bs. writeCompactSize n [] = Inr bs \<and> length bs \<le> 5 \<and>
      readCompactSize (new_reader (bs @ post)) = Inr (n, \<lparr>view = bs @ post, offset = length bs\<rparr>))) \<or>
   (n \<ge> 2 ^ 32 \<and> writeCompactSize n [] = Inl (Buf CompactSizeTooLarge))"
proof (cases "n < 2 ^ 32")
  case True
  then have ok: "compact_ok n"
    by (simp add: compact_ok_def)
  have "readCompactSize (new_reader (compact_wire n @ post)) =
      Inr (n, advance (length (compact_wire n)) (new_reader (compact_wire n @ post)))"
    by (rule compact.dec_wire [OF ok, of _ post]) auto
  moreover have "length (compact_wire n) \<le> 5"
    by (simp add: compact_wire_def uint32LE_def)
  ultimately show ?thesis
    using True compact.enc_wire [OF ok, of "[]"] by (simp add: advance_def new_reader_def)
next
  case False
  then show ?thesis
    by (simp add: writeCompactSize_def)
qed

end
