(* ===== verification/Asset_Id.thy ===== *)
theory Asset_Id
  imports Codec
begin

text \<open>
  Asset identifiers and asset references: \<open>AssetId\<close> (\<open>extension/asset/assetId.ts\<close>, a genesis txid
  and a group index) and \<open>AssetRef\<close> (\<open>assetRef.ts\<close>, an id or the index of another group of the same
  packet). Both are interpretations of \<open>strict_codec\<close>.

  \<open>hex.encode\<close> and \<open>hex.decode\<close> come from a third-party package. They are the arguments \<open>henc\<close> and
  \<open>hdec\<close>; decoding that throws is \<open>None\<close>. What is used of them is \<open>hex_laws\<close>, as a hypothesis where
  it matters: decoding inverts encoding, and only the empty byte list encodes to the empty string.
\<close>

type_synonym hex_decode = "string \<Rightarrow> bytes option"
type_synonym hex_encode = "bytes \<Rightarrow> string"

definition hex_laws :: "hex_encode \<Rightarrow> hex_decode \<Rightarrow> bool" where
  "hex_laws henc hdec \<longleftrightarrow> (\<forall>b. hdec (henc b) = Some b) \<and> (\<forall>b. henc b = [] \<longrightarrow> b = [])"

definition TX_HASH_SIZE :: nat where "TX_HASH_SIZE = 32"
definition ASSET_ID_SIZE :: nat where "ASSET_ID_SIZE = 34"

definition isZeroBytes :: "bytes \<Rightarrow> bool" where
  "isZeroBytes bs \<longleftrightarrow> list_all (\<lambda>b. b = 0) bs"

section \<open>AssetId\<close>

record AssetId =
  aid_txid :: bytes
  aid_groupIndex :: int

text \<open>JavaScript numbers used as indices are \<open>int\<close>, so \<open>Number.isInteger\<close> holds by type.\<close>

definition AssetId_validate :: "AssetId \<Rightarrow> ext_err + unit" where
  "AssetId_validate a =
     (if isZeroBytes (aid_txid a) then Inl (IdE EmptyTxid)
      else if aid_groupIndex a < 0 \<or> aid_groupIndex a > 0xffff
           then Inl (IdE (InvalidGroupIndex (aid_groupIndex a)))
      else Inr ())"

definition AssetId_create :: "hex_decode \<Rightarrow> string \<Rightarrow> int \<Rightarrow> ext_err + AssetId" where
  "AssetId_create hdec txid groupIndex =
     (if txid = [] then Inl (IdE MissingTxid)
      else case hdec txid of
        None \<Rightarrow> Inl (IdE InvalidTxidFormat)
      | Some buf \<Rightarrow>
          if length buf \<noteq> TX_HASH_SIZE then Inl (IdE (InvalidTxidLength (length buf)))
          else let a = \<lparr>aid_txid = buf, aid_groupIndex = groupIndex\<rparr>
               in r_bind (AssetId_validate a) (\<lambda>_. Inr a))"

definition AssetId_fromReader :: "reader \<Rightarrow> ext_err + AssetId \<times> reader" where
  "AssetId_fromReader r =
     (if remaining r < ASSET_ID_SIZE then Inl (IdE (InvalidAssetIdLength (remaining r)))
      else r_bind (readSlice TX_HASH_SIZE r) (\<lambda>(txid, r1).
           r_bind (readUint16LE r1) (\<lambda>(index, r2).
           let a = \<lparr>aid_txid = txid, aid_groupIndex = index\<rparr>
           in r_bind (AssetId_validate a) (\<lambda>_. Inr (a, r2)))))"

definition AssetId_fromBytes :: "bytes \<Rightarrow> ext_err + AssetId" where
  "AssetId_fromBytes buf =
     (if buf = [] then Inl (IdE MissingAssetId)
      else if length buf \<noteq> ASSET_ID_SIZE then Inl (IdE (InvalidAssetIdLength (length buf)))
      else r_bind (AssetId_fromReader (new_reader buf)) (\<lambda>(a, _). Inr a))"

definition AssetId_fromString :: "hex_decode \<Rightarrow> string \<Rightarrow> ext_err + AssetId" where
  "AssetId_fromString hdec s =
     (case hdec s of None \<Rightarrow> Inl (IdE InvalidAssetIdFormat) | Some buf \<Rightarrow> AssetId_fromBytes buf)"

definition AssetId_serializeTo :: "AssetId \<Rightarrow> writer \<Rightarrow> ext_err + writer" where
  "AssetId_serializeTo a w = Inr (writeUint16LE (aid_groupIndex a) (write_bytes (aid_txid a) w))"

definition AssetId_serialize :: "AssetId \<Rightarrow> ext_err + bytes" where
  "AssetId_serialize a = AssetId_serializeTo a new_writer"

definition AssetId_toString :: "hex_encode \<Rightarrow> AssetId \<Rightarrow> ext_err + string" where
  "AssetId_toString henc a = r_bind (AssetId_serialize a) (\<lambda>bs. Inr (henc bs))"

definition AssetId_ok :: "AssetId \<Rightarrow> bool" where
  "AssetId_ok a \<longleftrightarrow> length (aid_txid a) = TX_HASH_SIZE \<and> AssetId_validate a = Inr ()"

definition AssetId_wire :: "AssetId \<Rightarrow> bytes" where
  "AssetId_wire a = aid_txid a @ uint16LE (aid_groupIndex a)"

lemma AssetId_ok_iff:
  "AssetId_ok a \<longleftrightarrow> length (aid_txid a) = 32 \<and> \<not> isZeroBytes (aid_txid a) \<and> u16_ok (aid_groupIndex a)"
  by (auto simp: AssetId_ok_def AssetId_validate_def u16_ok_def TX_HASH_SIZE_def split: if_splits)

lemma length_AssetId_wire: "AssetId_ok a \<Longrightarrow> length (AssetId_wire a) = ASSET_ID_SIZE"
  by (simp add: AssetId_ok_iff AssetId_wire_def ASSET_ID_SIZE_def)

interpretation asset_id: strict_codec AssetId_serializeTo AssetId_fromReader AssetId_wire AssetId_ok
proof (unfold_locales, goal_cases)
  case (1 a w)
  show ?case
    by (simp add: AssetId_serializeTo_def AssetId_wire_def writeUint16LE_def write_bytes_def)
next
  case (2 a r t)
  have eq: "rest r = aid_txid a @ uint16LE (aid_groupIndex a) @ t"
    using 2(3) by (simp add: AssetId_wire_def)
  have len: "length (aid_txid a) = TX_HASH_SIZE" and ix: "u16_ok (aid_groupIndex a)"
    using 2(1) by (simp_all add: AssetId_ok_iff TX_HASH_SIZE_def)
  let ?r1 = "advance TX_HASH_SIZE r"
  have "remaining r \<ge> ASSET_ID_SIZE"
    using eq len by (simp add: length_rest [symmetric] ASSET_ID_SIZE_def TX_HASH_SIZE_def)
  moreover have "readSlice TX_HASH_SIZE r = Inr (aid_txid a, ?r1)"
    using 2(2) eq len by (rule readSlice_eq')
  moreover have "readUint16LE ?r1 = Inr (aid_groupIndex a, advance 2 ?r1)"
    using u16.dec_wire [of "aid_groupIndex a" ?r1 t] ix eq 2(2) len
    by (metis append_eq_conv_conj length_uint16LE rest_advance wf_advance_append)
  ultimately show ?case
    using 2(1) len
    by (cases a) (simp add: AssetId_fromReader_def AssetId_wire_def AssetId_ok_def Let_def)
next
  case (3 r a r')
  then show ?case
    by (auto simp: AssetId_fromReader_def AssetId_ok_def Let_def dest: readSlice_consumes
        split: if_splits)
next
  case (4 r a r')
  then obtain txid r1 ix where s: "readSlice TX_HASH_SIZE r = Inr (txid, r1)"
    and u: "readUint16LE r1 = Inr (ix, r')"
    by (auto simp: AssetId_fromReader_def Let_def split: if_splits)
  have "moves r r1"
    using readSlice_consumes [OF 4(1) s] by (intro movesI [of _ 32]) (auto simp: TX_HASH_SIZE_def)
  then show ?case
    using u by (blast intro: moves_trans readUint16LE_moves moves_wf)
qed

lemma AssetId_bytes_roundtrip:
  assumes "AssetId_ok a"
  shows "AssetId_serialize a = Inr (AssetId_wire a) \<and> AssetId_fromBytes (AssetId_wire a) = Inr a"
proof -
  have "length (AssetId_wire a) = 34"
    using length_AssetId_wire [OF assms] by (simp add: ASSET_ID_SIZE_def)
  moreover have "AssetId_fromReader (new_reader (AssetId_wire a)) =
      Inr (a, advance (length (AssetId_wire a)) (new_reader (AssetId_wire a)))"
    by (rule asset_id.dec_wire [OF assms, of _ "[]"]) auto
  ultimately show ?thesis
    using asset_id.enc_wire [OF assms, of new_writer]
    by (auto simp: AssetId_serialize_def AssetId_fromBytes_def new_writer_def ASSET_ID_SIZE_def)
qed

lemma AssetId_fromBytes_ok: "AssetId_fromBytes bs = Inr a \<Longrightarrow> AssetId_ok a"
  by (auto simp: AssetId_fromBytes_def split: if_splits dest!: asset_id.dec_ok [OF wf_new_reader])

text \<open>The hexadecimal key under which a packet looks for duplicate groups identifies the asset.\<close>

lemma AssetId_toString_inj:
  assumes "hex_laws henc hdec" and "AssetId_ok a" and "AssetId_ok b"
    and "AssetId_toString henc a = AssetId_toString henc b"
  shows "a = b"
proof -
  have "henc (AssetId_wire a) = henc (AssetId_wire b)"
    using assms(2-4) AssetId_bytes_roundtrip by (auto simp: AssetId_toString_def)
  then have "AssetId_wire a = AssetId_wire b"
    using assms(1) by (metis hex_laws_def option.inject)
  then show ?thesis
    using asset_id.wire_unique [OF assms(2,3), of "[]" "[]"] by simp
qed

section \<open>AssetRef\<close>

datatype AssetRef = ByID AssetId | ByGroup int

definition AssetRef_fromReader :: "reader \<Rightarrow> ext_err + AssetRef \<times> reader" where
  "AssetRef_fromReader r =
     r_bind (readByte r) (\<lambda>(type, r1).
       if type = 1 then r_bind (AssetId_fromReader r1) (\<lambda>(a, r2). Inr (ByID a, r2))
       else if type = 2 then
         (if remaining r1 < 2 then Inl (RefE InvalidAssetRefLength)
          else r_bind (readUint16LE r1) (\<lambda>(g, r2). Inr (ByGroup g, r2)))
       else if type = 0 then Inl (RefE AssetRefUnspecified)
       else Inl (RefE (AssetRefUnknown type)))"

definition AssetRef_fromBytes :: "bytes \<Rightarrow> ext_err + AssetRef" where
  "AssetRef_fromBytes buf =
     (if buf = [] then Inl (RefE MissingAssetRef)
      else r_bind (AssetRef_fromReader (new_reader buf)) (\<lambda>(a, _). Inr a))"

definition AssetRef_fromString :: "hex_decode \<Rightarrow> string \<Rightarrow> ext_err + AssetRef" where
  "AssetRef_fromString hdec s =
     (case hdec s of None \<Rightarrow> Inl (RefE InvalidAssetRefFormat) | Some buf \<Rightarrow> AssetRef_fromBytes buf)"

fun AssetRef_serializeTo :: "AssetRef \<Rightarrow> writer \<Rightarrow> ext_err + writer" where
  "AssetRef_serializeTo (ByID a) w = AssetId_serializeTo a (writeByte 1 w)"
| "AssetRef_serializeTo (ByGroup g) w = Inr (writeUint16LE g (writeByte 2 w))"

definition AssetRef_serialize :: "AssetRef \<Rightarrow> ext_err + bytes" where
  "AssetRef_serialize a = AssetRef_serializeTo a new_writer"

fun AssetRef_ok :: "AssetRef \<Rightarrow> bool" where
  "AssetRef_ok (ByID a) = AssetId_ok a"
| "AssetRef_ok (ByGroup g) = u16_ok g"

fun AssetRef_wire :: "AssetRef \<Rightarrow> bytes" where
  "AssetRef_wire (ByID a) = 1 # AssetId_wire a"
| "AssetRef_wire (ByGroup g) = 2 # uint16LE g"

interpretation asset_ref: strict_codec AssetRef_serializeTo AssetRef_fromReader AssetRef_wire AssetRef_ok
proof (unfold_locales, goal_cases)
  case (1 a w)
  then show ?case
    by (cases a) (auto simp: asset_id.enc_wire writeByte_small writeUint16LE_def write_bytes_def)
next
  case (2 a r t)
  show ?case
  proof (cases a)
    case (ByID i)
    have eq: "rest r = 1 # (AssetId_wire i @ t)"
      using 2(3) ByID by simp
    note step = readByte_step [OF 2(2) eq]
    have "AssetId_fromReader (advance 1 r) = Inr (i, advance (length (AssetId_wire i)) (advance 1 r))"
      using 2(1) ByID step by (intro asset_id.dec_wire) auto
    then show ?thesis
      using ByID step(1) by (simp add: AssetRef_fromReader_def)
  next
    case (ByGroup g)
    have eq: "rest r = 2 # (uint16LE g @ t)"
      using 2(3) ByGroup by simp
    note step = readByte_step [OF 2(2) eq]
    have "readUint16LE (advance 1 r) = Inr (g, advance (length (uint16LE g)) (advance 1 r))"
      using 2(1) ByGroup step by (intro u16.dec_wire) auto
    moreover have "remaining (advance 1 r) \<ge> 2"
      using step(3) by (simp add: length_rest [symmetric])
    ultimately show ?thesis
      using ByGroup step(1) by (simp add: AssetRef_fromReader_def eval_nat_numeral)
  qed
next
  case (3 r a r')
  then obtain b r1 where rb: "readByte r = Inr (b, r1)"
    by (auto simp: AssetRef_fromReader_def)
  have wf: "wf_reader r1"
    using readByte_consumes [OF 3(1) rb] by blast
  show ?case
    using 3(2) rb asset_id.dec_ok [OF wf] u16.dec_ok [OF wf]
    by (auto simp: AssetRef_fromReader_def split: if_splits)
next
  case (4 r a r')
  then obtain b r1 where rb: "readByte r = Inr (b, r1)"
    by (auto simp: AssetRef_fromReader_def)
  have mv: "moves r r1"
    using 4(1) rb by (rule readByte_moves)
  show ?case
    using 4(2) rb asset_id.dec_moves [OF moves_wf [OF mv]] u16.dec_moves [OF moves_wf [OF mv]]
    by (auto simp: AssetRef_fromReader_def split: if_splits intro: moves_trans [OF mv])
qed

end
