(* ===== verification/Asset_Input.thy ===== *)
theory Asset_Input
  imports Asset_Id
begin

text \<open>
  Inputs and outputs of an asset group: \<open>AssetInput\<close>/\<open>AssetInputs\<close> (\<open>extension/asset/assetInput.ts\<close>)
  and \<open>AssetOutput\<close>/\<open>AssetOutputs\<close> (\<open>assetOutput.ts\<close>). An input is local (it names an input of the
  transaction) or refers to an intent transaction. The list validators reject mixed input types
  and duplicate indices; \<open>*_validate_iff\<close> characterise the loops.
\<close>

section \<open>AssetInput\<close>

datatype AssetInput =
    LocalInput (in_vin: int) (in_amount: int)
  | IntentInput (in_txid: bytes) (in_vin: int) (in_amount: int)

definition AssetInput_validate :: "AssetInput \<Rightarrow> ext_err + unit" where
  "AssetInput_validate i =
     (case i of
        LocalInput _ _ \<Rightarrow> Inr ()
      | IntentInput txid _ _ \<Rightarrow> if isZeroBytes txid then Inl (InE MissingIntentTxid) else Inr ())"

definition AssetInput_create :: "int \<Rightarrow> int \<Rightarrow> ext_err + AssetInput" where
  "AssetInput_create vin amount =
     (let i = LocalInput vin amount in r_bind (AssetInput_validate i) (\<lambda>_. Inr i))"

definition AssetInput_createIntent :: "hex_decode \<Rightarrow> string \<Rightarrow> int \<Rightarrow> int \<Rightarrow> ext_err + AssetInput" where
  "AssetInput_createIntent hdec txid vin amount =
     (if txid = [] then Inl (InE MissingIntentTxid)
      else case hdec txid of
        None \<Rightarrow> Inl (InE InvalidIntentTxidFormat)
      | Some buf \<Rightarrow>
          if length buf \<noteq> TX_HASH_SIZE then Inl (InE InvalidIntentTxidLength)
          else let i = IntentInput buf vin amount
               in r_bind (AssetInput_validate i) (\<lambda>_. Inr i))"

definition AssetInput_fromReader :: "reader \<Rightarrow> ext_err + AssetInput \<times> reader" where
  "AssetInput_fromReader r =
     r_bind (readByte r) (\<lambda>(type, r1).
     r_bind
       (if type = 1 then
          r_bind (readUint16LE r1) (\<lambda>(vin, r2).
          r_bind (readVarUint r2) (\<lambda>(amount, r3).
          Inr (LocalInput vin (int amount), r3)))
        else if type = 2 then
          (if remaining r1 < TX_HASH_SIZE then Inl (InE InvalidIntentTxidLength)
           else r_bind (readSlice TX_HASH_SIZE r1) (\<lambda>(txid, r2).
                r_bind (readUint16LE r2) (\<lambda>(vin, r3).
                r_bind (readVarUint r3) (\<lambda>(amount, r4).
                Inr (IntentInput txid vin (int amount), r4)))))
        else if type = 0 then Inl (InE InputTypeUnspecified)
        else Inl (InE (InputTypeUnknown type)))
       (\<lambda>(i, r'). r_bind (AssetInput_validate i) (\<lambda>_. Inr (i, r'))))"

definition AssetInput_fromBytes :: "bytes \<Rightarrow> ext_err + AssetInput" where
  "AssetInput_fromBytes buf = r_bind (AssetInput_fromReader (new_reader buf)) (\<lambda>(i, _). Inr i)"

definition AssetInput_fromString :: "hex_decode \<Rightarrow> string \<Rightarrow> ext_err + AssetInput" where
  "AssetInput_fromString hdec s =
     (case hdec s of None \<Rightarrow> Inl (InE InvalidInputFormat) | Some buf \<Rightarrow> AssetInput_fromBytes buf)"

fun AssetInput_serializeTo :: "AssetInput \<Rightarrow> writer \<Rightarrow> ext_err + writer" where
  "AssetInput_serializeTo (LocalInput vin amount) w =
     writeVarUint amount (writeUint16LE vin (writeByte 1 w))"
| "AssetInput_serializeTo (IntentInput txid vin amount) w =
     writeVarUint amount (writeUint16LE vin (write_bytes txid (writeByte 2 w)))"

definition AssetInput_serialize :: "AssetInput \<Rightarrow> ext_err + bytes" where
  "AssetInput_serialize i = AssetInput_serializeTo i new_writer"

definition AssetInput_ok :: "AssetInput \<Rightarrow> bool" where
  "AssetInput_ok i \<longleftrightarrow> u16_ok (in_vin i) \<and> 0 \<le> in_amount i \<and> AssetInput_validate i = Inr () \<and>
     (\<forall>txid vin amount. i = IntentInput txid vin amount \<longrightarrow> length txid = TX_HASH_SIZE)"

fun AssetInput_wire :: "AssetInput \<Rightarrow> bytes" where
  "AssetInput_wire (LocalInput vin amount) = 1 # uint16LE vin @ leb128 (nat amount)"
| "AssetInput_wire (IntentInput txid vin amount) = 2 # txid @ uint16LE vin @ leb128 (nat amount)"

text \<open>An index field followed by an amount: the tail shared by inputs and outputs.\<close>

lemma vin_amount_read:
  assumes "wf_reader r" and "rest r = uint16LE v @ leb128 n @ t" and "u16_ok v"
  shows "readUint16LE r = Inr (v, advance 2 r)" and "wf_reader (advance 2 r)"
    and "readVarUint (advance 2 r) = Inr (n, advance (length (leb128 n)) (advance 2 r))"
proof -
  show "readUint16LE r = Inr (v, advance 2 r)"
    using u16.dec_wire [OF assms(3,1,2)] by simp
  show wf: "wf_reader (advance 2 r)"
    using assms(1,2) by (intro wf_advance) auto
  show "readVarUint (advance 2 r) = Inr (n, advance (length (leb128 n)) (advance 2 r))"
    using assms(2) by (intro readVarUint_eq [OF wf, of _ t]) simp
qed

lemma moves_fields:
  "moves r s \<Longrightarrow> readUint16LE s = Inr (v, s1) \<Longrightarrow> readVarUint s1 = Inr (n, s2) \<Longrightarrow> moves r s2"
  by (meson moves_trans moves_wf readUint16LE_moves readVarUint_moves)

lemma writeVarUint_nonneg: "0 \<le> a \<Longrightarrow> writeVarUint a w = Inr (w @ leb128 (nat a))"
  using writeVarUint_nat [of "nat a" w] by simp

interpretation asset_input:
  strict_codec AssetInput_serializeTo AssetInput_fromReader AssetInput_wire AssetInput_ok
proof (unfold_locales, goal_cases)
  case (1 i w)
  then show ?case
    by (cases i) (auto simp: AssetInput_ok_def writeByte_small writeUint16LE_def write_bytes_def
        writeVarUint_nonneg)
next
  case (2 i r t)
  show ?case
  proof (cases i)
    case (LocalInput vin amount)
    have eq: "rest r = 1 # (uint16LE vin @ leb128 (nat amount) @ t)"
      using 2(3) LocalInput by simp
    note step = readByte_step [OF 2(2) eq]
    have "u16_ok vin" "0 \<le> amount"
      using 2(1) LocalInput by (auto simp: AssetInput_ok_def)
    with vin_amount_read [OF step(2,3)] step(1) LocalInput show ?thesis
      by (simp add: AssetInput_fromReader_def AssetInput_validate_def eval_nat_numeral)
  next
    case (IntentInput txid vin amount)
    have eq: "rest r = 2 # (txid @ uint16LE vin @ leb128 (nat amount) @ t)"
      using 2(3) IntentInput by simp
    note step = readByte_step [OF 2(2) eq]
    have ok: "u16_ok vin" "0 \<le> amount" "length txid = TX_HASH_SIZE" "AssetInput_validate i = Inr ()"
      using 2(1) IntentInput by (auto simp: AssetInput_ok_def)
    let ?r2 = "advance TX_HASH_SIZE (advance 1 r)"
    note slice = readSlice_step [OF step(2,3) ok(3)]
    have "TX_HASH_SIZE \<le> remaining (advance 1 r)"
      using step(3) ok(3) by (simp add: length_rest [symmetric])
    then show ?thesis
      using vin_amount_read [OF slice(2,3) ok(1)] slice(1) step(1) IntentInput ok
      by (simp add: AssetInput_fromReader_def eval_nat_numeral)
  qed
next
  case (3 r i r')
  then obtain b r1 where rb: "readByte r = Inr (b, r1)"
    by (auto simp: AssetInput_fromReader_def)
  have wf: "wf_reader r1"
    using readByte_consumes [OF 3(1) rb] by blast
  have sl: "length txid = TX_HASH_SIZE \<and> u16_ok v"
    if "readSlice TX_HASH_SIZE r1 = Inr (txid, r2)" "readUint16LE r2 = Inr (v, r3)" for txid r2 v r3
    using readSlice_consumes [OF wf that(1)] u16.dec_ok that(2) by blast
  show ?case
    using 3(2) rb u16.dec_ok [OF wf] sl
    by (auto simp: AssetInput_fromReader_def AssetInput_ok_def split: if_splits)
next
  case (4 r i r')
  then obtain b r1 where rb: "readByte r = Inr (b, r1)"
    by (auto simp: AssetInput_fromReader_def)
  have mv: "moves r r1"
    using 4(1) rb by (rule readByte_moves)
  show ?case
    using 4(2) rb mv
    by (auto simp: AssetInput_fromReader_def split: if_splits)
      (blast intro: mv moves_fields moves_slice)+
qed

section \<open>AssetInputs\<close>

datatype AssetInputType = InUnspecified | InLocal | InIntent

fun input_type :: "AssetInput \<Rightarrow> AssetInputType" where
  "input_type (LocalInput _ _) = InLocal"
| "input_type (IntentInput _ _ _) = InIntent"

fun AssetInputs_validate_loop ::
  "int list \<Rightarrow> AssetInputType \<Rightarrow> AssetInput list \<Rightarrow> ext_err + unit" where
  "AssetInputs_validate_loop seen listType [] = Inr ()"
| "AssetInputs_validate_loop seen listType (i # is) =
     r_bind (AssetInput_validate i) (\<lambda>_.
       if listType \<noteq> InUnspecified \<and> listType \<noteq> input_type i then Inl (InE MixedInputTypes)
       else let listType' = (if listType = InUnspecified then input_type i else listType)
            in if input_type i = InLocal
               then (if in_vin i \<in> set seen then Inl (InE (DuplicatedVin (in_vin i)))
                     else AssetInputs_validate_loop (in_vin i # seen) listType' is)
               else AssetInputs_validate_loop seen listType' is)"

definition AssetInputs_validate :: "AssetInput list \<Rightarrow> ext_err + unit" where
  "AssetInputs_validate is = AssetInputs_validate_loop [] InUnspecified is"

definition AssetInputs_create :: "AssetInput list \<Rightarrow> ext_err + AssetInput list" where
  "AssetInputs_create is = r_bind (AssetInputs_validate is) (\<lambda>_. Inr is)"

definition AssetInputs_fromReader :: "reader \<Rightarrow> ext_err + AssetInput list \<times> reader" where
  "AssetInputs_fromReader r =
     r_bind (readCounted AssetInput_fromReader r) (\<lambda>(is, r').
     r_bind (AssetInputs_create is) (\<lambda>is'. Inr (is', r')))"

definition AssetInputs_fromString :: "hex_decode \<Rightarrow> string \<Rightarrow> ext_err + AssetInput list" where
  "AssetInputs_fromString hdec s =
     (if s = [] then Inl (InE MissingAssetInputs)
      else case hdec s of
        None \<Rightarrow> Inl (InE InvalidAssetInputsFormat)
      | Some buf \<Rightarrow> r_bind (AssetInputs_fromReader (new_reader buf)) (\<lambda>(is, _). Inr is))"

definition AssetInputs_serializeTo :: "AssetInput list \<Rightarrow> writer \<Rightarrow> ext_err + writer" where
  "AssetInputs_serializeTo is w = writeCounted AssetInput_serializeTo is w"

text \<open>What the validating loop accepts.\<close>

definition inputs_valid :: "AssetInput list \<Rightarrow> bool" where
  "inputs_valid is \<longleftrightarrow> (\<forall>i \<in> set is. AssetInput_validate i = Inr ()) \<and>
     (\<forall>i \<in> set is. \<forall>j \<in> set is. input_type i = input_type j) \<and>
     (\<forall>i \<in> set is. input_type i = InLocal \<longrightarrow> distinct (map in_vin is))"

lemma input_type_specified [simp]: "input_type i \<noteq> InUnspecified"
  by (cases i) auto

lemma validate_loop_local:
  "AssetInputs_validate_loop seen InLocal is = Inr () \<longleftrightarrow>
    (\<forall>i \<in> set is. AssetInput_validate i = Inr () \<and> input_type i = InLocal) \<and>
    distinct (map in_vin is) \<and> set (map in_vin is) \<inter> set seen = {}"
  by (induction "is" arbitrary: seen) (auto simp: r_bind_eq_Inr)

lemma validate_loop_intent:
  "AssetInputs_validate_loop seen InIntent is = Inr () \<longleftrightarrow>
    (\<forall>i \<in> set is. AssetInput_validate i = Inr () \<and> input_type i = InIntent)"
  by (induction "is" arbitrary: seen) (auto simp: r_bind_eq_Inr)

lemma AssetInputs_validate_iff: "AssetInputs_validate is = Inr () \<longleftrightarrow> inputs_valid is"
proof (cases "is")
  case Nil
  then show ?thesis by (simp add: AssetInputs_validate_def inputs_valid_def)
next
  case (Cons i js)
  then show ?thesis
    by (cases i) (auto simp: AssetInputs_validate_def inputs_valid_def r_bind_eq_Inr
        validate_loop_local validate_loop_intent)
qed

definition AssetInputs_ok :: "AssetInput list \<Rightarrow> bool" where
  "AssetInputs_ok is \<longleftrightarrow> (\<forall>i \<in> set is. AssetInput_ok i) \<and> inputs_valid is"

interpretation asset_input_list: strict_codec "writeCounted AssetInput_serializeTo"
  "readCounted AssetInput_fromReader" "counted_wire AssetInput_wire" "\<lambda>is. \<forall>i \<in> set is. AssetInput_ok i"
  by (rule asset_input.counted_strict)

interpretation asset_inputs: strict_codec AssetInputs_serializeTo AssetInputs_fromReader
  "counted_wire AssetInput_wire" AssetInputs_ok
  by unfold_locales
    (auto simp: AssetInputs_ok_def AssetInputs_serializeTo_def AssetInputs_fromReader_def
      AssetInputs_create_def AssetInputs_validate_iff [symmetric] asset_input_list.enc_wire
      asset_input_list.dec_wire dest: asset_input_list.dec_ok asset_input_list.dec_moves)

end
