(* ===== verification/Asset_Output.thy ===== *)
theory Asset_Output
  imports Asset_Input
begin

text \<open>
  Outputs and metadata of an asset group: \<open>AssetOutput\<close>/\<open>AssetOutputs\<close>
  (\<open>extension/asset/assetOutput.ts\<close>) and \<open>Metadata\<close>/\<open>MetadataList\<close> (\<open>metadata.ts\<close>) with the tagged
  Merkle tree over the metadata entries. \<open>schnorr.utils.taggedHash\<close> and \<open>compareBytes\<close> are
  third-party functions and stay arguments (\<open>th\<close>, \<open>cmp\<close>).
\<close>

section \<open>AssetOutput\<close>

record AssetOutput =
  out_vout :: int
  out_amount :: int

definition AssetOutput_validate :: "AssetOutput \<Rightarrow> ext_err + unit" where
  "AssetOutput_validate oo =
     (if out_vout oo < 0 \<or> out_vout oo > 0xffff then Inl (OutE VoutOutOfRange)
      else if out_amount oo \<le> 0 then Inl (OutE AmountNotPositive)
      else Inr ())"

definition AssetOutput_create :: "int \<Rightarrow> int \<Rightarrow> ext_err + AssetOutput" where
  "AssetOutput_create vout amount =
     (let oo = \<lparr>out_vout = vout, out_amount = amount\<rparr>
      in r_bind (AssetOutput_validate oo) (\<lambda>_. Inr oo))"

definition AssetOutput_fromReader :: "reader \<Rightarrow> ext_err + AssetOutput \<times> reader" where
  "AssetOutput_fromReader r =
     (if remaining r < 2 then Inl (OutE InvalidVoutLength)
      else r_bind (readByte r) (\<lambda>(type, r1).
        if type \<noteq> 1 then (if type = 0 then Inl (OutE OutputTypeUnspecified) else Inl (OutE OutputTypeUnknown))
        else (case readUint16LE r1 of
            Inl _ \<Rightarrow> Inl (OutE InvalidVoutLength)
          | Inr (vout, r2) \<Rightarrow>
              r_bind (readVarUint r2) (\<lambda>(amount, r3).
              Inr (\<lparr>out_vout = vout, out_amount = int amount\<rparr>, r3)))))"

definition AssetOutput_fromBytes :: "bytes \<Rightarrow> ext_err + AssetOutput" where
  "AssetOutput_fromBytes buf =
     (if buf = [] then Inl (OutE MissingAssetOutput)
      else r_bind (AssetOutput_fromReader (new_reader buf)) (\<lambda>(oo, _).
           r_bind (AssetOutput_validate oo) (\<lambda>_. Inr oo)))"

definition AssetOutput_fromString :: "hex_decode \<Rightarrow> string \<Rightarrow> ext_err + AssetOutput" where
  "AssetOutput_fromString hdec s =
     (case hdec s of None \<Rightarrow> Inl (OutE InvalidAssetOutputFormat) | Some buf \<Rightarrow> AssetOutput_fromBytes buf)"

definition AssetOutput_serializeTo :: "AssetOutput \<Rightarrow> writer \<Rightarrow> ext_err + writer" where
  "AssetOutput_serializeTo oo w =
     writeVarUint (out_amount oo) (writeUint16LE (out_vout oo) (writeByte 1 w))"

definition AssetOutput_serialize :: "AssetOutput \<Rightarrow> ext_err + bytes" where
  "AssetOutput_serialize oo = AssetOutput_serializeTo oo new_writer"

text \<open>A single output is read without validation: an amount of zero passes here and is refused by
  the list.\<close>

definition AssetOutput_ok :: "AssetOutput \<Rightarrow> bool" where
  "AssetOutput_ok oo \<longleftrightarrow> u16_ok (out_vout oo) \<and> 0 \<le> out_amount oo"

definition AssetOutput_wire :: "AssetOutput \<Rightarrow> bytes" where
  "AssetOutput_wire oo = 1 # uint16LE (out_vout oo) @ leb128 (nat (out_amount oo))"

interpretation asset_output:
  strict_codec AssetOutput_serializeTo AssetOutput_fromReader AssetOutput_wire AssetOutput_ok
proof (unfold_locales, goal_cases)
  case (1 oo w)
  then show ?case
    by (auto simp: AssetOutput_ok_def AssetOutput_serializeTo_def writeByte_small writeUint16LE_def
        write_bytes_def writeVarUint_nonneg AssetOutput_wire_def)
next
  case (2 oo r t)
  have eq: "rest r = 1 # (uint16LE (out_vout oo) @ leb128 (nat (out_amount oo)) @ t)"
    using 2(3) by (simp add: AssetOutput_wire_def)
  note step = readByte_step [OF 2(2) eq]
  have ok: "u16_ok (out_vout oo)" "0 \<le> out_amount oo"
    using 2(1) by (auto simp: AssetOutput_ok_def)
  have "2 \<le> remaining r"
    using eq by (simp add: length_rest [symmetric])
  with vin_amount_read [OF step(2,3) ok(1)] step(1) ok show ?case
    by (cases oo) (simp add: AssetOutput_fromReader_def AssetOutput_wire_def eval_nat_numeral)
next
  case (3 r oo r')
  then obtain b r1 where rb: "readByte r = Inr (b, r1)"
    by (auto simp: AssetOutput_fromReader_def split: if_splits)
  have wf: "wf_reader r1"
    using readByte_consumes [OF 3(1) rb] by blast
  show ?case
    using 3(2) rb u16.dec_ok [OF wf]
    by (auto simp: AssetOutput_fromReader_def AssetOutput_ok_def split: if_splits sum.splits)
next
  case (4 r oo r')
  then obtain b r1 where rb: "readByte r = Inr (b, r1)"
    by (auto simp: AssetOutput_fromReader_def split: if_splits)
  have mv: "moves r r1"
    using 4(1) rb by (rule readByte_moves)
  show ?case
    using 4(2) rb
    by (auto simp: AssetOutput_fromReader_def split: if_splits sum.splits)
      (blast intro: mv moves_fields)+
qed

section \<open>AssetOutputs\<close>

fun AssetOutputs_validate_loop :: "int list \<Rightarrow> AssetOutput list \<Rightarrow> ext_err + unit" where
  "AssetOutputs_validate_loop seen [] = Inr ()"
| "AssetOutputs_validate_loop seen (oo # os) =
     r_bind (AssetOutput_validate oo) (\<lambda>_.
       if out_vout oo \<in> set seen then Inl (OutE (DuplicatedVout (out_vout oo)))
       else AssetOutputs_validate_loop (out_vout oo # seen) os)"

definition AssetOutputs_validate :: "AssetOutput list \<Rightarrow> ext_err + unit" where
  "AssetOutputs_validate os = AssetOutputs_validate_loop [] os"

definition AssetOutputs_create :: "AssetOutput list \<Rightarrow> ext_err + AssetOutput list" where
  "AssetOutputs_create os = r_bind (AssetOutputs_validate os) (\<lambda>_. Inr os)"

definition AssetOutputs_fromReader :: "reader \<Rightarrow> ext_err + AssetOutput list \<times> reader" where
  "AssetOutputs_fromReader r =
     r_bind (readVarUint r) (\<lambda>(count, r1).
       if count = 0 then Inr ([], r1)
       else r_bind (readMany AssetOutput_fromReader count r1) (\<lambda>(os, r2).
            r_bind (AssetOutputs_validate os) (\<lambda>_. Inr (os, r2))))"

definition AssetOutputs_fromString :: "hex_decode \<Rightarrow> string \<Rightarrow> ext_err + AssetOutput list" where
  "AssetOutputs_fromString hdec s =
     (if s = [] then Inl (OutE MissingAssetOutputs)
      else case hdec s of
        None \<Rightarrow> Inl (OutE InvalidAssetOutputsFormat)
      | Some buf \<Rightarrow> r_bind (AssetOutputs_fromReader (new_reader buf)) (\<lambda>(os, _). Inr os))"

definition AssetOutputs_serializeTo :: "AssetOutput list \<Rightarrow> writer \<Rightarrow> ext_err + writer" where
  "AssetOutputs_serializeTo os w =
     r_bind (AssetOutputs_validate os) (\<lambda>_. writeCounted AssetOutput_serializeTo os w)"

definition outputs_valid :: "AssetOutput list \<Rightarrow> bool" where
  "outputs_valid os \<longleftrightarrow>
     (\<forall>oo \<in> set os. u16_ok (out_vout oo) \<and> 0 < out_amount oo) \<and> distinct (map out_vout os)"

lemma AssetOutput_validate_iff:
  "AssetOutput_validate oo = Inr () \<longleftrightarrow> u16_ok (out_vout oo) \<and> 0 < out_amount oo"
  by (auto simp: AssetOutput_validate_def u16_ok_def)

lemma outputs_validate_loop:
  "AssetOutputs_validate_loop seen os = Inr () \<longleftrightarrow>
    outputs_valid os \<and> set (map out_vout os) \<inter> set seen = {}"
  by (induction os arbitrary: seen)
    (auto simp: outputs_valid_def r_bind_eq_Inr AssetOutput_validate_iff)

lemma AssetOutputs_validate_iff: "AssetOutputs_validate os = Inr () \<longleftrightarrow> outputs_valid os"
  by (simp add: AssetOutputs_validate_def outputs_validate_loop)

lemma outputs_valid_ok: "outputs_valid os \<Longrightarrow> \<forall>oo \<in> set os. AssetOutput_ok oo"
  by (auto simp: outputs_valid_def AssetOutput_ok_def)

text \<open>The early return for a count of zero is the general path.\<close>

lemma AssetOutputs_fromReader_eq:
  "AssetOutputs_fromReader r =
    r_bind (readCounted AssetOutput_fromReader r) (\<lambda>(os, r'). r_bind (AssetOutputs_create os) (\<lambda>os'. Inr (os', r')))"
proof (cases "readVarUint r")
  case (Inr p)
  obtain n r1 where p: "p = (n, r1)" by (cases p)
  show ?thesis
  proof (cases "n = 0")
    case False
    with Inr p show ?thesis
      by (cases "readMany AssetOutput_fromReader n r1")
        (auto simp: AssetOutputs_fromReader_def readCounted_def AssetOutputs_create_def r_bind_def
          split: sum.splits)
  qed (simp add: Inr p AssetOutputs_fromReader_def readCounted_def AssetOutputs_create_def
      AssetOutputs_validate_def)
qed (simp add: AssetOutputs_fromReader_def readCounted_def)

interpretation asset_output_list: strict_codec "writeCounted AssetOutput_serializeTo"
  "readCounted AssetOutput_fromReader" "counted_wire AssetOutput_wire" "\<lambda>os. \<forall>oo \<in> set os. AssetOutput_ok oo"
  by (rule asset_output.counted_strict)

interpretation asset_outputs: strict_codec AssetOutputs_serializeTo AssetOutputs_fromReader
  "counted_wire AssetOutput_wire" outputs_valid
proof (unfold_locales, goal_cases)
  case (1 os w)
  then show ?case
    using outputs_valid_ok [of os] AssetOutputs_validate_iff [of os]
    by (simp add: AssetOutputs_serializeTo_def asset_output_list.enc_wire)
next
  case (2 os r t)
  then show ?case
    using asset_output_list.dec_wire [of os r t] outputs_valid_ok [of os] AssetOutputs_validate_iff [of os]
    by (simp add: AssetOutputs_fromReader_eq AssetOutputs_create_def)
next
  case (3 r os r')
  then show ?case
    by (auto simp: AssetOutputs_fromReader_eq AssetOutputs_create_def AssetOutputs_validate_iff)
next
  case (4 r os r')
  then show ?case
    by (auto simp: AssetOutputs_fromReader_eq AssetOutputs_create_def
        dest: asset_output_list.dec_moves)
qed

section \<open>Metadata\<close>

record Metadata =
  md_key :: bytes
  md_value :: bytes

definition Metadata_validate :: "Metadata \<Rightarrow> ext_err + unit" where
  "Metadata_validate m =
     (if md_key m = [] then Inl (MetaE MissingMetadataKey)
      else if md_value m = [] then Inl (MetaE MissingMetadataValue)
      else Inr ())"

definition Metadata_create :: "bytes \<Rightarrow> bytes \<Rightarrow> ext_err + Metadata" where
  "Metadata_create key val =
     (let m = \<lparr>md_key = key, md_value = val\<rparr> in r_bind (Metadata_validate m) (\<lambda>_. Inr m))"

definition Metadata_fromReader :: "reader \<Rightarrow> ext_err + Metadata \<times> reader" where
  "Metadata_fromReader r =
     (case readVarSlice r of
        Inl _ \<Rightarrow> Inl (MetaE InvalidMetadataLength)
      | Inr (key, r1) \<Rightarrow>
        (case readVarSlice r1 of
           Inl _ \<Rightarrow> Inl (MetaE InvalidMetadataLength)
         | Inr (val, r2) \<Rightarrow>
             let m = \<lparr>md_key = key, md_value = val\<rparr>
             in r_bind (Metadata_validate m) (\<lambda>_. Inr (m, r2))))"

definition Metadata_fromBytes :: "bytes \<Rightarrow> ext_err + Metadata" where
  "Metadata_fromBytes buf =
     (if buf = [] then Inl (MetaE MissingMetadata)
      else r_bind (Metadata_fromReader (new_reader buf)) (\<lambda>(m, _). Inr m))"

definition Metadata_fromString :: "hex_decode \<Rightarrow> string \<Rightarrow> ext_err + Metadata" where
  "Metadata_fromString hdec s =
     (case hdec s of None \<Rightarrow> Inl (MetaE InvalidMetadataFormat) | Some buf \<Rightarrow> Metadata_fromBytes buf)"

definition Metadata_serializeTo :: "Metadata \<Rightarrow> writer \<Rightarrow> ext_err + writer" where
  "Metadata_serializeTo m w =
     r_bind (writeVarSlice (md_key m) w) (\<lambda>w1. writeVarSlice (md_value m) w1)"

definition Metadata_serialize :: "Metadata \<Rightarrow> ext_err + bytes" where
  "Metadata_serialize m = Metadata_serializeTo m new_writer"

definition Metadata_ok :: "Metadata \<Rightarrow> bool" where
  "Metadata_ok m \<longleftrightarrow> Metadata_validate m = Inr ()"

definition Metadata_wire :: "Metadata \<Rightarrow> bytes" where
  "Metadata_wire m = slice_wire (md_key m) @ slice_wire (md_value m)"

interpretation metadata:
  strict_codec Metadata_serializeTo Metadata_fromReader Metadata_wire Metadata_ok
proof (unfold_locales, goal_cases)
  case (1 m w)
  show ?case
    by (simp add: Metadata_serializeTo_def varslice.enc_wire Metadata_wire_def)
next
  case (2 m r t)
  let ?r1 = "advance (length (slice_wire (md_key m))) r"
  have eq: "rest r = slice_wire (md_key m) @ slice_wire (md_value m) @ t"
    using 2(3) by (simp add: Metadata_wire_def)
  have "readVarSlice r = Inr (md_key m, ?r1)"
    using 2(2) eq by (intro varslice.dec_wire) auto
  moreover have "readVarSlice ?r1 = Inr (md_value m, advance (length (slice_wire (md_value m))) ?r1)"
    using 2(2) eq by (intro varslice.dec_wire [of _ _ t]) auto
  ultimately show ?case
    using 2(1) by (cases m) (simp add: Metadata_fromReader_def Metadata_wire_def Metadata_ok_def)
next
  case (3 r m r')
  then show ?case
    by (auto simp: Metadata_fromReader_def Metadata_ok_def Let_def split: sum.splits)
next
  case (4 r m r')
  then obtain key r1 val where k: "readVarSlice r = Inr (key, r1)"
    and v: "readVarSlice r1 = Inr (val, r')"
    by (auto simp: Metadata_fromReader_def Let_def split: sum.splits)
  have "moves r r1"
    using 4(1) k by (rule varslice.dec_moves)
  then show ?case
    using v varslice.dec_moves moves_wf moves_trans by blast
qed

text \<open>
  \<open>Array.from({length: count}, ...)\<close> refuses a length above \<open>2 ^ 32 - 1\<close> (RangeError) before it
  reads the first entry.
\<close>

definition MetadataList_fromReader :: "reader \<Rightarrow> ext_err + Metadata list \<times> reader" where
  "MetadataList_fromReader r =
     r_bind (readVarUint r) (\<lambda>(count, r1).
       if count > 0xffffffff then Inl (Buf InvalidArrayLength)
       else readMany Metadata_fromReader count r1)"

definition MetadataList_fromBytes :: "bytes \<Rightarrow> ext_err + Metadata list" where
  "MetadataList_fromBytes buf =
     (if buf = [] then Inl (MetaE MissingMetadataList)
      else r_bind (MetadataList_fromReader (new_reader buf)) (\<lambda>(ms, _). Inr ms))"

definition MetadataList_fromString :: "hex_decode \<Rightarrow> string \<Rightarrow> ext_err + Metadata list" where
  "MetadataList_fromString hdec s =
     (case hdec s of
        None \<Rightarrow> Inl (MetaE InvalidMetadataListFormat)
      | Some buf \<Rightarrow> MetadataList_fromBytes buf)"

definition MetadataList_serializeTo :: "Metadata list \<Rightarrow> writer \<Rightarrow> ext_err + writer" where
  "MetadataList_serializeTo items w = writeCounted Metadata_serializeTo items w"

definition MetadataList_ok :: "Metadata list \<Rightarrow> bool" where
  "MetadataList_ok ms \<longleftrightarrow> (\<forall>m \<in> set ms. Metadata_ok m) \<and> length ms \<le> 0xffffffff"

interpretation metadata_items: strict_codec "writeCounted Metadata_serializeTo"
  "readCounted Metadata_fromReader" "counted_wire Metadata_wire" "\<lambda>ms. \<forall>m \<in> set ms. Metadata_ok m"
  by (rule metadata.counted_strict)

lemma MetadataList_fromReader_Inr:
  assumes "wf_reader r"
  shows "MetadataList_fromReader r = Inr (ms, r') \<longleftrightarrow>
    readCounted Metadata_fromReader r = Inr (ms, r') \<and> length ms \<le> 0xffffffff"
proof (cases "readVarUint r")
  case (Inr p)
  obtain n r1 where p: "p = (n, r1)" by (cases p)
  have "wf_reader r1"
    using assms Inr p by (auto intro: moves_wf readVarUint_moves)
  then have "readMany Metadata_fromReader n r1 = Inr (ms, r') \<Longrightarrow> length ms = n"
    using metadata.readMany_ok by blast
  with Inr p show ?thesis
    by (auto simp: MetadataList_fromReader_def readCounted_def)
qed (simp add: MetadataList_fromReader_def readCounted_def)

interpretation metadata_list: strict_codec MetadataList_serializeTo MetadataList_fromReader
  "counted_wire Metadata_wire" MetadataList_ok
  by unfold_locales
    (auto simp: MetadataList_ok_def MetadataList_serializeTo_def metadata_items.enc_wire
      MetadataList_fromReader_Inr metadata_items.dec_wire
      dest: metadata_items.dec_ok metadata_items.dec_moves)

section \<open>The Merkle tree of the metadata\<close>

type_synonym tagged_hash = "string \<Rightarrow> bytes list \<Rightarrow> bytes"
type_synonym compare_bytes = "bytes \<Rightarrow> bytes \<Rightarrow> int"

definition ARK_LEAF_TAG :: string where "ARK_LEAF_TAG = ''ArkadeAssetLeaf''"
definition ARK_BRANCH_TAG :: string where "ARK_BRANCH_TAG = ''ArkadeAssetBranch''"

definition computeMetadataLeafHash :: "tagged_hash \<Rightarrow> Metadata \<Rightarrow> ext_err + bytes" where
  "computeMetadataLeafHash th md =
     r_bind (writeVarSlice (md_key md) (writeByte 0 new_writer)) (\<lambda>w1.
     r_bind (writeVarSlice (md_value md) w1) (\<lambda>w2. Inr (th ARK_LEAF_TAG [w2])))"

definition computeMetadataBranchHash :: "tagged_hash \<Rightarrow> compare_bytes \<Rightarrow> bytes \<Rightarrow> bytes \<Rightarrow> bytes" where
  "computeMetadataBranchHash th cmp a b =
     (let (smaller, larger) = (if cmp a b = -1 then (a, b) else (b, a))
      in th ARK_BRANCH_TAG [smaller, larger])"

fun merkle_level :: "(bytes \<Rightarrow> bytes \<Rightarrow> bytes) \<Rightarrow> bytes list \<Rightarrow> bytes list" where
  "merkle_level h (a # b # xs) = h a b # merkle_level h xs"
| "merkle_level h [a] = [a]"
| "merkle_level h [] = []"

lemma length_merkle_level: "length (merkle_level h xs) = (length xs + 1) div 2"
  by (induction h xs rule: merkle_level.induct) auto

text \<open>The \<open>while (current.length > 1)\<close> loop: the levels from \<open>current\<close> up to the root.\<close>

function merkle_levels :: "(bytes \<Rightarrow> bytes \<Rightarrow> bytes) \<Rightarrow> bytes list \<Rightarrow> bytes list list" where
  "merkle_levels h current =
     (if length current > 1 then current # merkle_levels h (merkle_level h current) else [current])"
  by pat_completeness auto
termination
  by (relation "measure (\<lambda>(h, xs). length xs)") (auto simp: length_merkle_level)

declare merkle_levels.simps [simp del]

definition buildMetadataMerkleTree ::
  "tagged_hash \<Rightarrow> compare_bytes \<Rightarrow> Metadata list \<Rightarrow> ext_err + bytes list list" where
  "buildMetadataMerkleTree th cmp leaves =
     (if leaves = [] then Inr []
      else r_bind (r_map (computeMetadataLeafHash th) leaves) (\<lambda>leafHashes.
           Inr (merkle_levels (computeMetadataBranchHash th cmp) leafHashes)))"

definition MetadataList_hash :: "tagged_hash \<Rightarrow> compare_bytes \<Rightarrow> Metadata list \<Rightarrow> ext_err + bytes" where
  "MetadataList_hash th cmp items =
     (if items = [] then Inl (MetaE MissingMetadataList)
      else r_bind (buildMetadataMerkleTree th cmp items) (\<lambda>levels. Inr (hd (last levels))))"

lemma merkle_levels_last: "xs \<noteq> [] \<Longrightarrow> length (last (merkle_levels h xs)) = 1"
proof (induction h xs rule: merkle_levels.induct)
  case (1 h xs)
  show ?case
  proof (cases "length xs > 1")
    case True
    then have "merkle_level h xs \<noteq> []"
      using length_merkle_level [of h xs] by auto
    moreover have "merkle_levels h ys \<noteq> []" for ys
      by (subst merkle_levels.simps) auto
    ultimately show ?thesis
      using True 1 by (simp add: merkle_levels.simps [of h xs])
  next
    case False
    with 1(2) obtain a where "xs = [a]"
      by (cases xs) auto
    then show ?thesis
      by (simp add: merkle_levels.simps [of h "[a]"])
  qed
qed

lemma computeMetadataLeafHash_eq:
  "computeMetadataLeafHash th md = Inr (th ARK_LEAF_TAG [0 # Metadata_wire md])"
  by (simp add: computeMetadataLeafHash_def varslice.enc_wire new_writer_def writeByte_small
      Metadata_wire_def)

lemma computeMetadataBranchHash_comm:
  assumes "\<forall>a b. a \<noteq> b \<longrightarrow> (cmp a b = -1 \<longleftrightarrow> cmp b a \<noteq> -1)"
  shows "computeMetadataBranchHash th cmp a b = computeMetadataBranchHash th cmp b a"
proof (cases "a = b")
  case False
  with assms have "cmp a b = -1 \<longleftrightarrow> cmp b a \<noteq> -1" by blast
  then show ?thesis
    by (cases "cmp a b = -1") (simp_all add: computeMetadataBranchHash_def)
qed simp

end
