(* ===== verification/Asset_Group.thy ===== *)
theory Asset_Group
  imports Asset_Output
begin

text \<open>
  \<open>AssetGroup\<close> (\<open>extension/asset/assetGroup.ts\<close>): everything a packet says about one asset, behind a
  presence byte. Reading validates the lists (\<open>AssetInputs.create\<close>, \<open>AssetOutputs\<close>); writing a group
  does not, so the group is a codec on the groups whose lists are valid (\<open>AssetGroup_ok\<close>), and the
  reader returns only those.
\<close>

definition MASK_ASSET_ID :: nat where "MASK_ASSET_ID = 0x01"
definition MASK_CONTROL_ASSET :: nat where "MASK_CONTROL_ASSET = 0x02"
definition MASK_METADATA :: nat where "MASK_METADATA = 0x04"

record AssetGroup =
  ag_assetId :: "AssetId option"
  ag_controlAsset :: "AssetRef option"
  ag_inputs :: "AssetInput list"
  ag_outputs :: "AssetOutput list"
  ag_metadata :: "Metadata list"

definition isIssuance :: "AssetGroup \<Rightarrow> bool" where
  "isIssuance g \<longleftrightarrow> ag_assetId g = None"

definition isReissuance :: "AssetGroup \<Rightarrow> bool" where
  "isReissuance g =
     (let sumOutputs = sum_list (map out_amount (ag_outputs g));
          sumInputs = sum_list (map (\<lambda>i. case i of LocalInput _ a \<Rightarrow> a | IntentInput _ _ _ \<Rightarrow> 0) (ag_inputs g))
      in \<not> isIssuance g \<and> sumInputs < sumOutputs)"

definition AssetGroup_validate :: "AssetGroup \<Rightarrow> ext_err + unit" where
  "AssetGroup_validate g =
     (if ag_inputs g = [] \<and> ag_outputs g = [] then Inl (GroupE EmptyAssetGroup)
      else if isIssuance g
           then (if ag_inputs g \<noteq> [] then Inl (GroupE IssuanceHasInputs) else Inr ())
           else (if ag_controlAsset g \<noteq> None then Inl (GroupE OnlyIssuanceHasControl) else Inr ()))"

definition AssetGroup_create ::
  "AssetId option \<Rightarrow> AssetRef option \<Rightarrow> AssetInput list \<Rightarrow> AssetOutput list \<Rightarrow> Metadata list \<Rightarrow>
   ext_err + AssetGroup" where
  "AssetGroup_create assetId controlAsset inputs outputs md =
     (let g = \<lparr>ag_assetId = assetId, ag_controlAsset = controlAsset, ag_inputs = inputs,
               ag_outputs = outputs, ag_metadata = md\<rparr>
      in r_bind (AssetGroup_validate g) (\<lambda>_. Inr g))"

text \<open>A field that is read when its presence bit is set.\<close>

definition readOpt :: "bool \<Rightarrow> (reader \<Rightarrow> ext_err + 'a \<times> reader) \<Rightarrow> reader \<Rightarrow> ext_err + 'a option \<times> reader" where
  "readOpt present dec r =
     (if present then r_bind (dec r) (\<lambda>(x, r'). Inr (Some x, r')) else Inr (None, r))"

definition AssetGroup_fromReader :: "reader \<Rightarrow> ext_err + AssetGroup \<times> reader" where
  "AssetGroup_fromReader r =
     r_bind (readByte r) (\<lambda>(presence, r0).
     r_bind (readOpt (presence AND word_of_nat MASK_ASSET_ID \<noteq> 0) AssetId_fromReader r0) (\<lambda>(assetId, r1).
     r_bind (readOpt (presence AND word_of_nat MASK_CONTROL_ASSET \<noteq> 0) AssetRef_fromReader r1) (\<lambda>(control, r2).
     r_bind (readOpt (presence AND word_of_nat MASK_METADATA \<noteq> 0) MetadataList_fromReader r2) (\<lambda>(md, r3).
     r_bind (AssetInputs_fromReader r3) (\<lambda>(inputs, r4).
     r_bind (AssetOutputs_fromReader r4) (\<lambda>(outputs, r5).
       let g = \<lparr>ag_assetId = assetId, ag_controlAsset = control, ag_inputs = inputs,
                ag_outputs = outputs, ag_metadata = case_option [] id md\<rparr>
       in r_bind (AssetGroup_validate g) (\<lambda>_. Inr (g, r5))))))))"

definition writeOpt :: "('a \<Rightarrow> writer \<Rightarrow> ext_err + writer) \<Rightarrow> 'a option \<Rightarrow> writer \<Rightarrow> ext_err + writer" where
  "writeOpt enc x w = (case x of None \<Rightarrow> Inr w | Some y \<Rightarrow> enc y w)"

definition presence_byte :: "AssetGroup \<Rightarrow> nat" where
  "presence_byte g =
     (if ag_assetId g \<noteq> None then MASK_ASSET_ID else 0) OR
     (if ag_controlAsset g \<noteq> None then MASK_CONTROL_ASSET else 0) OR
     (if length (ag_metadata g) > 0 then MASK_METADATA else 0)"

definition AssetGroup_serializeTo :: "AssetGroup \<Rightarrow> writer \<Rightarrow> ext_err + writer" where
  "AssetGroup_serializeTo g w =
     r_bind (writeOpt AssetId_serializeTo (ag_assetId g) (writeByte (presence_byte g) w)) (\<lambda>w1.
     r_bind (writeOpt AssetRef_serializeTo (ag_controlAsset g) w1) (\<lambda>w2.
     r_bind (if length (ag_metadata g) > 0 then MetadataList_serializeTo (ag_metadata g) w2 else Inr w2) (\<lambda>w3.
     r_bind (writeCounted AssetInput_serializeTo (ag_inputs g) w3) (\<lambda>w4.
     writeCounted AssetOutput_serializeTo (ag_outputs g) w4))))"

definition AssetGroup_serialize :: "AssetGroup \<Rightarrow> ext_err + bytes" where
  "AssetGroup_serialize g = r_bind (AssetGroup_validate g) (\<lambda>_. AssetGroup_serializeTo g new_writer)"

definition AssetGroup_fromBytes :: "bytes \<Rightarrow> ext_err + AssetGroup" where
  "AssetGroup_fromBytes buf =
     (if buf = [] then Inl (GroupE MissingAssetGroup)
      else r_bind (AssetGroup_fromReader (new_reader buf)) (\<lambda>(g, _). Inr g))"

definition AssetGroup_fromString :: "hex_decode \<Rightarrow> string \<Rightarrow> ext_err + AssetGroup" where
  "AssetGroup_fromString hdec s =
     (case hdec s of None \<Rightarrow> Inl (GroupE InvalidGroupFormat) | Some buf \<Rightarrow> AssetGroup_fromBytes buf)"

definition toBatchLeafAssetGroup ::
  "hex_encode \<Rightarrow> hex_decode \<Rightarrow> bytes \<Rightarrow> AssetGroup \<Rightarrow> ext_err + AssetGroup" where
  "toBatchLeafAssetGroup henc hdec intentTxid g =
     r_bind (AssetInput_createIntent hdec (henc intentTxid) 0 0) (\<lambda>leafInput.
       Inr (g\<lparr>ag_inputs := [leafInput]\<rparr>))"

section \<open>Groups as a codec\<close>

definition AssetGroup_ok :: "AssetGroup \<Rightarrow> bool" where
  "AssetGroup_ok g \<longleftrightarrow>
     pred_option AssetId_ok (ag_assetId g) \<and> pred_option AssetRef_ok (ag_controlAsset g) \<and>
     MetadataList_ok (ag_metadata g) \<and> AssetInputs_ok (ag_inputs g) \<and> outputs_valid (ag_outputs g) \<and>
     AssetGroup_validate g = Inr ()"

definition opt_wire :: "('a \<Rightarrow> bytes) \<Rightarrow> 'a option \<Rightarrow> bytes" where
  "opt_wire wire x = (case x of None \<Rightarrow> [] | Some y \<Rightarrow> wire y)"

definition md_opt :: "Metadata list \<Rightarrow> Metadata list option" where
  "md_opt ms = (if ms = [] then None else Some ms)"

definition AssetGroup_wire :: "AssetGroup \<Rightarrow> bytes" where
  "AssetGroup_wire g =
     word_of_nat (presence_byte g) # opt_wire AssetId_wire (ag_assetId g) @
     opt_wire AssetRef_wire (ag_controlAsset g) @
     opt_wire (counted_wire Metadata_wire) (md_opt (ag_metadata g)) @
     counted_wire AssetInput_wire (ag_inputs g) @ counted_wire AssetOutput_wire (ag_outputs g)"

text \<open>An optional field, for any codec: what is written is read back when the bit says so.\<close>

context codec
begin

lemma writeOpt_wire: "pred_option ok x \<Longrightarrow> writeOpt enc x w = Inr (w @ opt_wire wire x)"
  by (cases x) (simp_all add: writeOpt_def opt_wire_def enc_wire)

lemma readOpt_wire:
  assumes "pred_option ok x" and "wf_reader r" and "rest r = opt_wire wire x @ t"
    and "present \<longleftrightarrow> x \<noteq> None"
  shows "readOpt present dec r = Inr (x, advance (length (opt_wire wire x)) r)"
    and "wf_reader (advance (length (opt_wire wire x)) r)"
    and "rest (advance (length (opt_wire wire x)) r) = t"
  using assms dec_wire [of "the x" r t] by (cases x; auto simp: readOpt_def opt_wire_def)+

end

context strict_codec
begin

lemma readOpt_ok:
  "wf_reader r \<Longrightarrow> readOpt present dec r = Inr (x, r') \<Longrightarrow>
    pred_option ok x \<and> (r' = r \<or> moves r r') \<and> wf_reader r'"
  by (auto simp: readOpt_def dest: dec_ok dec_moves moves_wf split: if_splits)

end

lemma presence_bits:
  "presence_byte g < 256"
  "(word_of_nat (presence_byte g) :: byte) AND word_of_nat MASK_ASSET_ID \<noteq> 0 \<longleftrightarrow> ag_assetId g \<noteq> None"
  "(word_of_nat (presence_byte g) :: byte) AND word_of_nat MASK_CONTROL_ASSET \<noteq> 0 \<longleftrightarrow> ag_controlAsset g \<noteq> None"
  "(word_of_nat (presence_byte g) :: byte) AND word_of_nat MASK_METADATA \<noteq> 0 \<longleftrightarrow> md_opt (ag_metadata g) \<noteq> None"
  by (cases "ag_assetId g"; cases "ag_controlAsset g"; cases "ag_metadata g";
      simp add: presence_byte_def MASK_ASSET_ID_def MASK_CONTROL_ASSET_def MASK_METADATA_def md_opt_def)+

lemma AssetInputs_ok_items: "AssetInputs_ok is \<Longrightarrow> \<forall>i \<in> set is. AssetInput_ok i"
  by (simp add: AssetInputs_ok_def)

lemma case_md_opt [simp]: "case_option [] id (md_opt ms) = ms"
  by (simp add: md_opt_def)

lemma pred_md_opt: "MetadataList_ok ms \<Longrightarrow> pred_option MetadataList_ok (md_opt ms)"
  by (simp add: md_opt_def)

text \<open>Writing needs only the items of the lists to be encodable, not the lists to be valid.\<close>

definition AssetGroup_items_ok :: "AssetGroup \<Rightarrow> bool" where
  "AssetGroup_items_ok g \<longleftrightarrow>
     pred_option AssetId_ok (ag_assetId g) \<and> pred_option AssetRef_ok (ag_controlAsset g) \<and>
     MetadataList_ok (ag_metadata g) \<and> (\<forall>i \<in> set (ag_inputs g). AssetInput_ok i) \<and>
     (\<forall>oo \<in> set (ag_outputs g). AssetOutput_ok oo)"

lemma AssetGroup_ok_items: "AssetGroup_ok g \<Longrightarrow> AssetGroup_items_ok g"
  using AssetInputs_ok_items outputs_valid_ok unfolding AssetGroup_ok_def AssetGroup_items_ok_def by blast

lemma AssetGroup_enc_wire:
  assumes "AssetGroup_items_ok g"
  shows "AssetGroup_serializeTo g w = Inr (w @ AssetGroup_wire g)"
proof -
  have md: "(if length (ag_metadata g) > 0 then MetadataList_serializeTo (ag_metadata g) w2 else Inr w2)
      = Inr (w2 @ opt_wire (counted_wire Metadata_wire) (md_opt (ag_metadata g)))" for w2
    using assms metadata_list.enc_wire [of "ag_metadata g" w2]
    by (auto simp: AssetGroup_items_ok_def md_opt_def opt_wire_def)
  have ids: "pred_option AssetId_ok (ag_assetId g)" "pred_option AssetRef_ok (ag_controlAsset g)"
    and ins: "\<forall>i \<in> set (ag_inputs g). AssetInput_ok i"
    and outs: "\<forall>oo \<in> set (ag_outputs g). AssetOutput_ok oo"
    using assms by (auto simp: AssetGroup_items_ok_def)
  have pb: "writeByte (presence_byte g) w = w @ [word_of_nat (presence_byte g)]"
    using presence_bits(1) [of g] by (intro writeByte_small) simp
  show ?thesis
    unfolding AssetGroup_serializeTo_def AssetGroup_wire_def pb md
    using asset_input_list.enc_wire [OF ins] asset_output_list.enc_wire [OF outs]
    by (simp add: asset_id.writeOpt_wire [OF ids(1)] asset_ref.writeOpt_wire [OF ids(2)])
qed

lemma AssetGroup_dec_wire:
  assumes ok: "AssetGroup_ok g" and wf: "wf_reader r" and eq: "rest r = AssetGroup_wire g @ t"
  shows "AssetGroup_fromReader r = Inr (g, advance (length (AssetGroup_wire g)) r)"
proof -
  have oks: "pred_option AssetId_ok (ag_assetId g)" "pred_option AssetRef_ok (ag_controlAsset g)"
    "pred_option MetadataList_ok (md_opt (ag_metadata g))" "AssetInputs_ok (ag_inputs g)"
    "outputs_valid (ag_outputs g)" "AssetGroup_validate g = Inr ()"
    using ok by (auto simp: AssetGroup_ok_def pred_md_opt)
  note s0 = readByte_step [OF wf eq [unfolded AssetGroup_wire_def append_Cons append_assoc]]
  note s1 = asset_id.readOpt_wire [OF oks(1) s0(2,3) presence_bits(2)]
  note s2 = asset_ref.readOpt_wire [OF oks(2) s1(2,3) presence_bits(3)]
  note s3 = metadata_list.readOpt_wire [OF oks(3) s2(2,3) presence_bits(4)]
  note s4 = asset_inputs.dec_wire_step [OF oks(4) s3(2,3)]
  note s5 = asset_outputs.dec_wire_step [OF oks(5) s4(2,3)]
  have g: "\<lparr>ag_assetId = ag_assetId g, ag_controlAsset = ag_controlAsset g,
      ag_inputs = ag_inputs g, ag_outputs = ag_outputs g, ag_metadata = ag_metadata g\<rparr> = g"
    by (cases g) simp
  show ?thesis
    unfolding AssetGroup_fromReader_def s0(1) r_bind_Inr prod.case s1(1) s2(1) s3(1) s4(1) s5(1) Let_def
    by (simp only: case_md_opt g oks(6) r_bind_Inr advance_advance AssetGroup_wire_def
        length_append list.size) (simp add: add.assoc)
qed

lemma AssetGroup_fromReaderE:
  assumes "wf_reader r" and "AssetGroup_fromReader r = Inr (g, r')"
  shows "AssetGroup_ok g" and "moves r r'"
proof -
  obtain b r0 aid r1 ctl r2 md r3 ins r4 outs where
    rb: "readByte r = Inr (b, r0)" and
    a: "readOpt (b AND word_of_nat MASK_ASSET_ID \<noteq> 0) AssetId_fromReader r0 = Inr (aid, r1)" and
    c: "readOpt (b AND word_of_nat MASK_CONTROL_ASSET \<noteq> 0) AssetRef_fromReader r1 = Inr (ctl, r2)" and
    m: "readOpt (b AND word_of_nat MASK_METADATA \<noteq> 0) MetadataList_fromReader r2 = Inr (md, r3)" and
    i: "AssetInputs_fromReader r3 = Inr (ins, r4)" and
    out: "AssetOutputs_fromReader r4 = Inr (outs, r')" and
    g: "g = \<lparr>ag_assetId = aid, ag_controlAsset = ctl, ag_inputs = ins, ag_outputs = outs,
             ag_metadata = case_option [] id md\<rparr>" and
    v: "AssetGroup_validate g = Inr ()"
    using assms(2) by (auto simp: AssetGroup_fromReader_def Let_def)
  have m0: "moves r r0" using assms(1) rb by (rule readByte_moves)
  note o1 = asset_id.readOpt_ok [OF moves_wf [OF m0] a]
  have m1: "moves r r1" using m0 o1 by (auto intro: moves_trans)
  note o2 = asset_ref.readOpt_ok [OF moves_wf [OF m1] c]
  have m2: "moves r r2" using m1 o2 by (auto intro: moves_trans)
  note o3 = metadata_list.readOpt_ok [OF moves_wf [OF m2] m]
  have m3: "moves r r3" using m2 o3 by (auto intro: moves_trans)
  have m4: "moves r r4" using moves_trans [OF m3 asset_inputs.dec_moves [OF moves_wf [OF m3] i]] .
  show "moves r r'" using moves_trans [OF m4 asset_outputs.dec_moves [OF moves_wf [OF m4] out]] .
  have "MetadataList_ok (case_option [] id md)"
    using o3 by (cases md) (auto simp: MetadataList_ok_def)
  then show "AssetGroup_ok g"
    using o1 o2 v asset_inputs.dec_ok [OF moves_wf [OF m3] i] asset_outputs.dec_ok [OF moves_wf [OF m4] out]
    by (simp add: AssetGroup_ok_def g)
qed

interpretation asset_group: strict_codec AssetGroup_serializeTo AssetGroup_fromReader AssetGroup_wire AssetGroup_ok
  by unfold_locales (auto intro: AssetGroup_enc_wire [OF AssetGroup_ok_items] AssetGroup_dec_wire
    AssetGroup_fromReaderE)

interpretation asset_groups: strict_codec "writeCounted AssetGroup_serializeTo"
  "readCounted AssetGroup_fromReader" "counted_wire AssetGroup_wire" "\<lambda>gs. \<forall>g \<in> set gs. AssetGroup_ok g"
  by (rule asset_group.counted_strict)

section \<open>Properties\<close>

text \<open>A group that passes \<open>AssetGroup.validate\<close> although two of its inputs name the same input of the
  transaction.\<close>

definition sample_dup_group :: AssetGroup where
  "sample_dup_group = \<lparr>ag_assetId = Some \<lparr>aid_txid = replicate 32 7, aid_groupIndex = 1\<rparr>,
     ag_controlAsset = None, ag_inputs = [LocalInput 0 1, LocalInput 0 2], ag_outputs = [], ag_metadata = []\<rparr>"

lemma sample_dup_group_ok:
  "AssetGroup_items_ok sample_dup_group" "AssetGroup_validate sample_dup_group = Inr ()"
  "\<not> inputs_valid (ag_inputs sample_dup_group)"
  by (simp_all add: sample_dup_group_def AssetGroup_items_ok_def AssetId_ok_iff isZeroBytes_def
      u16_ok_def MetadataList_ok_def AssetInput_ok_def AssetInput_validate_def list_all_iff
      AssetGroup_validate_def isIssuance_def inputs_valid_def)

text \<open>
  What a group that passes its own validation means on the wire: it always serializes, and the
  bytes are accepted back if and only if the input and output lists are valid (one input type, no
  duplicate index, positive output amounts). \<open>AssetGroup.validate\<close> itself does not look at them.
\<close>

lemma AssetGroup_readable_iff:
  assumes "AssetGroup_items_ok g" and "AssetGroup_validate g = Inr ()"
  shows "\<exists>bs. AssetGroup_serialize g = Inr bs \<and>
    (AssetGroup_fromBytes bs = Inr g \<longleftrightarrow> inputs_valid (ag_inputs g) \<and> outputs_valid (ag_outputs g))"
proof -
  let ?bs = "AssetGroup_wire g"
  have ser: "AssetGroup_serialize g = Inr ?bs"
    using AssetGroup_enc_wire [OF assms(1), of "[]"] assms(2)
    by (simp add: AssetGroup_serialize_def new_writer_def)
  have ne: "?bs \<noteq> []"
    by (simp add: AssetGroup_wire_def)
  have "AssetGroup_fromBytes ?bs = Inr g \<longleftrightarrow> AssetGroup_ok g"
  proof
    assume "AssetGroup_fromBytes ?bs = Inr g"
    then show "AssetGroup_ok g"
      using ne by (auto simp: AssetGroup_fromBytes_def dest!: AssetGroup_fromReaderE(1) [OF wf_new_reader])
  next
    assume "AssetGroup_ok g"
    then show "AssetGroup_fromBytes ?bs = Inr g"
      using AssetGroup_dec_wire [of g "new_reader ?bs" "[]"] ne by (simp add: AssetGroup_fromBytes_def)
  qed
  moreover have "AssetGroup_ok g \<longleftrightarrow> inputs_valid (ag_inputs g) \<and> outputs_valid (ag_outputs g)"
    using assms by (auto simp: AssetGroup_ok_def AssetGroup_items_ok_def AssetInputs_ok_def)
  ultimately show ?thesis
    using ser by blast
qed

lemma AssetGroup_readable_iff_witness:
  "\<exists>bs. AssetGroup_serialize sample_dup_group = Inr bs \<and> AssetGroup_fromBytes bs \<noteq> Inr sample_dup_group"
  using AssetGroup_readable_iff [OF sample_dup_group_ok(1,2)] sample_dup_group_ok(3) by blast

end
