(* ===== verification/Asset_Packet.thy ===== *)
theory Asset_Packet
  imports Asset_Group
begin

text \<open>
  \<open>Packet\<close> (\<open>extension/asset/packet.ts\<close>): the list of asset groups of a transaction, with its
  cross-group validation, its raw byte form and its batch-leaf form. The round trip of the whole
  packet and the soundness of its parser are the contract that the rest of the SDK relies on.
\<close>

fun Packet_validate_loop :: "hex_encode \<Rightarrow> nat \<Rightarrow> string list \<Rightarrow> AssetGroup list \<Rightarrow> ext_err + unit" where
  "Packet_validate_loop henc n seen [] = Inr ()"
| "Packet_validate_loop henc n seen (g # gs) =
     r_bind
       (case ag_assetId g of
          None \<Rightarrow> Inr seen
        | Some a \<Rightarrow> r_bind (AssetId_toString henc a) (\<lambda>key.
            if key \<in> set seen then Inl (PacketE (DuplicateAssetGroup key)) else Inr (key # seen)))
       (\<lambda>seen'.
          case ag_controlAsset g of
            Some (ByGroup ix) \<Rightarrow>
              if ix \<ge> int n then Inl (PacketE (InvalidControlIndex ix n))
              else Packet_validate_loop henc n seen' gs
          | _ \<Rightarrow> Packet_validate_loop henc n seen' gs)"

definition Packet_validate :: "hex_encode \<Rightarrow> AssetGroup list \<Rightarrow> ext_err + unit" where
  "Packet_validate henc groups =
     (if groups = [] then Inl (PacketE MissingAssets)
      else Packet_validate_loop henc (length groups) [] groups)"

definition Packet_create :: "hex_encode \<Rightarrow> AssetGroup list \<Rightarrow> ext_err + AssetGroup list" where
  "Packet_create henc groups = r_bind (Packet_validate henc groups) (\<lambda>_. Inr groups)"

definition Packet_fromReader :: "hex_encode \<Rightarrow> reader \<Rightarrow> ext_err + AssetGroup list" where
  "Packet_fromReader henc r =
     r_bind (readCounted AssetGroup_fromReader r) (\<lambda>(groups, r').
       if remaining r' > 0 then Inl (PacketE (InvalidPacketLength (remaining r')))
       else r_bind (Packet_validate henc groups) (\<lambda>_. Inr groups))"

definition Packet_fromBytes :: "hex_encode \<Rightarrow> bytes \<Rightarrow> ext_err + AssetGroup list" where
  "Packet_fromBytes henc buf = Packet_fromReader henc (new_reader buf)"

definition Packet_fromString :: "hex_encode \<Rightarrow> hex_decode \<Rightarrow> string \<Rightarrow> ext_err + AssetGroup list" where
  "Packet_fromString henc hdec s =
     (if s = [] then Inl (PacketE MissingPacketHex)
      else case hdec s of
        None \<Rightarrow> Inl (PacketE InvalidPacketFormat)
      | Some buf \<Rightarrow> Packet_fromBytes henc buf)"

definition Packet_serialize :: "AssetGroup list \<Rightarrow> ext_err + bytes" where
  "Packet_serialize groups =
     (if groups = [] then Inr [] else writeCounted AssetGroup_serializeTo groups new_writer)"

definition leafTxPacket :: "hex_encode \<Rightarrow> hex_decode \<Rightarrow> bytes \<Rightarrow> AssetGroup list \<Rightarrow> ext_err + AssetGroup list" where
  "leafTxPacket henc hdec intentTxid groups = r_map (toBatchLeafAssetGroup henc hdec intentTxid) groups"

definition Packet_ok :: "hex_encode \<Rightarrow> AssetGroup list \<Rightarrow> bool" where
  "Packet_ok henc groups \<longleftrightarrow> (\<forall>g \<in> set groups. AssetGroup_ok g) \<and> Packet_validate henc groups = Inr ()"

section \<open>Validation\<close>

text \<open>The asset ids of the groups that are not issuances, and the groups an issuance points at.\<close>

fun group_ids :: "AssetGroup list \<Rightarrow> AssetId list" where
  "group_ids [] = []"
| "group_ids (g # gs) = (case ag_assetId g of None \<Rightarrow> group_ids gs | Some a \<Rightarrow> a # group_ids gs)"

definition control_in_range :: "nat \<Rightarrow> AssetGroup \<Rightarrow> bool" where
  "control_in_range n g \<longleftrightarrow> (\<forall>ix. ag_controlAsset g = Some (ByGroup ix) \<longrightarrow> ix < int n)"

lemma set_group_ids: "a \<in> set (group_ids gs) \<longleftrightarrow> (\<exists>g \<in> set gs. ag_assetId g = Some a)"
  by (induction gs) (auto split: option.splits)

lemma Packet_validate_loop_iff:
  assumes "\<forall>a \<in> set (group_ids gs). AssetId_toString henc a = Inr (key a)"
  shows "Packet_validate_loop henc n seen gs = Inr () \<longleftrightarrow>
    distinct (map key (group_ids gs)) \<and> set (map key (group_ids gs)) \<inter> set seen = {} \<and>
    (\<forall>g \<in> set gs. control_in_range n g)"
  using assms
proof (induction gs arbitrary: seen)
  case Nil
  then show ?case by simp
next
  case (Cons g gs)
  have ctl: "(case ag_controlAsset g of
        Some (ByGroup ix) \<Rightarrow> if ix \<ge> int n then Inl (PacketE (InvalidControlIndex ix n)) else m
      | _ \<Rightarrow> m) = Inr () \<longleftrightarrow> control_in_range n g \<and> m = Inr ()" for m
    by (auto simp: control_in_range_def split: option.splits AssetRef.splits)
  show ?case
  proof (cases "ag_assetId g")
    case None
    with Cons show ?thesis
      by (auto simp: ctl)
  next
    case (Some a)
    with Cons.prems have "AssetId_toString henc a = Inr (key a)"
      by simp
    with Cons Some show ?thesis
      by (auto simp: ctl)
  qed
qed

lemma Packet_validate_iff:
  assumes "hex_laws henc hdec" and "\<forall>g \<in> set gs. AssetGroup_ok g"
  shows "Packet_validate henc gs = Inr () \<longleftrightarrow>
    gs \<noteq> [] \<and> distinct (group_ids gs) \<and> (\<forall>g \<in> set gs. control_in_range (length gs) g)"
proof -
  have ids: "\<forall>a \<in> set (group_ids gs). AssetId_ok a"
    using assms(2) by (fastforce simp: set_group_ids AssetGroup_ok_def)
  then have key: "\<forall>a \<in> set (group_ids gs). AssetId_toString henc a = Inr (henc (AssetId_wire a))"
    using AssetId_bytes_roundtrip by (auto simp: AssetId_toString_def)
  have "inj_on (\<lambda>a. henc (AssetId_wire a)) (set (group_ids gs))"
    using ids key AssetId_toString_inj [OF assms(1)] by (intro inj_onI) simp
  then have "distinct (map (\<lambda>a. henc (AssetId_wire a)) (group_ids gs)) \<longleftrightarrow> distinct (group_ids gs)"
    by (simp add: distinct_map)
  then show ?thesis
    using Packet_validate_loop_iff [OF key] by (auto simp: Packet_validate_def)
qed

section \<open>Round trip\<close>

lemma Packet_roundtrip_wire:
  assumes "Packet_ok henc gs"
  shows "Packet_serialize gs = Inr (counted_wire AssetGroup_wire gs)"
    and "Packet_fromBytes henc (counted_wire AssetGroup_wire gs) = Inr gs"
proof -
  have ok: "\<forall>g \<in> set gs. AssetGroup_ok g" and v: "Packet_validate henc gs = Inr ()"
    using assms by (auto simp: Packet_ok_def)
  have ne: "gs \<noteq> []"
    using v by (auto simp: Packet_validate_def)
  show "Packet_serialize gs = Inr (counted_wire AssetGroup_wire gs)"
    using ne asset_groups.enc_wire [OF ok, of "[]"] by (simp add: Packet_serialize_def new_writer_def)
  let ?r = "new_reader (counted_wire AssetGroup_wire gs)"
  have "readCounted AssetGroup_fromReader ?r =
      Inr (gs, advance (length (counted_wire AssetGroup_wire gs)) ?r)"
    by (rule asset_groups.dec_wire [OF ok, of _ "[]"]) auto
  then show "Packet_fromBytes henc (counted_wire AssetGroup_wire gs) = Inr gs"
    using v by (simp add: Packet_fromBytes_def Packet_fromReader_def length_rest [symmetric])
qed

lemma Packet_fromBytes_ok: "Packet_fromBytes henc bs = Inr gs \<Longrightarrow> Packet_ok henc gs"
  using asset_groups.dec_ok [OF wf_new_reader]
  by (auto simp: Packet_fromBytes_def Packet_fromReader_def Packet_ok_def split: if_splits)

section \<open>Properties\<close>

text \<open>A small packet and a reference hexadecimal key for the witnesses: the key is the byte list
  itself, read as characters.\<close>

definition key_of_bytes :: hex_encode where
  "key_of_bytes bs = map (\<lambda>b. char_of (unat b)) bs"

definition bytes_of_key :: hex_decode where
  "bytes_of_key s = Some (map (\<lambda>c. word_of_nat (of_char c)) s)"

lemma bytes_of_key_of_bytes: "hex_laws key_of_bytes bytes_of_key"
proof -
  have "word_of_nat (of_char (char_of (unat x) :: char)) = x" for x :: byte
    using unat_byte_less [of x] by simp
  then show ?thesis
    by (simp add: hex_laws_def key_of_bytes_def bytes_of_key_def comp_def)
qed

definition sample_id :: AssetId where
  "sample_id = \<lparr>aid_txid = replicate 32 7, aid_groupIndex = 1\<rparr>"

definition sample_transfer :: AssetGroup where
  "sample_transfer = \<lparr>ag_assetId = Some sample_id, ag_controlAsset = None,
     ag_inputs = [LocalInput 0 300, LocalInput 2 5], ag_outputs = [\<lparr>out_vout = 1, out_amount = 305\<rparr>],
     ag_metadata = []\<rparr>"

definition sample_issuance :: AssetGroup where
  "sample_issuance = \<lparr>ag_assetId = None, ag_controlAsset = Some (ByGroup 0),
     ag_inputs = [], ag_outputs = [\<lparr>out_vout = 0, out_amount = 1000\<rparr>],
     ag_metadata = [\<lparr>md_key = [1], md_value = [2, 3]\<rparr>]\<rparr>"

lemmas group_ok_defs = AssetGroup_ok_def AssetId_ok_iff isZeroBytes_def u16_ok_def MetadataList_ok_def
  Metadata_ok_def Metadata_validate_def AssetInputs_ok_def inputs_valid_def AssetInput_ok_def
  AssetInput_validate_def outputs_valid_def AssetGroup_validate_def isIssuance_def

lemma sample_groups_ok: "AssetGroup_ok sample_transfer" "AssetGroup_ok sample_issuance"
  by (simp_all add: sample_transfer_def sample_issuance_def sample_id_def group_ok_defs list_all_iff)

lemma sample_packet_ok: "Packet_ok key_of_bytes [sample_transfer, sample_issuance]"
proof -
  have ok: "\<forall>g \<in> set [sample_transfer, sample_issuance]. AssetGroup_ok g"
    using sample_groups_ok by simp
  have "group_ids [sample_transfer, sample_issuance] = [sample_id]"
    and "\<forall>g \<in> set [sample_transfer, sample_issuance]. control_in_range 2 g"
    by (simp_all add: sample_transfer_def sample_issuance_def control_in_range_def)
  then have "Packet_validate key_of_bytes [sample_transfer, sample_issuance] = Inr ()"
    using Packet_validate_iff [OF bytes_of_key_of_bytes ok] by (simp add: numeral_2_eq_2)
  with ok show ?thesis
    by (simp add: Packet_ok_def)
qed

text \<open>
  C7. Round trip of asset packets: a packet whose groups are well formed and which passes
  \<open>Packet.validate\<close> serializes without an error, and parsing the bytes gives back the packet, group
  by group and field by field.
\<close>

theorem packet_roundtrip:
  assumes "Packet_ok henc gs"
  shows "\<exists>bs. Packet_serialize gs = Inr bs \<and> Packet_fromBytes henc bs = Inr gs"
  using Packet_roundtrip_wire [OF assms] by blast

theorem packet_roundtrip_witness:
  "\<exists>bs. Packet_serialize [sample_transfer, sample_issuance] = Inr bs \<and>
    Packet_fromBytes key_of_bytes bs = Inr [sample_transfer, sample_issuance]"
  by (rule packet_roundtrip [OF sample_packet_ok])

text \<open>
  C9. Soundness of the packet parser: whatever bytes it accepts, the packet it returns is non-empty,
  has no two groups for one asset, no control reference outside the packet, only valid groups, and
  it can be serialized and parsed again to the same packet.
\<close>

theorem packet_parse_sound:
  assumes "hex_laws henc hdec" and "Packet_fromBytes henc bs = Inr gs"
  shows "gs \<noteq> [] \<and> distinct (group_ids gs) \<and> list_all (control_in_range (length gs)) gs \<and>
    list_all AssetGroup_ok gs \<and>
    (\<exists>bs'. Packet_serialize gs = Inr bs' \<and> Packet_fromBytes henc bs' = Inr gs)"
proof -
  have ok: "Packet_ok henc gs"
    using assms(2) by (rule Packet_fromBytes_ok)
  then have "\<forall>g \<in> set gs. AssetGroup_ok g" "Packet_validate henc gs = Inr ()"
    by (simp_all add: Packet_ok_def)
  with Packet_validate_iff [OF assms(1)] Packet_roundtrip_wire [OF ok] show ?thesis
    by (auto simp: list_all_iff)
qed

theorem packet_parse_sound_witness:
  "distinct (group_ids [sample_transfer, sample_issuance]) \<and>
    list_all AssetGroup_ok [sample_transfer, sample_issuance]"
  using packet_parse_sound [OF bytes_of_key_of_bytes Packet_roundtrip_wire(2) [OF sample_packet_ok]]
  by blast

text \<open>
  No amplification: a packet that parses has at most as many groups as the input has bytes, so a
  forged count is answered by an error and not by an allocation.
\<close>

lemma packet_count_bounded:
  assumes "Packet_fromBytes henc bs = Inr gs"
  shows "length gs < length bs"
proof -
  obtain n r1 r2 where n: "readVarUint (new_reader bs) = Inr (n, r1)"
    and m: "readMany AssetGroup_fromReader n r1 = Inr (gs, r2)"
    using assms by (auto simp: Packet_fromBytes_def Packet_fromReader_def readCounted_def split: if_splits)
  have mv: "moves (new_reader bs) r1"
    using wf_new_reader n by (rule readVarUint_moves)
  then have wf: "wf_reader r1" and v: "0 < offset r1" "view r1 = bs"
    by (auto simp: moves_def advance_def new_reader_def)
  have r2: "(r2 = r1 \<or> moves r1 r2) \<and> wf_reader r2" and len: "length gs = n" and "offset r1 + n \<le> offset r2"
    using asset_group.readMany_moves [OF wf m] asset_group.readMany_ok [OF wf m]
      asset_group.readMany_bound [OF wf m] by auto
  moreover have "view r2 = bs"
    using r2 v by (auto simp: moves_def advance_def)
  ultimately show ?thesis
    using v by (auto simp: wf_reader_def)
qed

lemma packet_count_bounded_witness:
  "length [sample_transfer, sample_issuance] < length (counted_wire AssetGroup_wire [sample_transfer, sample_issuance])"
  by (rule packet_count_bounded [OF Packet_roundtrip_wire(2) [OF sample_packet_ok]])

text \<open>The validation of a packet depends on the ids and control references alone.\<close>

lemma Packet_validate_loop_leaf:
  "Packet_validate_loop henc n seen (map (\<lambda>g. g\<lparr>ag_inputs := is\<rparr>) gs) = Packet_validate_loop henc n seen gs"
  by (induction gs arbitrary: seen) (auto split: option.splits AssetRef.splits intro!: r_bind_cong)

lemma leafTxPacket_eq:
  assumes "hex_laws henc hdec" and "length txid = 32" and "\<not> isZeroBytes txid"
  shows "leafTxPacket henc hdec txid gs = Inr (map (\<lambda>g. g\<lparr>ag_inputs := [IntentInput txid 0 0]\<rparr>) gs)"
proof -
  have "henc txid \<noteq> []" "hdec (henc txid) = Some txid"
    using assms by (auto simp: hex_laws_def)
  then have "AssetInput_createIntent hdec (henc txid) 0 0 = Inr (IntentInput txid 0 0)"
    using assms(2,3) by (simp add: AssetInput_createIntent_def AssetInput_validate_def TX_HASH_SIZE_def)
  then show ?thesis
    unfolding leafTxPacket_def by (intro r_map_all) (simp add: toBatchLeafAssetGroup_def)
qed

text \<open>
  C29. The batch-leaf form of a packet: for a valid packet and an intent txid, \<open>leafTxPacket\<close> succeeds
  and serializes, and the bytes parse back to it exactly when the packet has no issuance group. An
  issuance keeps its missing asset id but gains an intent input, which the parser refuses.
\<close>

theorem leaf_packet_readable_iff:
  assumes "hex_laws henc hdec" and "Packet_ok henc gs"
    and "length txid = 32" and "\<not> isZeroBytes txid"
  shows "\<exists>leaves bs. leafTxPacket henc hdec txid gs = Inr leaves \<and> Packet_serialize leaves = Inr bs \<and>
    (Packet_fromBytes henc bs = Inr leaves \<longleftrightarrow> \<not> list_ex isIssuance gs)"
proof -
  let ?i = "IntentInput txid 0 0"
  let ?leaves = "map (\<lambda>g. g\<lparr>ag_inputs := [?i]\<rparr>) gs"
  let ?bs = "counted_wire AssetGroup_wire ?leaves"
  have i: "AssetInput_ok ?i"
    using assms(3,4) by (simp add: AssetInput_ok_def u16_ok_def AssetInput_validate_def TX_HASH_SIZE_def)
  have gs: "\<forall>g \<in> set gs. AssetGroup_ok g" "gs \<noteq> []" and v: "Packet_validate henc ?leaves = Inr ()"
    using assms(2) by (auto simp: Packet_ok_def Packet_validate_def Packet_validate_loop_leaf)
  then have items: "\<forall>g \<in> set ?leaves. AssetGroup_items_ok g"
    using i AssetGroup_ok_items by (auto simp: AssetGroup_items_ok_def)
  have ser: "Packet_serialize ?leaves = Inr ?bs"
  proof -
    have "writeAll AssetGroup_serializeTo ls w = Inr (w @ concat (map AssetGroup_wire ls))"
      if "\<forall>g \<in> set ls. AssetGroup_items_ok g" for ls w
      using that by (induction ls arbitrary: w) (auto simp: AssetGroup_enc_wire)
    with items gs(2) show ?thesis
      by (simp add: Packet_serialize_def writeCounted_def writeVarUint_nat counted_wire_def new_writer_def)
  qed
  have leaf: "AssetGroup_ok (g\<lparr>ag_inputs := [?i]\<rparr>) \<longleftrightarrow> \<not> isIssuance g" if "AssetGroup_ok g" for g
    using that i by (auto simp: AssetGroup_ok_def AssetGroup_validate_def isIssuance_def
        AssetInputs_ok_def inputs_valid_def AssetInput_ok_def split: if_splits)
  have "Packet_fromBytes henc ?bs = Inr ?leaves \<longleftrightarrow> (\<forall>g \<in> set gs. \<not> isIssuance g)"
  proof
    assume "Packet_fromBytes henc ?bs = Inr ?leaves"
    then show "\<forall>g \<in> set gs. \<not> isIssuance g"
      using Packet_fromBytes_ok [of henc ?bs ?leaves] leaf gs(1) by (auto simp: Packet_ok_def)
  next
    assume "\<forall>g \<in> set gs. \<not> isIssuance g"
    then have "Packet_ok henc ?leaves"
      using leaf gs(1) v by (auto simp: Packet_ok_def)
    then show "Packet_fromBytes henc ?bs = Inr ?leaves"
      by (rule Packet_roundtrip_wire(2))
  qed
  then show ?thesis
    using leafTxPacket_eq [OF assms(1,3,4)] ser by (auto simp: list_ex_iff)
qed

theorem leaf_packet_readable_iff_witness:
  "\<exists>leaves bs. leafTxPacket key_of_bytes bytes_of_key (replicate 32 9) [sample_transfer, sample_issuance]
      = Inr leaves \<and> Packet_serialize leaves = Inr bs \<and> Packet_fromBytes key_of_bytes bs \<noteq> Inr leaves"
proof -
  have "\<not> isZeroBytes (replicate 32 (9 :: byte))"
    by (simp add: isZeroBytes_def list_all_iff)
  moreover have "list_ex isIssuance [sample_transfer, sample_issuance]"
    by (simp add: sample_issuance_def isIssuance_def)
  ultimately show ?thesis
    using leaf_packet_readable_iff [OF bytes_of_key_of_bytes sample_packet_ok, of "replicate 32 9"]
    by fastforce
qed

end
