(* ===== verification/Emulator_Packet.thy ===== *)
theory Emulator_Packet
  imports Codec
begin

text \<open>
  \<open>EmulatorPacket\<close> (\<open>extension/emulator/packet.ts\<close>): the arkade script and witness of transaction
  inputs, with CompactSize length fields. A missing witness is written as an empty one, so it is
  read back as an empty witness (\<open>normal_entry\<close>).
\<close>

record EmulatorEntry =
  ee_vin :: int
  ee_script :: bytes
  ee_witness :: "bytes option"

fun empty_script_check :: "EmulatorEntry list \<Rightarrow> ext_err + unit" where
  "empty_script_check [] = Inr ()"
| "empty_script_check (e # es) =
     (if length (ee_script e) = 0 then Inl (EmulatorE (EmptyScript (ee_vin e)))
      else empty_script_check es)"

definition EmulatorPacket_create :: "EmulatorEntry list \<Rightarrow> ext_err + EmulatorEntry list" where
  "EmulatorPacket_create entries =
     (if length entries = 0 then Inl (EmulatorE EmptyEmulatorPacket)
      else r_bind (empty_script_check entries) (\<lambda>_.
        case first_dup ee_vin [] entries of
          Some e \<Rightarrow> Inl (EmulatorE (DuplicateVin (ee_vin e)))
        | None \<Rightarrow> Inr entries))"

definition entry_fromReader :: "reader \<Rightarrow> ext_err + EmulatorEntry \<times> reader" where
  "entry_fromReader r =
     r_bind (readUint16LE r) (\<lambda>(vin, r1).
     r_bind (readCompactSlice r1) (\<lambda>(script, r2).
     r_bind (readCompactSlice r2) (\<lambda>(witness, r3).
     Inr (\<lparr>ee_vin = vin, ee_script = script, ee_witness = Some witness\<rparr>, r3))))"

definition EmulatorPacket_fromBytes :: "bytes \<Rightarrow> ext_err + EmulatorEntry list" where
  "EmulatorPacket_fromBytes data =
     r_bind (readCompactSize (new_reader data)) (\<lambda>(entryCount, r1).
     r_bind (readMany entry_fromReader entryCount r1) (\<lambda>(entries, r2).
       if remaining r2 > 0 then Inl (EmulatorE (TrailingBytes (remaining r2)))
       else EmulatorPacket_create entries))"

definition entry_serializeTo :: "EmulatorEntry \<Rightarrow> writer \<Rightarrow> ext_err + writer" where
  "entry_serializeTo e w =
     r_bind (writeCompactSlice (ee_script e) (writeUint16LE (ee_vin e) w)) (\<lambda>w1.
     writeCompactSlice (case ee_witness e of Some x \<Rightarrow> x | None \<Rightarrow> []) w1)"

definition EmulatorPacket_serialize :: "EmulatorEntry list \<Rightarrow> ext_err + bytes" where
  "EmulatorPacket_serialize entries =
     r_bind (writeCompactSize (length entries) new_writer) (\<lambda>w. writeAll entry_serializeTo entries w)"

section \<open>Entries as a codec\<close>

definition witness_bytes :: "EmulatorEntry \<Rightarrow> bytes" where
  "witness_bytes e = (case ee_witness e of Some x \<Rightarrow> x | None \<Rightarrow> [])"

definition normal_entry :: "EmulatorEntry \<Rightarrow> EmulatorEntry" where
  "normal_entry e = e\<lparr>ee_witness := Some (witness_bytes e)\<rparr>"

definition entry_fits :: "EmulatorEntry \<Rightarrow> bool" where
  "entry_fits e \<longleftrightarrow> u16_ok (ee_vin e) \<and> compact_slice_ok (ee_script e) \<and> compact_slice_ok (witness_bytes e)"

definition entry_ok :: "EmulatorEntry \<Rightarrow> bool" where
  "entry_ok e \<longleftrightarrow> entry_fits e \<and> ee_witness e \<noteq> None"

definition entry_wire :: "EmulatorEntry \<Rightarrow> bytes" where
  "entry_wire e = uint16LE (ee_vin e) @ compact_slice_wire (ee_script e) @ compact_slice_wire (witness_bytes e)"

lemma entry_enc_wire: "entry_fits e \<Longrightarrow> entry_serializeTo e w = Inr (w @ entry_wire e)"
  by (simp add: entry_serializeTo_def entry_fits_def compact_slice.enc_wire writeUint16LE_def
      write_bytes_def entry_wire_def witness_bytes_def [symmetric])

interpretation emulator_entry: strict_codec entry_serializeTo entry_fromReader entry_wire entry_ok
proof (unfold_locales, goal_cases)
  case (1 e w)
  then show ?case
    by (simp add: entry_ok_def entry_enc_wire)
next
  case (2 e r t)
  have ok: "u16_ok (ee_vin e)" "compact_slice_ok (ee_script e)" "compact_slice_ok (witness_bytes e)"
    and w: "ee_witness e = Some (witness_bytes e)"
    using 2(1) by (auto simp: entry_ok_def entry_fits_def witness_bytes_def)
  note s1 = u16.dec_wire_step [OF ok(1) 2(2) 2(3) [unfolded entry_wire_def append_assoc]]
  note s2 = compact_slice.dec_wire_step [OF ok(2) s1(2,3)]
  note s3 = compact_slice.dec_wire_step [OF ok(3) s2(2,3)]
  have e: "\<lparr>ee_vin = ee_vin e, ee_script = ee_script e, ee_witness = Some (witness_bytes e)\<rparr> = e"
    using w by (cases e) simp
  show ?case
    unfolding entry_fromReader_def s1(1) r_bind_Inr prod.case s2(1) s3(1) e
    by (simp add: entry_wire_def add.assoc)
next
  case (3 r e r')
  then obtain vin r1 s r2 w where u: "readUint16LE r = Inr (vin, r1)"
    and s: "readCompactSlice r1 = Inr (s, r2)" and w: "readCompactSlice r2 = Inr (w, r')"
    and e: "e = \<lparr>ee_vin = vin, ee_script = s, ee_witness = Some w\<rparr>"
    by (auto simp: entry_fromReader_def)
  have wf1: "wf_reader r1" using u16.dec_moves [OF 3(1) u] by (rule moves_wf)
  have wf2: "wf_reader r2" using compact_slice.dec_moves [OF wf1 s] by (rule moves_wf)
  show ?case
    using u16.dec_ok [OF 3(1) u] compact_slice.dec_ok [OF wf1 s] compact_slice.dec_ok [OF wf2 w]
    by (simp add: e entry_ok_def entry_fits_def witness_bytes_def)
next
  case (4 r e r')
  then obtain vin r1 s r2 w where u: "readUint16LE r = Inr (vin, r1)"
    and s: "readCompactSlice r1 = Inr (s, r2)" and w: "readCompactSlice r2 = Inr (w, r')"
    by (auto simp: entry_fromReader_def)
  have m1: "moves r r1" using 4(1) u by (rule u16.dec_moves)
  have m2: "moves r r2" using m1 compact_slice.dec_moves [OF moves_wf [OF m1] s] by (rule moves_trans)
  show ?case using m2 compact_slice.dec_moves [OF moves_wf [OF m2] w] by (rule moves_trans)
qed

section \<open>The packet\<close>

definition EmulatorPacket_ok :: "EmulatorEntry list \<Rightarrow> bool" where
  "EmulatorPacket_ok es \<longleftrightarrow> (\<forall>e \<in> set es. entry_ok e) \<and> EmulatorPacket_create es = Inr es \<and> compact_ok (length es)"

definition EmulatorPacket_wire :: "EmulatorEntry list \<Rightarrow> bytes" where
  "EmulatorPacket_wire es = compact_wire (length es) @ concat (map entry_wire es)"

lemma empty_script_check_iff: "empty_script_check es = Inr () \<longleftrightarrow> (\<forall>e \<in> set es. ee_script e \<noteq> [])"
  by (induction es) auto

lemma EmulatorPacket_create_iff:
  "EmulatorPacket_create es = Inr es' \<longleftrightarrow>
    es' = es \<and> es \<noteq> [] \<and> (\<forall>e \<in> set es. ee_script e \<noteq> []) \<and> distinct (map ee_vin es)"
  by (auto simp: EmulatorPacket_create_def r_bind_eq_Inr empty_script_check_iff
      first_dup_None split: option.splits)
    (metis first_dup_None inf_bot_right list.set(1) option.distinct(1))+

lemma EmulatorPacket_roundtrip_wire:
  assumes "EmulatorPacket_ok es"
  shows "EmulatorPacket_serialize es = Inr (EmulatorPacket_wire es)"
    and "EmulatorPacket_fromBytes (EmulatorPacket_wire es) = Inr es"
proof -
  have ok: "\<forall>e \<in> set es. entry_ok e" "compact_ok (length es)" and cr: "EmulatorPacket_create es = Inr es"
    using assms by (auto simp: EmulatorPacket_ok_def)
  show "EmulatorPacket_serialize es = Inr (EmulatorPacket_wire es)"
    by (simp add: EmulatorPacket_serialize_def EmulatorPacket_wire_def new_writer_def
        compact.enc_wire [OF ok(2)] emulator_entry.writeAll_wire [OF ok(1)])
  let ?bs = "EmulatorPacket_wire es"
  have r0: "rest (new_reader ?bs) = compact_wire (length es) @ concat (map entry_wire es)"
    by (simp add: EmulatorPacket_wire_def)
  note s1 = compact.dec_wire_step [OF ok(2) wf_new_reader r0]
  have s2: "readMany entry_fromReader (length es) (advance (length (compact_wire (length es))) (new_reader ?bs))
      = Inr (es, advance (length (concat (map entry_wire es)))
          (advance (length (compact_wire (length es))) (new_reader ?bs)))"
    using s1(3) by (intro emulator_entry.readMany_wire [OF ok(1) s1(2), of "[]"]) simp
  have "remaining (advance (length (concat (map entry_wire es)))
      (advance (length (compact_wire (length es))) (new_reader ?bs))) = 0"
    by (simp add: length_rest [symmetric] EmulatorPacket_wire_def)
  then show "EmulatorPacket_fromBytes ?bs = Inr es"
    by (simp only: EmulatorPacket_fromBytes_def s1(1) s2 r_bind_Inr prod.case cr) simp
qed

lemma EmulatorPacket_fromBytes_ok:
  assumes "EmulatorPacket_fromBytes data = Inr es"
  shows "EmulatorPacket_ok es"
proof -
  obtain n r1 es' r2 where n: "readCompactSize (new_reader data) = Inr (n, r1)"
    and m: "readMany entry_fromReader n r1 = Inr (es', r2)" and c: "EmulatorPacket_create es' = Inr es"
    using assms by (auto simp: EmulatorPacket_fromBytes_def split: if_splits)
  have "wf_reader r1"
    using compact.dec_moves [OF wf_new_reader n] by (rule moves_wf)
  then have "length es' = n" "\<forall>e \<in> set es'. entry_ok e"
    using emulator_entry.readMany_ok m by blast+
  moreover have "es' = es"
    using c by (simp add: EmulatorPacket_create_iff)
  moreover have "compact_ok n"
    using compact.dec_ok [OF wf_new_reader n] .
  ultimately show ?thesis
    using c by (simp add: EmulatorPacket_ok_def)
qed

section \<open>Properties\<close>

lemma EmulatorPacket_create_normal:
  "EmulatorPacket_create es = Inr es \<Longrightarrow>
    EmulatorPacket_create (map normal_entry es) = Inr (map normal_entry es)"
  by (auto simp: EmulatorPacket_create_iff normal_entry_def comp_def)

text \<open>
  Round trip of emulator packets: entries that fit their wire fields and pass
  \<open>EmulatorPacket.create\<close> serialize, and parsing gives them back with every missing witness replaced
  by the empty one; nothing else changes.
\<close>

lemma emulator_packet_roundtrip:
  assumes "EmulatorPacket_create es = Inr es" and "list_all entry_fits es" and "length es < 2 ^ 32"
  shows "\<exists>bs. EmulatorPacket_serialize es = Inr bs \<and>
    EmulatorPacket_fromBytes bs = Inr (map normal_entry es)"
proof -
  have w: "entry_wire (normal_entry e) = entry_wire e" for e
    by (simp add: entry_wire_def normal_entry_def witness_bytes_def)
  have fits: "\<forall>e \<in> set es. entry_fits e"
    using assms(2) by (simp add: list_all_iff)
  have "EmulatorPacket_ok (map normal_entry es)"
    using assms fits EmulatorPacket_create_normal
    by (auto simp: EmulatorPacket_ok_def entry_ok_def entry_fits_def normal_entry_def
        witness_bytes_def compact_ok_def)
  from EmulatorPacket_roundtrip_wire [OF this]
  have "EmulatorPacket_fromBytes (EmulatorPacket_wire es) = Inr (map normal_entry es)"
    by (simp add: EmulatorPacket_wire_def w comp_def)
  moreover have "writeAll entry_serializeTo es w = Inr (w @ concat (map entry_wire es))" for w
    using fits by (induction es arbitrary: w) (auto simp: entry_enc_wire)
  then have "EmulatorPacket_serialize es = Inr (EmulatorPacket_wire es)"
    using assms(3) by (simp add: EmulatorPacket_serialize_def EmulatorPacket_wire_def new_writer_def
        compact.enc_wire compact_ok_def)
  ultimately show ?thesis by blast
qed

lemma emulator_packet_roundtrip_witness:
  "\<exists>bs. EmulatorPacket_serialize [\<lparr>ee_vin = 1, ee_script = [5], ee_witness = None\<rparr>] = Inr bs \<and>
    EmulatorPacket_fromBytes bs = Inr [\<lparr>ee_vin = 1, ee_script = [5], ee_witness = Some []\<rparr>]"
  using emulator_packet_roundtrip [of "[\<lparr>ee_vin = 1, ee_script = [5], ee_witness = None\<rparr>]"]
  by (simp add: EmulatorPacket_create_iff entry_fits_def u16_ok_def compact_slice_ok_def
      compact_ok_def witness_bytes_def normal_entry_def)

end
