(* ===== verification/Extension.thy ===== *)
theory Extension
  imports Asset_Packet Emulator_Packet
begin

text \<open>
  The extension envelope (\<open>extension/index.ts\<close>): typed packets behind the ARK magic in an OP_RETURN
  output. The writer builds the script by hand, the reader goes through \<open>Script.decode\<close> of the
  Bitcoin library, which is the argument \<open>sdec\<close> (\<open>None\<close> where it throws). What is used of it is
  \<open>decodes_op_return\<close>: an OP_RETURN followed by one data push of fewer than \<open>2 ^ 32\<close> bytes, in the
  push encoding that fits its length, decodes to those two elements.
\<close>

datatype script_elem = OpName string | PushData bytes | PushNum int

type_synonym script_decode = "bytes \<Rightarrow> script_elem list option"

datatype ExtensionPacket =
    AssetP "AssetGroup list"
  | EmulatorP "EmulatorEntry list"
  | UnknownP int bytes

definition ARKADE_MAGIC :: bytes where "ARKADE_MAGIC = [0x41, 0x52, 0x4b]"

fun packet_type :: "ExtensionPacket \<Rightarrow> int" where
  "packet_type (AssetP _) = 0"
| "packet_type (EmulatorP _) = 1"
| "packet_type (UnknownP t _) = t"

fun packet_serialize :: "ExtensionPacket \<Rightarrow> ext_err + bytes" where
  "packet_serialize (AssetP gs) = Packet_serialize gs"
| "packet_serialize (EmulatorP es) = EmulatorPacket_serialize es"
| "packet_serialize (UnknownP _ data) = Inr data"

definition parsePacket :: "hex_encode \<Rightarrow> byte \<Rightarrow> bytes \<Rightarrow> ext_err + ExtensionPacket" where
  "parsePacket henc packetType data =
     (if packetType = 0 then r_bind (Packet_fromBytes henc data) (\<lambda>p. Inr (AssetP p))
      else if packetType = 1 then r_bind (EmulatorPacket_fromBytes data) (\<lambda>p. Inr (EmulatorP p))
      else Inr (UnknownP (uint packetType) data))"

fun create_loop :: "int list \<Rightarrow> ExtensionPacket list \<Rightarrow> ext_err + unit" where
  "create_loop seen [] = Inr ()"
| "create_loop seen (p # ps) =
     (if packet_type p < 0 \<or> packet_type p > 0xff then Inl (EnvE (InvalidPacketType (packet_type p)))
      else if packet_type p \<in> set seen then Inl (EnvE (DuplicatePacketType (packet_type p)))
      else create_loop (packet_type p # seen) ps)"

definition Extension_create :: "ExtensionPacket list \<Rightarrow> ext_err + ExtensionPacket list" where
  "Extension_create packets =
     (if length packets = 0 then Inl (EnvE MissingPackets)
      else r_bind (create_loop [] packets) (\<lambda>_. Inr packets))"

definition isExtension :: "script_decode \<Rightarrow> bytes \<Rightarrow> bool" where
  "isExtension sdec script =
     (case sdec script of
        Some (OpName op # PushData data # _) \<Rightarrow>
          op = ''RETURN'' \<and> length data \<ge> length ARKADE_MAGIC \<and> take (length ARKADE_MAGIC) data = ARKADE_MAGIC
      | _ \<Rightarrow> False)"

fun pushed_data :: "script_elem \<Rightarrow> bytes option" where
  "pushed_data (PushData d) = Some d"
| "pushed_data _ = None"

lemma moves_remaining: "moves r r' \<Longrightarrow> remaining r' < remaining r"
  by (auto simp: moves_def advance_def remaining_def wf_reader_def)

text \<open>The TLV loop \<open>while (reader.remaining() > 0)\<close>.\<close>

function parse_tlv :: "hex_encode \<Rightarrow> reader \<Rightarrow> ext_err + ExtensionPacket list" where
  "parse_tlv henc r =
     (if remaining r > 0 then
        r_bind (readByte r) (\<lambda>(packetType, r1).
          case readVarSlice r1 of
            Inl _ \<Rightarrow> Inl (EnvE MissingPacketData)
          | Inr (data, r2) \<Rightarrow>
              r_bind (parsePacket henc packetType data) (\<lambda>p.
              r_bind (parse_tlv henc r2) (\<lambda>ps. Inr (p # ps))))
      else Inr [])"
  by pat_completeness auto

termination
proof (relation "measure (\<lambda>(henc, r). remaining r)", goal_cases)
  case 1
  show ?case by simp
next
  case (2 henc r q t r1 q2 data r2 p)
  have "wf_reader r"
    using 2(1) by (simp add: remaining_def wf_reader_def)
  then have "moves r r1"
    using 2(2,3) by (auto intro: readByte_moves)
  moreover from this have "moves r1 r2"
    using 2(4,5) by (auto intro: varslice.dec_moves moves_wf)
  ultimately have "remaining r2 < remaining r"
    using moves_remaining less_trans by blast
  then show ?case by simp
qed

declare parse_tlv.simps [simp del]

definition Extension_fromBytes :: "hex_encode \<Rightarrow> script_decode \<Rightarrow> bytes \<Rightarrow> ext_err + ExtensionPacket list" where
  "Extension_fromBytes henc sdec script =
     (if length script = 0 then Inl (EnvE MissingOpReturn)
      else case sdec script of
        None \<Rightarrow> Inl (EnvE ExpectedOpReturn)
      | Some decoded \<Rightarrow>
          if decoded = [] \<or> hd decoded \<noteq> OpName ''RETURN'' then Inl (EnvE ExpectedOpReturn)
          else let dataPushes = List.map_filter pushed_data (tl decoded)
               in if dataPushes = [] then Inl (EnvE MissingMagicEOF)
                  else let payload = concat dataPushes
                       in if length payload < length ARKADE_MAGIC \<or> take (length ARKADE_MAGIC) payload \<noteq> ARKADE_MAGIC
                          then Inl (EnvE (ExpectedMagic (take (min (length payload) (length ARKADE_MAGIC)) payload)))
                          else r_bind (parse_tlv henc (new_reader (drop (length ARKADE_MAGIC) payload))) (\<lambda>packets.
                            if length packets = 0 then Inl (EnvE MissingPackets)
                            else case first_dup packet_type [] packets of
                              Some p \<Rightarrow> Inl (EnvE (DuplicatePacketType (packet_type p)))
                            | None \<Rightarrow> Inr packets))"

text \<open>\<open>tx.getOutput(i)?.script\<close> over the outputs of a transaction; \<open>None\<close> where there is no script.\<close>

fun Extension_fromTx :: "hex_encode \<Rightarrow> script_decode \<Rightarrow> bytes option list \<Rightarrow> ext_err + ExtensionPacket list" where
  "Extension_fromTx henc sdec [] = Inl (EnvE ExtensionNotFound)"
| "Extension_fromTx henc sdec (out # outs) =
     (case out of
        None \<Rightarrow> Extension_fromTx henc sdec outs
      | Some script \<Rightarrow>
          if isExtension sdec script then Extension_fromBytes henc sdec script
          else Extension_fromTx henc sdec outs)"

text \<open>
  \<open>encodeVarUint\<close> works on a JavaScript number with the 32-bit operators \<open>&\<close> and \<open>>>>\<close>.
\<close>

function encodeVarUint :: "nat \<Rightarrow> bytes" where
  "encodeVarUint v =
     (let b = v AND 0x7f; v' = drop_bit 7 (v mod 2 ^ 32)
      in if v' > 0 then word_of_nat (b OR 0x80) # encodeVarUint v'
         else [word_of_nat b])"
  by pat_completeness auto
termination
proof (relation "measure id", goal_cases)
  case (2 n b n')
  then have n': "n' = n mod 2 ^ 32 div 128" "0 < n'"
    by (simp_all add: drop_bit_eq_div)
  then have "n mod 2 ^ 32 \<noteq> 0" by (metis div_0 less_numeral_extra(3))
  then have "n' < n mod 2 ^ 32"
    using n'(1) by simp
  also have "\<dots> \<le> n" by simp
  finally show ?case by simp
qed simp

declare encodeVarUint.simps [simp del]

definition buildOpReturnScript :: "bytes \<Rightarrow> bytes" where
  "buildOpReturnScript data =
     (let n = length data
      in if n \<le> 75 then 0x6a # word_of_nat n # data
         else if n \<le> 255 then 0x6a # 0x4c # word_of_nat n # data
         else if n \<le> 65535 then 0x6a # 0x4d # uint16LE (int n) @ data
         else 0x6a # 0x4e # uint32LE n @ data)"

definition tlv_record :: "ExtensionPacket \<Rightarrow> ext_err + bytes" where
  "tlv_record p = r_bind (packet_serialize p) (\<lambda>data.
     Inr (word_of_int (packet_type p) # encodeVarUint (length data) @ data))"

definition Extension_payload :: "ExtensionPacket list \<Rightarrow> ext_err + bytes" where
  "Extension_payload packets =
     r_bind (r_map tlv_record packets) (\<lambda>parts. Inr (ARKADE_MAGIC @ concat parts))"

definition Extension_serialize :: "ExtensionPacket list \<Rightarrow> ext_err + bytes" where
  "Extension_serialize packets =
     r_bind (Extension_payload packets) (\<lambda>payload. Inr (buildOpReturnScript payload))"

definition Extension_txOut :: "ExtensionPacket list \<Rightarrow> ext_err + (bytes \<times> int)" where
  "Extension_txOut packets = r_bind (Extension_serialize packets) (\<lambda>script. Inr (script, 0))"

fun getAssetPacket :: "ExtensionPacket list \<Rightarrow> AssetGroup list option" where
  "getAssetPacket [] = None"
| "getAssetPacket (p # ps) = (case p of AssetP gs \<Rightarrow> Some gs | _ \<Rightarrow> getAssetPacket ps)"

fun getEmulatorPacket :: "ExtensionPacket list \<Rightarrow> EmulatorEntry list option" where
  "getEmulatorPacket [] = None"
| "getEmulatorPacket (p # ps) = (case p of EmulatorP es \<Rightarrow> Some es | _ \<Rightarrow> getEmulatorPacket ps)"

definition getPacketByType :: "int \<Rightarrow> ExtensionPacket list \<Rightarrow> ExtensionPacket option" where
  "getPacketByType t ps = List.find (\<lambda>p. packet_type p = t) ps"

section \<open>Wire form of an extension\<close>

definition decodes_op_return :: "script_decode \<Rightarrow> bool" where
  "decodes_op_return sdec \<longleftrightarrow>
     (\<forall>data. length data < 2 ^ 32 \<longrightarrow>
        sdec (buildOpReturnScript data) = Some [OpName ''RETURN'', PushData data])"

fun packet_ok :: "hex_encode \<Rightarrow> ExtensionPacket \<Rightarrow> bool" where
  "packet_ok henc (AssetP gs) = Packet_ok henc gs"
| "packet_ok henc (EmulatorP es) = EmulatorPacket_ok es"
| "packet_ok henc (UnknownP t _) = (2 \<le> t \<and> t \<le> 0xff)"

fun packet_wire :: "ExtensionPacket \<Rightarrow> bytes" where
  "packet_wire (AssetP gs) = counted_wire AssetGroup_wire gs"
| "packet_wire (EmulatorP es) = EmulatorPacket_wire es"
| "packet_wire (UnknownP _ data) = data"

definition tlv_wire :: "ExtensionPacket \<Rightarrow> bytes" where
  "tlv_wire p = word_of_int (packet_type p) # slice_wire (packet_wire p)"

definition payload_wire :: "ExtensionPacket list \<Rightarrow> bytes" where
  "payload_wire ps = ARKADE_MAGIC @ concat (map tlv_wire ps)"

definition Extension_ok :: "hex_encode \<Rightarrow> ExtensionPacket list \<Rightarrow> bool" where
  "Extension_ok henc ps \<longleftrightarrow> ps \<noteq> [] \<and> (\<forall>p \<in> set ps. packet_ok henc p) \<and> distinct (map packet_type ps)"

lemma encodeVarUint_leb128: "n < 2 ^ 32 \<Longrightarrow> encodeVarUint n = leb128 n"
proof (induction n rule: leb128.induct)
  case (1 n)
  have mod: "n mod 2 ^ 32 = n"
    using 1(2) by simp
  show ?case
  proof (cases "n < 128")
    case True
    then show ?thesis
      unfolding encodeVarUint.simps [of n] leb128.simps [of n] mod Let_def
      by (simp add: and_0x7f drop_bit_eq_div)
  next
    case False
    moreover have "encodeVarUint (n div 128) = leb128 (n div 128)"
      using 1 False by (metis div_le_dividend le_less_trans)
    moreover have "drop_bit 7 n = n div 128" and "0 < n div 128"
      using False by (simp_all add: drop_bit_eq_div div_greater_zero_iff)
    ultimately show ?thesis
      unfolding encodeVarUint.simps [of n] leb128.simps [of n] mod Let_def
      by (simp add: and_0x7f or_0x80)
  qed
qed

lemma packet_type_range: "packet_ok henc p \<Longrightarrow> 0 \<le> packet_type p \<and> packet_type p \<le> 0xff"
  by (cases p) auto

lemma packet_serialize_wire: "packet_ok henc p \<Longrightarrow> packet_serialize p = Inr (packet_wire p)"
  by (cases p) (auto simp: Packet_roundtrip_wire EmulatorPacket_roundtrip_wire)

lemma parsePacket_wire:
  assumes "packet_ok henc p"
  shows "parsePacket henc (word_of_int (packet_type p)) (packet_wire p) = Inr p"
proof (cases p)
  case (UnknownP t d)
  then have t: "2 \<le> t" "t \<le> 255"
    using assms by auto
  have u: "uint (word_of_int t :: byte) = t"
    using t by (simp add: uint_word_of_int)
  then have "(word_of_int t :: byte) \<noteq> 0" "(word_of_int t :: byte) \<noteq> 1"
    using t by auto
  with u UnknownP show ?thesis
    by (simp add: parsePacket_def)
qed (use assms in \<open>auto simp: parsePacket_def Packet_roundtrip_wire EmulatorPacket_roundtrip_wire\<close>)

lemma parsePacket_ok: "parsePacket henc t data = Inr p \<Longrightarrow> packet_ok henc p"
proof -
  assume p: "parsePacket henc t data = Inr p"
  have "2 \<le> uint t" if "t \<noteq> 0" "t \<noteq> 1"
  proof -
    have "uint t \<noteq> 0" "uint t \<noteq> 1"
      using that by (metis uint_0_eq word_uint_eqI, metis uint_1_eq word_uint_eqI)
    moreover have "0 \<le> uint t" by simp
    ultimately show ?thesis by linarith
  qed
  moreover have "uint t < 2 ^ LENGTH(8)"
    by (rule unsigned_less)
  ultimately show ?thesis
    using p by (auto simp: parsePacket_def Packet_fromBytes_ok EmulatorPacket_fromBytes_ok
        split: if_splits)
qed

lemma tlv_record_wire:
  "packet_ok henc p \<Longrightarrow> length (packet_wire p) < 2 ^ 32 \<Longrightarrow> tlv_record p = Inr (tlv_wire p)"
  by (simp add: tlv_record_def packet_serialize_wire encodeVarUint_leb128 tlv_wire_def slice_wire_def)

lemma parse_tlv_wire:
  "\<forall>p \<in> set ps. packet_ok henc p \<Longrightarrow> wf_reader r \<Longrightarrow> rest r = concat (map tlv_wire ps) \<Longrightarrow>
    parse_tlv henc r = Inr ps"
proof (induction ps arbitrary: r)
  case Nil
  then show ?case
    by (simp add: parse_tlv.simps [of henc r] length_rest [symmetric])
next
  case (Cons p ps)
  have eq: "rest r = word_of_int (packet_type p) # (slice_wire (packet_wire p) @ concat (map tlv_wire ps))"
    using Cons.prems(3) by (simp add: tlv_wire_def [of p])
  note s1 = readByte_step [OF Cons.prems(2) eq]
  note s2 = varslice.dec_wire_step [OF TrueI s1(2,3)]
  have rem: "0 < remaining r"
    using eq by (simp add: length_rest [symmetric])
  have pp: "parsePacket henc (word_of_int (packet_type p)) (packet_wire p) = Inr p"
    using Cons.prems(1) by (intro parsePacket_wire) simp
  have "parse_tlv henc (advance (length (slice_wire (packet_wire p))) (advance 1 r)) = Inr ps"
    using Cons.prems(1) s2(2,3) by (intro Cons.IH) auto
  then show ?case
    unfolding parse_tlv.simps [of henc r] s1(1) s2(1) r_bind_Inr prod.case sum.case pp
    using rem by simp
qed

lemma parse_tlv_ok: "parse_tlv henc r = Inr ps \<Longrightarrow> \<forall>p \<in> set ps. packet_ok henc p"
proof (induction henc r arbitrary: ps rule: parse_tlv.induct)
  case (1 henc r)
  show ?case
  proof (cases "remaining r > 0")
    case True
    then obtain t r1 data r2 p qs where rb: "readByte r = Inr (t, r1)" and rs: "readVarSlice r1 = Inr (data, r2)"
      and pp: "parsePacket henc t data = Inr p" and qs: "parse_tlv henc r2 = Inr qs" "ps = p # qs"
      using 1(2) by (auto simp: parse_tlv.simps [of henc r] split: sum.splits)
    with 1(1) True have "\<forall>p \<in> set qs. packet_ok henc p"
      by blast
    with pp qs(2) show ?thesis
      by (auto intro: parsePacket_ok)
  qed (use 1(2) in \<open>simp add: parse_tlv.simps [of henc r]\<close>)
qed

lemma create_loop_iff:
  "create_loop seen ps = Inr () \<longleftrightarrow>
    (\<forall>p \<in> set ps. 0 \<le> packet_type p \<and> packet_type p \<le> 0xff) \<and> distinct (map packet_type ps) \<and>
    set (map packet_type ps) \<inter> set seen = {}"
  by (induction ps arbitrary: seen) auto

lemma Extension_payload_wire:
  assumes "Extension_ok henc ps" and "length (payload_wire ps) < 2 ^ 32"
  shows "Extension_payload ps = Inr (payload_wire ps)"
proof -
  have "length (packet_wire p) < 2 ^ 32" if "p \<in> set ps" for p
  proof -
    have "length (packet_wire p) \<le> length (tlv_wire p)"
      by (simp add: tlv_wire_def slice_wire_def)
    also have "\<dots> \<le> length (concat (map tlv_wire ps))"
      using that by (auto simp: length_concat intro: member_le_sum_list)
    also have "\<dots> \<le> length (payload_wire ps)"
      by (simp add: payload_wire_def)
    finally show ?thesis
      using assms(2) by simp
  qed
  then have "r_map tlv_record ps = Inr (map tlv_wire ps)"
    using assms(1) by (intro r_map_all tlv_record_wire) (auto simp: Extension_ok_def)
  then show ?thesis
    by (simp add: Extension_payload_def payload_wire_def)
qed

lemma buildOpReturnScript_nonempty: "buildOpReturnScript data \<noteq> []"
  by (simp add: buildOpReturnScript_def Let_def)

lemma take_magic: "take (length ARKADE_MAGIC) (payload_wire ps) = ARKADE_MAGIC"
  and drop_magic: "drop (length ARKADE_MAGIC) (payload_wire ps) = concat (map tlv_wire ps)"
  and magic_length: "length ARKADE_MAGIC \<le> length (payload_wire ps)"
    "\<not> length (payload_wire ps) < length ARKADE_MAGIC"
  by (simp_all add: payload_wire_def)

lemma Extension_roundtrip_wire:
  assumes "decodes_op_return sdec" and "Extension_ok henc ps" and "length (payload_wire ps) < 2 ^ 32"
  shows "Extension_serialize ps = Inr (buildOpReturnScript (payload_wire ps))"
    and "isExtension sdec (buildOpReturnScript (payload_wire ps))"
    and "Extension_fromBytes henc sdec (buildOpReturnScript (payload_wire ps)) = Inr ps"
proof -
  let ?s = "buildOpReturnScript (payload_wire ps)"
  show "Extension_serialize ps = Inr ?s"
    using Extension_payload_wire [OF assms(2,3)] by (simp add: Extension_serialize_def)
  have dec: "sdec ?s = Some [OpName ''RETURN'', PushData (payload_wire ps)]"
    using assms(1,3) by (simp add: decodes_op_return_def)
  then show "isExtension sdec ?s"
    using take_magic magic_length by (simp add: isExtension_def)
  have "parse_tlv henc (new_reader (concat (map tlv_wire ps))) = Inr ps"
    using assms(2) by (intro parse_tlv_wire) (auto simp: Extension_ok_def)
  moreover have "first_dup packet_type [] ps = None"
    using assms(2) by (simp add: first_dup_None Extension_ok_def)
  moreover have "ps \<noteq> []"
    using assms(2) by (simp add: Extension_ok_def)
  ultimately show "Extension_fromBytes henc sdec ?s = Inr ps"
    using take_magic drop_magic magic_length buildOpReturnScript_nonempty
    by (simp add: Extension_fromBytes_def dec List.map_filter_def Let_def)
qed

lemma Extension_fromBytes_ok:
  "Extension_fromBytes henc sdec script = Inr ps \<Longrightarrow> Extension_ok henc ps"
  by (auto simp: Extension_fromBytes_def Extension_ok_def Let_def first_dup_None
      dest: parse_tlv_ok split: if_splits option.splits)

section \<open>A decoder for the scripts the SDK writes\<close>

text \<open>The push encodings of Bitcoin script after an OP_RETURN: a concrete function that meets
  \<open>decodes_op_return\<close>.\<close>

definition decode_push :: "nat \<Rightarrow> bytes \<Rightarrow> script_elem list option" where
  "decode_push n bs = (if length bs = n then Some [OpName ''RETURN'', PushData bs] else None)"

definition op_return_decoder :: script_decode where
  "op_return_decoder script =
     (case script of
        op # b # bs \<Rightarrow>
          if op \<noteq> 0x6a then None
          else if unat b \<le> 75 then decode_push (unat b) bs
          else if b = 0x4c then (case bs of n # bs' \<Rightarrow> decode_push (unat n) bs' | _ \<Rightarrow> None)
          else if b = 0x4d then
            (case readUint16LE (new_reader bs) of
               Inr (n, _) \<Rightarrow> decode_push (nat n) (drop 2 bs) | _ \<Rightarrow> None)
          else if b = 0x4e then decode_push (le32 (take 4 bs)) (drop 4 bs)
          else None
      | _ \<Rightarrow> None)"

lemma op_return_decoder_decodes: "decodes_op_return op_return_decoder"
proof (unfold decodes_op_return_def, intro allI impI)
  fix data :: bytes
  assume len: "length data < 2 ^ 32"
  have small: "unat (word_of_nat n :: byte) = n" if "n \<le> 255" for n
    using that by (simp add: unat_of_nat)
  consider "length data \<le> 75" | "75 < length data" "length data \<le> 255"
    | "255 < length data" "length data \<le> 65535" | "65535 < length data"
    by linarith
  then show "op_return_decoder (buildOpReturnScript data) = Some [OpName ''RETURN'', PushData data]"
  proof cases
    case 3
    have "readUint16LE (new_reader (uint16LE (int (length data)) @ data)) =
        Inr (int (length data), advance 2 (new_reader (uint16LE (int (length data)) @ data)))"
      using readUint16LE_eq [of "new_reader (uint16LE (int (length data)) @ data)" "int (length data)" data] 3
      by simp
    with 3 show ?thesis
      by (simp add: buildOpReturnScript_def op_return_decoder_def decode_push_def)
  next
    case 4
    have "length (uint32LE (length data)) = 4"
      by (simp add: uint32LE_def)
    with 4 le32_uint32LE [of "length data"] len show ?thesis
      by (simp add: buildOpReturnScript_def op_return_decoder_def decode_push_def)
  qed (simp_all add: buildOpReturnScript_def op_return_decoder_def decode_push_def small)
qed

section \<open>Properties\<close>

definition sample_extension :: "ExtensionPacket list" where
  "sample_extension =
     [UnknownP 7 [1, 2], EmulatorP [\<lparr>ee_vin = 0, ee_script = [9], ee_witness = Some []\<rparr>],
      AssetP [sample_transfer, sample_issuance]]"

lemma sample_extension_ok: "Extension_ok key_of_bytes sample_extension"
  using sample_packet_ok
  by (simp add: Extension_ok_def sample_extension_def EmulatorPacket_ok_def entry_ok_def entry_fits_def
      EmulatorPacket_create_iff u16_ok_def compact_slice_ok_def compact_ok_def witness_bytes_def)

lemma leb128_small: "n < 128 \<Longrightarrow> length (leb128 n) = 1"
  by (simp add: leb128.simps [of n])

lemma sample_extension_small: "length (payload_wire sample_extension) < 2 ^ 32"
proof -
  have l: "length (leb128 n) = 1" if "n < 128" for n
    using that by (rule leb128_small)
  have m: "length (leb128 n) = 2" if "128 \<le> n" "n < 16384" for n
    using that l [of "n div 128"] by (simp add: leb128.simps [of n])
  have "length (counted_wire AssetGroup_wire [sample_transfer, sample_issuance]) < 128"
    by (simp add: counted_wire_def AssetGroup_wire_def sample_transfer_def sample_issuance_def
        sample_id_def opt_wire_def AssetId_wire_def l m md_opt_def Metadata_wire_def slice_wire_def
        AssetOutput_wire_def)
  then show ?thesis
    by (simp add: payload_wire_def ARKADE_MAGIC_def sample_extension_def tlv_wire_def slice_wire_def l
        EmulatorPacket_wire_def entry_wire_def compact_slice_wire_def compact_wire_def witness_bytes_def)
qed

text \<open>
  C12. Round trip of the extension output: packets that are valid and of distinct types serialize to
  an OP_RETURN script that \<open>isExtension\<close> recognises and \<open>fromBytes\<close> reads back to the same packets,
  in all four push encodings of the script.
\<close>

theorem extension_roundtrip:
  assumes "decodes_op_return sdec" and "Extension_ok henc ps" and "length (payload_wire ps) < 2 ^ 32"
  shows "\<exists>script. Extension_serialize ps = Inr script \<and> isExtension sdec script \<and>
    Extension_fromBytes henc sdec script = Inr ps"
  using Extension_roundtrip_wire [OF assms] by blast

theorem extension_roundtrip_witness:
  "\<exists>script. Extension_serialize sample_extension = Inr script \<and> isExtension op_return_decoder script \<and>
    Extension_fromBytes key_of_bytes op_return_decoder script = Inr sample_extension"
  by (rule extension_roundtrip [OF op_return_decoder_decodes sample_extension_ok sample_extension_small])

text \<open>
  C19. Soundness of the extension parser: an accepted script yields packets that \<open>Extension.create\<close>
  accepts as they are (non-empty, types in one byte, no type twice), each of them valid for its type.
\<close>

theorem extension_parse_sound:
  assumes "Extension_fromBytes henc sdec script = Inr ps"
  shows "Extension_create ps = Inr ps \<and> distinct (map packet_type ps) \<and> list_all (packet_ok henc) ps"
proof -
  have "Extension_ok henc ps"
    using assms by (rule Extension_fromBytes_ok)
  then show ?thesis
    using packet_type_range create_loop_iff [of "[]" ps]
    by (auto simp: Extension_ok_def Extension_create_def list_all_iff)
qed

theorem extension_parse_sound_witness: "Extension_create sample_extension = Inr sample_extension"
  using extension_parse_sound [OF Extension_roundtrip_wire(3)
      [OF op_return_decoder_decodes sample_extension_ok sample_extension_small]] by blast

end
