(* ===== verification/Vtxo.thy ===== *)
theory Vtxo
  imports Complex_Main Prelude
begin

text \<open>
  Virtual coins: the types of \<open>wallet/index.ts\<close> the wallet's logic reads, and
  \<open>wallet/vtxo.ts\<close>, which owns the canonical facts of a coin, the conversions between them and
  the legacy \<open>virtualStatus\<close> label, and the predicates that decide what a coin can be used for.

  Optional properties are options (\<open>undefined\<close> is \<open>None\<close>). A JavaScript number that may be
  fractional is a \<open>rat\<close> and a \<open>Date\<close> is its integer number of milliseconds, within the range
  a \<open>Date\<close> can hold (rounding of doubles and invalid dates are not modelled). The numeric strings
  of the wire are the numbers they denote; for \<open>expiresAt\<close>, where the code distinguishes them,
  missing, empty and non-numeric strings are cases of their own (\<open>wire_scalar\<close>).
\<close>

section \<open>Coins\<close>

record Outpoint =
  op_txid :: string
  op_vout :: int

record Asset =
  assetId :: string
  asset_amount :: int

datatype VState = Preconfirmed | Settled | Swept | Spent

record VirtualStatus =
  vs_state :: VState
  vs_commitmentTxIds :: "string list option"
  vs_batchExpiry :: "rat option"

record Status =
  confirmed :: bool
  isLeaf :: "bool option"
  block_time :: "int option"

record Expiry =
  expiresAt :: "int option"
  expiresAtHeight :: "rat option"

record VirtualCoin =
  coin_txid :: string
  coin_vout :: int
  coin_value :: int
  coin_status :: Status
  coin_createdAt :: int
  coin_script :: string
  isUnrolled :: bool
  isSpent :: "bool option"
  isSwept :: "bool option"
  isPreconfirmed :: "bool option"
  settledBy :: "string option"
  spentBy :: "string option"
  arkTxId :: "string option"
  commitmentTxIds :: "string list option"
  expiry :: Expiry
  virtualStatus :: "VirtualStatus option"
  coin_assets :: "Asset list option"

section \<open>The current moment\<close>

record TimeHeight =
  timestamp :: int
  height :: "int option"

text \<open>\<open>getChainTip\<close> of the optional provider throws (\<open>Inl\<close>) or returns the tip's height.\<close>

definition resolveTimeHeight :: "int \<Rightarrow> ('e + int) option \<Rightarrow> TimeHeight" where
  "resolveTimeHeight ts provider =
     (case provider of
        None \<Rightarrow> \<lparr>timestamp = ts, height = None\<rparr>
      | Some (Inr tip) \<Rightarrow> \<lparr>timestamp = ts, height = Some tip\<rparr>
      | Some (Inl e) \<Rightarrow> \<lparr>timestamp = ts, height = None\<rparr>)"

section \<open>Expiry\<close>

text \<open>\<open>Date.UTC(2025, 0, 1)\<close>.\<close>

definition EXPIRY_MIN_PLAUSIBLE_MS :: int where
  "EXPIRY_MIN_PLAUSIBLE_MS = 1735689600000"

datatype wire_scalar = Missing | EmptyString | NotANumber | Numeral rat

definition no_expiry :: Expiry where
  "no_expiry = \<lparr>expiresAt = None, expiresAtHeight = None\<rparr>"

text \<open>\<open>new Date(ms)\<close> drops the fraction; the times converted here are positive.\<close>

definition date_of :: "rat \<Rightarrow> int" where
  "date_of ms = (if ms \<ge> 0 then \<lfloor>ms\<rfloor> else \<lceil>ms\<rceil>)"

definition parseWireExpiry :: "wire_scalar \<Rightarrow> Expiry" where
  "parseWireExpiry raw =
     (case raw of
        Missing \<Rightarrow> no_expiry
      | EmptyString \<Rightarrow> no_expiry
      | NotANumber \<Rightarrow> no_expiry
      | Numeral n \<Rightarrow>
          if n \<le> 0 then no_expiry
          else let ms = n * 1000
               in if ms \<ge> of_int EXPIRY_MIN_PLAUSIBLE_MS
                  then \<lparr>expiresAt = Some (date_of ms), expiresAtHeight = None\<rparr>
                  else \<lparr>expiresAt = None, expiresAtHeight = Some n\<rparr>)"

definition toBatchExpiry :: "Expiry \<Rightarrow> rat option" where
  "toBatchExpiry c =
     (case expiresAt c of
        Some t \<Rightarrow> Some (of_int t)
      | None \<Rightarrow> (case expiresAtHeight c of Some h \<Rightarrow> Some (h * 1000) | None \<Rightarrow> None))"

definition parseLegacyExpiry :: "rat option \<Rightarrow> Expiry" where
  "parseLegacyExpiry batchExpiry =
     (case batchExpiry of
        None \<Rightarrow> no_expiry
      | Some b \<Rightarrow>
          if b \<le> 0 then no_expiry
          else if b \<ge> of_int EXPIRY_MIN_PLAUSIBLE_MS
            then \<lparr>expiresAt = Some (date_of b), expiresAtHeight = None\<rparr>
          else \<lparr>expiresAt = None, expiresAtHeight = Some (b / 1000)\<rparr>)"

section \<open>Normalization\<close>

definition toVirtualStatus ::
  "bool option \<Rightarrow> bool option \<Rightarrow> bool option \<Rightarrow> string list option \<Rightarrow> Expiry \<Rightarrow> VirtualStatus" where
  "toVirtualStatus spent swept preconf txids e =
     \<lparr>vs_state = (if truthy spent then Spent
                  else if truthy swept then Swept
                  else if truthy preconf then Preconfirmed
                  else Settled),
      vs_commitmentTxIds = txids,
      vs_batchExpiry = toBatchExpiry e\<rparr>"

definition normalizeVtxo :: "VirtualCoin \<Rightarrow> VirtualCoin" where
  "normalizeVtxo v =
     (let state = map_option vs_state (virtualStatus v);
          canonicalExpiry = (expiresAt (expiry v) \<noteq> None \<or> expiresAtHeight (expiry v) \<noteq> None);
          e = (if canonicalExpiry then expiry v
               else parseLegacyExpiry (Option.bind (virtualStatus v) vs_batchExpiry));
          spent = or_default (isSpent v) (state = Some Spent);
          swept = or_default (isSwept v) (state = Some Swept);
          preconf = or_default (isPreconfirmed v) (state = Some Preconfirmed);
          txids = or_default (commitmentTxIds v)
                    (or_default (Option.bind (virtualStatus v) vs_commitmentTxIds) [])
      in v\<lparr>isSpent := Some spent, isSwept := Some swept, isPreconfirmed := Some preconf,
            spentBy := Some (or_default (spentBy v) ''''),
            commitmentTxIds := Some txids,
            expiry := e,
            virtualStatus := Some (or_default (virtualStatus v)
              (toVirtualStatus (Some spent) (Some swept) (Some preconf) (Some txids) e))\<rparr>)"

record WireVtxo =
  w_outpoint :: Outpoint
  w_createdAt :: int
  w_expiresAt :: wire_scalar
  w_amount :: int
  w_script :: string
  w_isPreconfirmed :: bool
  w_isSwept :: bool
  w_isUnrolled :: bool
  w_isSpent :: bool
  w_spentBy :: "string option"
  w_commitmentTxids :: "string list"
  w_settledBy :: "string option"
  w_arkTxid :: "string option"
  w_assets :: "Asset list option"

definition convertVtxo :: "WireVtxo \<Rightarrow> VirtualCoin" where
  "convertVtxo w =
     (let e = parseWireExpiry (w_expiresAt w) in
      \<lparr>coin_txid = op_txid (w_outpoint w), coin_vout = op_vout (w_outpoint w), coin_value = w_amount w,
       coin_status = \<lparr>confirmed = (\<not> w_isSwept w \<and> \<not> w_isPreconfirmed w),
                      isLeaf = Some (\<not> w_isPreconfirmed w), block_time = None\<rparr>,
       coin_createdAt = w_createdAt w * 1000, coin_script = w_script w, isUnrolled = w_isUnrolled w,
       isSpent = Some (w_isSpent w), isSwept = Some (w_isSwept w),
       isPreconfirmed = Some (w_isPreconfirmed w), settledBy = w_settledBy w,
       spentBy = Some (or_default (w_spentBy w) ''''), arkTxId = w_arkTxid w,
       commitmentTxIds = Some (w_commitmentTxids w), expiry = e,
       virtualStatus = Some (toVirtualStatus (Some (w_isSpent w)) (Some (w_isSwept w))
          (Some (w_isPreconfirmed w)) (Some (w_commitmentTxids w)) e),
       coin_assets = w_assets w\<rparr>)"

section \<open>Capabilities\<close>

definition hasTerminalSpend :: "VirtualCoin \<Rightarrow> bool" where
  "hasTerminalSpend vtxo =
     (let n = normalizeVtxo vtxo
      in truthy (isSpent n) \<or> truthy_str (spentBy n) \<or> truthy_str (settledBy n))"

definition isPastExpiry :: "VirtualCoin \<Rightarrow> TimeHeight \<Rightarrow> bool" where
  "isPastExpiry vtxo now =
     (let n = normalizeVtxo vtxo
      in (case expiresAt (expiry n) of Some t \<Rightarrow> timestamp now \<ge> t | None \<Rightarrow> False) \<or>
         (case (expiresAtHeight (expiry n), height now) of
            (Some h, Some tip) \<Rightarrow> of_int tip \<ge> h | _ \<Rightarrow> False))"

definition canSpendOffchain :: "VirtualCoin \<Rightarrow> TimeHeight \<Rightarrow> bool" where
  "canSpendOffchain vtxo now =
     (let n = normalizeVtxo vtxo
      in \<not> hasTerminalSpend n \<and> \<not> (truthy (isSwept n) \<or> isPastExpiry n now))"

definition canRecoverOnchain :: "VirtualCoin \<Rightarrow> TimeHeight \<Rightarrow> bool" where
  "canRecoverOnchain vtxo now =
     (let n = normalizeVtxo vtxo
      in \<not> hasTerminalSpend n \<and> (truthy (isSwept n) \<or> isPastExpiry n now))"

text \<open>The deprecated predicates; \<open>ts\<close> is \<open>Date.now()\<close>.\<close>

definition isSpendable :: "VirtualCoin \<Rightarrow> bool" where
  "isSpendable vtxo = (\<not> hasTerminalSpend vtxo)"

definition isRecoverable :: "VirtualCoin \<Rightarrow> bool" where
  "isRecoverable vtxo = (let n = normalizeVtxo vtxo in truthy (isSwept n) \<and> \<not> hasTerminalSpend n)"

definition isExpired :: "VirtualCoin \<Rightarrow> int \<Rightarrow> bool" where
  "isExpired vtxo ts =
     (let n = normalizeVtxo vtxo
      in truthy (isSwept n) \<or> (case expiresAt (expiry n) of Some t \<Rightarrow> t \<le> ts | None \<Rightarrow> False))"

datatype InputType = RecoverableInput | VtxoInput

record OffchainInput =
  oi_amount :: int
  oi_type :: InputType
  oi_weight :: int
  oi_birth :: int
  oi_expiry :: "int option"

definition toOffchainInputFeeParams :: "VirtualCoin \<Rightarrow> OffchainInput" where
  "toOffchainInputFeeParams vtxo =
     \<lparr>oi_amount = coin_value vtxo,
      oi_type = (if truthy (isSwept vtxo) then RecoverableInput else VtxoInput),
      oi_weight = 0, oi_birth = coin_createdAt vtxo,
      oi_expiry = (case toBatchExpiry (expiry vtxo) of
          Some b \<Rightarrow> if b \<noteq> 0 then Some (date_of b) else None
        | None \<Rightarrow> None)\<rparr>"

section \<open>Facts about normalization\<close>

lemma parseLegacyExpiry_None [simp]: "parseLegacyExpiry None = no_expiry"
  by (simp add: parseLegacyExpiry_def)

lemma no_expiry_simps [simp]: "expiresAt no_expiry = None" "expiresAtHeight no_expiry = None"
  "toBatchExpiry no_expiry = None"
  by (simp_all add: no_expiry_def toBatchExpiry_def)

text \<open>An expiry the wire can produce: one unit at most, on its side of the threshold.\<close>

definition expiry_ok :: "Expiry \<Rightarrow> bool" where
  "expiry_ok e \<longleftrightarrow>
     (case (expiresAt e, expiresAtHeight e) of
        (None, None) \<Rightarrow> True
      | (Some t, None) \<Rightarrow> t \<ge> EXPIRY_MIN_PLAUSIBLE_MS
      | (None, Some h) \<Rightarrow> 0 < h \<and> h * 1000 < of_int EXPIRY_MIN_PLAUSIBLE_MS
      | (Some t, Some h) \<Rightarrow> False)"

lemma date_of_int [simp]: "date_of (of_int t) = t"
  by (simp add: date_of_def)

lemma parseWireExpiry_ok: "expiry_ok (parseWireExpiry raw)"
proof (cases raw)
  case (Numeral n)
  have "EXPIRY_MIN_PLAUSIBLE_MS \<le> \<lfloor>n * 1000\<rfloor>" if "of_int EXPIRY_MIN_PLAUSIBLE_MS \<le> n * 1000"
    using that by (simp add: le_floor_iff)
  with Numeral show ?thesis
    by (auto simp: parseWireExpiry_def expiry_ok_def date_of_def no_expiry_def Let_def)
qed (simp_all add: parseWireExpiry_def expiry_ok_def)

text \<open>On such expiries the legacy scalar loses nothing.\<close>

lemma legacy_expiry_inverse:
  "expiry_ok e \<Longrightarrow> parseLegacyExpiry (toBatchExpiry e) = e"
  by (cases e)
     (auto simp: expiry_ok_def toBatchExpiry_def parseLegacyExpiry_def no_expiry_def
        EXPIRY_MIN_PLAUSIBLE_MS_def split: option.splits)

lemma normalize_fields:
  "coin_txid (normalizeVtxo v) = coin_txid v" "coin_vout (normalizeVtxo v) = coin_vout v"
  "coin_value (normalizeVtxo v) = coin_value v" "settledBy (normalizeVtxo v) = settledBy v"
  "coin_createdAt (normalizeVtxo v) = coin_createdAt v" "coin_script (normalizeVtxo v) = coin_script v"
  "coin_assets (normalizeVtxo v) = coin_assets v" "arkTxId (normalizeVtxo v) = arkTxId v"
  "isUnrolled (normalizeVtxo v) = isUnrolled v"
  by (simp_all add: normalizeVtxo_def Let_def)

lemma normalize_idem: "normalizeVtxo (normalizeVtxo v) = normalizeVtxo v"
proof (cases "virtualStatus v")
  case None
  then show ?thesis
    by (cases "expiry v") (auto simp: normalizeVtxo_def Let_def no_expiry_def toVirtualStatus_def
        toBatchExpiry_def)
next
  case (Some vs)
  show ?thesis
    by (cases "expiresAt (expiry v) = None \<and> expiresAtHeight (expiry v) = None")
       (auto simp: normalizeVtxo_def Let_def Some)
qed

lemma capability_normalize:
  "hasTerminalSpend (normalizeVtxo v) = hasTerminalSpend v"
  "isPastExpiry (normalizeVtxo v) now = isPastExpiry v now"
  "canSpendOffchain (normalizeVtxo v) now = canSpendOffchain v now"
  "canRecoverOnchain (normalizeVtxo v) now = canRecoverOnchain v now"
  by (simp_all add: hasTerminalSpend_def isPastExpiry_def canSpendOffchain_def
      canRecoverOnchain_def normalize_idem)

lemma canSpendOffchain_eq:
  "canSpendOffchain v now \<longleftrightarrow>
     \<not> hasTerminalSpend v \<and> \<not> truthy (isSwept (normalizeVtxo v)) \<and> \<not> isPastExpiry v now"
  by (auto simp: canSpendOffchain_def Let_def capability_normalize)

lemma canRecoverOnchain_eq:
  "canRecoverOnchain v now \<longleftrightarrow>
     \<not> hasTerminalSpend v \<and> (truthy (isSwept (normalizeVtxo v)) \<or> isPastExpiry v now)"
  by (auto simp: canRecoverOnchain_def Let_def capability_normalize)

text \<open>The three uses of a coin are a partition.\<close>

lemma capability_partition:
  "hasTerminalSpend v \<Longrightarrow> \<not> canSpendOffchain v now \<and> \<not> canRecoverOnchain v now"
  "\<not> hasTerminalSpend v \<Longrightarrow> canSpendOffchain v now \<longleftrightarrow> \<not> canRecoverOnchain v now"
  by (auto simp: canSpendOffchain_eq canRecoverOnchain_eq)

lemma convertVtxo_normal: "normalizeVtxo (convertVtxo w) = convertVtxo w"
  using parseWireExpiry_ok [of "w_expiresAt w"]
  by (cases "parseWireExpiry (w_expiresAt w)")
     (auto simp: convertVtxo_def normalizeVtxo_def Let_def toVirtualStatus_def toBatchExpiry_def
        no_expiry_def)

text \<open>What a store that only knows the legacy shape keeps of a coin.\<close>

definition legacy_shape :: "VirtualCoin \<Rightarrow> VirtualCoin" where
  "legacy_shape v = v\<lparr>isSpent := None, isSwept := None, isPreconfirmed := None,
     commitmentTxIds := None, expiry := no_expiry\<rparr>"

lemma convertVtxo_expiry: "expiry (convertVtxo w) = parseWireExpiry (w_expiresAt w)"
  by (simp add: convertVtxo_def Let_def)

lemma legacy_expiry:
  "expiry (normalizeVtxo (legacy_shape (convertVtxo w))) = expiry (convertVtxo w)"
proof -
  let ?e = "parseWireExpiry (w_expiresAt w)"
  have "expiry (normalizeVtxo (legacy_shape (convertVtxo w))) = parseLegacyExpiry (toBatchExpiry ?e)"
    by (simp add: normalizeVtxo_def legacy_shape_def convertVtxo_def Let_def toVirtualStatus_def)
  also have "\<dots> = ?e"
    by (rule legacy_expiry_inverse [OF parseWireExpiry_ok])
  finally show ?thesis
    by (simp add: convertVtxo_expiry)
qed

lemma legacy_terminal:
  "hasTerminalSpend (legacy_shape (convertVtxo w)) = hasTerminalSpend (convertVtxo w)"
  by (simp add: hasTerminalSpend_def Let_def convertVtxo_normal)
     (simp add: normalizeVtxo_def legacy_shape_def convertVtxo_def Let_def toVirtualStatus_def)

text \<open>A spent coin's label hides whether it was swept; for any other coin the label tells.\<close>

lemma legacy_swept:
  "\<not> hasTerminalSpend (convertVtxo w) \<Longrightarrow>
    truthy (isSwept (normalizeVtxo (legacy_shape (convertVtxo w)))) = truthy (isSwept (convertVtxo w))"
  by (simp add: hasTerminalSpend_def Let_def convertVtxo_normal)
     (simp add: normalizeVtxo_def legacy_shape_def convertVtxo_def Let_def toVirtualStatus_def)

lemma legacy_past_expiry:
  "isPastExpiry (legacy_shape (convertVtxo w)) now = isPastExpiry (convertVtxo w) now"
  by (simp add: isPastExpiry_def legacy_expiry convertVtxo_normal Let_def)

text \<open>
  Whether a coin is spent for good, can be spent offchain or must be recovered onchain does
  not change when the canonical facts of a coin read from the wire are dropped and re-derived from
  the legacy \<open>virtualStatus\<close> projection, although that projection is lossy; and the three answers
  exclude each other and cover every coin.
\<close>

lemma legacy_capabilities_agree:
  "hasTerminalSpend (legacy_shape (convertVtxo w)) = hasTerminalSpend (convertVtxo w) \<and>
   canSpendOffchain (legacy_shape (convertVtxo w)) now = canSpendOffchain (convertVtxo w) now \<and>
   canRecoverOnchain (legacy_shape (convertVtxo w)) now = canRecoverOnchain (convertVtxo w) now \<and>
   length (filter id [hasTerminalSpend (convertVtxo w), canSpendOffchain (convertVtxo w) now,
                      canRecoverOnchain (convertVtxo w) now]) = 1"
  using legacy_swept [of w]
  by (cases "hasTerminalSpend (convertVtxo w)")
     (auto simp: legacy_terminal canSpendOffchain_eq canRecoverOnchain_eq legacy_past_expiry
        convertVtxo_normal)

text \<open>
  Normalizing a coin fills in every fact the predicates read, keeps its identity and value,
  does not change what it can be used for, and is idempotent.
\<close>

lemma normalize_canonical:
  "normalizeVtxo (normalizeVtxo v) = normalizeVtxo v \<and>
   None \<notin> {isSpent (normalizeVtxo v), isSwept (normalizeVtxo v), isPreconfirmed (normalizeVtxo v)} \<and>
   spentBy (normalizeVtxo v) \<noteq> None \<and> commitmentTxIds (normalizeVtxo v) \<noteq> None \<and>
   (coin_txid (normalizeVtxo v), coin_vout (normalizeVtxo v), coin_value (normalizeVtxo v)) =
     (coin_txid v, coin_vout v, coin_value v) \<and>
   canSpendOffchain (normalizeVtxo v) now = canSpendOffchain v now \<and>
   canRecoverOnchain (normalizeVtxo v) now = canRecoverOnchain v now"
  using normalize_idem [of v]
  by (auto simp: capability_normalize normalize_fields) (simp_all add: normalizeVtxo_def Let_def)

end
