(* ===== verification/Asset_Coins.thy ===== *)
theory Asset_Coins
  imports Asset_Packet Vtxo
begin

text \<open>
  Assets of a wallet transaction (\<open>wallet/asset.ts\<close>): grouping inputs and outputs of the
  transaction by asset into a packet, selecting coins that carry an asset, and the change of the
  selected assets.
\<close>

record Recipient =
  rec_address :: string
  rec_amount :: "int option"
  rec_assets :: "Asset list option"

section \<open>createAssetPacket\<close>

text \<open>Appending an item to the list an insertion-ordered map holds under a key.\<close>

definition push_at :: "'k \<Rightarrow> 'v \<Rightarrow> ('k \<times> 'v list) list \<Rightarrow> ('k \<times> 'v list) list" where
  "push_at k v m = js_set k (or_default (js_get m k) [] @ [v]) m"

fun add_inputs :: "int \<Rightarrow> Asset list \<Rightarrow> (string \<times> AssetInput list) list \<Rightarrow> ext_err + (string \<times> AssetInput list) list" where
  "add_inputs inputIndex [] m = Inr m"
| "add_inputs inputIndex (a # as) m =
     r_bind (AssetInput_create inputIndex (asset_amount a)) (\<lambda>i.
       add_inputs inputIndex as (push_at (assetId a) i m))"

fun inputs_loop :: "(int \<times> Asset list) list \<Rightarrow> (string \<times> AssetInput list) list \<Rightarrow> ext_err + (string \<times> AssetInput list) list" where
  "inputs_loop [] m = Inr m"
| "inputs_loop ((inputIndex, as) # ins) m =
     r_bind (add_inputs inputIndex as m) (\<lambda>m'. inputs_loop ins m')"

fun add_outputs :: "int \<Rightarrow> Asset list \<Rightarrow> (string \<times> AssetOutput list) list \<Rightarrow> ext_err + (string \<times> AssetOutput list) list" where
  "add_outputs outputIndex [] m = Inr m"
| "add_outputs outputIndex (a # as) m =
     r_bind (AssetOutput_create outputIndex (asset_amount a)) (\<lambda>out.
       add_outputs outputIndex as (push_at (assetId a) out m))"

text \<open>The loop over the receivers, returning also the next output index.\<close>

fun outputs_loop :: "int \<Rightarrow> Recipient list \<Rightarrow> (string \<times> AssetOutput list) list
    \<Rightarrow> ext_err + int \<times> (string \<times> AssetOutput list) list" where
  "outputs_loop outputIndex [] m = Inr (outputIndex, m)"
| "outputs_loop outputIndex (receiver # rs) m =
     r_bind (case rec_assets receiver of Some as \<Rightarrow> add_outputs outputIndex as m | None \<Rightarrow> Inr m)
       (\<lambda>m'. outputs_loop (outputIndex + 1) rs m')"

definition group_of :: "hex_decode \<Rightarrow> (string \<times> AssetInput list) list \<Rightarrow> (string \<times> AssetOutput list) list
    \<Rightarrow> string \<Rightarrow> ext_err + AssetGroup" where
  "group_of hdec ins outs assetIdStr =
     r_bind (AssetId_fromString hdec assetIdStr) (\<lambda>i.
       AssetGroup_create (Some i) None (or_default (js_get ins assetIdStr) [])
         (or_default (js_get outs assetIdStr) []) [])"

definition createAssetPacket ::
  "hex_encode \<Rightarrow> hex_decode \<Rightarrow> (int \<times> Asset list) list \<Rightarrow> Recipient list \<Rightarrow> Recipient option
     \<Rightarrow> ext_err + AssetGroup list" where
  "createAssetPacket henc hdec assetInputs receivers changeReceiver =
     r_bind (inputs_loop assetInputs []) (\<lambda>inputsByAssetId.
     r_bind (outputs_loop 0 receivers []) (\<lambda>(outputIndex, outputsByAssetId0).
     r_bind (case Option.bind changeReceiver rec_assets of
               Some as \<Rightarrow> add_outputs outputIndex as outputsByAssetId0
             | None \<Rightarrow> Inr outputsByAssetId0) (\<lambda>outputsByAssetId.
     let allAssetIds = fold js_add (map fst inputsByAssetId @ map fst outputsByAssetId) []
     in r_bind (r_map (group_of hdec inputsByAssetId outputsByAssetId) allAssetIds) (\<lambda>groups.
        Packet_create henc groups))))"

section \<open>selectCoinsWithAsset\<close>

definition find_asset :: "string \<Rightarrow> VirtualCoin \<Rightarrow> Asset option" where
  "find_asset i coin = find (\<lambda>a. assetId a = i) (or_default (coin_assets coin) [])"

definition asset_of :: "string \<Rightarrow> VirtualCoin \<Rightarrow> int" where
  "asset_of i coin = (case find_asset i coin of Some a \<Rightarrow> asset_amount a | None \<Rightarrow> 0)"

text \<open>The selection loop, with the coins selected so far and their totalAmount.\<close>

fun select_loop :: "string \<Rightarrow> int \<Rightarrow> VirtualCoin list \<Rightarrow> VirtualCoin list \<Rightarrow> int \<Rightarrow> VirtualCoin list \<times> int" where
  "select_loop i required [] selected totalAmount = (selected, totalAmount)"
| "select_loop i required (coin # coins) selected totalAmount =
     (if totalAmount \<ge> required then (selected, totalAmount)
      else select_loop i required coins (selected @ [coin]) (totalAmount + asset_of i coin))"

datatype coin_error = InsufficientAssetBalance int int

definition selectCoinsWithAsset ::
  "VirtualCoin list \<Rightarrow> string \<Rightarrow> int \<Rightarrow> coin_error + VirtualCoin list \<times> int" where
  "selectCoinsWithAsset coins i requiredAmount =
     (let coinsWithAsset = filter (\<lambda>coin. \<exists>a \<in> set (or_default (coin_assets coin) []). assetId a = i) coins;
          sorted_coins = sort_key (asset_of i) coinsWithAsset;
          (selected, totalAssetAmount) = select_loop i requiredAmount sorted_coins [] 0
      in if totalAssetAmount < requiredAmount
         then Inl (InsufficientAssetBalance totalAssetAmount requiredAmount)
         else Inr (selected, totalAssetAmount))"

section \<open>computeAssetChange and selectedCoinsToAssetInputs\<close>

definition computeAssetChange :: "(string \<times> int) list \<Rightarrow> (string \<times> int) list \<Rightarrow> (string \<times> int) list" where
  "computeAssetChange inputAssets outputAssets =
     fold (\<lambda>(i, inputAmount) change.
         let changeAmount = inputAmount - or_default (js_get outputAssets i) 0
         in if changeAmount > 0 then js_set i changeAmount change else change)
       inputAssets []"

fun assetInputs_loop :: "int \<Rightarrow> VirtualCoin list \<Rightarrow> (int \<times> Asset list) list \<Rightarrow> (int \<times> Asset list) list" where
  "assetInputs_loop inputIndex [] m = m"
| "assetInputs_loop inputIndex (coin # coins) m =
     assetInputs_loop (inputIndex + 1) coins
       (case coin_assets coin of
          None \<Rightarrow> m
        | Some as \<Rightarrow> if as = [] then m else js_set inputIndex as m)"

definition selectedCoinsToAssetInputs :: "VirtualCoin list \<Rightarrow> (int \<times> Asset list) list" where
  "selectedCoinsToAssetInputs selectedCoins = assetInputs_loop 0 selectedCoins []"

section \<open>What the packet says\<close>

definition inputs_spec :: "(int \<times> Asset list) list \<Rightarrow> string \<Rightarrow> AssetInput list" where
  "inputs_spec ins i = concat (map (\<lambda>(k, as).
     map (\<lambda>a. LocalInput k (asset_amount a)) (filter (\<lambda>a. assetId a = i) as)) ins)"

definition outputs_at :: "int \<Rightarrow> Asset list \<Rightarrow> string \<Rightarrow> AssetOutput list" where
  "outputs_at k as i =
     map (\<lambda>a. \<lparr>out_vout = k, out_amount = asset_amount a\<rparr>) (filter (\<lambda>a. assetId a = i) as)"

fun outputs_spec :: "int \<Rightarrow> Asset list list \<Rightarrow> string \<Rightarrow> AssetOutput list" where
  "outputs_spec k [] i = []"
| "outputs_spec k (as # ass) i = outputs_at k as i @ outputs_spec (k + 1) ass i"

definition all_allocations :: "Recipient list \<Rightarrow> Recipient option \<Rightarrow> Asset list list" where
  "all_allocations receivers change =
     map (\<lambda>r. or_default (rec_assets r) []) receivers
       @ [or_default (Option.bind change rec_assets) []]"

definition mentioned :: "(int \<times> Asset list) list \<Rightarrow> Asset list list \<Rightarrow> string set" where
  "mentioned ins outs = assetId ` (\<Union> (set ` snd ` set ins) \<union> \<Union> (set ` set outs))"

lemma js_get_push_at:
  "or_default (js_get (push_at k v m) i) [] = or_default (js_get m i) [] @ (if i = k then [v] else [])"
  by (simp add: push_at_def)

lemma keys_push_at: "set (map fst (push_at k v m)) = insert k (set (map fst m))"
  unfolding push_at_def by (rule keys_js_set)

lemma add_inputs_spec:
  "add_inputs k as m = Inr m' \<Longrightarrow>
     or_default (js_get m' i) [] = or_default (js_get m i) [] @
        map (\<lambda>a. LocalInput k (asset_amount a)) (filter (\<lambda>a. assetId a = i) as) \<and>
     set (map fst m') = set (map fst m) \<union> assetId ` set as"
proof (induction as arbitrary: m)
  case (Cons a as)
  then have "add_inputs k as (push_at (assetId a) (LocalInput k (asset_amount a)) m) = Inr m'"
    by (simp add: AssetInput_create_def AssetInput_validate_def)
  from Cons.IH [OF this] show ?case
    by (auto simp: js_get_push_at keys_push_at simp del: set_map)
qed simp

lemma inputs_loop_spec:
  "inputs_loop ins m = Inr m' \<Longrightarrow>
     or_default (js_get m' i) [] = or_default (js_get m i) [] @ inputs_spec ins i \<and>
     set (map fst m') = set (map fst m) \<union> assetId ` \<Union> (set ` snd ` set ins)"
proof (induction ins m rule: inputs_loop.induct)
  case (2 k as ins m)
  from 2(2) obtain m1 where a: "add_inputs k as m = Inr m1" and l: "inputs_loop ins m1 = Inr m'"
    by auto
  from add_inputs_spec [OF a, of i] 2(1) [OF a l] show ?case
    by (auto simp: inputs_spec_def)
qed (simp add: inputs_spec_def)

lemma AssetOutput_create_eq:
  "AssetOutput_create k v = Inr out \<Longrightarrow> out = \<lparr>out_vout = k, out_amount = v\<rparr>"
  by (auto simp: AssetOutput_create_def Let_def)

lemma add_outputs_spec:
  "add_outputs k as m = Inr m' \<Longrightarrow>
     or_default (js_get m' i) [] = or_default (js_get m i) [] @ outputs_at k as i \<and>
     set (map fst m') = set (map fst m) \<union> assetId ` set as"
proof (induction as arbitrary: m)
  case (Cons a as)
  then obtain out where "AssetOutput_create k (asset_amount a) = Inr out"
    and l: "add_outputs k as (push_at (assetId a) out m) = Inr m'"
    by auto
  then have "out = \<lparr>out_vout = k, out_amount = asset_amount a\<rparr>"
    by (blast dest: AssetOutput_create_eq)
  with Cons.IH [OF l] show ?case
    by (auto simp: js_get_push_at keys_push_at outputs_at_def simp del: set_map)
qed (simp add: outputs_at_def)

text \<open>The optional list of a receiver or of the change behaves as the empty list when missing.\<close>

lemma opt_outputs_spec:
  "(case as of Some as \<Rightarrow> add_outputs k as m | None \<Rightarrow> Inr m) = Inr m' \<Longrightarrow>
     or_default (js_get m' i) [] = or_default (js_get m i) [] @ outputs_at k (or_default as []) i \<and>
     set (map fst m') = set (map fst m) \<union> assetId ` set (or_default as [])"
  by (cases as) (auto simp: outputs_at_def dest: add_outputs_spec simp del: set_map)

lemma outputs_loop_spec:
  "outputs_loop k rs m = Inr (k', m') \<Longrightarrow>
     k' = k + int (length rs) \<and>
     or_default (js_get m' i) [] = or_default (js_get m i) []
        @ outputs_spec k (map (\<lambda>r. or_default (rec_assets r) []) rs) i \<and>
     set (map fst m') = set (map fst m) \<union> assetId ` \<Union> (set ` (\<lambda>r. or_default (rec_assets r) []) ` set rs)"
proof (induction k rs m rule: outputs_loop.induct)
  case (2 k receiver rs m)
  from 2(2) obtain m1
    where a: "(case rec_assets receiver of Some as \<Rightarrow> add_outputs k as m | None \<Rightarrow> Inr m) = Inr m1"
      and l: "outputs_loop (k + 1) rs m1 = Inr (k', m')"
    by auto
  from opt_outputs_spec [OF a, of i] 2(1) [OF a l] show ?case
    by (auto simp del: set_map)
qed simp

lemma outputs_spec_append:
  "outputs_spec k (xs @ ys) i = outputs_spec k xs i @ outputs_spec (k + int (length xs)) ys i"
  by (induction xs arbitrary: k) (simp_all add: algebra_simps)

lemma set_fold_js_add: "set (fold js_add xs ys) = set xs \<union> set ys"
  by (induction xs arbitrary: ys) auto

lemma distinct_fold_js_add: "distinct ys \<Longrightarrow> distinct (fold js_add xs ys)"
  by (induction xs arbitrary: ys) auto

lemma r_map_list_all2: "r_map f xs = Inr ys \<Longrightarrow> list_all2 (\<lambda>x y. f x = Inr y) xs ys"
  by (induction xs arbitrary: ys) auto

lemma group_of_spec:
  "group_of hdec ins outs i = Inr g \<Longrightarrow>
     \<exists>aid. AssetId_fromString hdec i = Inr aid \<and>
       g = \<lparr>ag_assetId = Some aid, ag_controlAsset = None, ag_inputs = or_default (js_get ins i) [],
            ag_outputs = or_default (js_get outs i) [], ag_metadata = []\<rparr>"
  by (auto simp: group_of_def AssetGroup_create_def Let_def)

text \<open>
  A packet made for a transaction is valid and has one group for each asset mentioned by an
  input, a receiver or the change, listing exactly the allocations of that asset, in order: every
  input under its index and every output under the position of its receiver, the change last.
\<close>

lemma asset_packet_allocations:
  assumes "createAssetPacket henc hdec assetInputs receivers change = Inr groups"
  shows "Packet_validate henc groups = Inr () \<and>
    (\<exists>ids. distinct ids \<and> set ids = mentioned assetInputs (all_allocations receivers change) \<and>
       list_all2 (\<lambda>i g. \<exists>aid. AssetId_fromString hdec i = Inr aid \<and>
         g = \<lparr>ag_assetId = Some aid, ag_controlAsset = None, ag_inputs = inputs_spec assetInputs i,
              ag_outputs = outputs_spec 0 (all_allocations receivers change) i, ag_metadata = []\<rparr>)
         ids groups)"
proof -
  from assms obtain ins k outs0 outs gs
    where i: "inputs_loop assetInputs [] = Inr ins"
      and o0: "outputs_loop 0 receivers [] = Inr (k, outs0)"
      and o1: "(case Option.bind change rec_assets of Some as \<Rightarrow> add_outputs k as outs0 | None \<Rightarrow> Inr outs0) = Inr outs"
      and g: "r_map (group_of hdec ins outs) (fold js_add (map fst ins @ map fst outs) []) = Inr gs"
      and p: "Packet_create henc gs = Inr groups"
    by (auto simp: createAssetPacket_def Let_def split: option.splits)
  let ?ids = "fold js_add (map fst ins @ map fst outs) []"
  from p have gs: "gs = groups" and v: "Packet_validate henc groups = Inr ()"
    by (auto simp: Packet_create_def)
  have ins: "or_default (js_get ins a) [] = inputs_spec assetInputs a"
    "set (map fst ins) = assetId ` \<Union> (set ` snd ` set assetInputs)" for a
    using inputs_loop_spec [OF i, of a] by (auto simp del: set_map)
  have outs: "or_default (js_get outs a) [] = outputs_spec 0 (all_allocations receivers change) a"
    "set (map fst outs) = assetId ` \<Union> (set ` set (all_allocations receivers change))" for a
    using outputs_loop_spec [OF o0, of a] opt_outputs_spec [OF o1, of a]
    by (simp_all add: all_allocations_def outputs_spec_append image_Un image_UN Un_commute)
  have "set ?ids = mentioned assetInputs (all_allocations receivers change)"
    using ins(2) outs(2) by (auto simp: mentioned_def set_fold_js_add simp del: set_map)
  moreover have "distinct ?ids"
    by (simp add: distinct_fold_js_add)
  moreover have "list_all2 (\<lambda>i g. group_of hdec ins outs i = Inr g) ?ids groups"
    using g r_map_list_all2 gs by blast
  ultimately show ?thesis
    using v by (intro conjI exI [of _ ?ids]) (auto elim!: list_all2_mono dest!: group_of_spec simp: ins(1) outs(1))
qed

section \<open>Selection\<close>

lemma select_loop_prefix:
  "select_loop i req coins sel tot = (sel', tot') \<Longrightarrow>
     \<exists>n. sel' = sel @ take n coins \<and> n \<le> length coins \<and> tot' = tot + sum_list (map (asset_of i) (take n coins)) \<and>
       (n < length coins \<longrightarrow> req \<le> tot') \<and>
       (0 < n \<longrightarrow> tot + sum_list (map (asset_of i) (take (n - 1) coins)) < req)"
proof (induction i req coins sel tot rule: select_loop.induct)
  case (2 i req coin coins sel tot)
  show ?case
  proof (cases "tot \<ge> req")
    case True
    with 2(2) show ?thesis by (intro exI [of _ 0]) simp
  next
    case False
    then have "select_loop i req coins (sel @ [coin]) (tot + asset_of i coin) = (sel', tot')"
      using 2(2) by simp
    from 2(1) [OF False this] obtain n where n: "sel' = (sel @ [coin]) @ take n coins" "n \<le> length coins"
        "tot' = tot + asset_of i coin + sum_list (map (asset_of i) (take n coins))"
        "n < length coins \<longrightarrow> req \<le> tot'"
        "0 < n \<longrightarrow> tot + asset_of i coin + sum_list (map (asset_of i) (take (n - 1) coins)) < req"
      by blast
    with False show ?thesis
      by (intro exI [of _ "Suc n"]) (cases n; simp)
  qed
qed (intro exI [of _ 0], simp)

text \<open>A coin worth five units of an asset pays three of them and keeps two as change.\<close>

definition sample_asset :: string where
  "sample_asset = key_of_bytes (AssetId_wire sample_id)"

definition sample_payment :: "ext_err + AssetGroup list" where
  "sample_payment = createAssetPacket key_of_bytes bytes_of_key
     [(0, [\<lparr>assetId = sample_asset, asset_amount = 5\<rparr>])]
     [\<lparr>rec_address = ''a'', rec_amount = None, rec_assets = Some [\<lparr>assetId = sample_asset, asset_amount = 3\<rparr>]\<rparr>]
     (Some \<lparr>rec_address = ''b'', rec_amount = None, rec_assets = Some [\<lparr>assetId = sample_asset, asset_amount = 2\<rparr>]\<rparr>)"

definition sample_payment_groups :: "AssetGroup list" where
  "sample_payment_groups = [\<lparr>ag_assetId = Some sample_id, ag_controlAsset = None, ag_inputs = [LocalInput 0 5],
     ag_outputs = [\<lparr>out_vout = 0, out_amount = 3\<rparr>, \<lparr>out_vout = 1, out_amount = 2\<rparr>], ag_metadata = []\<rparr>]"

lemma sample_payment_eq: "sample_payment = Inr sample_payment_groups"
  by code_simp

lemma asset_packet_allocations_witness:
  "Packet_validate key_of_bytes sample_payment_groups = Inr () \<and>
   outputs_spec 0 [[\<lparr>assetId = sample_asset, asset_amount = 3\<rparr>], [\<lparr>assetId = sample_asset, asset_amount = 2\<rparr>]]
     sample_asset = ag_outputs (hd sample_payment_groups)"
proof -
  have "Packet_validate key_of_bytes sample_payment_groups = Inr ()"
    using asset_packet_allocations [OF sample_payment_eq [unfolded sample_payment_def]] by blast
  then show ?thesis
    by (simp add: outputs_at_def sample_payment_groups_def)
qed

lemma sum_asset_nonneg:
  "\<forall>c \<in> set cs. 0 \<le> asset_of i c \<Longrightarrow> sum_list (map (asset_of i) (take n cs)) \<le> sum_list (map (asset_of i) cs)"
proof (induction cs arbitrary: n)
  case (Cons c cs)
  then show ?case
    by (cases n) (auto intro!: add_nonneg_nonneg sum_list_nonneg)
qed simp

definition holders :: "string \<Rightarrow> VirtualCoin list \<Rightarrow> VirtualCoin list" where
  "holders i coins = sort_key (asset_of i)
     (filter (\<lambda>coin. \<exists>a \<in> set (or_default (coin_assets coin) []). assetId a = i) coins)"

text \<open>
  Selecting coins for an asset fails exactly when all coins together carry less than is
  required. Otherwise it returns the smallest coins first, their exact total, at least the
  required amount, and no coin more than needed: without its last coin the selection falls short.
\<close>

lemma select_asset_coins:
  assumes "\<forall>c \<in> set coins. 0 \<le> asset_of i c"
  shows "(case selectCoinsWithAsset coins i required of
      Inl e \<Rightarrow> sum_list (map (asset_of i) (holders i coins)) < required \<and>
               e = InsufficientAssetBalance (sum_list (map (asset_of i) (holders i coins))) required
    | Inr (selected, tot) \<Rightarrow>
        required \<le> tot \<and> tot = sum_list (map (asset_of i) selected) \<and>
        tot \<le> sum_list (map (asset_of i) (holders i coins)) \<and>
        (\<exists>n. selected = take n (holders i coins)) \<and>
        (selected \<noteq> [] \<longrightarrow> sum_list (map (asset_of i) (butlast selected)) < required))"
proof -
  let ?h = "holders i coins"
  obtain sel tot where s: "select_loop i required ?h [] 0 = (sel, tot)"
    by fastforce
  from select_loop_prefix [OF s] obtain n where n: "sel = take n ?h" "n \<le> length ?h"
      "tot = sum_list (map (asset_of i) (take n ?h))" "n < length ?h \<longrightarrow> required \<le> tot"
      "0 < n \<longrightarrow> sum_list (map (asset_of i) (take (n - 1) ?h)) < required"
    by auto
  have bl: "butlast sel = take (n - 1) ?h"
    using n(1,2) by (simp add: butlast_take)
  show ?thesis
  proof (cases "tot < required")
    case True
    then have "tot = sum_list (map (asset_of i) ?h)"
      using n by auto
    with True s show ?thesis
      by (simp add: selectCoinsWithAsset_def Let_def flip: holders_def)
  next
    case False
    then have "selectCoinsWithAsset coins i required = Inr (sel, tot)"
      using s by (simp add: selectCoinsWithAsset_def Let_def flip: holders_def)
    moreover have "\<forall>c \<in> set ?h. 0 \<le> asset_of i c"
      using assms by (simp add: holders_def)
    ultimately show ?thesis
      using False n bl sum_asset_nonneg [of ?h i n] by auto
  qed
qed

definition sample_holdings :: "VirtualCoin list" where
  "sample_holdings = map (\<lambda>a. (convertVtxo \<lparr>w_outpoint = \<lparr>op_txid = ''t'', op_vout = a\<rparr>, w_createdAt = 1,
     w_expiresAt = Missing, w_amount = 330, w_script = ''s'', w_isPreconfirmed = False,
     w_isSwept = False, w_isUnrolled = False, w_isSpent = False, w_spentBy = None,
     w_commitmentTxids = [], w_settledBy = None, w_arkTxid = None,
     w_assets = Some [\<lparr>assetId = ''x'', asset_amount = a\<rparr>]\<rparr>)) [9, 2, 4]"

lemma select_asset_coins_witness:
  "\<exists>sel. selectCoinsWithAsset sample_holdings ''x'' 5 = Inr (sel, 6) \<and> map (asset_of ''x'') sel = [2, 4] \<and>
     sum_list (map (asset_of ''x'') (butlast sel)) < 5"
proof -
  have nonneg: "\<forall>c \<in> set sample_holdings. 0 \<le> asset_of ''x'' c"
    by code_simp
  have "map_sum id (map_prod (map (asset_of ''x'')) id) (selectCoinsWithAsset sample_holdings ''x'' 5) = Inr ([2, 4], 6)"
    by code_simp
  then obtain sel where "selectCoinsWithAsset sample_holdings ''x'' 5 = Inr (sel, 6)"
      and "map (asset_of ''x'') sel = [2, 4]"
    by (cases "selectCoinsWithAsset sample_holdings ''x'' 5") auto
  with select_asset_coins [OF nonneg, of 5] show ?thesis
    by auto
qed

section \<open>Change\<close>

lemma change_fold:
  "distinct (map fst ins) \<Longrightarrow>
    js_get (fold (\<lambda>(i, a) c. let d = a - or_default (js_get outs i) 0 in if d > 0 then js_set i d c else c) ins c) i =
    (case js_get ins i of
       None \<Rightarrow> js_get c i
     | Some a \<Rightarrow> let d = a - or_default (js_get outs i) 0 in if d > 0 then Some d else js_get c i)"
proof (induction ins arbitrary: c)
  case Nil
  then show ?case by (simp add: js_get_def)
next
  case (Cons p ins)
  obtain k a where p: "p = (k, a)" by force
  have "js_get ins k = None"
    using Cons(2) by (simp add: p js_get_None)
  then show ?case
    using Cons by (auto simp: p Let_def split: option.splits)
qed

text \<open>
  The change of an asset is what the inputs carry beyond the outputs, where that is positive,
  and nothing otherwise: per asset, inputs are outputs plus change whenever the inputs suffice.
\<close>

lemma asset_change:
  assumes "distinct (map fst inputAssets)"
  shows "js_get (computeAssetChange inputAssets outputAssets) i =
      (let a = or_default (js_get inputAssets i) 0; out = or_default (js_get outputAssets i) 0
       in if i \<in> set (map fst inputAssets) \<and> a > out then Some (a - out) else None)"
  using change_fold [OF assms, of outputAssets "[]" i] js_get_None [of inputAssets i]
  by (auto simp: computeAssetChange_def Let_def split: option.splits)

lemma asset_change_witness:
  "distinct (map fst [(''x'', 9 :: int), (''y'', 1)]) \<and>
   js_get (computeAssetChange [(''x'', 9), (''y'', 1)] [(''x'', 4), (''y'', 3)]) ''x'' = Some 5"
proof -
  have "distinct (map fst [(''x'', 9 :: int), (''y'', 1)])"
    by simp
  from asset_change [OF this, of "[(''x'', 4), (''y'', 3)]" "''x''"] this show ?thesis
    by simp
qed

end
