(* ===== verification/Vtxo_Query.thy ===== *)
theory Vtxo_Query
  imports Vtxo "HOL-Library.Monad_Syntax"
begin

text \<open>
  Reading virtual coins from an indexer: the chunked and paged readers of \<open>wallet/vtxo.ts\<close> and
  the error classification of \<open>providers/availability.ts\<close> they rely on.

  The provider is a parameter, a function from the query to the coins and the presence of the
  \<open>page\<close> field, or the error it throws. The page loop has no bound of its own: it is a
  \<open>partial_function (option)\<close> whose value \<open>None\<close> is the loop that never ends, and the theorem
  about it states that it ends. The delay between pages is not modelled.
\<close>

datatype provider_err = ProviderUnavailableError | FetchErr | FetchTimeout | OtherError string

definition isRetryableProviderError :: "provider_err \<Rightarrow> bool" where
  "isRetryableProviderError e = (case e of OtherError _ \<Rightarrow> False | _ \<Rightarrow> True)"

definition DEFAULT_PAGE_SIZE :: nat where "DEFAULT_PAGE_SIZE = 500"
definition SCRIPT_QUERY_CHUNK_SIZE :: nat where "SCRIPT_QUERY_CHUNK_SIZE = 32"
definition OUTPOINT_QUERY_CHUNK_SIZE :: nat where "OUTPOINT_QUERY_CHUNK_SIZE = 64"

record 'f GetVtxosOptions =
  q_filters :: 'f
  q_scripts :: "string list"
  q_outpoints :: "Outpoint list"
  q_pageIndex :: nat
  q_pageSize :: nat

type_synonym 'f get_vtxos = "'f GetVtxosOptions \<Rightarrow> provider_err + VirtualCoin list \<times> bool"

definition getNormalizedVtxos :: "'f get_vtxos \<Rightarrow> 'f get_vtxos" where
  "getNormalizedVtxos provider opts =
     r_bind (provider opts) (\<lambda>(vtxos, page). Inr (map normalizeVtxo vtxos, page))"

section \<open>Chunks\<close>

text \<open>\<open>for (i = 0; i < xs.length; i += n) xs.slice(i, i + n)\<close> with a positive constant \<open>n\<close>.\<close>

function chunks :: "nat \<Rightarrow> 'a list \<Rightarrow> 'a list list" where
  "chunks n xs = (if xs = [] \<or> n = 0 then [] else take n xs # chunks n (drop n xs))"
  by pat_completeness auto
termination
  by (relation "measure (\<lambda>(n, xs). length xs)") auto

declare chunks.simps [simp del]

lemma chunks_Nil [simp]: "chunks n [] = []"
  by (simp add: chunks.simps)

lemma concat_chunks: "0 < n \<Longrightarrow> concat (chunks n xs) = xs"
proof (induction n xs rule: chunks.induct)
  case (1 n xs)
  then show ?case
    by (cases "xs = []") (simp_all add: chunks.simps [of n xs])
qed

lemma chunks_bounds: "c \<in> set (chunks n xs) \<Longrightarrow> c \<noteq> [] \<and> length c \<le> n"
proof (induction n xs rule: chunks.induct)
  case (1 n xs)
  then show ?case
    by (cases "xs = [] \<or> n = 0") (auto simp: chunks.simps [of n xs])
qed

lemma chunks_set: "c \<in> set (chunks n xs) \<Longrightarrow> set c \<subseteq> set xs"
proof (induction n xs rule: chunks.induct)
  case (1 n xs)
  then show ?case
    by (cases "xs = [] \<or> n = 0") (auto simp: chunks.simps [of n xs] dest: in_set_takeD in_set_dropD)
qed

section \<open>All coins of many scripts\<close>

text \<open>The \<open>while (hasMore)\<close> loop of one chunk, from page \<open>pageIndex\<close> on.\<close>

partial_function (option) page_loop ::
  "'f get_vtxos \<Rightarrow> 'f \<Rightarrow> nat \<Rightarrow> string list \<Rightarrow> nat \<Rightarrow> VirtualCoin list
     \<Rightarrow> (provider_err + VirtualCoin list) option" where
  "page_loop provider filters pageSize chunk pageIndex all =
     (case getNormalizedVtxos provider \<lparr>q_filters = filters, q_scripts = chunk, q_outpoints = [],
             q_pageIndex = pageIndex, q_pageSize = pageSize\<rparr> of
        Inl e \<Rightarrow> Some (Inl e)
      | Inr (vtxos, page) \<Rightarrow>
          if page \<and> length vtxos = pageSize
          then page_loop provider filters pageSize chunk (pageIndex + 1) (all @ vtxos)
          else Some (Inr (all @ vtxos)))"

fun chunk_loop ::
  "'f get_vtxos \<Rightarrow> 'f \<Rightarrow> nat \<Rightarrow> string list list \<Rightarrow> VirtualCoin list
     \<Rightarrow> (provider_err + VirtualCoin list) option" where
  "chunk_loop provider filters pageSize [] all = Some (Inr all)"
| "chunk_loop provider filters pageSize (c # cs) all =
     (case page_loop provider filters pageSize c 0 all of
        None \<Rightarrow> None
      | Some (Inl e) \<Rightarrow> Some (Inl e)
      | Some (Inr all') \<Rightarrow> chunk_loop provider filters pageSize cs all')"

definition getAllNormalizedVtxos ::
  "'f get_vtxos \<Rightarrow> string list \<Rightarrow> 'f \<Rightarrow> nat option \<Rightarrow> (provider_err + VirtualCoin list) option" where
  "getAllNormalizedVtxos provider scripts filters pageSize =
     chunk_loop provider filters (or_default pageSize DEFAULT_PAGE_SIZE)
       (chunks SCRIPT_QUERY_CHUNK_SIZE scripts) []"

text \<open>
  The documented behaviour of an indexer: a script query returns the page it asks for of the list
  of all coins of the scripts, with the \<open>page\<close> field, as long as the request is small enough for
  a query string (it may fail for more scripts than that).
\<close>

definition pages_correctly ::
  "'f get_vtxos \<Rightarrow> 'f \<Rightarrow> (string \<Rightarrow> VirtualCoin list) \<Rightarrow> bool" where
  "pages_correctly provider filters coins_of \<longleftrightarrow>
     (\<forall>q. q_filters q = filters \<and> q_outpoints q = [] \<and> length (q_scripts q) \<le> SCRIPT_QUERY_CHUNK_SIZE \<longrightarrow>
        provider q = Inr (take (q_pageSize q)
          (drop (q_pageIndex q * q_pageSize q) (concat (map coins_of (q_scripts q)))), True))"

lemma page_loop_complete:
  assumes pg: "pages_correctly provider filters coins_of" and sz: "0 < pageSize"
    and small: "length chunk \<le> SCRIPT_QUERY_CHUNK_SIZE"
  shows "page_loop provider filters pageSize chunk p all =
    Some (Inr (all @ map normalizeVtxo (drop (p * pageSize) (concat (map coins_of chunk)))))"
proof (induction "length (concat (map coins_of chunk)) - p * pageSize" arbitrary: p all rule: less_induct)
  case less
  let ?L = "concat (map coins_of chunk)"
  let ?page = "take pageSize (drop (p * pageSize) ?L)"
  have get: "getNormalizedVtxos provider \<lparr>q_filters = filters, q_scripts = chunk, q_outpoints = [],
      q_pageIndex = p, q_pageSize = pageSize\<rparr> = Inr (map normalizeVtxo ?page, True)"
    using pg small by (simp add: getNormalizedVtxos_def pages_correctly_def)
  show ?case
  proof (cases "length ?page = pageSize")
    case True
    have "length ?page \<le> length ?L - p * pageSize"
      by simp
    with True have "length ?L - (p + 1) * pageSize < length ?L - p * pageSize"
      using sz by (simp add: algebra_simps)
    from less [OF this] have "page_loop provider filters pageSize chunk (p + 1) (all @ map normalizeVtxo ?page) =
        Some (Inr ((all @ map normalizeVtxo ?page) @
          map normalizeVtxo (drop ((p + 1) * pageSize) ?L)))" .
    moreover have "drop (p * pageSize) ?L = ?page @ drop ((p + 1) * pageSize) ?L"
      by (simp add: add.commute flip: drop_drop)
    ultimately show ?thesis
      using True get by (subst page_loop.simps) (simp flip: map_append)
  next
    case False
    then have "?page = drop (p * pageSize) ?L"
      by (simp add: min_def split: if_splits)
    with False get show ?thesis
      by (subst page_loop.simps) simp
  qed
qed

lemma chunk_loop_complete:
  assumes "pages_correctly provider filters coins_of" and "0 < pageSize"
    and "\<forall>c \<in> set cs. length c \<le> SCRIPT_QUERY_CHUNK_SIZE"
  shows "chunk_loop provider filters pageSize cs all =
    Some (Inr (all @ map normalizeVtxo (concat (map coins_of (concat cs)))))"
  using assms(3)
  by (induction cs arbitrary: all) (simp_all add: page_loop_complete [OF assms(1,2)])

text \<open>
  C24. Against an indexer that pages correctly, reading every coin of any number of scripts ends and
  returns the coins of every script, in order, each once, although no request names more scripts
  than fit a query string.
\<close>

theorem all_vtxos_complete:
  assumes "pages_correctly provider filters coins_of" and "or_default pageSize DEFAULT_PAGE_SIZE > 0"
  shows "getAllNormalizedVtxos provider scripts filters pageSize =
    Some (Inr (map normalizeVtxo (concat (map coins_of scripts))))"
  using chunk_loop_complete [OF assms, of "chunks SCRIPT_QUERY_CHUNK_SIZE scripts" "[]"]
  by (auto simp: getAllNormalizedVtxos_def concat_chunks chunks_bounds SCRIPT_QUERY_CHUNK_SIZE_def)

text \<open>A wallet with forty scripts, two coins under each, read three coins at a time.\<close>

definition sample_coin :: "string \<Rightarrow> int \<Rightarrow> VirtualCoin" where
  "sample_coin tx n = convertVtxo \<lparr>w_outpoint = \<lparr>op_txid = tx, op_vout = n\<rparr>, w_createdAt = 1,
     w_expiresAt = Numeral 1800000000, w_amount = 1000, w_script = tx, w_isPreconfirmed = False,
     w_isSwept = False, w_isUnrolled = False, w_isSpent = False, w_spentBy = None,
     w_commitmentTxids = [], w_settledBy = None, w_arkTxid = None, w_assets = None\<rparr>"

definition sample_indexer :: "unit get_vtxos" where
  "sample_indexer q = Inr (take (q_pageSize q) (drop (q_pageIndex q * q_pageSize q)
     (concat (map (\<lambda>s. [sample_coin s 0, sample_coin s 1]) (q_scripts q)))), True)"

theorem all_vtxos_complete_witness:
  "getAllNormalizedVtxos sample_indexer (replicate 40 ''aa'') () (Some 3) =
     Some (Inr (map normalizeVtxo (concat (map (\<lambda>s. [sample_coin s 0, sample_coin s 1])
       (replicate 40 ''aa'')))))"
  by (rule all_vtxos_complete) (simp_all add: pages_correctly_def sample_indexer_def)

section \<open>Creation times\<close>

text \<open>The chunk loop of \<open>fetchVtxoCreatedAtByTxid\<close>: a retryable failure drops its chunk.\<close>

fun createdAt_loop ::
  "'f get_vtxos \<Rightarrow> 'f \<Rightarrow> string list list \<Rightarrow> (string \<times> int) list \<Rightarrow> provider_err + (string \<times> int) list" where
  "createdAt_loop provider none [] m = Inr m"
| "createdAt_loop provider none (c # cs) m =
     (case getNormalizedVtxos provider \<lparr>q_filters = none, q_scripts = [],
             q_outpoints = map (\<lambda>tx. \<lparr>op_txid = tx, op_vout = 0\<rparr>) c,
             q_pageIndex = 0, q_pageSize = DEFAULT_PAGE_SIZE\<rparr> of
        Inl e \<Rightarrow> if isRetryableProviderError e then createdAt_loop provider none cs m else Inl e
      | Inr (vtxos, page) \<Rightarrow>
          createdAt_loop provider none cs (fold (\<lambda>v m. js_set (coin_txid v) (coin_createdAt v) m) vtxos m))"

definition fetchVtxoCreatedAtByTxid ::
  "'f get_vtxos \<Rightarrow> 'f \<Rightarrow> string list \<Rightarrow> provider_err + (string \<times> int) list" where
  "fetchVtxoCreatedAtByTxid provider none txids =
     (let unique = filter (\<lambda>tx. tx \<noteq> '''') (fold js_add txids [])
      in createdAt_loop provider none (chunks OUTPOINT_QUERY_CHUNK_SIZE unique) [])"

end
