(* ===== verification/Balance.thy ===== *)
theory Balance
  imports Vtxo_Query
begin

text \<open>
  The offchain balance of \<open>wallet/balance.ts\<close>. The accumulators of the code's loop are the fields
  of one record, updated by one step per coin; the callbacks of \<open>BalanceCapabilities\<close> are
  functions of the record \<open>BalanceCaps\<close>.

  The specification is a function of each coin alone: \<open>bucket_of\<close> says in which bucket a coin
  belongs, and every figure of the balance is the sum over the coins of its buckets.
\<close>

record BalanceCaps =
  caps_now :: TimeHeight
  isPendingRecovery :: "VirtualCoin \<Rightarrow> bool"
  isGenericallySpendable :: "VirtualCoin \<Rightarrow> bool"
  isUnlocked :: "VirtualCoin \<Rightarrow> bool"

record BalanceAcc =
  settled :: int
  preconfirmed :: int
  available :: int
  gated :: int
  intentLocked :: int
  recoverable :: int
  pendingRecovery :: int
  owned :: "(string \<times> int) list"
  spendable :: "(string \<times> int) list"

definition empty_balance :: BalanceAcc where
  "empty_balance = \<lparr>settled = 0, preconfirmed = 0, available = 0, gated = 0, intentLocked = 0,
     recoverable = 0, pendingRecovery = 0, owned = [], spendable = []\<rparr>"

definition addAssets :: "(string \<times> int) list \<Rightarrow> VirtualCoin \<Rightarrow> (string \<times> int) list" where
  "addAssets into vtxo =
     fold (\<lambda>a m. js_set (assetId a) (or_default (js_get m (assetId a)) 0 + asset_amount a) m)
       (or_default (coin_assets vtxo) []) into"

definition balance_step :: "BalanceCaps \<Rightarrow> VirtualCoin \<Rightarrow> BalanceAcc \<Rightarrow> BalanceAcc" where
  "balance_step caps vtxo b =
     (if hasTerminalSpend vtxo then b
      else let b = b\<lparr>owned := addAssets (owned b) vtxo\<rparr> in
        if isPendingRecovery caps vtxo
          then b\<lparr>pendingRecovery := pendingRecovery b + coin_value vtxo\<rparr>
        else if canRecoverOnchain vtxo (caps_now caps)
          then b\<lparr>recoverable := recoverable b + coin_value vtxo\<rparr>
        else if \<not> canSpendOffchain vtxo (caps_now caps) then b
        else let b = (if truthy (isPreconfirmed vtxo)
                      then b\<lparr>preconfirmed := preconfirmed b + coin_value vtxo\<rparr>
                      else b\<lparr>settled := settled b + coin_value vtxo\<rparr>) in
          if \<not> isGenericallySpendable caps vtxo
            then b\<lparr>gated := gated b + coin_value vtxo\<rparr>
          else if \<not> isUnlocked caps vtxo
            then b\<lparr>intentLocked := intentLocked b + coin_value vtxo\<rparr>
          else b\<lparr>available := available b + coin_value vtxo,
                 spendable := addAssets (spendable b) vtxo\<rparr>)"

record OffchainBalance = BalanceAcc +
  total :: int
  assets :: "Asset list"
  availableAssets :: "Asset list"

definition toAssets :: "(string \<times> int) list \<Rightarrow> Asset list" where
  "toAssets m = map (\<lambda>(i, a). \<lparr>assetId = i, asset_amount = a\<rparr>) m"

definition computeOffchainBalance :: "VirtualCoin list \<Rightarrow> BalanceCaps \<Rightarrow> OffchainBalance" where
  "computeOffchainBalance vtxos caps =
     (let b = fold (balance_step caps) vtxos empty_balance
      in BalanceAcc.extend b
           \<lparr>total = settled b + preconfirmed b + recoverable b + pendingRecovery b,
            assets = toAssets (owned b), availableAssets = toAssets (spendable b)\<rparr>)"

section \<open>The buckets\<close>

datatype hold = Available | Gated | IntentLocked

datatype bucket = SpentCoin | PendingRecovery | Recoverable | InPreconfirmed hold | InSettled hold

definition hold_of :: "BalanceCaps \<Rightarrow> VirtualCoin \<Rightarrow> hold" where
  "hold_of caps v = (if \<not> isGenericallySpendable caps v then Gated
                     else if \<not> isUnlocked caps v then IntentLocked else Available)"

definition bucket_of :: "BalanceCaps \<Rightarrow> VirtualCoin \<Rightarrow> bucket" where
  "bucket_of caps v =
     (if hasTerminalSpend v then SpentCoin
      else if isPendingRecovery caps v then PendingRecovery
      else if truthy (isSwept (normalizeVtxo v)) \<or> isPastExpiry v (caps_now caps) then Recoverable
      else if truthy (isPreconfirmed v) then InPreconfirmed (hold_of caps v)
      else InSettled (hold_of caps v))"

text \<open>The value of the coins of some buckets, and the amount of one asset they carry.\<close>

definition value_in :: "bucket set \<Rightarrow> BalanceCaps \<Rightarrow> VirtualCoin list \<Rightarrow> int" where
  "value_in B caps vs = sum_list (map coin_value (filter (\<lambda>v. bucket_of caps v \<in> B) vs))"

definition asset_in :: "string \<Rightarrow> Asset list \<Rightarrow> int" where
  "asset_in i as = sum_list (map asset_amount (filter (\<lambda>a. assetId a = i) as))"

definition assets_in :: "string \<Rightarrow> bucket set \<Rightarrow> BalanceCaps \<Rightarrow> VirtualCoin list \<Rightarrow> int" where
  "assets_in i B caps vs =
     sum_list (map (\<lambda>v. asset_in i (or_default (coin_assets v) []))
       (filter (\<lambda>v. bucket_of caps v \<in> B) vs))"

lemma value_in_simps [simp]:
  "value_in B caps [] = 0"
  "value_in B caps (v # vs) = (if bucket_of caps v \<in> B then coin_value v else 0) + value_in B caps vs"
  by (simp_all add: value_in_def)

lemma assets_in_simps [simp]:
  "assets_in i B caps [] = 0"
  "assets_in i B caps (v # vs) =
     (if bucket_of caps v \<in> B then asset_in i (or_default (coin_assets v) []) else 0) + assets_in i B caps vs"
  by (simp_all add: assets_in_def)

lemma asset_in_simps [simp]:
  "asset_in i [] = 0"
  "asset_in i (a # as) = (if assetId a = i then asset_amount a else 0) + asset_in i as"
  by (simp_all add: asset_in_def)

lemma get_fold_assets:
  "or_default (js_get (fold (\<lambda>a m. js_set (assetId a) (or_default (js_get m (assetId a)) 0 + asset_amount a) m) as m) i) 0
     = or_default (js_get m i) 0 + asset_in i as"
  by (induction as arbitrary: m) auto

lemma addAssets_amount:
  "or_default (js_get (addAssets m v) i) 0 =
     or_default (js_get m i) 0 + asset_in i (or_default (coin_assets v) [])"
  unfolding addAssets_def by (rule get_fold_assets)

lemma addAssets_distinct:
  "distinct (map fst m) \<Longrightarrow> distinct (map fst (addAssets m v))"
proof -
  have "distinct (map fst m) \<Longrightarrow> distinct (map fst (fold (\<lambda>a m. js_set (assetId a) (or_default (js_get m (assetId a)) 0 + asset_amount a) m) as m))" for as
    by (induction as arbitrary: m) (auto simp: distinct_js_set)
  then show "distinct (map fst m) \<Longrightarrow> distinct (map fst (addAssets m v))"
    by (simp add: addAssets_def)
qed

text \<open>One step adds the coin to the sums of its bucket.\<close>

definition balance_of :: "BalanceCaps \<Rightarrow> VirtualCoin list \<Rightarrow> BalanceAcc \<Rightarrow> BalanceAcc \<Rightarrow> bool" where
  "balance_of caps vs b b' \<longleftrightarrow>
     settled b' = settled b + value_in (range InSettled) caps vs \<and>
     preconfirmed b' = preconfirmed b + value_in (range InPreconfirmed) caps vs \<and>
     available b' = available b + value_in {InSettled Available, InPreconfirmed Available} caps vs \<and>
     gated b' = gated b + value_in {InSettled Gated, InPreconfirmed Gated} caps vs \<and>
     intentLocked b' = intentLocked b + value_in {InSettled IntentLocked, InPreconfirmed IntentLocked} caps vs \<and>
     recoverable b' = recoverable b + value_in {Recoverable} caps vs \<and>
     pendingRecovery b' = pendingRecovery b + value_in {PendingRecovery} caps vs \<and>
     (\<forall>i. or_default (js_get (owned b') i) 0 = or_default (js_get (owned b) i) 0 + assets_in i (- {SpentCoin}) caps vs) \<and>
     (\<forall>i. or_default (js_get (spendable b') i) 0 = or_default (js_get (spendable b) i) 0
        + assets_in i {InSettled Available, InPreconfirmed Available} caps vs)"

definition hold_step :: "VirtualCoin \<Rightarrow> hold \<Rightarrow> BalanceAcc \<Rightarrow> BalanceAcc" where
  "hold_step v h b = (case h of
      Gated \<Rightarrow> b\<lparr>gated := gated b + coin_value v\<rparr>
    | IntentLocked \<Rightarrow> b\<lparr>intentLocked := intentLocked b + coin_value v\<rparr>
    | Available \<Rightarrow> b\<lparr>available := available b + coin_value v, spendable := addAssets (spendable b) v\<rparr>)"

lemma balance_step_eq:
  "balance_step caps v b = (case bucket_of caps v of
      SpentCoin \<Rightarrow> b
    | PendingRecovery \<Rightarrow> b\<lparr>owned := addAssets (owned b) v, pendingRecovery := pendingRecovery b + coin_value v\<rparr>
    | Recoverable \<Rightarrow> b\<lparr>owned := addAssets (owned b) v, recoverable := recoverable b + coin_value v\<rparr>
    | InPreconfirmed h \<Rightarrow> hold_step v h (b\<lparr>owned := addAssets (owned b) v, preconfirmed := preconfirmed b + coin_value v\<rparr>)
    | InSettled h \<Rightarrow> hold_step v h (b\<lparr>owned := addAssets (owned b) v, settled := settled b + coin_value v\<rparr>))"
  by (simp add: balance_step_def bucket_of_def hold_of_def hold_step_def Let_def
      canRecoverOnchain_eq canSpendOffchain_eq)

lemma balance_step_bucket: "balance_of caps [v] b (balance_step caps v b)"
proof (cases "bucket_of caps v")
  case (InPreconfirmed h)
  then show ?thesis
    by (cases h) (simp_all add: balance_of_def balance_step_eq hold_step_def addAssets_amount image_iff)
next
  case (InSettled h)
  then show ?thesis
    by (cases h) (simp_all add: balance_of_def balance_step_eq hold_step_def addAssets_amount image_iff)
qed (simp_all add: balance_of_def balance_step_eq addAssets_amount image_iff)

lemma balance_of_trans:
  "balance_of caps [v] b b1 \<Longrightarrow> balance_of caps vs b1 b2 \<Longrightarrow> balance_of caps (v # vs) b b2"
  unfolding balance_of_def by (auto simp: add.assoc)

lemma balance_fold: "balance_of caps vs b (fold (balance_step caps) vs b)"
proof (induction vs arbitrary: b)
  case Nil
  then show ?case by (simp add: balance_of_def)
next
  case (Cons v vs)
  then show ?case
    using balance_of_trans [OF balance_step_bucket] by simp
qed

lemma bucket_cases:
  "b \<in> range InSettled \<or> b \<in> range InPreconfirmed \<or> b = Recoverable \<or> b = PendingRecovery \<or> b = SpentCoin"
  by (cases b) auto

lemma value_in_total:
  "value_in (range InSettled) caps vs + value_in (range InPreconfirmed) caps vs
     + value_in {Recoverable} caps vs + value_in {PendingRecovery} caps vs
     = value_in (- {SpentCoin}) caps vs"
proof (induction vs)
  case (Cons v vs)
  then show ?case
    using bucket_cases [of "bucket_of caps v"] by (auto simp: image_iff)
qed simp

lemma value_in_split:
  "value_in (range InSettled) caps vs + value_in (range InPreconfirmed) caps vs =
     value_in {InSettled Available, InPreconfirmed Available} caps vs
     + value_in {InSettled Gated, InPreconfirmed Gated} caps vs
     + value_in {InSettled IntentLocked, InPreconfirmed IntentLocked} caps vs"
proof (induction vs)
  case (Cons v vs)
  have "b \<in> range InSettled \<union> range InPreconfirmed \<Longrightarrow>
      \<exists>h. b = InSettled h \<or> b = InPreconfirmed h" for b
    by auto
  then show ?case
    using Cons by (cases "bucket_of caps v"; cases "hold_of caps v")
      (auto simp: image_iff elim: hold.exhaust, (metis hold.exhaust)+)
qed simp

lemma asset_in_toAssets:
  "distinct (map fst m) \<Longrightarrow> asset_in i (toAssets m) = or_default (js_get m i) 0"
proof (induction m)
  case Nil
  then show ?case by (simp add: toAssets_def)
next
  case (Cons p m)
  have "asset_in i (toAssets m) = 0" if "i \<notin> fst ` set m"
    using that Cons by (simp add: js_get_def dom_map_of_conv_image_fst [symmetric] domIff)
  with Cons show ?case
    by (cases p) (auto simp: toAssets_def js_get_def)
qed

lemma balance_fold_distinct:
  "distinct (map fst (owned b)) \<Longrightarrow> distinct (map fst (spendable b)) \<Longrightarrow>
    distinct (map fst (owned (fold (balance_step caps) vs b))) \<and>
    distinct (map fst (spendable (fold (balance_step caps) vs b)))"
proof (induction vs arbitrary: b)
  case (Cons v vs)
  have "distinct (map fst (owned (balance_step caps v b))) \<and>
        distinct (map fst (spendable (balance_step caps v b)))"
    using Cons(2,3) by (simp add: balance_step_def Let_def addAssets_distinct)
  with Cons(1) show ?case by simp
qed simp


text \<open>
  The asset list of the balance has one entry per asset with everything the unspent coins carry
  of it, and the available list one entry per asset with what the available coins carry.
\<close>

lemma balance_assets:
  "(let b = computeOffchainBalance vtxos caps in
      distinct (map assetId (assets b)) \<and> distinct (map assetId (availableAssets b)) \<and>
      (\<forall>i. asset_in i (assets b) = assets_in i (- {SpentCoin}) caps vtxos \<and>
           asset_in i (availableAssets b) =
             assets_in i {InSettled Available, InPreconfirmed Available} caps vtxos))"
proof -
  have "map assetId (toAssets m) = map fst m" for m
    by (simp add: toAssets_def case_prod_unfold)
  then show ?thesis
    using balance_fold [of caps vtxos empty_balance] balance_fold_distinct [of empty_balance caps vtxos]
    by (simp add: computeOffchainBalance_def balance_of_def Let_def BalanceAcc.defs empty_balance_def
        asset_in_toAssets)
qed

end
