(* ===== verification/Tx_Tree.thy ===== *)
theory Tx_Tree
  imports Prelude
begin

text \<open>
  The transaction trees of a batch: \<open>tree/txTree.ts\<close> (building a tree from the chunks the server
  streams, its structural validation, traversal and update) and \<open>tree/validation.ts\<close>.

  A transaction is the view the code has of the third-party \<open>Transaction\<close> class: its id, inputs,
  outputs and, of the PSBT fields of input 0, the decoded cosigner keys and the key signature. Decoding the PSBT of a
  chunk is a parameter. Output indices are the \<open>uint32\<close> keys of the wire, so naturals; the
  children of a chunk are listed in the order \<open>Object.entries\<close> gives them.

  \<open>buildGraph\<close> recurses over what the chunks say their children are, which may be cyclic: its
  model carries fuel, and \<open>None\<close> stands for a recursion that does not end (in the program, a stack
  overflow). One more than the number of chunks is enough fuel: \<open>buildGraph_total\<close>.
\<close>

record TxInput =
  in_txid :: "string option"
  in_index :: "nat option"

record TxOutput =
  out_amount :: "int option"
  out_script :: "bytes option"

record Tx =
  tx_id :: string
  tx_inputs :: "TxInput list"
  tx_outputs :: "TxOutput list"
  tx_cosigners :: "bytes list"
  tx_tapKeySig :: "bytes option"

record TxTreeNode =
  node_txid :: string
  node_tx :: string
  node_children :: "(nat \<times> string) list"

datatype TxTree = TxTree (root: Tx) (children: "(nat \<times> TxTree) list")

datatype tree_err =
    EmptyChunks | InvalidPsbt | NoRootChunk | MultipleRootChunks "string list"
  | ChunkNotFound string | NodeCountMismatch nat nat
  | WrongInputCount nat | TooManyChildren nat int | IndexOutOfBounds nat nat
  | BadChildInput nat | NoAmount nat | SumMismatch int int | TxNotFound string

datatype graph_err =
    Tree tree_err | NoSuchInput | InvalidSettlementTx | InvalidSettlementTxOutputs | NumberOfInputs
  | WrongSettlementTxid | InvalidRoundTxOutputs | WrongCommitmentTxid | InvalidAmount | NoLeaves
  | InvalidTaprootScript | MissingCosigners | OutputNotFound nat | InvalidScript nat

section \<open>Building a tree\<close>

type_synonym decoded = "Tx \<times> (nat \<times> string) list"
type_synonym decode_tx = "string \<Rightarrow> Tx option"

definition decodeNode :: "decode_tx \<Rightarrow> TxTreeNode \<Rightarrow> tree_err + decoded" where
  "decodeNode dtx chunk =
     (case dtx (node_tx chunk) of None \<Rightarrow> Inl InvalidPsbt | Some tx \<Rightarrow> Inr (tx, node_children chunk))"

fun chunks_by_txid :: "decode_tx \<Rightarrow> TxTreeNode list \<Rightarrow> (string \<times> decoded) list \<Rightarrow> tree_err + (string \<times> decoded) list" where
  "chunks_by_txid dtx [] m = Inr m"
| "chunks_by_txid dtx (c # cs) m =
     r_bind (decodeNode dtx c) (\<lambda>d. chunks_by_txid dtx cs (js_set (tx_id (fst d)) d m))"

definition hasChild :: "decoded \<Rightarrow> string \<Rightarrow> bool" where
  "hasChild chunk childTxid \<longleftrightarrow> childTxid \<in> set (map snd (snd chunk))"

definition root_txids :: "(string \<times> decoded) list \<Rightarrow> string list" where
  "root_txids m = filter (\<lambda>t. \<not> (\<exists>(other, chunk) \<in> set m. other \<noteq> t \<and> hasChild chunk t)) (map fst m)"

fun buildGraph :: "nat \<Rightarrow> (string \<times> decoded) list \<Rightarrow> string \<Rightarrow> TxTree option option"
and build_children :: "nat \<Rightarrow> (string \<times> decoded) list \<Rightarrow> (nat \<times> string) list \<Rightarrow> (nat \<times> TxTree) list
      \<Rightarrow> (nat \<times> TxTree) list option" where
  "buildGraph 0 m rootTxid = None"
| "buildGraph (Suc fuel) m rootTxid =
     (case js_get m rootTxid of
        None \<Rightarrow> Some None
      | Some (tx, cs) \<Rightarrow>
          (case build_children fuel m cs [] of
             None \<Rightarrow> None
           | Some built \<Rightarrow> Some (Some (TxTree tx built))))"
| "build_children fuel m [] built = Some built"
| "build_children fuel m ((outputIndex, childTxid) # cs) built =
     (case buildGraph fuel m childTxid of
        None \<Rightarrow> None
      | Some None \<Rightarrow> build_children fuel m cs built
      | Some (Some childGraph) \<Rightarrow> build_children fuel m cs (js_set outputIndex childGraph built))"

fun nbOfNodes :: "TxTree \<Rightarrow> nat" and nb_children :: "(nat \<times> TxTree) list \<Rightarrow> nat" where
  "nbOfNodes (TxTree r cs) = 1 + nb_children cs"
| "nb_children [] = 0"
| "nb_children ((i, c) # cs) = nbOfNodes c + nb_children cs"

definition TxTree_create :: "decode_tx \<Rightarrow> TxTreeNode list \<Rightarrow> (tree_err + TxTree) option" where
  "TxTree_create dtx chunks =
     (if chunks = [] then Some (Inl EmptyChunks)
      else case chunks_by_txid dtx chunks [] of
        Inl e \<Rightarrow> Some (Inl e)
      | Inr m \<Rightarrow>
          let rootTxids = root_txids m in
          if rootTxids = [] then Some (Inl NoRootChunk)
          else if length rootTxids > 1 then Some (Inl (MultipleRootChunks rootTxids))
          else case buildGraph (Suc (length m)) m (hd rootTxids) of
            None \<Rightarrow> None
          | Some None \<Rightarrow> Some (Inl (ChunkNotFound (hd rootTxids)))
          | Some (Some graph) \<Rightarrow>
              if nbOfNodes graph \<noteq> length chunks
              then Some (Inl (NodeCountMismatch (length chunks) (nbOfNodes graph)))
              else Some (Inr graph))"

section \<open>Validation, traversal and update\<close>

definition output_sum :: "Tx \<Rightarrow> int" where
  "output_sum tx = sum_list (map (\<lambda>out. case out_amount out of Some a \<Rightarrow> a | None \<Rightarrow> 0) (tx_outputs tx))"

fun TxTree_validate :: "TxTree \<Rightarrow> tree_err + unit"
and validate_children :: "Tx \<Rightarrow> (nat \<times> TxTree) list \<Rightarrow> tree_err + unit" where
  "TxTree_validate (TxTree r cs) =
     (let nbOfOutputs = length (tx_outputs r); nbOfInputs = length (tx_inputs r) in
      if nbOfInputs \<noteq> 1 then Inl (WrongInputCount nbOfInputs)
      else if int (length cs) > int nbOfOutputs - 1 then Inl (TooManyChildren (length cs) (int nbOfOutputs - 1))
      else validate_children r cs)"
| "validate_children r [] = Inr ()"
| "validate_children r ((outputIndex, child) # cs) =
     (if outputIndex \<ge> length (tx_outputs r)
      then Inl (IndexOutOfBounds outputIndex (length (tx_outputs r)))
      else r_bind (TxTree_validate child) (\<lambda>_.
        let childInput = hd (tx_inputs (root child)) in
        if in_txid childInput \<noteq> Some (tx_id r) \<or> in_index childInput \<noteq> Some outputIndex
        then Inl (BadChildInput outputIndex)
        else case out_amount (tx_outputs r ! outputIndex) of
          None \<Rightarrow> Inl (NoAmount outputIndex)
        | Some amount \<Rightarrow>
            if amount = 0 then Inl (NoAmount outputIndex)
            else if output_sum (root child) \<noteq> amount
              then Inl (SumMismatch (output_sum (root child)) amount)
            else validate_children r cs))"

fun leaves :: "TxTree \<Rightarrow> Tx list" and leaves_children :: "(nat \<times> TxTree) list \<Rightarrow> Tx list" where
  "leaves (TxTree r cs) = (if cs = [] then [r] else leaves_children cs)"
| "leaves_children [] = []"
| "leaves_children ((i, c) # cs) = leaves c @ leaves_children cs"

fun find_tree :: "string \<Rightarrow> TxTree \<Rightarrow> TxTree option"
and find_children :: "string \<Rightarrow> (nat \<times> TxTree) list \<Rightarrow> TxTree option" where
  "find_tree txid (TxTree r cs) = (if txid = tx_id r then Some (TxTree r cs) else find_children txid cs)"
| "find_children txid [] = None"
| "find_children txid ((i, c) # cs) =
     (case find_tree txid c of Some t \<Rightarrow> Some t | None \<Rightarrow> find_children txid cs)"

text \<open>
  \<open>update\<close> mutates the transaction in place, so the result is the tree with that transaction
  replaced. \<open>fn\<close> may throw (\<open>None\<close>): in the node itself that error reaches the caller, below a
  parent it is caught and the search goes on, to end with \<open>tx not found\<close>.
\<close>

datatype update_err = NotFound string | Callback

fun update_tree :: "string \<Rightarrow> (Tx \<Rightarrow> Tx option) \<Rightarrow> TxTree \<Rightarrow> update_err + TxTree"
and update_children :: "string \<Rightarrow> (Tx \<Rightarrow> Tx option) \<Rightarrow> (nat \<times> TxTree) list \<Rightarrow> (nat \<times> TxTree) list option" where
  "update_tree txid fn (TxTree r cs) =
     (if txid = tx_id r
      then (case fn r of None \<Rightarrow> Inl Callback | Some r' \<Rightarrow> Inr (TxTree r' cs))
      else case update_children txid fn cs of
        Some cs' \<Rightarrow> Inr (TxTree r cs')
      | None \<Rightarrow> Inl (NotFound txid))"
| "update_children txid fn [] = None"
| "update_children txid fn ((i, c) # cs) =
     (case update_tree txid fn c of
        Inr c' \<Rightarrow> Some ((i, c') # cs)
      | Inl e \<Rightarrow> (case update_children txid fn cs of Some cs' \<Rightarrow> Some ((i, c) # cs') | None \<Rightarrow> None))"

text \<open>\<open>iterator\<close>: children first, in order, then the node.\<close>

fun iter_nodes :: "TxTree \<Rightarrow> TxTree list" and iter_children :: "(nat \<times> TxTree) list \<Rightarrow> TxTree list" where
  "iter_nodes (TxTree r cs) = iter_children cs @ [TxTree r cs]"
| "iter_children [] = []"
| "iter_children ((i, c) # cs) = iter_nodes c @ iter_children cs"

section \<open>Validation against the commitment transaction\<close>

definition BATCH_OUTPUT_VTXO_INDEX :: nat where "BATCH_OUTPUT_VTXO_INDEX = 0"
definition BATCH_OUTPUT_CONNECTORS_INDEX :: nat where "BATCH_OUTPUT_CONNECTORS_INDEX = 1"

text \<open>\<open>getInput(0)\<close> throws when there is no such input.\<close>

definition first_input :: "Tx \<Rightarrow> graph_err + TxInput" where
  "first_input tx = (case tx_inputs tx of [] \<Rightarrow> Inl NoSuchInput | i # _ \<Rightarrow> Inr i)"

definition lift_tree :: "tree_err + 'a \<Rightarrow> graph_err + 'a" where
  "lift_tree x = (case x of Inl e \<Rightarrow> Inl (Tree e) | Inr v \<Rightarrow> Inr v)"

definition validateConnectorsTxGraph :: "decode_tx \<Rightarrow> string \<Rightarrow> TxTree \<Rightarrow> graph_err + unit" where
  "validateConnectorsTxGraph dtx settlementTxB64 connectorsGraph =
     r_bind (lift_tree (TxTree_validate connectorsGraph)) (\<lambda>_.
     if length (tx_inputs (root connectorsGraph)) \<noteq> 1 then Inl NumberOfInputs
     else r_bind (first_input (root connectorsGraph)) (\<lambda>rootInput.
       case dtx settlementTxB64 of
         None \<Rightarrow> Inl InvalidSettlementTx
       | Some settlementTx \<Rightarrow>
           if length (tx_outputs settlementTx) \<le> BATCH_OUTPUT_CONNECTORS_INDEX
           then Inl InvalidSettlementTxOutputs
           else if in_txid rootInput \<noteq> Some (tx_id settlementTx) then Inl WrongSettlementTxid
           else if in_index rootInput \<noteq> Some BATCH_OUTPUT_CONNECTORS_INDEX then Inl WrongSettlementTxid
           else Inr ()))"

text \<open>\<open>aggregateKeys(keys, true, {taprootTweak})\<close>: the 33-byte final key, when there is one.\<close>

type_synonym aggregate_keys = "bytes list \<Rightarrow> bytes \<Rightarrow> bytes option"

definition check_child_key :: "aggregate_keys \<Rightarrow> bytes \<Rightarrow> Tx \<Rightarrow> nat \<times> TxTree \<Rightarrow> graph_err + unit" where
  "check_child_key agg sweepTapTreeRoot parent ic =
     (let (childIndex, child) = ic in
      if childIndex \<ge> length (tx_outputs parent) then Inl (OutputNotFound childIndex)
      else case out_script (tx_outputs parent ! childIndex) of
        None \<Rightarrow> Inl (OutputNotFound childIndex)
      | Some script \<Rightarrow>
          let previousScriptKey = drop 2 script in
          if length previousScriptKey \<noteq> 32 then Inl (InvalidScript childIndex)
          else let cosignerKeys = tx_cosigners (root child) in
            if cosignerKeys = [] then Inl MissingCosigners
            else if map_option (drop 1) (agg cosignerKeys sweepTapTreeRoot) = Some previousScriptKey
              then Inr () else Inl InvalidTaprootScript)"

definition validateVtxoTxGraph :: "aggregate_keys \<Rightarrow> TxTree \<Rightarrow> Tx \<Rightarrow> bytes \<Rightarrow> graph_err + unit" where
  "validateVtxoTxGraph agg graph roundTransaction sweepTapTreeRoot =
     (if length (tx_outputs roundTransaction) < BATCH_OUTPUT_VTXO_INDEX + 1 then Inl InvalidRoundTxOutputs
      else case out_amount (tx_outputs roundTransaction ! BATCH_OUTPUT_VTXO_INDEX) of
        None \<Rightarrow> Inl InvalidRoundTxOutputs
      | Some batchOutputAmount \<Rightarrow>
          if batchOutputAmount = 0 then Inl InvalidRoundTxOutputs
          else r_bind (first_input (root graph)) (\<lambda>rootInput.
            if in_txid rootInput \<noteq> Some (tx_id roundTransaction)
               \<or> in_index rootInput \<noteq> Some BATCH_OUTPUT_VTXO_INDEX
            then Inl WrongCommitmentTxid
            else if output_sum (root graph) \<noteq> batchOutputAmount then Inl InvalidAmount
            else if leaves graph = [] then Inl NoLeaves
            else r_bind (lift_tree (TxTree_validate graph)) (\<lambda>_.
              r_each (\<lambda>g. r_each (check_child_key agg sweepTapTreeRoot (root g)) (children g))
                (iter_nodes graph))))"

section \<open>What validation establishes\<close>

text \<open>
  \<open>well_linked\<close> is the meaning of a successful \<open>validate\<close>: every node has one input, which spends
  the output of its parent it is filed under, and its outputs add up to that output.
\<close>

definition child_ok :: "Tx \<Rightarrow> nat \<Rightarrow> TxTree \<Rightarrow> bool" where
  "child_ok r i c \<longleftrightarrow> i < length (tx_outputs r) \<and>
     in_txid (hd (tx_inputs (root c))) = Some (tx_id r) \<and> in_index (hd (tx_inputs (root c))) = Some i \<and>
     out_amount (tx_outputs r ! i) = Some (output_sum (root c)) \<and> output_sum (root c) \<noteq> 0"

fun well_linked :: "TxTree \<Rightarrow> bool" and well_linked_children :: "Tx \<Rightarrow> (nat \<times> TxTree) list \<Rightarrow> bool" where
  "well_linked (TxTree r cs) \<longleftrightarrow> length (tx_inputs r) = 1 \<and>
     int (length cs) \<le> int (length (tx_outputs r)) - 1 \<and> well_linked_children r cs"
| "well_linked_children r [] = True"
| "well_linked_children r ((i, c) # cs) \<longleftrightarrow> child_ok r i c \<and> well_linked c \<and> well_linked_children r cs"

lemma TxTree_validate_iff:
  "TxTree_validate t = Inr u \<longleftrightarrow> well_linked t"
  "validate_children r cs = Inr u \<longleftrightarrow> well_linked_children r cs"
  by (induction t and r cs rule: TxTree_validate_validate_children.induct)
     (auto simp: Let_def child_ok_def r_bind_eq_Inr split: option.splits)

lemma well_linked_children_iff:
  "well_linked_children r cs \<longleftrightarrow> (\<forall>(i, c) \<in> set cs. child_ok r i c \<and> well_linked c)"
  by (induction cs) auto

text \<open>
  The unspent outputs of a tree: of every node, the outputs that no child is filed under.
\<close>

definition free_outputs :: "Tx \<Rightarrow> nat set \<Rightarrow> int" where
  "free_outputs r used = (\<Sum>i \<in> {..<length (tx_outputs r)} - used.
      case out_amount (tx_outputs r ! i) of Some a \<Rightarrow> a | None \<Rightarrow> 0)"

fun frontier_value :: "TxTree \<Rightarrow> int" and frontier_children :: "(nat \<times> TxTree) list \<Rightarrow> int" where
  "frontier_value (TxTree r cs) = free_outputs r (fst ` set cs) + frontier_children cs"
| "frontier_children [] = 0"
| "frontier_children ((i, c) # cs) = frontier_value c + frontier_children cs"

fun distinct_indices :: "TxTree \<Rightarrow> bool" and distinct_indices_children :: "(nat \<times> TxTree) list \<Rightarrow> bool" where
  "distinct_indices (TxTree r cs) \<longleftrightarrow> distinct (map fst cs) \<and> distinct_indices_children cs"
| "distinct_indices_children [] = True"
| "distinct_indices_children ((i, c) # cs) \<longleftrightarrow> distinct_indices c \<and> distinct_indices_children cs"

lemma output_sum_index:
  "output_sum r = (\<Sum>i<length (tx_outputs r). case out_amount (tx_outputs r ! i) of Some a \<Rightarrow> a | None \<Rightarrow> 0)"
  by (simp add: output_sum_def sum_list_sum_nth atLeast0LessThan)

lemma free_outputs_children:
  "well_linked_children r cs \<Longrightarrow> distinct (map fst cs) \<Longrightarrow>
     free_outputs r (fst ` set cs) + sum_list (map (\<lambda>(i, c). output_sum (root c)) cs) = output_sum r"
proof -
  assume wl: "well_linked_children r cs" and d: "distinct (map fst cs)"
  let ?v = "\<lambda>i. case out_amount (tx_outputs r ! i) of Some a \<Rightarrow> a | None \<Rightarrow> 0"
  have ok: "\<forall>(i, c) \<in> set cs. i < length (tx_outputs r) \<and> ?v i = output_sum (root c)"
    using wl by (auto simp: well_linked_children_iff child_ok_def)
  then have "sum_list (map (\<lambda>(i, c). output_sum (root c)) cs) = sum_list (map ?v (map fst cs))"
    by (induction cs) auto
  also have "\<dots> = (\<Sum>i \<in> fst ` set cs. ?v i)"
    using d by (simp only: sum_list_distinct_conv_sum_set set_map)
  finally have s: "sum_list (map (\<lambda>(i, c). output_sum (root c)) cs) = (\<Sum>i \<in> fst ` set cs. ?v i)" .
  have "fst ` set cs \<subseteq> {..<length (tx_outputs r)}"
    using ok by auto
  then have "(\<Sum>i<length (tx_outputs r). ?v i) = free_outputs r (fst ` set cs) + (\<Sum>i \<in> fst ` set cs. ?v i)"
    unfolding free_outputs_def by (intro sum.subset_diff) auto
  with s show ?thesis
    by (simp add: output_sum_index)
qed

lemma frontier_conserved:
  "well_linked t \<Longrightarrow> distinct_indices t \<Longrightarrow> frontier_value t = output_sum (root t)"
  "well_linked_children r cs \<Longrightarrow> distinct_indices_children cs \<Longrightarrow>
     frontier_children cs = sum_list (map (\<lambda>(i, c). output_sum (root c)) cs)"
proof (induction t and r cs rule: well_linked_well_linked_children.induct)
  case (1 r cs)
  then show ?case
    using free_outputs_children [of r cs] by simp
qed auto

section \<open>Building terminates on acyclic chunks\<close>

definition child_rel :: "(string \<times> decoded) list \<Rightarrow> (string \<times> string) set" where
  "child_rel m = {(p, c). \<exists>tx cs. js_get m p = Some (tx, cs) \<and> c \<in> snd ` set cs}"

text \<open>When the fuel runs out, the recursion has followed a chain of children of that length.\<close>

fun chain :: "(string \<times> decoded) list \<Rightarrow> string list \<Rightarrow> bool" where
  "chain m [] = True"
| "chain m [t] = True"
| "chain m (t # t' # ts) \<longleftrightarrow> (t, t') \<in> child_rel m \<and> chain m (t' # ts)"

lemma no_fuel_chain:
  "buildGraph fuel m t = None \<Longrightarrow> \<exists>ts. length ts = fuel \<and> chain m (t # ts)"
  "build_children fuel m cs built = None \<Longrightarrow> \<exists>c \<in> snd ` set cs. \<exists>ts. length ts = fuel \<and> chain m (c # ts)"
proof (induction fuel m t and fuel m cs built rule: buildGraph_build_children.induct)
  case (2 fuel m t)
  then obtain tx cs where g: "js_get m t = Some (tx, cs)" and "build_children fuel m cs [] = None"
    by (auto split: option.splits prod.splits)
  with 2(1) [OF g refl] obtain c ts where "c \<in> snd ` set cs" "length ts = fuel" "chain m (c # ts)"
    by blast
  with g show ?case
    by (intro exI [of _ "c # ts"]) (auto simp: child_rel_def)
next
  case (4 fuel m i c cs built)
  then show ?case
    by (auto split: option.splits)
qed auto

lemma chain_trancl:
  "chain m ts \<Longrightarrow> i < j \<Longrightarrow> j < length ts \<Longrightarrow> (ts ! i, ts ! j) \<in> (child_rel m)\<^sup>+"
proof (induction m ts arbitrary: i j rule: chain.induct)
  case (3 m t t' ts)
  then have r: "(t, t') \<in> child_rel m" and c: "chain m (t' # ts)"
    by auto
  obtain j' where j: "j = Suc j'"
    using 3(3) by (cases j) auto
  show ?case
  proof (cases i)
    case 0
    show ?thesis
    proof (cases j')
      case 0
      with \<open>i = 0\<close> j r show ?thesis by auto
    next
      case (Suc k)
      then have "((t' # ts) ! 0, (t' # ts) ! j') \<in> (child_rel m)\<^sup>+"
        using 3(1) [OF c, of 0 j'] 3(4) j by simp
      with r \<open>i = 0\<close> j show ?thesis
        by (simp add: trancl_into_trancl2)
    qed
  next
    case (Suc i')
    then show ?thesis
      using 3(1) [OF c, of i' j'] 3(3,4) j by simp
  qed
qed auto

lemma chain_keys:
  "chain m (t # ts) \<Longrightarrow> set (butlast (t # ts)) \<subseteq> set (map fst m)"
proof (induction ts arbitrary: t)
  case (Cons t' ts)
  then have "(t, t') \<in> child_rel m" and "chain m (t' # ts)"
    by auto
  then have "t \<in> set (map fst m)"
    using js_get_None [of m t] by (auto simp: child_rel_def)
  with Cons.IH [OF \<open>chain m (t' # ts)\<close>] show ?case
    by auto
qed simp

lemma buildGraph_total:
  assumes "acyclic (child_rel m)"
  shows "buildGraph (Suc (length m)) m t \<noteq> None"
proof
  assume "buildGraph (Suc (length m)) m t = None"
  then obtain ts where len: "length ts = Suc (length m)" and ch: "chain m (t # ts)"
    using no_fuel_chain by blast
  let ?xs = "butlast (t # ts)"
  have "card (set ?xs) \<le> card (set (map fst m))"
    using chain_keys [OF ch] by (intro card_mono) auto
  also have "\<dots> \<le> length m"
    using card_length [of "map fst m"] by simp
  finally have "card (set ?xs) < length ?xs"
    using len by (simp only: length_butlast list.size)
  then have "\<not> distinct ?xs"
    using distinct_card by fastforce
  then obtain i j where "i < j" "j < length ?xs" "?xs ! i = ?xs ! j"
    by (metis distinct_conv_nth nat_neq_iff)
  then have "i < j" "j < length (t # ts)" "(t # ts) ! i = (t # ts) ! j"
    using nth_butlast [of i "t # ts"] nth_butlast [of j "t # ts"] by (simp_all only: length_butlast)
  then have "((t # ts) ! j, (t # ts) ! j) \<in> (child_rel m)\<^sup>+"
    using chain_trancl [OF ch] by metis
  with assms show False
    by (simp add: acyclic_def)
qed

section \<open>The tree the chunks describe\<close>

lemma buildGraph_mono:
  "buildGraph fuel m t = Some x \<Longrightarrow> fuel \<le> fuel' \<Longrightarrow> buildGraph fuel' m t = Some x"
  "build_children fuel m cs built = Some b \<Longrightarrow> fuel \<le> fuel' \<Longrightarrow> build_children fuel' m cs built = Some b"
proof (induction fuel m t and fuel m cs built arbitrary: fuel' x and fuel' b rule: buildGraph_build_children.induct)
  case (2 fuel m t)
  from 2(3) obtain f where f: "fuel' = Suc f" "fuel \<le> f"
    by (cases fuel') auto
  show ?case
  proof (cases "js_get m t")
    case None
    with 2(2) f show ?thesis by simp
  next
    case (Some d)
    obtain tx cs where d: "d = (tx, cs)" by force
    with Some 2(2) obtain b where b: "build_children fuel m cs [] = Some b"
      by (auto split: option.splits)
    then have "build_children f m cs [] = Some b"
      using 2(1) [OF Some d [symmetric]] f(2) by blast
    with Some d b f(1) 2(2) show ?thesis by simp
  qed
next
  case (4 fuel m i c cs built)
  from 4(4) obtain r where r: "buildGraph fuel m c = Some r"
    by (cases "buildGraph fuel m c") auto
  then have r': "buildGraph fuel' m c = Some r"
    using 4(1,5) by blast
  show ?case
  proof (cases r)
    case None
    have "build_children fuel m cs built = Some b"
      using 4(4) r None by simp
    from 4(2) [OF r None this 4(5)] show ?thesis
      using r' None by simp
  next
    case (Some g)
    have "build_children fuel m cs (js_set i g built) = Some b"
      using 4(4) r Some by simp
    from 4(3) [OF r Some this 4(5)] show ?thesis
      using r' Some by simp
  qed
qed auto

definition keyed :: "(string \<times> decoded) list \<Rightarrow> bool" where
  "keyed m \<longleftrightarrow> (\<forall>k tx cs. js_get m k = Some (tx, cs) \<longrightarrow> tx_id tx = k)"

definition built :: "(string \<times> decoded) list \<Rightarrow> TxTree \<Rightarrow> bool" where
  "built m t \<longleftrightarrow> (\<exists>fuel. buildGraph fuel m (tx_id (root t)) = Some (Some t))"

lemma built_unique: "built m a \<Longrightarrow> built m b \<Longrightarrow> tx_id (root a) = tx_id (root b) \<Longrightarrow> a = b"
proof -
  assume "built m a" "built m b" and eq: "tx_id (root a) = tx_id (root b)"
  then obtain f g where "buildGraph f m (tx_id (root a)) = Some (Some a)"
      "buildGraph g m (tx_id (root a)) = Some (Some b)"
    by (auto simp: built_def)
  then have "buildGraph (max f g) m (tx_id (root a)) = Some (Some a)"
      "buildGraph (max f g) m (tx_id (root a)) = Some (Some b)"
    by (auto intro: buildGraph_mono)
  then show "a = b" by simp
qed

lemma js_set_in: "(i, c) \<in> set (js_set k v m) \<Longrightarrow> (i, c) = (k, v) \<or> (i, c) \<in> set m"
  by (induction m) (auto split: if_splits)

lemma buildGraph_built:
  "keyed m \<Longrightarrow> buildGraph fuel m t = Some (Some g) \<Longrightarrow> tx_id (root g) = t \<and> t \<in> set (map fst m) \<and>
     distinct (map fst (children g)) \<and> (\<forall>(i, c) \<in> set (children g). built m c)"
  "keyed m \<Longrightarrow> build_children fuel m cs b = Some b' \<Longrightarrow> distinct (map fst b) \<Longrightarrow> \<forall>(i, c) \<in> set b. built m c \<Longrightarrow>
     distinct (map fst b') \<and> (\<forall>(i, c) \<in> set b'. built m c)"
proof (induction fuel m t and fuel m cs b arbitrary: g and b' rule: buildGraph_build_children.induct)
  case (2 fuel m t)
  from 2(3) obtain tx cs bs where g: "js_get m t = Some (tx, cs)"
    and b: "build_children fuel m cs [] = Some bs" and "g = TxTree tx bs"
    by (auto split: option.splits prod.splits)
  moreover have "t \<in> set (map fst m)"
    using g js_get_None [of m t] by auto
  moreover have "tx_id tx = t"
    using g 2(2) unfolding keyed_def by blast
  moreover have "distinct (map fst bs) \<and> (\<forall>(i, c) \<in> set bs. built m c)"
    using 2(1) [OF g refl 2(2) b] by simp
  ultimately show ?case by simp
next
  case (4 fuel m i c cs b)
  show ?case
  proof (cases "buildGraph fuel m c")
    case None
    with 4(5) show ?thesis by simp
  next
    case (Some r)
    show ?thesis
    proof (cases r)
      case None
      with Some 4(2) [OF Some None] 4(4-7) show ?thesis by simp
    next
      case (Some cg)
      with \<open>buildGraph fuel m c = Some r\<close> have bg: "buildGraph fuel m c = Some (Some cg)"
        by simp
      then have "tx_id (root cg) = c"
        using 4(1) [OF 4(4)] by blast
      then have "built m cg"
        using bg by (auto simp: built_def)
      then have "\<forall>(j, d) \<in> set (js_set i cg b). built m d" "distinct (map fst (js_set i cg b))"
        using 4(6,7) by (auto simp: distinct_js_set dest: js_set_in)
      with 4(3) [OF bg refl 4(4)] 4(5) bg show ?thesis
        by simp
    qed
  qed
qed auto

section \<open>Every chunk is a node, once\<close>

definition is_child :: "TxTree \<Rightarrow> TxTree \<Rightarrow> bool" where
  "is_child p c \<longleftrightarrow> c \<in> snd ` set (children p)"

lemma nb_children_le: "(i, c) \<in> set cs \<Longrightarrow> nbOfNodes c \<le> nb_children cs"
  by (induction cs) auto

lemma is_child_size: "is_child p c \<Longrightarrow> nbOfNodes c < nbOfNodes p"
  by (cases p) (auto simp: is_child_def less_Suc_eq_le intro: nb_children_le)

lemma descendant_size: "is_child\<^sup>+\<^sup>+ p c \<Longrightarrow> nbOfNodes c < nbOfNodes p"
  by (induction rule: tranclp_induct) (auto dest: is_child_size)

lemma length_iter_nodes:
  "length (iter_nodes t) = nbOfNodes t"
  "length (iter_children cs) = nb_children cs"
  by (induction t and cs rule: nbOfNodes_nb_children.induct) auto

lemma iter_children_concat: "iter_children cs = concat (map (\<lambda>(i, c). iter_nodes c) cs)"
  by (induction cs) auto

lemma is_childI: "(i, c) \<in> set (children p) \<Longrightarrow> is_child p c"
  by (force simp: is_child_def)

lemma descendant_trans: "is_child p c \<Longrightarrow> is_child\<^sup>*\<^sup>* c n \<Longrightarrow> is_child\<^sup>*\<^sup>* p n"
  by (rule converse_rtranclp_into_rtranclp)

lemma iter_nodes_descendant:
  "n \<in> set (iter_nodes t) \<Longrightarrow> is_child\<^sup>*\<^sup>* t n"
  "n \<in> set (iter_children cs) \<Longrightarrow> \<exists>(i, c) \<in> set cs. is_child\<^sup>*\<^sup>* c n"
proof (induction t and cs rule: iter_nodes_iter_children.induct)
  case (1 r cs)
  have "is_child (TxTree r cs) c" if "(i, c) \<in> set cs" for i c
    using that by (auto intro: is_childI)
  with 1 show ?case
    by (auto intro: descendant_trans)
qed auto

text \<open>
  The structure \<open>create\<close> and \<open>validate\<close> establish together: a node is determined by its id, and
  the first input of a child names its parent and its index there.
\<close>

definition linked :: "TxTree \<Rightarrow> bool" where
  "linked t \<longleftrightarrow>
     (\<forall>a b. is_child\<^sup>*\<^sup>* t a \<and> is_child\<^sup>*\<^sup>* t b \<and> tx_id (root a) = tx_id (root b) \<longrightarrow> a = b) \<and>
     (\<forall>p i c. is_child\<^sup>*\<^sup>* t p \<and> (i, c) \<in> set (children p) \<longrightarrow>
        in_txid (hd (tx_inputs (root c))) = Some (tx_id (root p)) \<and>
        in_index (hd (tx_inputs (root c))) = Some i) \<and>
     (\<forall>p. is_child\<^sup>*\<^sup>* t p \<longrightarrow> distinct (map fst (children p)))"

lemma linked_child: "linked t \<Longrightarrow> is_child t c \<Longrightarrow> linked c"
  unfolding linked_def by (blast intro: descendant_trans)

lemma linked_unique:
  "linked t \<Longrightarrow> is_child\<^sup>*\<^sup>* t a \<Longrightarrow> is_child\<^sup>*\<^sup>* t b \<Longrightarrow> tx_id (root a) = tx_id (root b) \<Longrightarrow> a = b"
  unfolding linked_def by blast

text \<open>The id of a node does not occur below it.\<close>

lemma linked_above:
  assumes "linked t" and "is_child t c" and "is_child\<^sup>*\<^sup>* c n"
  shows "tx_id (root n) \<noteq> tx_id (root t)"
proof
  assume "tx_id (root n) = tx_id (root t)"
  then have "n = t"
    using assms by (intro linked_unique [of t]) (auto intro: descendant_trans)
  moreover have "is_child\<^sup>+\<^sup>+ t n"
    using assms(2,3) by (rule rtranclp_into_tranclp2)
  ultimately show False
    using descendant_size by fastforce
qed

text \<open>The parent of a node is determined by the node.\<close>

lemma linked_parent:
  "linked t \<Longrightarrow> is_child\<^sup>*\<^sup>* t p \<Longrightarrow> is_child\<^sup>*\<^sup>* t q \<Longrightarrow> (i, n) \<in> set (children p) \<Longrightarrow>
     (j, n) \<in> set (children q) \<Longrightarrow> tx_id (root p) = tx_id (root q) \<and> i = j"
  unfolding linked_def by (metis option.inject)

lemma linked_no_entry:
  assumes "linked t" and "is_child t c" and "is_child t d" and "is_child\<^sup>*\<^sup>* d p"
  shows "\<not> is_child p c"
proof
  assume "is_child p c"
  then obtain i j where "(i, c) \<in> set (children p)" "(j, c) \<in> set (children t)"
    using assms(2) by (auto simp: is_child_def)
  then have "tx_id (root p) = tx_id (root t)"
    using linked_parent [OF assms(1) descendant_trans [OF assms(3,4)] rtranclp.rtrancl_refl] by blast
  with linked_above [OF assms(1,3,4)] show False
    by simp
qed

lemma linked_disjoint:
  assumes l: "linked t" and c: "(i, c) \<in> set (children t)" and d: "(j, d) \<in> set (children t)" and ij: "i \<noteq> j"
  shows "is_child\<^sup>*\<^sup>* c n \<Longrightarrow> \<not> is_child\<^sup>*\<^sup>* d n"
proof (induction rule: rtranclp_induct)
  case base
  have "c \<noteq> d"
    using linked_parent [OF l _ _ c] d ij by blast
  then show ?case
    using linked_no_entry [OF l is_childI [OF c] is_childI [OF d]] by (metis rtranclp.cases)
next
  case (step p n)
  show ?case
  proof
    assume "is_child\<^sup>*\<^sup>* d n"
    then show False
    proof (cases rule: rtranclp.cases)
      case rtrancl_refl
      with step(2) linked_no_entry [OF l is_childI [OF d] is_childI [OF c] step(1)] show False
        by simp
    next
      case (rtrancl_into_rtrancl q)
      obtain k k' where "(k, n) \<in> set (children p)" "(k', n) \<in> set (children q)"
        using step(2) rtrancl_into_rtrancl(2) by (auto simp: is_child_def)
      moreover have tp: "is_child\<^sup>*\<^sup>* t p" and tq: "is_child\<^sup>*\<^sup>* t q"
        using step(1) rtrancl_into_rtrancl(1) c d by (auto intro: descendant_trans is_childI)
      ultimately have "p = q"
        using linked_parent [OF l tp tq] linked_unique [OF l tp tq] by blast
      with step(3) rtrancl_into_rtrancl(1) show False
        by simp
    qed
  qed
qed

lemma distinct_concat_indexed:
  assumes "distinct (map fst cs)" and "\<And>i c. (i, c) \<in> set cs \<Longrightarrow> distinct (f c)"
    and "\<And>i c j d. (i, c) \<in> set cs \<Longrightarrow> (j, d) \<in> set cs \<Longrightarrow> i \<noteq> j \<Longrightarrow> set (f c) \<inter> set (f d) = {}"
  shows "distinct (concat (map (\<lambda>(i, c). f c) cs))"
  using assms
proof (induction cs)
  case (Cons p cs)
  obtain i c where p: "p = (i, c)" by force
  have "set (f c) \<inter> set (f d) = {}" if "(j, d) \<in> set cs" for j d
  proof (rule Cons(4))
    show "(i, c) \<in> set (p # cs)" "(j, d) \<in> set (p # cs)"
      using that by (simp_all add: p)
    show "i \<noteq> j"
      using Cons(2) that by (force simp: p)
  qed
  then have "set (f c) \<inter> set (concat (map (\<lambda>(i, c). f c) cs)) = {}"
    by fastforce
  moreover have "distinct (f c)"
    using Cons(3) [of i c] by (simp add: p)
  moreover have "distinct (concat (map (\<lambda>(i, c). f c) cs))"
  proof (rule Cons(1))
    show "distinct (map fst cs)"
      using Cons(2) by simp
    show "distinct (f d)" if "(j, d) \<in> set cs" for j d
      using that Cons(3) by (meson list.set_intros(2))
    show "set (f d) \<inter> set (f e) = {}" if "(j, d) \<in> set cs" "(k, e) \<in> set cs" "j \<noteq> k" for j d k e
      using that Cons(4) by (meson list.set_intros(2))
  qed
  ultimately show ?case
    by (simp add: p)
qed simp

lemma linked_distinct: "linked t \<Longrightarrow> distinct (map (tx_id \<circ> root) (iter_nodes t))"
proof (induction "nbOfNodes t" arbitrary: t rule: less_induct)
  case less
  obtain r cs where t: "t = TxTree r cs"
    by (cases t)
  let ?ids = "\<lambda>c. map (tx_id \<circ> root) (iter_nodes c)"
  have dc: "distinct (?ids c)" if "(i, c) \<in> set cs" for i c
  proof -
    have "is_child t c"
      using that by (auto simp: t intro: is_childI)
    with less show ?thesis
      using is_child_size linked_child by blast
  qed
  have desc: "is_child\<^sup>*\<^sup>* t n" if "(i, c) \<in> set cs" "n \<in> set (iter_nodes c)" for i c n
    using that iter_nodes_descendant(1) is_childI [of i c t] by (auto simp: t intro: descendant_trans)
  have disj: "set (?ids c) \<inter> set (?ids d) = {}"
    if "(i, c) \<in> set cs" "(j, d) \<in> set cs" "i \<noteq> j" for i j c d
  proof -
    have False if "n \<in> set (iter_nodes c)" "n' \<in> set (iter_nodes d)" "tx_id (root n) = tx_id (root n')" for n n'
    proof -
      have "n = n'"
        using that desc \<open>(i, c) \<in> set cs\<close> \<open>(j, d) \<in> set cs\<close> less(2) linked_unique by blast
      with that linked_disjoint [OF less(2), of i c j d n] \<open>(i, c) \<in> set cs\<close> \<open>(j, d) \<in> set cs\<close> \<open>i \<noteq> j\<close>
      show False
        using iter_nodes_descendant(1) by (simp add: t)
    qed
    then show ?thesis by fastforce
  qed
  have "distinct (map fst cs)"
    using less(2) by (auto simp: linked_def t)
  then have "distinct (concat (map (\<lambda>(i, c). ?ids c) cs))"
    using dc disj by (rule distinct_concat_indexed)
  moreover have "tx_id r \<notin> set (concat (map (\<lambda>(i, c). ?ids c) cs))"
    using linked_above [OF less(2)] iter_nodes_descendant(1) by (force simp: t is_child_def)
  ultimately show ?case
    by (simp add: t iter_children_concat map_concat comp_def case_prod_unfold)
qed

text \<open>The ids of the transactions in the chunks.\<close>

definition chunk_ids :: "decode_tx \<Rightarrow> TxTreeNode list \<Rightarrow> string list" where
  "chunk_ids dtx chunks = map (\<lambda>c. case dtx (node_tx c) of Some tx \<Rightarrow> tx_id tx | None \<Rightarrow> '''') chunks"

lemma chunks_by_txid_keys:
  "chunks_by_txid dtx chunks m = Inr m' \<Longrightarrow> keyed m \<Longrightarrow>
     keyed m' \<and> set (map fst m') = set (map fst m) \<union> set (chunk_ids dtx chunks)"
proof (induction dtx chunks m rule: chunks_by_txid.induct)
  case (2 dtx c cs m)
  from 2(2) obtain d where d: "decodeNode dtx c = Inr d"
    and l: "chunks_by_txid dtx cs (js_set (tx_id (fst d)) d m) = Inr m'"
    by auto
  have "keyed (js_set (tx_id (fst d)) d m)"
    using 2(3) by (auto simp: keyed_def)
  with 2(1) [OF d l] have "keyed m' \<and> set (map fst m') =
      set (map fst (js_set (tx_id (fst d)) d m)) \<union> set (chunk_ids dtx cs)"
    by blast
  moreover have "chunk_ids dtx (c # cs) = tx_id (fst d) # chunk_ids dtx cs"
    using d by (auto simp: chunk_ids_def decodeNode_def split: option.splits)
  ultimately show ?case
    using keys_js_set [of "tx_id (fst d)" d m] by auto
qed (simp add: chunk_ids_def)

lemma TxTree_create_cases:
  assumes "TxTree_create dtx chunks = Some (Inr g)"
  obtains m fuel t where "chunks_by_txid dtx chunks [] = Inr m" and "buildGraph fuel m t = Some (Some g)"
    and "nbOfNodes g = length chunks"
  using assms
  by (auto simp: TxTree_create_def Let_def simp del: buildGraph.simps
      split: if_splits sum.splits option.splits)

lemma built_descendant: "is_child\<^sup>*\<^sup>* t n \<Longrightarrow> keyed m \<Longrightarrow> built m t \<Longrightarrow> built m n"
proof (induction rule: rtranclp_induct)
  case (step p n)
  then obtain fuel where "buildGraph fuel m (tx_id (root p)) = Some (Some p)"
    by (auto simp: built_def)
  then have "\<forall>(i, c) \<in> set (children p). built m c"
    using buildGraph_built(1) [OF step(4)] by blast
  with step(2) show ?case
    by (auto simp: is_child_def)
qed

lemma built_node:
  "keyed m \<Longrightarrow> built m n \<Longrightarrow> tx_id (root n) \<in> set (map fst m) \<and> distinct (map fst (children n))"
  unfolding built_def using buildGraph_built(1) by blast

lemma well_linked_descendant: "is_child\<^sup>*\<^sup>* t n \<Longrightarrow> well_linked t \<Longrightarrow> well_linked n"
proof (induction rule: rtranclp_induct)
  case (step p n)
  then show ?case
    by (cases p) (auto simp: is_child_def well_linked_children_iff)
qed

lemma well_linked_built_linked:
  assumes "keyed m" and "built m t" and "well_linked t"
  shows "linked t"
proof -
  have "in_txid (hd (tx_inputs (root c))) = Some (tx_id (root p)) \<and> in_index (hd (tx_inputs (root c))) = Some i"
    if "is_child\<^sup>*\<^sup>* t p" "(i, c) \<in> set (children p)" for p i c
    using well_linked_descendant [OF that(1) assms(3)] that(2)
    by (cases p) (auto simp: well_linked_children_iff child_ok_def)
  moreover have "built m n" if "is_child\<^sup>*\<^sup>* t n" for n
    using built_descendant [OF that assms(1,2)] .
  ultimately show ?thesis
    using built_unique built_node [OF assms(1)] unfolding linked_def by blast
qed

lemma distinct_indices_children_iff:
  "distinct_indices_children cs \<longleftrightarrow> (\<forall>(i, c) \<in> set cs. distinct_indices c)"
  by (induction cs) auto

lemma distinct_indices_built: "keyed m \<Longrightarrow> built m t \<Longrightarrow> distinct_indices t"
proof (induction "nbOfNodes t" arbitrary: t rule: less_induct)
  case less
  obtain r cs where t: "t = TxTree r cs"
    by (cases t)
  have "distinct_indices c" if "(i, c) \<in> set cs" for i c
  proof -
    have ic: "is_child t c"
      using that by (auto simp: t intro: is_childI)
    then show ?thesis
      using less(1) [OF is_child_size [OF ic] less(2)] built_descendant [OF _ less(2,3)] by blast
  qed
  then have "distinct_indices_children cs"
    by (auto simp: distinct_indices_children_iff)
  then show ?case
    using built_node [OF less(2,3)] by (simp add: t)
qed

lemma tree_accepted:
  assumes "TxTree_create dtx chunks = Some (Inr g)" and "TxTree_validate g = Inr ()"
  shows "distinct (chunk_ids dtx chunks) \<and> distinct (map (tx_id \<circ> root) (iter_nodes g)) \<and>
    set (map (tx_id \<circ> root) (iter_nodes g)) = set (chunk_ids dtx chunks) \<and>
    frontier_value g = output_sum (root g)"
proof -
  obtain m fuel t where m: "chunks_by_txid dtx chunks [] = Inr m"
    and b: "buildGraph fuel m t = Some (Some g)" and n: "nbOfNodes g = length chunks"
    using TxTree_create_cases [OF assms(1)] .
  have k: "keyed m" and keys: "set (map fst m) = set (chunk_ids dtx chunks)"
    using chunks_by_txid_keys [OF m] by (auto simp: keyed_def)
  have "tx_id (root g) = t"
    using buildGraph_built(1) [OF k b] by blast
  with b have bg: "built m g"
    by (auto simp: built_def)
  have wl: "well_linked g"
    using assms(2) TxTree_validate_iff(1) by blast
  let ?ids = "map (tx_id \<circ> root) (iter_nodes g)"
  have d: "distinct ?ids"
    using linked_distinct well_linked_built_linked [OF k bg wl] by blast
  have sub: "set ?ids \<subseteq> set (chunk_ids dtx chunks)"
    using iter_nodes_descendant(1) [of _ g] built_descendant [OF _ k bg] built_node [OF k] keys by auto
  have len: "card (set ?ids) = length (chunk_ids dtx chunks)"
    using distinct_card [OF d] n by (simp add: length_iter_nodes chunk_ids_def)
  then have eq: "set ?ids = set (chunk_ids dtx chunks)"
    using sub by (intro card_seteq) (simp_all add: card_length)
  with len have "distinct (chunk_ids dtx chunks)"
    by (simp add: card_distinct)
  moreover have "frontier_value g = output_sum (root g)"
    using frontier_conserved(1) [OF wl distinct_indices_built [OF k bg]] .
  ultimately show ?thesis
    using d eq by blast
qed


text \<open>
  Building the tree ends on every list of chunks whose child references contain no cycle.
\<close>

lemma tree_create_terminates:
  assumes "\<forall>m. chunks_by_txid dtx chunks [] = Inr m \<longrightarrow> acyclic (child_rel m)"
  shows "\<exists>r. TxTree_create dtx chunks = Some r"
proof (cases "chunks_by_txid dtx chunks []")
  case (Inl e)
  then show ?thesis
    by (cases "chunks = []") (simp_all add: TxTree_create_def)
next
  case (Inr m)
  with assms have "buildGraph (Suc (length m)) m (hd (root_txids m)) \<noteq> None"
    by (intro buildGraph_total) blast
  then obtain g where "buildGraph (Suc (length m)) m (hd (root_txids m)) = Some g"
    by blast
  with Inr show ?thesis
    by (cases g) (simp_all add: TxTree_create_def Let_def del: buildGraph.simps)
qed

section \<open>Samples, divergence, and the vtxo graph\<close>

definition sample_root :: Tx where
  "sample_root = \<lparr>tx_id = ''r'', tx_inputs = [\<lparr>in_txid = Some ''batch'', in_index = Some 0\<rparr>],
     tx_outputs = [\<lparr>out_amount = Some 10, out_script = Some (replicate 34 2)\<rparr>, \<lparr>out_amount = Some 5, out_script = None\<rparr>],
     tx_cosigners = [[1]], tx_tapKeySig = None\<rparr>"

definition sample_leaf :: Tx where
  "sample_leaf = \<lparr>tx_id = ''c'', tx_inputs = [\<lparr>in_txid = Some ''r'', in_index = Some 0\<rparr>],
     tx_outputs = [\<lparr>out_amount = Some 10, out_script = None\<rparr>], tx_cosigners = [[1]], tx_tapKeySig = None\<rparr>"

definition sample_commitment :: Tx where
  "sample_commitment = \<lparr>tx_id = ''batch'', tx_inputs = [], tx_outputs = [\<lparr>out_amount = Some 15, out_script = None\<rparr>],
     tx_cosigners = [], tx_tapKeySig = None\<rparr>"

definition sample_psbts :: decode_tx where
  "sample_psbts s = (if s = ''R'' then Some sample_root else if s = ''C'' then Some sample_leaf else None)"

definition sample_chunks :: "TxTreeNode list" where
  "sample_chunks = [\<lparr>node_txid = ''c'', node_tx = ''C'', node_children = []\<rparr>,
     \<lparr>node_txid = ''r'', node_tx = ''R'', node_children = [(0, ''c'')]\<rparr>]"

definition sample_tree :: TxTree where
  "sample_tree = TxTree sample_root [(0, TxTree sample_leaf [])]"

lemma sample_create: "TxTree_create sample_psbts sample_chunks = Some (Inr sample_tree)"
  by code_simp

lemma sample_validates: "TxTree_validate sample_tree = Inr ()"
  by code_simp


lemma tree_create_terminates_witness:
  "\<exists>r. TxTree_create sample_psbts sample_chunks = Some r"
proof (rule tree_create_terminates)
  show "\<forall>m. chunks_by_txid sample_psbts sample_chunks [] = Inr m \<longrightarrow> acyclic (child_rel m)"
  proof (intro allI impI)
    fix m
    assume "chunks_by_txid sample_psbts sample_chunks [] = Inr m"
    then have m: "m = [(''c'', (sample_leaf, [])), (''r'', (sample_root, [(0, ''c'')]))]"
      by (simp add: sample_chunks_def sample_psbts_def decodeNode_def sample_leaf_def sample_root_def)
    have "child_rel m \<subseteq> {(''r'', ''c'')}"
      by (auto simp: m child_rel_def split: if_splits)
    moreover have "acyclic {(''r'' :: string, ''c'')}"
      by (simp add: acyclic_insert wf_acyclic)
    ultimately show "acyclic (child_rel m)"
      by (rule acyclic_subset [rotated])
  qed
qed

text \<open>
  Nothing checks the references for cycles: a chunk that the server lists as its own child is
  taken for the root and expanded forever, so \<open>create\<close> neither returns nor throws an error of its
  own.
\<close>

lemma tree_create_self_child_diverges:
  "TxTree_create sample_psbts [\<lparr>node_txid = ''r'', node_tx = ''R'', node_children = [(0, ''r'')]\<rparr>] = None \<and>
   (\<forall>fuel. buildGraph fuel [(''r'', (sample_root, [(0, ''r'')]))] ''r'' = None)"
proof -
  have "buildGraph fuel [(''r'', (sample_root, [(0, ''r'')]))] ''r'' = None" for fuel
  proof (induction fuel)
    case (Suc n)
    then show ?case
      by (cases n) simp_all
  qed simp
  moreover have "TxTree_create sample_psbts [\<lparr>node_txid = ''r'', node_tx = ''R'', node_children = [(0, ''r'')]\<rparr>] = None"
    by code_simp
  ultimately show ?thesis by blast
qed

lemma check_child_key_iff:
  "check_child_key agg sweep parent (i, c) = Inr u \<longleftrightarrow>
     (\<exists>script. i < length (tx_outputs parent) \<and> out_script (tx_outputs parent ! i) = Some script \<and>
        length (drop 2 script) = 32 \<and> tx_cosigners (root c) \<noteq> [] \<and>
        map_option (drop 1) (agg (tx_cosigners (root c)) sweep) = Some (drop 2 script))"
  by (auto simp: check_child_key_def Let_def split: option.splits)


text \<open>For the sample, the aggregate of the cosigners is the key in the root's first output.\<close>

definition sample_aggregate :: aggregate_keys where
  "sample_aggregate keys sweep = Some (replicate 33 2)"


section \<open>Searching and updating\<close>

lemma find_tree_None:
  "find_tree x t = None \<longleftrightarrow> x \<notin> (tx_id \<circ> root) ` set (iter_nodes t)"
  "find_children x cs = None \<longleftrightarrow> x \<notin> (tx_id \<circ> root) ` set (iter_children cs)"
  by (induction x t and x cs rule: find_tree_find_children.induct) (auto split: option.splits)

lemma find_tree_Some:
  "find_tree x t = Some n \<Longrightarrow> n \<in> set (iter_nodes t) \<and> tx_id (root n) = x"
  "find_children x cs = Some n \<Longrightarrow> n \<in> set (iter_children cs) \<and> tx_id (root n) = x"
  by (induction x t and x cs rule: find_tree_find_children.induct)
     (auto split: option.splits if_splits)

definition tree_txs :: "TxTree \<Rightarrow> Tx list" where
  "tree_txs t = map root (iter_nodes t)"

definition children_txs :: "(nat \<times> TxTree) list \<Rightarrow> Tx list" where
  "children_txs cs = map root (iter_children cs)"

lemma txs_simps [simp]:
  "tree_txs (TxTree r cs) = children_txs cs @ [r]"
  "children_txs [] = []"
  "children_txs ((i, c) # cs) = tree_txs c @ children_txs cs"
  by (simp_all add: tree_txs_def children_txs_def)

definition replace_tx :: "string \<Rightarrow> Tx \<Rightarrow> Tx \<Rightarrow> Tx" where
  "replace_tx x r' tx = (if tx_id tx = x then r' else tx)"

lemma replace_absent: "x \<notin> tx_id ` set txs \<Longrightarrow> map (replace_tx x r') txs = txs"
  by (induction txs) (auto simp: replace_tx_def)

lemma update_absent:
  "x \<notin> tx_id ` set (tree_txs t) \<Longrightarrow> update_tree x fn t = Inl (NotFound x)"
  "x \<notin> tx_id ` set (children_txs cs) \<Longrightarrow> update_children x fn cs = None"
  by (induction x fn t and x fn cs rule: update_tree_update_children.induct) (auto simp: image_Un)

lemma update_tree_replaces:
  "distinct (map tx_id (tree_txs t)) \<Longrightarrow> r \<in> set (tree_txs t) \<Longrightarrow> tx_id r = x \<Longrightarrow> fn r = Some r' \<Longrightarrow>
     \<exists>t'. update_tree x fn t = Inr t' \<and> tree_txs t' = map (replace_tx x r') (tree_txs t)"
  "distinct (map tx_id (children_txs cs)) \<Longrightarrow> r \<in> set (children_txs cs) \<Longrightarrow> tx_id r = x \<Longrightarrow> fn r = Some r' \<Longrightarrow>
     \<exists>cs'. update_children x fn cs = Some cs' \<and> children_txs cs' = map (replace_tx x r') (children_txs cs)"
proof (induction x fn t and x fn cs rule: update_tree_update_children.induct)
  case (1 x fn r0 cs)
  show ?case
  proof (cases "x = tx_id r0")
    case True
    then have absent: "x \<notin> tx_id ` set (children_txs cs)"
      using 1(2) by auto
    then have "r = r0"
      using 1(3,4) by auto
    have "replace_tx x r' r0 = r'"
      using True by (simp add: replace_tx_def)
    with True 1(5) \<open>r = r0\<close> show ?thesis
      by (simp add: replace_absent [OF absent [unfolded True]])
  next
    case False
    with 1 show ?thesis
      by (auto simp: replace_tx_def)
  qed
next
  case (3 x fn i c cs)
  show ?case
  proof (cases "r \<in> set (tree_txs c)")
    case True
    then have "x \<notin> tx_id ` set (children_txs cs)"
      using 3(3,5) by auto
    with True 3 show ?thesis
      by (auto simp: replace_absent)
  next
    case False
    then have "r \<in> set (children_txs cs)"
      using 3(4) by simp
    then have "x \<notin> tx_id ` set (tree_txs c)"
      using 3(3,5) by auto
    with False 3 \<open>r \<in> set (children_txs cs)\<close> show ?thesis
      by (auto simp: replace_absent update_absent)
  qed
qed auto

text \<open>
  In a tree that was created from chunks and validated, a signature callback that succeeds for
  a transaction is applied to exactly that transaction, wherever it is in the tree, and an unknown
  id is reported as not found.
\<close>

lemma tree_update_exact:
  assumes "TxTree_create dtx chunks = Some (Inr g)" and "TxTree_validate g = Inr ()"
  shows "(case find_tree x g of
      None \<Rightarrow> x \<notin> set (chunk_ids dtx chunks) \<and> update_tree x fn g = Inl (NotFound x)
    | Some n \<Rightarrow> tx_id (root n) = x \<and> (\<forall>r'. fn (root n) = Some r' \<longrightarrow>
        (\<exists>g'. update_tree x fn g = Inr g' \<and> tree_txs g' = map (replace_tx x r') (tree_txs g))))"
proof (cases "find_tree x g")
  case None
  then have "x \<notin> tx_id ` set (tree_txs g)"
    using find_tree_None(1) [of x g] by (auto simp: tree_txs_def)
  moreover have "set (chunk_ids dtx chunks) = tx_id ` set (tree_txs g)"
    using tree_accepted [OF assms] by (auto simp: tree_txs_def image_comp comp_def)
  ultimately show ?thesis
    using None update_absent(1) by simp
next
  case (Some n)
  have "distinct (map tx_id (tree_txs g))"
    using tree_accepted [OF assms] by (simp add: tree_txs_def)
  moreover have "root n \<in> set (tree_txs g)" "tx_id (root n) = x"
    using find_tree_Some(1) [OF Some] by (auto simp: tree_txs_def)
  ultimately show ?thesis
    using Some update_tree_replaces(1) [of g "root n" x fn] by simp
qed

lemma tree_update_exact_witness:
  "\<exists>g'. update_tree ''c'' (\<lambda>tx. Some (tx\<lparr>tx_cosigners := []\<rparr>)) sample_tree = Inr g' \<and>
     map tx_cosigners (tree_txs g') = [[], [[1]]]"
proof -
  have f: "find_tree ''c'' sample_tree = Some (TxTree sample_leaf [])"
    by code_simp
  from tree_update_exact [OF sample_create sample_validates, of "''c''" "\<lambda>tx. Some (tx\<lparr>tx_cosigners := []\<rparr>)"] f
  obtain g' where "update_tree ''c'' (\<lambda>tx. Some (tx\<lparr>tx_cosigners := []\<rparr>)) sample_tree = Inr g'"
      and "tree_txs g' = map (replace_tx ''c'' (sample_leaf\<lparr>tx_cosigners := []\<rparr>)) (tree_txs sample_tree)"
    by auto
  then show ?thesis
    by (simp add: sample_tree_def replace_tx_def sample_leaf_def sample_root_def)
qed

end
