(* ===== verification/Intent_State.thy ===== *)
theory Intent_State
  imports Vtxo_Query Tx_Tree
begin

text \<open>
  Intents and the settlement events that drive them: the intent record and the in-memory repository
  (\<open>repositories/intentRepository.ts\<close>, \<open>repositories/inMemory/intentRepository.ts\<close>), the state
  reducer (\<open>wallet/intentStateReducer.ts\<close>), its persistence from the batch lifecycle
  (\<open>wallet/intentPersistenceHandler.ts\<close>) and the reconciliation of intents left behind by a crash
  (\<open>wallet/intentReconciliation.ts\<close>).

  The locale \<open>intent_store\<close> is the part of the repository interface its clients use: reading an
  intent by its id, and saving it. The clients' lemmas are proved in the locale and instantiated
  for the in-memory repository. The clock is an argument of every operation that reads it.
\<close>

datatype ArkIntentState =
    WaitingToSubmit | WaitingForBatch | BatchInProgress | BatchFailedState | BatchSucceeded | Cancelled

definition ALL_INTENT_STATES :: "ArkIntentState list" where
  "ALL_INTENT_STATES = [WaitingToSubmit, WaitingForBatch, BatchInProgress, BatchFailedState,
     BatchSucceeded, Cancelled]"

definition INTENT_TERMINAL_STATES :: "ArkIntentState list" where
  "INTENT_TERMINAL_STATES = [BatchFailedState, BatchSucceeded, Cancelled]"

definition isTerminalIntentState :: "ArkIntentState \<Rightarrow> bool" where
  "isTerminalIntentState s = (s \<in> set INTENT_TERMINAL_STATES)"

definition NON_TERMINAL_INTENT_STATES :: "ArkIntentState list" where
  "NON_TERMINAL_INTENT_STATES = filter (\<lambda>s. \<not> isTerminalIntentState s) ALL_INTENT_STATES"

lemma isTerminal_simps [simp]:
  "isTerminalIntentState BatchFailedState" "isTerminalIntentState BatchSucceeded"
  "isTerminalIntentState Cancelled" "\<not> isTerminalIntentState WaitingToSubmit"
  "\<not> isTerminalIntentState WaitingForBatch" "\<not> isTerminalIntentState BatchInProgress"
  by (simp_all add: isTerminalIntentState_def INTENT_TERMINAL_STATES_def)

record ArkIntent =
  intentTxId :: string
  intentId :: "string option"
  intent_state :: ArkIntentState
  validFrom :: "int option"
  validUntil :: "int option"
  intent_createdAt :: int
  updatedAt :: int
  registerProof :: string
  registerProofMessage :: string
  deleteProof :: string
  deleteProofMessage :: string
  batchId :: "string option"
  commitmentTransactionId :: "string option"
  cancellationReason :: "string option"
  partialForfeits :: "string list"
  signerDescriptor :: "string option"
  intentVtxos :: "Outpoint list"

section \<open>The repository\<close>

record IntentFilter =
  f_intentTxIds :: "string list option"
  f_intentIds :: "string list option"
  f_containingInputs :: "Outpoint list option"
  f_states :: "ArkIntentState list option"
  f_validAt :: "int option"
  f_searchText :: "string option"
  f_skip :: "int option"
  f_take :: "int option"

definition no_filter :: IntentFilter where
  "no_filter = \<lparr>f_intentTxIds = None, f_intentIds = None, f_containingInputs = None, f_states = None,
     f_validAt = None, f_searchText = None, f_skip = None, f_take = None\<rparr>"

text \<open>\<open>parts.filter(Boolean).join(" ")\<close>.\<close>

fun join_space :: "string list \<Rightarrow> string" where
  "join_space [] = ''''"
| "join_space [s] = s"
| "join_space (s # ss) = s @ '' '' @ join_space ss"

definition intentMatchesFilter :: "ArkIntent \<Rightarrow> IntentFilter \<Rightarrow> bool" where
  "intentMatchesFilter i f =
     (if (case f_intentTxIds f of Some ids \<Rightarrow> intentTxId i \<notin> set ids | None \<Rightarrow> False) then False
      else if (case f_intentIds f of
                 Some ids \<Rightarrow> \<not> truthy_str (intentId i) \<or> the (intentId i) \<notin> set ids | None \<Rightarrow> False) then False
      else if (case f_states f of Some ss \<Rightarrow> intent_state i \<notin> set ss | None \<Rightarrow> False) then False
      else if (case f_containingInputs f of
                 Some os \<Rightarrow> \<not> (\<exists>out \<in> set os. out \<in> set (intentVtxos i)) | None \<Rightarrow> False) then False
      else if (case f_validAt f of
                 Some t \<Rightarrow> (case validFrom i of Some v \<Rightarrow> t < v | None \<Rightarrow> False) \<or>
                           (case validUntil i of Some v \<Rightarrow> t > v | None \<Rightarrow> False)
               | None \<Rightarrow> False) then False
      else if truthy_str (f_searchText f) \<and>
              \<not> str_includes (join_space (map the (filter truthy_str
                  [intentId i, batchId i, commitmentTransactionId i]))) (the (f_searchText f)) then False
      else True)"

definition intentPageBounds :: "IntentFilter option \<Rightarrow> nat \<Rightarrow> nat \<times> nat" where
  "intentPageBounds f tot =
     (let skip = nat (max 0 (or_default (Option.bind f f_skip) 0));
          take_n = (case Option.bind f f_take of None \<Rightarrow> tot | Some t \<Rightarrow> nat (max 0 t))
      in (skip, skip + take_n))"

datatype intent_err = IntentIdTaken string string

definition assertIntentIdUnique :: "ArkIntent \<Rightarrow> ArkIntent list \<Rightarrow> intent_err + unit" where
  "assertIntentIdUnique intent existing =
     (case intentId intent of
        None \<Rightarrow> Inr ()
      | Some k \<Rightarrow> (case find (\<lambda>e. intentTxId e \<noteq> intentTxId intent \<and> intentId e = Some k) existing of
            Some e \<Rightarrow> Inl (IntentIdTaken k (intentTxId e))
          | None \<Rightarrow> Inr ()))"

type_synonym intents = "(string \<times> ArkIntent) list"

definition saveIntent :: "int \<Rightarrow> ArkIntent \<Rightarrow> intents \<Rightarrow> intent_err + intents" where
  "saveIntent now intent byId =
     r_bind (assertIntentIdUnique intent (map snd byId)) (\<lambda>_.
       Inr (js_set (intentTxId intent) (intent\<lparr>updatedAt := now\<rparr>) byId))"

text \<open>\<open>lc\<close> is \<open>localeCompare\<close>.\<close>

definition intent_order :: "(string \<Rightarrow> string \<Rightarrow> int) \<Rightarrow> ArkIntent \<Rightarrow> ArkIntent \<Rightarrow> int" where
  "intent_order lc a b =
     (let d = intent_createdAt a - intent_createdAt b
      in if d \<noteq> 0 then d else lc (intentTxId a) (intentTxId b))"

definition getIntents :: "(string \<Rightarrow> string \<Rightarrow> int) \<Rightarrow> IntentFilter option \<Rightarrow> intents \<Rightarrow> ArkIntent list" where
  "getIntents lc f byId =
     (let out = (case f of Some flt \<Rightarrow> filter (\<lambda>i. intentMatchesFilter i flt) (map snd byId)
                 | None \<Rightarrow> map snd byId);
          sorted_out = sort_by (intent_order lc) out;
          (skip, end_n) = intentPageBounds f (length sorted_out)
      in take (end_n - skip) (drop skip sorted_out))"

definition getLockedVtxoOutpoints :: "intents \<Rightarrow> Outpoint list" where
  "getLockedVtxoOutpoints byId =
     concat (map intentVtxos (filter (\<lambda>i. \<not> isTerminalIntentState (intent_state i)) (map snd byId)))"

text \<open>What the repository maintains: rows are filed under their own id, and no two share a server id.\<close>

definition store_ok :: "intents \<Rightarrow> bool" where
  "store_ok byId \<longleftrightarrow> distinct (map fst byId) \<and>
     (\<forall>k i. js_get byId k = Some i \<longrightarrow> intentTxId i = k) \<and>
     (\<forall>k i k' i' y. js_get byId k = Some i \<and> js_get byId k' = Some i' \<and>
        intentId i = Some y \<and> intentId i' = Some y \<longrightarrow> k = k')"

lemma js_get_mem: "js_get m k = Some v \<Longrightarrow> v \<in> set (map snd m)"
  by (force simp: js_get_def dest: map_of_SomeD)

lemma assert_unique_free:
  assumes "assertIntentIdUnique intent (map snd byId) = Inr ()" and "store_ok byId"
    and "js_get byId k = Some e" and "k \<noteq> intentTxId intent" and "intentId intent = Some y"
  shows "intentId e \<noteq> Some y"
proof -
  have "intentTxId e \<noteq> intentTxId intent"
    using assms(2-4) by (auto simp: store_ok_def)
  with assms(1,5) js_get_mem [OF assms(3)] show ?thesis
    by (auto simp: assertIntentIdUnique_def find_None_iff split: option.splits)
qed

lemma saveIntent_ok:
  assumes "store_ok byId" and "saveIntent now intent byId = Inr byId'"
  shows "store_ok byId' \<and> (\<forall>k. js_get byId' k =
      (if k = intentTxId intent then Some (intent\<lparr>updatedAt := now\<rparr>) else js_get byId k))"
proof -
  from assms(2) have u: "assertIntentIdUnique intent (map snd byId) = Inr ()"
    and b: "byId' = js_set (intentTxId intent) (intent\<lparr>updatedAt := now\<rparr>) byId"
    by (auto simp: saveIntent_def)
  have "store_ok byId'"
    unfolding store_ok_def
  proof (intro conjI allI impI)
    show "distinct (map fst byId')"
      using assms(1) by (simp add: b store_ok_def distinct_js_set)
    show "intentTxId i = k" if "js_get byId' k = Some i" for k i
      using that assms(1) by (auto simp: b store_ok_def split: if_splits)
    show "k = k'" if "js_get byId' k = Some i \<and> js_get byId' k' = Some i' \<and> intentId i = Some y \<and> intentId i' = Some y"
      for k i k' i' y
    proof (cases "k = intentTxId intent \<or> k' = intentTxId intent")
      case True
      then show ?thesis
        using that assert_unique_free [OF u assms(1), of k i] assert_unique_free [OF u assms(1), of k' i']
        by (auto simp: b split: if_splits)
    next
      case False
      then have "js_get byId k = Some i" "js_get byId k' = Some i'"
        using that by (auto simp: b)
      with that assms(1) show ?thesis
        unfolding store_ok_def by blast
    qed
  qed
  then show ?thesis
    by (simp add: b)
qed

section \<open>Settlement events and the reducer\<close>

datatype SettlementEvent =
    BatchStarted (ev_id: string) (intentIdHashes: "string list") (batchExpiry: int)
  | BatchFinalization (ev_id: string) (commitmentTx: string)
  | BatchFinalized (ev_id: string) (commitmentTxid: string)
  | BatchFailed (ev_id: string) (reason: string)
  | TreeSigningStarted (ev_id: string) (cosignersPublicKeys: "string list") (unsignedCommitmentTx: string)
  | TreeNonces (ev_id: string) (topic: "string list") (ev_txid: string) (nonces: "(string \<times> bytes) list")
  | TreeTx (ev_id: string) (topic: "string list") (batchIndex: int) (chunk: TxTreeNode)
  | TreeSignature (ev_id: string) (topic: "string list") (batchIndex: int) (ev_txid: string) (signature: string)
  | StreamStarted (ev_id: string)

definition reduceIntentState :: "ArkIntentState \<Rightarrow> SettlementEvent \<Rightarrow> ArkIntentState" where
  "reduceIntentState current event =
     (if isTerminalIntentState current then current
      else case event of
        BatchStarted _ _ _ \<Rightarrow> BatchInProgress
      | BatchFinalized _ _ \<Rightarrow> BatchSucceeded
      | BatchFailed _ _ \<Rightarrow> BatchFailedState
      | _ \<Rightarrow> current)"

definition applySettlementEventToIntent :: "ArkIntent \<Rightarrow> SettlementEvent \<Rightarrow> ArkIntent option" where
  "applySettlementEventToIntent intent event =
     (let next = reduceIntentState (intent_state intent) event in
      if next = intent_state intent then None
      else let updated = intent\<lparr>intent_state := next, batchId := Some (ev_id event)\<rparr>;
               updated = (case event of
                   BatchFinalized _ txid \<Rightarrow> updated\<lparr>commitmentTransactionId := Some txid\<rparr> | _ \<Rightarrow> updated);
               updated = (case event of
                   BatchFailed _ r \<Rightarrow> updated\<lparr>cancellationReason := Some r\<rparr> | _ \<Rightarrow> updated)
           in Some updated)"

text \<open>\<open>read\<close> is \<open>getIntents({intentTxIds: [id]})[0]\<close>; a read that throws leaves the store as it is,
  like an absent intent.\<close>

definition persistTransition ::
  "('s \<Rightarrow> string \<Rightarrow> ArkIntent option) \<Rightarrow> (int \<Rightarrow> ArkIntent \<Rightarrow> 's \<Rightarrow> 'e + 's) \<Rightarrow> int \<Rightarrow> string \<Rightarrow>
   SettlementEvent \<Rightarrow> 's \<Rightarrow> 's" where
  "persistTransition read save now txid event s =
     (case read s txid of
        None \<Rightarrow> s
      | Some cur \<Rightarrow>
          (case applySettlementEventToIntent cur event of
             None \<Rightarrow> s
           | Some next \<Rightarrow> (case save now next s of Inr s' \<Rightarrow> s' | Inl e \<Rightarrow> s)))"

section \<open>Reconciliation\<close>

definition isConsumed :: "VirtualCoin option \<Rightarrow> bool" where
  "isConsumed v = (case v of Some c \<Rightarrow> isSpent c = Some True \<or> settledBy c \<noteq> None | None \<Rightarrow> False)"

definition terminal_intent ::
  "ArkIntent \<Rightarrow> ArkIntentState \<Rightarrow> int \<Rightarrow> (ArkIntent \<Rightarrow> ArkIntent) \<Rightarrow> ArkIntent" where
  "terminal_intent intent st now patch = (patch intent)\<lparr>intent_state := st, updatedAt := now\<rparr>"

text \<open>The map key \<open>`${txid}:${vout}`\<close> is the outpoint itself.\<close>

definition classifyIntent :: "ArkIntent \<Rightarrow> (Outpoint \<times> VirtualCoin) list \<Rightarrow> int \<Rightarrow> ArkIntent option" where
  "classifyIntent intent vtxosByOutpoint now =
     (if isTerminalIntentState (intent_state intent) then None
      else let inputs = intentVtxos intent; consumed = map (js_get vtxosByOutpoint) inputs in
        if inputs \<noteq> [] \<and> list_all isConsumed consumed
        then let c = (case commitmentTransactionId intent of
                        Some t \<Rightarrow> Some t
                      | None \<Rightarrow> Option.bind (find truthy_str (map (\<lambda>v. Option.bind v settledBy) consumed)) id)
             in Some (terminal_intent intent BatchSucceeded now (\<lambda>i. i\<lparr>commitmentTransactionId := c\<rparr>))
        else if intent_state intent = WaitingToSubmit
        then Some (terminal_intent intent Cancelled now
               (\<lambda>i. i\<lparr>cancellationReason := Some ''reconciliation: intent was never submitted before restart''\<rparr>))
        else if (case validUntil intent of Some v \<Rightarrow> v < now | None \<Rightarrow> False)
        then Some (terminal_intent intent Cancelled now
               (\<lambda>i. i\<lparr>cancellationReason := Some ''reconciliation: intent expired''\<rparr>))
        else None)"

text \<open>
  The loop over the intents of the snapshot. \<open>env n\<close> is what the rest of the wallet does to the
  store while the loop awaits, before its \<open>n\<close>-th re-read.
\<close>

fun reconcile_loop ::
  "('s \<Rightarrow> string \<Rightarrow> ArkIntent option) \<Rightarrow> (int \<Rightarrow> ArkIntent \<Rightarrow> 's \<Rightarrow> 'e + 's) \<Rightarrow> (nat \<Rightarrow> 's \<Rightarrow> 's) \<Rightarrow>
   (Outpoint \<times> VirtualCoin) list \<Rightarrow> int \<Rightarrow> nat \<Rightarrow> ArkIntent list \<Rightarrow> 's \<Rightarrow> 's" where
  "reconcile_loop read save env vtxosByOutpoint now n [] s = s"
| "reconcile_loop read save env vtxosByOutpoint now n (intent # is) s =
     (let s = env n s;
          s' = (case classifyIntent intent vtxosByOutpoint now of
                  None \<Rightarrow> s
                | Some next \<Rightarrow>
                    (case read s (intentTxId intent) of
                       None \<Rightarrow> s
                     | Some fresh \<Rightarrow>
                         if intent_state fresh \<noteq> intent_state intent then s
                         else (case save now next s of Inr s1 \<Rightarrow> s1 | Inl e \<Rightarrow> s)))
      in reconcile_loop read save env vtxosByOutpoint now (Suc n) is s')"

definition dedupeOutpoints :: "Outpoint list \<Rightarrow> Outpoint list" where
  "dedupeOutpoints os = fold js_add os []"

definition outpoint_of :: "VirtualCoin \<Rightarrow> Outpoint" where
  "outpoint_of v = \<lparr>op_txid = coin_txid v, op_vout = coin_vout v\<rparr>"

text \<open>\<open>intents\<close> is the first read (\<open>None\<close> when it throws), \<open>fetch\<close> the indexer query.\<close>

definition reconcileIntents ::
  "('s \<Rightarrow> string \<Rightarrow> ArkIntent option) \<Rightarrow> (int \<Rightarrow> ArkIntent \<Rightarrow> 's \<Rightarrow> 'e + 's) \<Rightarrow> (nat \<Rightarrow> 's \<Rightarrow> 's) \<Rightarrow>
   ('s \<Rightarrow> ArkIntentState list \<Rightarrow> ArkIntent list option) \<Rightarrow> (Outpoint list \<Rightarrow> provider_err + VirtualCoin list) \<Rightarrow>
   int \<Rightarrow> 's \<Rightarrow> 's" where
  "reconcileIntents read save env read_states fetch now s =
     (case read_states s NON_TERMINAL_INTENT_STATES of
        None \<Rightarrow> s
      | Some is \<Rightarrow>
          if is = [] then s
          else let outpoints = dedupeOutpoints (concat (map intentVtxos is)) in
            (case (if outpoints = [] then Inr [] else fetch outpoints) of
               Inl e \<Rightarrow> s
             | Inr vtxos \<Rightarrow>
                 reconcile_loop read save env
                   (fold (\<lambda>v m. js_set (outpoint_of v) v m) (map normalizeVtxo vtxos) []) now 0 is s))"

text \<open>
  The effect of reconciliation on one intent of its snapshot, at the moment of its re-read, and
  everything that happens to the store: events persisted by live settlements, and reconciliation.
\<close>

definition settles ::
  "('s \<Rightarrow> string \<Rightarrow> ArkIntent option) \<Rightarrow> (int \<Rightarrow> ArkIntent \<Rightarrow> 's \<Rightarrow> 'e + 's) \<Rightarrow>
   (Outpoint \<times> VirtualCoin) list \<Rightarrow> int \<Rightarrow> ArkIntent \<Rightarrow> 's \<Rightarrow> 's \<Rightarrow> bool" where
  "settles read save m now snap s s' \<longleftrightarrow> (\<exists>next fresh. classifyIntent snap m now = Some next \<and>
     read s (intentTxId snap) = Some fresh \<and> intent_state fresh = intent_state snap \<and> save now next s = Inr s')"

inductive intent_step ::
  "('s \<Rightarrow> string \<Rightarrow> ArkIntent option) \<Rightarrow> (int \<Rightarrow> ArkIntent \<Rightarrow> 's \<Rightarrow> 'e + 's) \<Rightarrow> 's \<Rightarrow> 's \<Rightarrow> bool"
  for read save where
  event: "intent_step read save s (persistTransition read save now k e s)"
| settle: "settles read save m now snap s s' \<Longrightarrow> intent_step read save s s'"

section \<open>The store its clients rely on\<close>

locale intent_store =
  fixes read :: "'s \<Rightarrow> string \<Rightarrow> ArkIntent option"
    and save :: "int \<Rightarrow> ArkIntent \<Rightarrow> 's \<Rightarrow> 'e + 's"
    and inv :: "'s \<Rightarrow> bool"
  assumes save_inv: "inv s \<Longrightarrow> save now i s = Inr s' \<Longrightarrow> inv s'"
    and read_save: "inv s \<Longrightarrow> save now i s = Inr s' \<Longrightarrow>
      read s' k = (if k = intentTxId i then Some (i\<lparr>updatedAt := now\<rparr>) else read s k)"
    and read_key: "inv s \<Longrightarrow> read s k = Some i \<Longrightarrow> intentTxId i = k"
begin

lemma apply_key: "applySettlementEventToIntent i e = Some j \<Longrightarrow>
    intentTxId j = intentTxId i \<and> \<not> isTerminalIntentState (intent_state i) \<and>
    intent_state j = reduceIntentState (intent_state i) e \<and> intentVtxos j = intentVtxos i"
  by (cases e) (auto simp: applySettlementEventToIntent_def reduceIntentState_def Let_def split: if_splits)

lemma persist_cases:
  assumes "inv s"
  obtains (same) "persistTransition read save now k e s = s"
  | (saved) i j where "read s k = Some i" and "applySettlementEventToIntent i e = Some j"
      and "save now j s = Inr (persistTransition read save now k e s)" and "intentTxId j = k"
      and "\<not> isTerminalIntentState (intent_state i)"
proof (cases "read s k")
  case None
  then show ?thesis using same by (simp add: persistTransition_def)
next
  case (Some i)
  show ?thesis
  proof (cases "applySettlementEventToIntent i e")
    case None
    with Some show ?thesis using same by (simp add: persistTransition_def)
  next
    case j: (Some j)
    then have "intentTxId j = k" "\<not> isTerminalIntentState (intent_state i)"
      using apply_key [OF j] read_key [OF assms Some] by auto
    with Some j show ?thesis
      using same saved [of i j] by (cases "save now j s") (auto simp: persistTransition_def)
  qed
qed

lemma persist_inv: "inv s \<Longrightarrow> inv (persistTransition read save now k e s)"
  by (rule persist_cases [of s now k e]) (auto dest: save_inv)

lemma persist_terminal:
  "inv s \<Longrightarrow> read s k' = Some i \<Longrightarrow> isTerminalIntentState (intent_state i) \<Longrightarrow>
    read (persistTransition read save now k e s) k' = Some i"
proof (rule persist_cases [of s now k e])
  fix i0 j
  assume "inv s" "read s k' = Some i" "isTerminalIntentState (intent_state i)" "read s k = Some i0"
    "save now j s = Inr (persistTransition read save now k e s)" "intentTxId j = k"
    "\<not> isTerminalIntentState (intent_state i0)"
  then show ?thesis
    using read_save [of s now j "persistTransition read save now k e s" k'] by auto
qed simp_all

lemma classify_key:
  "classifyIntent i m now = Some j \<Longrightarrow>
    intentTxId j = intentTxId i \<and> \<not> isTerminalIntentState (intent_state i) \<and>
    isTerminalIntentState (intent_state j)"
  by (auto simp: classifyIntent_def terminal_intent_def Let_def split: if_splits)

lemma settles_inv: "inv s \<Longrightarrow> settles read save m now snap s s' \<Longrightarrow> inv s'"
  by (auto simp: settles_def dest: save_inv)

lemma settles_terminal:
  "inv s \<Longrightarrow> settles read save m now snap s s' \<Longrightarrow> read s k = Some i \<Longrightarrow> isTerminalIntentState (intent_state i) \<Longrightarrow>
    read s' k = Some i"
  unfolding settles_def using read_save [of s now _ s' k] classify_key by fastforce

lemma step_inv: "intent_step read save s s' \<Longrightarrow> inv s \<Longrightarrow> inv s'"
  by (induction rule: intent_step.induct) (auto intro: persist_inv settles_inv)

lemma step_terminal:
  "intent_step read save s s' \<Longrightarrow> inv s \<Longrightarrow> read s k = Some i \<Longrightarrow> isTerminalIntentState (intent_state i) \<Longrightarrow>
    read s' k = Some i"
  by (induction rule: intent_step.induct) (auto intro: persist_terminal settles_terminal)

lemma steps_inv: "(intent_step read save)\<^sup>*\<^sup>* s s' \<Longrightarrow> inv s \<Longrightarrow> inv s'"
  by (induction rule: rtranclp_induct) (auto dest: step_inv)

lemma terminal_is_final:
  "(intent_step read save)\<^sup>*\<^sup>* s s' \<Longrightarrow> inv s \<Longrightarrow> read s k = Some i \<Longrightarrow> isTerminalIntentState (intent_state i) \<Longrightarrow>
    read s' k = Some i"
proof (induction rule: rtranclp_induct)
  case (step s' s'')
  then show ?case
    using step_terminal [OF step(2)] steps_inv [OF step(1)] by blast
qed simp

lemma reconcile_loop_steps:
  assumes "\<And>n s. (intent_step read save)\<^sup>*\<^sup>* s (env n s)"
  shows "(intent_step read save)\<^sup>*\<^sup>* s (reconcile_loop read save env m now n is s)"
proof (induction "is" arbitrary: n s)
  case (Cons snap "is")
  let ?s = "env n s"
  have "(intent_step read save)\<^sup>*\<^sup>* ?s s'" if "s' = (case classifyIntent snap m now of None \<Rightarrow> ?s
      | Some next \<Rightarrow> (case read ?s (intentTxId snap) of None \<Rightarrow> ?s
        | Some fresh \<Rightarrow> if intent_state fresh \<noteq> intent_state snap then ?s
            else (case save now next ?s of Inr s1 \<Rightarrow> s1 | Inl e \<Rightarrow> ?s)))" for s'
    using that
    by (auto simp: settles_def intro!: r_into_rtranclp intent_step.settle [of read save m now snap]
        split: option.splits sum.splits)
  then show ?case
    using assms [of s n] Cons by (simp add: Let_def) (meson rtranclp_trans)
qed simp

end

section \<open>The in-memory repository is such a store\<close>

definition mem_read :: "(string \<Rightarrow> string \<Rightarrow> int) \<Rightarrow> intents \<Rightarrow> string \<Rightarrow> ArkIntent option" where
  "mem_read lc byId k =
     (case getIntents lc (Some (no_filter\<lparr>f_intentTxIds := Some [k]\<rparr>)) byId of [] \<Rightarrow> None | i # _ \<Rightarrow> Some i)"

lemma matches_id:
  "intentMatchesFilter i (no_filter\<lparr>f_intentTxIds := Some [k]\<rparr>) \<longleftrightarrow> intentTxId i = k"
  by (simp add: intentMatchesFilter_def no_filter_def)

lemma filter_by_id:
  "distinct (map fst m) \<Longrightarrow> \<forall>(k, i) \<in> set m. intentTxId i = k \<Longrightarrow>
     filter (\<lambda>i. intentTxId i = k) (map snd m) = (case js_get m k of None \<Rightarrow> [] | Some i \<Rightarrow> [i])"
proof (induction m)
  case (Cons p m)
  obtain k' i where p: "p = (k', i)" by force
  have "js_get m k' = None"
    using Cons(2) by (simp add: p js_get_None)
  with Cons show ?case
    by (auto simp: p)
qed simp

lemma store_ok_keyed: "store_ok byId \<Longrightarrow> \<forall>(k, i) \<in> set byId. intentTxId i = k"
  using js_get_in [of byId] by (auto simp: store_ok_def)

lemma page_by_id: "intentPageBounds (Some (no_filter\<lparr>f_intentTxIds := ids\<rparr>)) n = (0, n)"
  by (simp add: intentPageBounds_def no_filter_def)

lemma mem_read_eq:
  assumes "store_ok byId"
  shows "mem_read lc byId k = js_get byId k"
proof -
  have "filter (\<lambda>i. intentTxId i = k) (map snd byId) = (case js_get byId k of None \<Rightarrow> [] | Some i \<Rightarrow> [i])"
    using assms by (intro filter_by_id store_ok_keyed) (simp add: store_ok_def)
  then show ?thesis
    by (cases "js_get byId k") (simp_all add: mem_read_def getIntents_def matches_id page_by_id)
qed

interpretation mem: intent_store "mem_read lc" saveIntent store_ok for lc
proof
  fix s now i s' and k :: string
  assume ok: "store_ok s" and sv: "saveIntent now i s = Inr s'"
  show "store_ok s'"
    using saveIntent_ok [OF ok sv] by blast
  then show "mem_read lc s' k = (if k = intentTxId i then Some (i\<lparr>updatedAt := now\<rparr>) else mem_read lc s k)"
    using saveIntent_ok [OF ok sv] ok by (simp add: mem_read_eq)
next
  fix s k i
  assume "store_ok s" "mem_read lc s k = Some i"
  then show "intentTxId i = k"
    by (simp add: mem_read_eq) (simp add: store_ok_def)
qed

text \<open>An update that keeps an intent's two ids is never refused.\<close>

lemma saveIntent_existing:
  assumes "store_ok byId" and "js_get byId k = Some i" and "intentTxId j = k" and "intentId j = intentId i"
  shows "saveIntent now j byId = Inr (js_set k (j\<lparr>updatedAt := now\<rparr>) byId)"
proof -
  have "\<not> (intentTxId e \<noteq> k \<and> intentId e = Some y)" if "e \<in> set (map snd byId)" "intentId j = Some y" for e y
  proof -
    from that(1) obtain k' where "(k', e) \<in> set byId"
      by auto
    then have "js_get byId k' = Some e" and "intentTxId e = k'"
      using assms(1) js_get_in [of byId k' e] store_ok_keyed [OF assms(1)] by (auto simp: store_ok_def)
    then show ?thesis
      using assms that(2) unfolding store_ok_def by metis
  qed
  then have "find (\<lambda>e. intentTxId e \<noteq> k \<and> intentId e = Some y) (map snd byId) = None"
    if "intentId j = Some y" for y
    using that by (simp add: find_None_iff del: set_map)
  then have "assertIntentIdUnique j (map snd byId) = Inr ()"
    using assms(3) by (cases "intentId j") (simp_all add: assertIntentIdUnique_def)
  then show ?thesis
    using assms(3) by (simp add: saveIntent_def)
qed


lemma mem_read_states_any:
  "store_ok s \<Longrightarrow> (\<And>n s. (intent_step (mem_read lc) saveIntent)\<^sup>*\<^sup>* s (env n s)) \<Longrightarrow>
     (intent_step (mem_read lc) saveIntent)\<^sup>*\<^sup>* s (reconcileIntents (mem_read lc) saveIntent env rd fetch now s)"
  by (auto simp: reconcileIntents_def Let_def split: option.splits sum.splits
      intro: mem.reconcile_loop_steps)

text \<open>
  A reconciliation pass, with live settlements changing the store before each of its re-reads,
  keeps the repository well formed and never touches an intent that was terminal when it started.
\<close>

lemma reconcile_keeps_terminal:
  assumes "store_ok s" and "\<And>n s. (intent_step (mem_read lc) saveIntent)\<^sup>*\<^sup>* s (env n s)"
    and "js_get s k = Some i" and "isTerminalIntentState (intent_state i)"
  shows "store_ok (reconcileIntents (mem_read lc) saveIntent env read_states fetch now s) \<and>
    js_get (reconcileIntents (mem_read lc) saveIntent env read_states fetch now s) k = Some i"
proof -
  let ?s' = "reconcileIntents (mem_read lc) saveIntent env read_states fetch now s"
  have st: "(intent_step (mem_read lc) saveIntent)\<^sup>*\<^sup>* s ?s'"
    by (rule mem_read_states_any [OF assms(1,2)])
  from mem.steps_inv [OF st assms(1)] mem.terminal_is_final [OF st assms(1)] assms show ?thesis
    by (simp add: mem_read_eq)
qed

definition sample_intent :: "string \<Rightarrow> ArkIntentState \<Rightarrow> Outpoint list \<Rightarrow> ArkIntent" where
  "sample_intent k st ins = \<lparr>intentTxId = k, intentId = Some (k @ ''-id''), intent_state = st, validFrom = None,
     validUntil = Some 100, intent_createdAt = 1, updatedAt = 1, registerProof = '''', registerProofMessage = '''',
     deleteProof = '''', deleteProofMessage = '''', batchId = None, commitmentTransactionId = None,
     cancellationReason = None, partialForfeits = [], signerDescriptor = None, intentVtxos = ins\<rparr>"

definition sample_store :: intents where
  "sample_store = [(''a'', sample_intent ''a'' BatchInProgress [\<lparr>op_txid = ''x'', op_vout = 0\<rparr>]),
     (''b'', sample_intent ''b'' BatchSucceeded [\<lparr>op_txid = ''y'', op_vout = 1\<rparr>])]"

lemma sample_store_ok: "store_ok sample_store"
  by (auto simp: store_ok_def sample_store_def sample_intent_def split: if_splits)

lemma sample_store_b: "js_get sample_store ''b'' = Some (sample_intent ''b'' BatchSucceeded [\<lparr>op_txid = ''y'', op_vout = 1\<rparr>])"
  by (simp add: sample_store_def)


lemma reconcile_keeps_terminal_witness:
  "js_get (reconcileIntents (mem_read (\<lambda>a b. 0)) saveIntent (\<lambda>n s. s) (\<lambda>s sts. Some [sample_intent ''a'' BatchInProgress []])
     (\<lambda>os. Inr []) 200 sample_store) ''b'' = js_get sample_store ''b''"
  using reconcile_keeps_terminal [OF sample_store_ok rtranclp.rtrancl_refl sample_store_b,
      where lc = "\<lambda>a b. 0" and fetch = "\<lambda>os. Inr []" and now = 200
      and read_states = "\<lambda>s sts. Some [sample_intent ''a'' BatchInProgress []]"] sample_store_b
  by (simp add: sample_intent_def)

section \<open>Classification and locks\<close>

definition all_consumed :: "ArkIntent \<Rightarrow> (Outpoint \<times> VirtualCoin) list \<Rightarrow> bool" where
  "all_consumed i m \<longleftrightarrow> intentVtxos i \<noteq> [] \<and> (\<forall>out \<in> set (intentVtxos i). isConsumed (js_get m out))"

definition expired_at :: "ArkIntent \<Rightarrow> int \<Rightarrow> bool" where
  "expired_at i now \<longleftrightarrow> (case validUntil i of Some v \<Rightarrow> v < now | None \<Rightarrow> False)"

text \<open>
  Reconciliation settles an intent only when its fate is proved: it succeeds exactly when it has
  inputs and the indexer reports all of them consumed; otherwise it is cancelled exactly when it
  was never submitted or has expired; in every other case it is left alone, so the inputs of a
  submitted, unexpired intent with an unspent input stay locked.
\<close>

lemma classify_intent_spec:
  "(case classifyIntent i m now of
      None \<Rightarrow> isTerminalIntentState (intent_state i) \<or>
        (\<not> all_consumed i m \<and> intent_state i \<in> {WaitingForBatch, BatchInProgress} \<and> \<not> expired_at i now)
    | Some j \<Rightarrow> \<not> isTerminalIntentState (intent_state i) \<and>
        intent_state j = (if all_consumed i m then BatchSucceeded else Cancelled) \<and>
        (all_consumed i m \<or> intent_state i = WaitingToSubmit \<or> expired_at i now) \<and>
        intentTxId j = intentTxId i \<and> intentVtxos j = intentVtxos i \<and> updatedAt j = now)"
proof (cases "isTerminalIntentState (intent_state i)")
  case False
  have "intentVtxos i \<noteq> [] \<and> list_all isConsumed (map (js_get m) (intentVtxos i)) \<longleftrightarrow> all_consumed i m"
    by (auto simp: all_consumed_def list_all_iff)
  with False show ?thesis
    by (cases "intent_state i")
       (auto simp: classifyIntent_def Let_def terminal_intent_def expired_at_def split: option.splits)
qed (simp add: classifyIntent_def)

lemma locked_outpoints:
  assumes "store_ok s"
  shows "set (getLockedVtxoOutpoints s) =
    {out. \<exists>k i. js_get s k = Some i \<and> \<not> isTerminalIntentState (intent_state i) \<and> out \<in> set (intentVtxos i)}"
  using assms js_get_in [of s] by (force simp: getLockedVtxoOutpoints_def store_ok_def)

lemma persist_existing:
  assumes "store_ok s" and "js_get s k = Some i" and "applySettlementEventToIntent i e = Some j"
  shows "persistTransition (mem_read lc) saveIntent now k e s = js_set k (j\<lparr>updatedAt := now\<rparr>) s"
proof -
  have "intentTxId j = k" "intentId j = intentId i"
    using assms by (cases e; auto simp: store_ok_def applySettlementEventToIntent_def Let_def split: if_splits)+
  with saveIntent_existing [OF assms(1,2)] assms show ?thesis
    by (simp add: persistTransition_def mem_read_eq)
qed

text \<open>
  When the event that ends a batch is persisted for a live intent, the intent takes the
  event's outcome and its inputs are released: afterwards exactly the inputs of the other live
  intents are locked.
\<close>

lemma batch_outcome_unlocks:
  assumes "store_ok s" and "js_get s k = Some i" and "\<not> isTerminalIntentState (intent_state i)"
    and "isTerminalIntentState (reduceIntentState (intent_state i) e)"
  shows "(let s' = persistTransition (mem_read lc) saveIntent now k e s in
    map_option intent_state (js_get s' k) = Some (reduceIntentState (intent_state i) e) \<and>
    set (getLockedVtxoOutpoints s') = {out. \<exists>k' i'. k' \<noteq> k \<and> js_get s k' = Some i' \<and>
      \<not> isTerminalIntentState (intent_state i') \<and> out \<in> set (intentVtxos i')})"
proof -
  have "reduceIntentState (intent_state i) e \<noteq> intent_state i"
    using assms(3,4) by auto
  then obtain j where j: "applySettlementEventToIntent i e = Some j"
    by (simp add: applySettlementEventToIntent_def Let_def)
  have js: "intent_state j = reduceIntentState (intent_state i) e"
    using mem.apply_key [OF j] by simp
  let ?s' = "persistTransition (mem_read lc) saveIntent now k e s"
  have s': "?s' = js_set k (j\<lparr>updatedAt := now\<rparr>) s"
    by (rule persist_existing [OF assms(1,2) j])
  have "store_ok ?s'"
    using mem.persist_inv [OF assms(1)] .
  from locked_outpoints [OF this] show ?thesis
    using js assms(4) by (auto simp: s' Let_def split: if_splits)
qed

lemma batch_outcome_unlocks_witness:
  "getLockedVtxoOutpoints sample_store = [\<lparr>op_txid = ''x'', op_vout = 0\<rparr>] \<and>
   set (getLockedVtxoOutpoints (persistTransition (mem_read (\<lambda>a b. 0)) saveIntent 5 ''a''
     (BatchFinalized ''r'' ''t'') sample_store)) = {}"
proof -
  have a: "js_get sample_store ''a'' = Some (sample_intent ''a'' BatchInProgress [\<lparr>op_txid = ''x'', op_vout = 0\<rparr>])"
    by (simp add: sample_store_def)
  from batch_outcome_unlocks [OF sample_store_ok a, of "BatchFinalized ''r'' ''t''" "\<lambda>a b. 0" 5]
  have "set (getLockedVtxoOutpoints (persistTransition (mem_read (\<lambda>a b. 0)) saveIntent 5 ''a''
      (BatchFinalized ''r'' ''t'') sample_store)) =
    {out. \<exists>k' i'. k' \<noteq> ''a'' \<and> js_get sample_store k' = Some i' \<and>
      \<not> isTerminalIntentState (intent_state i') \<and> out \<in> set (intentVtxos i')}"
    by (simp add: sample_intent_def reduceIntentState_def Let_def)
  then show ?thesis
    by (auto simp: sample_store_def sample_intent_def getLockedVtxoOutpoints_def split: if_splits)
qed

end
