(* ===== verification/Batch.thy ===== *)
theory Batch
  imports Intent_State
begin

text \<open>
  \<open>Batch.join\<close> (\<open>wallet/batch.ts\<close>): the state machine that follows the settlement events of a batch
  and calls the wallet's handler.

  The loop over the event stream is \<open>join\<close>; one iteration is \<open>join_step\<close>. The local variables are
  the record \<open>JoinState\<close>. A handler may do anything, so it is a function from the calls made so
  far, with their results, and the present call to the result of that call, or the error it throws (reported with the call); the
  sequence of calls with their results is the \<open>trace\<close>. Hooks a handler may leave out are flags of \<open>HandlerHooks\<close>.
  Each element of the event list carries whether the abort signal is set when it is received.
  \<open>eventCallback\<close> is not awaited and its errors are dropped, so it is not modelled.

  The result is \<open>None\<close> when \<open>TxTree.create\<close> does not return.
\<close>

datatype Step = Start | StepBatchStarted | StepTreeSigningStarted | StepTreeNoncesAggregated | StepBatchFinalization

datatype HandlerCall =
    OnBatchStarted SettlementEvent
  | OnTreeSigningStarted SettlementEvent TxTree
  | OnTreeNonces SettlementEvent
  | OnBatchFinalization SettlementEvent "TxTree option" "TxTree option"
  | OnBatchFinalized SettlementEvent
  | OnBatchFailed SettlementEvent
  | OnTreeTxEvent SettlementEvent
  | OnTreeSignatureEvent SettlementEvent

text \<open>\<open>True\<close> is \<open>skip\<close> for the two \<open>Started\<close> calls and \<open>fullySigned\<close> for the nonces.\<close>

type_synonym trace = "(HandlerCall \<times> bool) list"
type_synonym 'e handler = "trace \<Rightarrow> HandlerCall \<Rightarrow> 'e + bool"

record HandlerHooks =
  has_onBatchFinalized :: bool
  has_onBatchFailed :: bool
  has_onTreeTxEvent :: bool
  has_onTreeSignatureEvent :: bool

datatype 'e join_err =
    Canceled | BatchFailure string | VtxoTreeNotInitialized | StreamClosed
  | TreeError tree_err | UpdateError update_err | InvalidHex | HandlerThrew HandlerCall 'e

record JoinState =
  step :: Step
  flatVtxoTree :: "TxTreeNode list"
  flatConnectorTree :: "TxTreeNode list"
  vtxoTree :: "TxTree option"
  connectorTree :: "TxTree option"
  trace :: trace

definition join_start :: JoinState where
  "join_start = \<lparr>step = Start, flatVtxoTree = [], flatConnectorTree = [], vtxoTree = None,
     connectorTree = None, trace = []\<rparr>"

datatype 'e outcome = Continue JoinState | Return string JoinState | Throw "'e join_err" JoinState | Diverge

definition call :: "'e handler \<Rightarrow> HandlerCall \<Rightarrow> JoinState \<Rightarrow> (bool \<Rightarrow> JoinState \<Rightarrow> 'e outcome) \<Rightarrow> 'e outcome" where
  "call h c s k = (case h (trace s) c of
      Inl e \<Rightarrow> Throw (HandlerThrew c e) s
    | Inr b \<Rightarrow> k b (s\<lparr>trace := trace s @ [(c, b)]\<rparr>))"

definition optional_call ::
  "bool \<Rightarrow> 'e handler \<Rightarrow> HandlerCall \<Rightarrow> JoinState \<Rightarrow> (JoinState \<Rightarrow> 'e outcome) \<Rightarrow> 'e outcome" where
  "optional_call present h c s k = (if present then call h c s (\<lambda>_ s'. k s') else k s)"

definition create_tree ::
  "decode_tx \<Rightarrow> TxTreeNode list \<Rightarrow> JoinState \<Rightarrow> (TxTree \<Rightarrow> 'e outcome) \<Rightarrow> 'e outcome" where
  "create_tree dtx ns s k =
     (case TxTree_create dtx ns of
        None \<Rightarrow> Diverge
      | Some (Inl e) \<Rightarrow> Throw (TreeError e) s
      | Some (Inr t) \<Rightarrow> k t)"

text \<open>\<open>tx.updateInput(0, {tapKeySig})\<close> throws when the transaction has no input.\<close>

definition set_key_sig :: "bytes \<Rightarrow> Tx \<Rightarrow> Tx option" where
  "set_key_sig sig tx = (if tx_inputs tx = [] then None else Some (tx\<lparr>tx_tapKeySig := Some sig\<rparr>))"

definition join_step ::
  "decode_tx \<Rightarrow> (string \<Rightarrow> bytes option) \<Rightarrow> 'e handler \<Rightarrow> HandlerHooks \<Rightarrow> bool \<Rightarrow> SettlementEvent \<Rightarrow> JoinState \<Rightarrow> 'e outcome" where
  "join_step dtx hdec h hooks skipVtxoTreeSigning event s =
     (case event of
        BatchStarted _ _ _ \<Rightarrow>
          call h (OnBatchStarted event) s (\<lambda>skip s.
            if \<not> skip
            then Continue (s\<lparr>step := (if skipVtxoTreeSigning then StepTreeNoncesAggregated else StepBatchStarted)\<rparr>)
            else Continue s)
      | BatchFinalized _ cid \<Rightarrow>
          if step s \<noteq> StepBatchFinalization then Continue s
          else optional_call (has_onBatchFinalized hooks) h (OnBatchFinalized event) s
                 (\<lambda>s. Return cid s)
      | BatchFailed _ why \<Rightarrow>
          if has_onBatchFailed hooks then call h (OnBatchFailed event) s (\<lambda>_ s. Continue s)
          else Throw (BatchFailure why) s
      | TreeTx _ _ idx node \<Rightarrow>
          if step s \<noteq> StepBatchStarted \<and> step s \<noteq> StepTreeNoncesAggregated then Continue s
          else let s = (if idx = 0
                        then s\<lparr>flatVtxoTree := flatVtxoTree s @ [node]\<rparr>
                        else s\<lparr>flatConnectorTree := flatConnectorTree s @ [node]\<rparr>)
               in optional_call (has_onTreeTxEvent hooks) h (OnTreeTxEvent event) s (\<lambda>s. Continue s)
      | TreeSignature _ _ _ txid sig \<Rightarrow>
          if step s \<noteq> StepTreeNoncesAggregated then Continue s
          else (case vtxoTree s of
              None \<Rightarrow> Throw VtxoTreeNotInitialized s
            | Some tree \<Rightarrow>
                (case hdec sig of
                   None \<Rightarrow> Throw InvalidHex s
                 | Some tapKeySig \<Rightarrow>
                     (case update_tree txid (set_key_sig tapKeySig) tree of
                        Inl e \<Rightarrow> Throw (UpdateError e) s
                      | Inr tree' \<Rightarrow>
                          optional_call (has_onTreeSignatureEvent hooks) h (OnTreeSignatureEvent event)
                            (s\<lparr>vtxoTree := Some tree'\<rparr>) (\<lambda>s. Continue s))))
      | TreeSigningStarted _ _ _ \<Rightarrow>
          if step s \<noteq> StepBatchStarted then Continue s
          else create_tree dtx (flatVtxoTree s) s (\<lambda>tree.
                 call h (OnTreeSigningStarted event tree) (s\<lparr>vtxoTree := Some tree\<rparr>) (\<lambda>skip s.
                   if \<not> skip then Continue (s\<lparr>step := StepTreeSigningStarted\<rparr>) else Continue s))
      | TreeNonces _ _ _ _ \<Rightarrow>
          if step s \<noteq> StepTreeSigningStarted then Continue s
          else call h (OnTreeNonces event) s (\<lambda>fullySigned s.
                 if fullySigned then Continue (s\<lparr>step := StepTreeNoncesAggregated\<rparr>) else Continue s)
      | BatchFinalization _ _ \<Rightarrow>
          if step s \<noteq> StepTreeNoncesAggregated then Continue s
          else
            let finalize = (\<lambda>s.
                  if vtxoTree s = None \<and> \<not> skipVtxoTreeSigning then Throw VtxoTreeNotInitialized s
                  else
                    let notify = (\<lambda>s. call h (OnBatchFinalization event (vtxoTree s) (connectorTree s)) s
                                    (\<lambda>_ s. Continue (s\<lparr>step := StepBatchFinalization\<rparr>)))
                    in if flatConnectorTree s \<noteq> []
                       then create_tree dtx (flatConnectorTree s) s (\<lambda>t. notify (s\<lparr>connectorTree := Some t\<rparr>))
                       else notify s)
            in if vtxoTree s = None \<and> flatVtxoTree s \<noteq> []
               then create_tree dtx (flatVtxoTree s) s (\<lambda>t. finalize (s\<lparr>vtxoTree := Some t\<rparr>))
               else finalize s
      | StreamStarted _ \<Rightarrow> Continue s)"

fun join ::
  "decode_tx \<Rightarrow> (string \<Rightarrow> bytes option) \<Rightarrow> 'e handler \<Rightarrow> HandlerHooks \<Rightarrow> bool \<Rightarrow> (bool \<times> SettlementEvent) list
     \<Rightarrow> JoinState \<Rightarrow> (('e join_err + string) \<times> JoinState) option" where
  "join dtx hdec h hooks skipSigning [] s = Some (Inl StreamClosed, s)"
| "join dtx hdec h hooks skipSigning ((aborted, event) # events) s =
     (if aborted then Some (Inl Canceled, s)
      else case join_step dtx hdec h hooks skipSigning event s of
        Continue s' \<Rightarrow> join dtx hdec h hooks skipSigning events s'
      | Return txid s' \<Rightarrow> Some (Inr txid, s')
      | Throw e s' \<Rightarrow> Some (Inl e, s')
      | Diverge \<Rightarrow> None)"

section \<open>The order of handler calls\<close>

text \<open>The specification: the step a trace of calls leads to, and the calls allowed in each step.\<close>

fun next_step :: "bool \<Rightarrow> Step \<Rightarrow> HandlerCall \<times> bool \<Rightarrow> Step" where
  "next_step skipSigning st (OnBatchStarted _, skip) =
     (if skip then st else if skipSigning then StepTreeNoncesAggregated else StepBatchStarted)"
| "next_step skipSigning st (OnTreeSigningStarted _ _, skip) = (if skip then st else StepTreeSigningStarted)"
| "next_step skipSigning st (OnTreeNonces _, fullySigned) = (if fullySigned then StepTreeNoncesAggregated else st)"
| "next_step skipSigning st (OnBatchFinalization _ _ _, _) = StepBatchFinalization"
| "next_step skipSigning st _ = st"

fun allowed :: "Step \<Rightarrow> HandlerCall \<Rightarrow> bool" where
  "allowed st (OnBatchStarted _) = True"
| "allowed st (OnTreeSigningStarted _ _) = (st = StepBatchStarted)"
| "allowed st (OnTreeNonces _) = (st = StepTreeSigningStarted)"
| "allowed st (OnBatchFinalization _ _ _) = (st = StepTreeNoncesAggregated)"
| "allowed st (OnBatchFinalized _) = (st = StepBatchFinalization)"
| "allowed st (OnBatchFailed _) = True"
| "allowed st (OnTreeTxEvent _) = (st = StepBatchStarted \<or> st = StepTreeNoncesAggregated)"
| "allowed st (OnTreeSignatureEvent _) = (st = StepTreeNoncesAggregated)"

text \<open>A hook gets an event of its kind.\<close>

fun matches :: "HandlerCall \<Rightarrow> bool" where
  "matches (OnBatchStarted (BatchStarted _ _ _)) = True"
| "matches (OnTreeSigningStarted (TreeSigningStarted _ _ _) _) = True"
| "matches (OnTreeNonces (TreeNonces _ _ _ _)) = True"
| "matches (OnBatchFinalization (BatchFinalization _ _) _ _) = True"
| "matches (OnBatchFinalized (BatchFinalized _ _)) = True"
| "matches (OnBatchFailed (BatchFailed _ _)) = True"
| "matches (OnTreeTxEvent (TreeTx _ _ _ _)) = True"
| "matches (OnTreeSignatureEvent (TreeSignature _ _ _ _ _)) = True"
| "matches _ = False"

definition step_of :: "bool \<Rightarrow> trace \<Rightarrow> Step" where
  "step_of skipSigning t = foldl (next_step skipSigning) Start t"

inductive legal :: "'e handler \<Rightarrow> bool \<Rightarrow> trace \<Rightarrow> bool" for h skipSigning where
  Nil: "legal h skipSigning []"
| Snoc: "legal h skipSigning t \<Longrightarrow> allowed (step_of skipSigning t) c \<Longrightarrow> matches c \<Longrightarrow> h t c = Inr b \<Longrightarrow>
    legal h skipSigning (t @ [(c, b)])"

inductive_cases legal_snocE: "legal h skipSigning (t @ [x])"

lemma step_of_simps [simp]:
  "step_of k [] = Start" "step_of k (t @ [x]) = next_step k (step_of k t) x"
  by (simp_all add: step_of_def)

definition follows :: "'e handler \<Rightarrow> bool \<Rightarrow> JoinState \<Rightarrow> bool" where
  "follows h k s \<longleftrightarrow> legal h k (trace s) \<and> step s = step_of k (trace s)"

text \<open>A call that threw was allowed, too.\<close>

definition throw_ok :: "'e handler \<Rightarrow> bool \<Rightarrow> 'e join_err \<Rightarrow> trace \<Rightarrow> bool" where
  "throw_ok h k e t \<longleftrightarrow> (\<forall>c x. e = HandlerThrew c x \<longrightarrow> allowed (step_of k t) c \<and> matches c \<and> h t c = Inl x)"

lemma throw_ok_simps [simp]:
  "throw_ok h k (HandlerThrew c x) t \<longleftrightarrow> allowed (step_of k t) c \<and> matches c \<and> h t c = Inl x"
  "throw_ok h k Canceled t" "throw_ok h k (BatchFailure r) t" "throw_ok h k VtxoTreeNotInitialized t"
  "throw_ok h k StreamClosed t" "throw_ok h k (TreeError te) t" "throw_ok h k (UpdateError ue) t" "throw_ok h k InvalidHex t"
  by (simp_all add: throw_ok_def)

fun outcome_ok :: "'e handler \<Rightarrow> bool \<Rightarrow> SettlementEvent \<Rightarrow> 'e outcome \<Rightarrow> bool" where
  "outcome_ok h k ev (Continue s) = follows h k s"
| "outcome_ok h k ev (Throw e s) \<longleftrightarrow> legal h k (trace s) \<and> throw_ok h k e (trace s)"
| "outcome_ok h k ev (Return txid s) \<longleftrightarrow> legal h k (trace s) \<and> step_of k (trace s) = StepBatchFinalization \<and>
     (\<exists>i. ev = BatchFinalized i txid)"
| "outcome_ok h k ev Diverge = True"

lemma call_ok:
  assumes "follows h k s" and "allowed (step s) c" and "matches c"
    and "\<And>b. legal h k (trace s @ [(c, b)]) \<Longrightarrow> outcome_ok h k ev (f b (s\<lparr>trace := trace s @ [(c, b)]\<rparr>))"
  shows "outcome_ok h k ev (call h c s f)"
  using assms by (auto simp: call_def follows_def intro: legal.Snoc split: sum.splits)

lemma optional_call_ok:
  assumes "follows h k s" and "allowed (step s) c" and "matches c"
    and "outcome_ok h k ev (f s)"
    and "\<And>b. legal h k (trace s @ [(c, b)]) \<Longrightarrow> outcome_ok h k ev (f (s\<lparr>trace := trace s @ [(c, b)]\<rparr>))"
  shows "outcome_ok h k ev (optional_call p h c s f)"
  using assms call_ok [of h k s c ev "\<lambda>_. f"] by (simp add: optional_call_def)

lemma create_tree_ok:
  "follows h k s \<Longrightarrow> (\<And>t. outcome_ok h k ev (f t)) \<Longrightarrow> outcome_ok h k ev (create_tree dtx ns s f)"
  by (auto simp: create_tree_def follows_def split: option.splits sum.splits)

lemma follows_update [simp]:
  "follows h k (s\<lparr>flatVtxoTree := a\<rparr>) = follows h k s" "follows h k (s\<lparr>flatConnectorTree := a\<rparr>) = follows h k s"
  "follows h k (s\<lparr>vtxoTree := b\<rparr>) = follows h k s" "follows h k (s\<lparr>connectorTree := b\<rparr>) = follows h k s"
  by (simp_all add: follows_def)

lemma join_step_ok: "follows h k s \<Longrightarrow> outcome_ok h k ev (join_step dtx hdec h hooks k ev s)"
proof (cases ev)
  case (TreeSignature i tp bi txid sig)
  assume "follows h k s"
  with TreeSignature show ?thesis
    by (auto simp: join_step_def follows_def intro!: optional_call_ok split: option.splits sum.splits)
next
  case (BatchFinalization i tx)
  assume f: "follows h k s"
  have notify: "outcome_ok h k' ev (call h (OnBatchFinalization ev v c) s'
      (\<lambda>_ s. Continue (s\<lparr>step := StepBatchFinalization\<rparr>)))"
    if "follows h k' s'" "step s' = StepTreeNoncesAggregated" for k' s' v c
    using that by (intro call_ok) (auto simp: follows_def BatchFinalization)
  have "legal h k (trace s)"
    using f by (simp add: follows_def)
  with f show ?thesis
    unfolding join_step_def BatchFinalization
    by (auto simp: Let_def intro!: create_tree_ok notify [unfolded BatchFinalization])
qed (auto simp: join_step_def follows_def Let_def intro!: call_ok optional_call_ok create_tree_ok)

text \<open>
  \<open>after Ps t\<close>: the trace holds a call for each pattern of \<open>Ps\<close>, the latest first, and since then no
  new batch was joined.
\<close>

fun joins :: "HandlerCall \<times> bool \<Rightarrow> bool" where
  "joins (OnBatchStarted _, skip) = (\<not> skip)" | "joins _ = False"

fun signs_tree :: "HandlerCall \<times> bool \<Rightarrow> bool" where
  "signs_tree (OnTreeSigningStarted _ _, skip) = (\<not> skip)" | "signs_tree _ = False"

fun completes_nonces :: "HandlerCall \<times> bool \<Rightarrow> bool" where
  "completes_nonces (OnTreeNonces _, fullySigned) = fullySigned" | "completes_nonces _ = False"

fun finalizes :: "HandlerCall \<times> bool \<Rightarrow> bool" where
  "finalizes (OnBatchFinalization _ _ _, _) = True" | "finalizes _ = False"

fun after :: "(HandlerCall \<times> bool \<Rightarrow> bool) list \<Rightarrow> trace \<Rightarrow> bool" where
  "after [] t = True"
| "after (P # Ps) t = (\<exists>t0 x t1. t = t0 @ x # t1 \<and> P x \<and> (\<forall>y \<in> set t1. \<not> joins y) \<and> after Ps t0)"

fun milestones :: "bool \<Rightarrow> Step \<Rightarrow> (HandlerCall \<times> bool \<Rightarrow> bool) list" where
  "milestones k Start = []"
| "milestones k StepBatchStarted = [joins]"
| "milestones k StepTreeSigningStarted = [signs_tree, joins]"
| "milestones k StepTreeNoncesAggregated = (if k then [joins] else [completes_nonces, signs_tree, joins])"
| "milestones k StepBatchFinalization =
     (if k then [finalizes, joins] else [finalizes, completes_nonces, signs_tree, joins])"

lemma afterI:
  "t = t0 @ x # t1 \<Longrightarrow> P x \<Longrightarrow> \<forall>y \<in> set t1. \<not> joins y \<Longrightarrow> after Ps t0 \<Longrightarrow> after (P # Ps) t"
  unfolding after.simps by blast

lemma after_quiet: "after Ps t \<Longrightarrow> \<not> joins x \<Longrightarrow> after Ps (t @ [x])"
proof (cases Ps)
  case (Cons P Qs)
  assume "after Ps t" "\<not> joins x"
  with Cons obtain t0 y t1 where "t = t0 @ y # t1" "P y" "\<forall>z \<in> set t1. \<not> joins z" "after Qs t0"
    by auto
  with \<open>\<not> joins x\<close> show ?thesis
    unfolding Cons by (intro afterI [of _ t0 y "t1 @ [x]"]) auto
qed simp

lemma after_now: "after Ps t \<Longrightarrow> P x \<Longrightarrow> after (P # Ps) (t @ [x])"
  by (rule afterI [of _ t x "[]"]) auto

lemma signs_not_under_skip: "legal h True t \<Longrightarrow> step_of True t \<notin> {StepBatchStarted, StepTreeSigningStarted}"
proof (induction rule: legal.induct)
  case (Snoc t c b)
  then show ?case by (cases c) auto
qed simp

lemma legal_milestones: "legal h k t \<Longrightarrow> after (milestones k (step_of k t)) t"
proof (induction rule: legal.induct)
  case (Snoc t c b)
  note q = after_quiet [OF Snoc.IH, of "(c, b)"] and n = after_now [OF Snoc.IH, of _ "(c, b)"]
  have j: "after [joins] (t @ [(c, b)])" if "joins (c, b)"
    using that after_now [of "[]" t joins "(c, b)"] by simp
  show ?case
  proof (cases c)
    case (OnBatchStarted e)
    then show ?thesis
      using q j by (cases b; cases k) (simp_all del: after.simps)
  next
    case (OnTreeSigningStarted e t')
    then show ?thesis
      using q n Snoc(2) signs_not_under_skip [OF _, of h t] Snoc(1)
      by (cases b; cases k) (auto simp del: after.simps)
  next
    case (OnTreeNonces e)
    then show ?thesis
      using q n Snoc(2) signs_not_under_skip [OF _, of h t] Snoc(1)
      by (cases b; cases k) (auto simp del: after.simps)
  next
    case (OnBatchFinalization e v w)
    then show ?thesis
      using n Snoc(2) by (cases k) (auto simp del: after.simps)
  qed (use q in \<open>simp_all del: after.simps\<close>)
qed simp

lemma join_ok:
  "follows h k s \<Longrightarrow> join dtx hdec h hooks k events s = Some (r, s') \<Longrightarrow>
     legal h k (trace s') \<and> (\<forall>e. r = Inl e \<longrightarrow> throw_ok h k e (trace s')) \<and> (\<forall>txid. r = Inr txid \<longrightarrow>
       step_of k (trace s') = StepBatchFinalization \<and> (\<exists>i. BatchFinalized i txid \<in> snd ` set events))"
proof (induction dtx hdec h hooks k events s rule: join.induct)
  case (2 dtx hdec h hooks k aborted ev events s)
  show ?case
  proof (cases aborted)
    case True
    with 2 show ?thesis by (auto simp: follows_def)
  next
    case False
    then show ?thesis
      using join_step_ok [OF 2(2), of ev dtx hdec hooks] 2
      by (cases "join_step dtx hdec h hooks k ev s") (auto, (force simp: follows_def)+)
  qed
qed (auto simp: follows_def)

lemma follows_start: "follows h k join_start"
  by (simp add: follows_def join_start_def legal.Nil)


section \<open>A batch that goes well, and one after a failure\<close>

definition cooperative :: "string handler" where
  "cooperative t c = Inr (case c of OnTreeNonces _ \<Rightarrow> True | _ \<Rightarrow> False)"

definition all_hooks :: HandlerHooks where
  "all_hooks = \<lparr>has_onBatchFinalized = True, has_onBatchFailed = True, has_onTreeTxEvent = True,
     has_onTreeSignatureEvent = True\<rparr>"

text \<open>The events of one batch as the server sends them.\<close>

definition batch_events ::
  "string \<Rightarrow> TxTreeNode list \<Rightarrow> (string \<times> string) list \<Rightarrow> TxTreeNode list \<Rightarrow> string \<Rightarrow> SettlementEvent list" where
  "batch_events i vtxos sigs connectors cid =
     BatchStarted i [] 0 # map (TreeTx i [] 0) vtxos @ TreeSigningStarted i [] '''' # TreeNonces i [] '''' [] #
     map (\<lambda>(t, sg). TreeSignature i [] 0 t sg) sigs @ map (TreeTx i [] 1) connectors @
     [BatchFinalization i '''', BatchFinalized i cid]"

lemma join_step_continue:
  "join_step dtx hdec h hooks k ev s = Continue s' \<Longrightarrow>
     join dtx hdec h hooks k ((False, ev) # evs) s = join dtx hdec h hooks k evs s'"
  by simp

lemma call_cooperative [simp]:
  "call cooperative c s f = f (case c of OnTreeNonces _ \<Rightarrow> True | _ \<Rightarrow> False)
     (s\<lparr>trace := trace s @ [(c, case c of OnTreeNonces _ \<Rightarrow> True | _ \<Rightarrow> False)]\<rparr>)"
  by (simp add: call_def cooperative_def)

text \<open>A hook leaves everything but the trace as it is.\<close>

lemma hook_continues:
  "\<exists>s1. optional_call p cooperative c s Continue = Continue s1 \<and> step s1 = step s \<and> vtxoTree s1 = vtxoTree s \<and>
     connectorTree s1 = connectorTree s \<and> flatVtxoTree s1 = flatVtxoTree s \<and>
     flatConnectorTree s1 = flatConnectorTree s"
  by (cases p) (simp_all add: optional_call_def)

lemma join_tree_txs:
  "step s = StepBatchStarted \<or> step s = StepTreeNoncesAggregated \<Longrightarrow>
    \<exists>s'. join dtx hdec cooperative hooks k (map (Pair False) (map (TreeTx i [] idx) ns) @ evs) s =
           join dtx hdec cooperative hooks k evs s' \<and> step s' = step s \<and> vtxoTree s' = vtxoTree s \<and>
         connectorTree s' = connectorTree s \<and>
         flatVtxoTree s' = flatVtxoTree s @ (if idx = 0 then ns else []) \<and>
         flatConnectorTree s' = flatConnectorTree s @ (if idx = 0 then [] else ns)"
proof (induction ns arbitrary: s)
  case (Cons n ns)
  obtain s1 where s1: "join_step dtx hdec cooperative hooks k (TreeTx i [] idx n) s = Continue s1"
    and f: "step s1 = step s" "vtxoTree s1 = vtxoTree s" "connectorTree s1 = connectorTree s"
      "flatVtxoTree s1 = flatVtxoTree s @ (if idx = 0 then [n] else [])"
      "flatConnectorTree s1 = flatConnectorTree s @ (if idx = 0 then [] else [n])"
    using Cons(2) hook_continues [of "has_onTreeTxEvent hooks" "OnTreeTxEvent (TreeTx i [] idx n)"
        "if idx = 0 then s\<lparr>flatVtxoTree := flatVtxoTree s @ [n]\<rparr> else s\<lparr>flatConnectorTree := flatConnectorTree s @ [n]\<rparr>"]
    by (auto simp: join_step_def Let_def split: if_splits)
  have "\<exists>s'. join dtx hdec cooperative hooks k (map (Pair False) (map (TreeTx i [] idx) ns) @ evs) s1 =
           join dtx hdec cooperative hooks k evs s' \<and> step s' = step s1 \<and> vtxoTree s' = vtxoTree s1 \<and>
         connectorTree s' = connectorTree s1 \<and>
         flatVtxoTree s' = flatVtxoTree s1 @ (if idx = 0 then ns else []) \<and>
         flatConnectorTree s' = flatConnectorTree s1 @ (if idx = 0 then [] else ns)"
    using Cons(2) f(1) by (intro Cons(1)) simp
  then show ?case
    using s1 by (simp add: f del: map_map split del: if_split cong: if_cong) (cases "idx = 0"; simp)
qed auto

text \<open>Signatures for transactions of the tree are recorded one after the other.\<close>

definition signable :: "TxTree \<Rightarrow> string set \<Rightarrow> bool" where
  "signable t ids \<longleftrightarrow> tx_id ` set (tree_txs t) = ids \<and> (\<forall>tx \<in> set (tree_txs t). tx_inputs tx \<noteq> [])"

lemma update_signable:
  "x \<in> tx_id ` set (tree_txs t) \<Longrightarrow> \<forall>tx \<in> set (tree_txs t). tx_inputs tx \<noteq> [] \<Longrightarrow>
     \<exists>t'. update_tree x (set_key_sig sg) t = Inr t' \<and> map tx_id (tree_txs t') = map tx_id (tree_txs t) \<and>
       map tx_inputs (tree_txs t') = map tx_inputs (tree_txs t)"
  "x \<in> tx_id ` set (children_txs cs) \<Longrightarrow> \<forall>tx \<in> set (children_txs cs). tx_inputs tx \<noteq> [] \<Longrightarrow>
     \<exists>cs'. update_children x (set_key_sig sg) cs = Some cs' \<and> map tx_id (children_txs cs') = map tx_id (children_txs cs) \<and>
       map tx_inputs (children_txs cs') = map tx_inputs (children_txs cs)"
proof (induction x "set_key_sig sg" t and x "set_key_sig sg" cs rule: update_tree_update_children.induct)
  case (1 x r cs)
  then show ?case
    by (cases "x = tx_id r") (auto simp: set_key_sig_def)
next
  case (3 x i c cs)
  show ?case
  proof (cases "x \<in> tx_id ` set (tree_txs c)")
    case True
    with 3 show ?thesis by auto
  next
    case False
    with 3 update_absent(1) [OF False] show ?thesis
      by (auto simp: image_Un)
  qed
qed auto

lemma update_keeps_signable:
  assumes "signable t ids" and "x \<in> ids"
  shows "\<exists>t'. update_tree x (set_key_sig sg) t = Inr t' \<and> signable t' ids"
proof -
  obtain t' where t': "update_tree x (set_key_sig sg) t = Inr t'"
      "map tx_id (tree_txs t') = map tx_id (tree_txs t)"
      "map tx_inputs (tree_txs t') = map tx_inputs (tree_txs t)"
    using update_signable(1) [of x t sg] assms by (auto simp: signable_def)
  have "tx_id ` set (tree_txs t') = tx_id ` set (tree_txs t)"
    using arg_cong [OF t'(2), of set] by simp
  moreover have "tx_inputs ` set (tree_txs t') = tx_inputs ` set (tree_txs t)"
    using arg_cong [OF t'(3), of set] by simp
  ultimately show ?thesis
    using assms(1) t'(1) unfolding signable_def by (metis (no_types, lifting) image_iff)
qed

lemma join_signatures:
  "step s = StepTreeNoncesAggregated \<Longrightarrow> vtxoTree s = Some t \<Longrightarrow> signable t ids \<Longrightarrow>
   \<forall>(x, sg) \<in> set sigs. x \<in> ids \<and> hdec sg \<noteq> None \<Longrightarrow>
    \<exists>s'. join dtx hdec cooperative hooks k (map (Pair False) (map (\<lambda>(t, sg). TreeSignature i [] 0 t sg) sigs) @ evs) s =
           join dtx hdec cooperative hooks k evs s' \<and> step s' = step s \<and> vtxoTree s' \<noteq> None \<and>
         connectorTree s' = connectorTree s \<and> flatConnectorTree s' = flatConnectorTree s"
proof (induction sigs arbitrary: s t)
  case (Cons p sigs)
  obtain x sg b where p: "p = (x, sg)" "hdec sg = Some b" "x \<in> ids"
    using Cons(5) by (cases p) auto
  obtain t' where t': "update_tree x (set_key_sig b) t = Inr t'" "signable t' ids"
    using update_keeps_signable [OF Cons(4) p(3)] by blast
  obtain s1 where s1: "join_step dtx hdec cooperative hooks k (TreeSignature i [] 0 x sg) s = Continue s1"
    and f: "step s1 = step s" "vtxoTree s1 = Some t'" "connectorTree s1 = connectorTree s"
      "flatConnectorTree s1 = flatConnectorTree s"
    using Cons(2,3) p(2) t'(1) hook_continues [of "has_onTreeSignatureEvent hooks"
        "OnTreeSignatureEvent (TreeSignature i [] 0 x sg)" "s\<lparr>vtxoTree := Some t'\<rparr>"]
    by (auto simp: join_step_def)
  have "\<exists>s'. join dtx hdec cooperative hooks k (map (Pair False) (map (\<lambda>(t, sg). TreeSignature i [] 0 t sg) sigs) @ evs) s1 =
           join dtx hdec cooperative hooks k evs s' \<and> step s' = step s1 \<and> vtxoTree s' \<noteq> None \<and>
         connectorTree s' = connectorTree s1 \<and> flatConnectorTree s' = flatConnectorTree s1"
    using Cons(2,5) f(1,2) t'(2) by (intro Cons(1) [of s1 t']) auto
  then show ?case
    using s1 by (simp add: f p(1) del: map_map)
qed auto

lemma well_linked_inputs:
  "well_linked t \<Longrightarrow> \<forall>tx \<in> set (tree_txs t). tx_inputs tx \<noteq> []"
  "well_linked_children r cs \<Longrightarrow> \<forall>tx \<in> set (children_txs cs). tx_inputs tx \<noteq> []"
  by (induction t and r cs rule: well_linked_well_linked_children.induct) auto

lemma accepted_signable:
  assumes "TxTree_create dtx ns = Some (Inr t)" and "TxTree_validate t = Inr ()"
  shows "signable t (set (chunk_ids dtx ns))"
  using tree_accepted [OF assms] well_linked_inputs(1) assms(2) TxTree_validate_iff(1)
  by (auto simp: signable_def tree_txs_def image_comp comp_def)

lemma finalization_returns:
  assumes "step s = StepTreeNoncesAggregated" and "vtxoTree s \<noteq> None"
    and "flatConnectorTree s = [] \<or> (\<exists>c. TxTree_create dtx (flatConnectorTree s) = Some (Inr c))"
  shows "\<exists>s'. join dtx hdec cooperative hooks k [(False, BatchFinalization i tx), (False, BatchFinalized i cid)] s = Some (Inr cid, s')"
  using assms
  by (cases "has_onBatchFinalized hooks") (auto simp: join_step_def optional_call_def create_tree_def Let_def)

text \<open>
  C28. When the server streams a batch in the order of the protocol, with chunks that form a valid
  vtxo tree, signatures of its transactions and connector chunks that form a tree, and the handler
  takes part, \<open>join\<close> ends and returns the commitment id the server announces.
\<close>

theorem join_completes:
  assumes "TxTree_create dtx vtxos = Some (Inr tree)" and "TxTree_validate tree = Inr ()"
    and "connectors = [] \<or> (\<exists>c. TxTree_create dtx connectors = Some (Inr c))"
    and "\<forall>(x, sg) \<in> set sigs. x \<in> set (chunk_ids dtx vtxos) \<and> hdec sg \<noteq> None"
  shows "\<exists>s. join dtx hdec cooperative hooks False
    (map (Pair False) (batch_events i vtxos sigs connectors cid)) join_start = Some (Inr cid, s)"
proof -
  let ?join = "join dtx hdec cooperative hooks False"
  let ?e5 = "[(False, BatchFinalization i ''''), (False, BatchFinalized i cid)]"
  let ?e4 = "map (Pair False) (map (TreeTx i [] 1) connectors) @ ?e5"
  let ?e3 = "map (Pair False) (map (\<lambda>(t, sg). TreeSignature i [] 0 t sg) sigs) @ ?e4"
  let ?e2 = "(False, TreeSigningStarted i [] '''') # (False, TreeNonces i [] '''' []) # ?e3"
  let ?e1 = "map (Pair False) (map (TreeTx i [] 0) vtxos) @ ?e2"
  have ev: "map (Pair False) (batch_events i vtxos sigs connectors cid) = (False, BatchStarted i [] 0) # ?e1"
    by (simp add: batch_events_def)
  obtain s1 where s1: "join_step dtx hdec cooperative hooks False (BatchStarted i [] 0) join_start = Continue s1"
    "step s1 = StepBatchStarted" "vtxoTree s1 = None" "flatVtxoTree s1 = []" "flatConnectorTree s1 = []"
    by (auto simp: join_step_def join_start_def)
  obtain s2 where s2: "?join ?e1 s1 = ?join ?e2 s2" "step s2 = StepBatchStarted"
    "flatVtxoTree s2 = vtxos" "flatConnectorTree s2 = []"
    using join_tree_txs [of s1 dtx hdec hooks False i 0 vtxos ?e2] s1 by auto
  obtain s3 where s3: "?join ?e2 s2 = ?join ?e3 s3" "step s3 = StepTreeNoncesAggregated"
    "vtxoTree s3 = Some tree" "flatConnectorTree s3 = []"
    using s2(2-4) assms(1) by (auto simp: join_step_def create_tree_def)
  obtain s4 where s4: "?join ?e3 s3 = ?join ?e4 s4" "step s4 = StepTreeNoncesAggregated"
    "vtxoTree s4 \<noteq> None" "flatConnectorTree s4 = []"
    using join_signatures [OF s3(2,3) accepted_signable [OF assms(1,2)] assms(4), of dtx hooks False i ?e4] s3
    by auto
  obtain s5 where s5: "?join ?e4 s4 = ?join ?e5 s5" "step s5 = StepTreeNoncesAggregated"
    "vtxoTree s5 \<noteq> None" "flatConnectorTree s5 = connectors"
    using join_tree_txs [of s4 dtx hdec hooks False i 1 connectors ?e5] s4(2-4) by auto
  have "\<exists>s'. ?join ?e5 s5 = Some (Inr cid, s')"
    using finalization_returns [OF s5(2,3)] assms(3) s5(4) by metis
  moreover have "?join (map (Pair False) (batch_events i vtxos sigs connectors cid)) join_start = ?join ?e5 s5"
    using s1(1) s2(1) s3(1) s4(1) s5(1) by (simp only: ev join_step_continue)
  ultimately show ?thesis
    by simp
qed

definition sample_hex :: "string \<Rightarrow> bytes option" where
  "sample_hex s = Some []"

theorem join_completes_witness:
  "\<exists>s. join sample_psbts sample_hex cooperative all_hooks False
    (map (Pair False) (batch_events ''1'' sample_chunks [(''c'', ''00''), (''r'', ''01'')] [] ''batch'')) join_start
      = Some (Inr ''batch'', s)"
proof (rule join_completes)
  show "TxTree_create sample_psbts sample_chunks = Some (Inr sample_tree)"
    by (rule sample_create)
  show "TxTree_validate sample_tree = Inr ()"
    by (rule sample_validates)
  show "\<forall>(x, sg) \<in> set [(''c'', ''00''), (''r'', ''01'')]. x \<in> set (chunk_ids sample_psbts sample_chunks) \<and> sample_hex sg \<noteq> None"
    by (simp add: chunk_ids_def sample_chunks_def sample_psbts_def sample_hex_def sample_leaf_def sample_root_def)
qed simp



end
