(* ===== verification/Arkade_Script.thy ===== *)
theory Arkade_Script
  imports Asset_Id
begin

text \<open>
  The script coder of the Arkade virtual machine: \<open>arkade/script.ts\<close>, \<open>arkade/bignum.ts\<close> and the
  opcode tables of \<open>arkade/opcodes.ts\<close>.

  A script is a list of operations: an opcode by name, a number (the code has both \<open>number\<close> and
  \<open>bigint\<close>; both are \<open>int\<close> here) or raw bytes. The table \<open>OP\<close> of the standard opcodes and the
  number codec \<open>ScriptNum\<close> come from \<open>@scure/btc-signer\<close>: they are the arguments \<open>OP\<close> (the entries of the
  object, in order) and \<open>num\<close>. The opcode bytes the code compares with (\<open>OP.PUSHDATA1\<close>, \<open>OP.OP_1\<close>, ...)
  are those of the Bitcoin protocol.

  \<open>canon_op\<close> says what reading a written operation gives: small numbers and pushes of them come back as
  numbers, an opcode comes back under the name the reverse table has for its byte.
\<close>

datatype script_op = Op string | Num int | Push bytes

datatype script_err =
    UnknownOpcode string | UnknownOpcodeByte byte | BigNumTooLong nat | PushTooLong | ScriptEnd
  | InvalidAsmToken string

type_synonym op_table = "(string \<times> byte) list"

section \<open>Opcodes\<close>

definition ARKADE_OP :: op_table where
  "ARKADE_OP =
    [(''MERKLEBRANCHVERIFY'', 0xb3), (''DIGEST'', 0xc3),
     (''SHA256INITIALIZE'', 0xc4), (''SHA256UPDATE'', 0xc5), (''SHA256FINALIZE'', 0xc6),
     (''INSPECTINPUTOUTPOINT'', 0xc7), (''INSPECTINPUTARKADESCRIPTHASH'', 0xc8),
     (''INSPECTINPUTVALUE'', 0xc9), (''INSPECTINPUTSCRIPTPUBKEY'', 0xca), (''INSPECTINPUTSEQUENCE'', 0xcb),
     (''CHECKSIGFROMSTACK'', 0xcc), (''PUSHCURRENTINPUTINDEX'', 0xcd),
     (''INSPECTINPUTARKADEWITNESSHASH'', 0xce),
     (''INSPECTOUTPUTVALUE'', 0xcf), (''INSPECTOUTPUTSCRIPTPUBKEY'', 0xd1),
     (''INSPECTVERSION'', 0xd2), (''INSPECTLOCKTIME'', 0xd3), (''INSPECTNUMINPUTS'', 0xd4),
     (''INSPECTNUMOUTPUTS'', 0xd5), (''TXWEIGHT'', 0xd6),
     (''NUM2BIN'', 0xd7), (''BIN2NUM'', 0xd8), (''REVERSEBYTES'', 0xd9), (''MODEXP'', 0xda),
     (''ECADD'', 0xe0), (''ECMUL'', 0xe1), (''ECPAIRING'', 0xe2),
     (''ECMULSCALARVERIFY'', 0xe3), (''TWEAKVERIFY'', 0xe4),
     (''INSPECTNUMASSETGROUPS'', 0xe5), (''INSPECTASSETGROUPASSETID'', 0xe6),
     (''INSPECTASSETGROUPCTRL'', 0xe7), (''FINDASSETGROUPBYASSETID'', 0xe8),
     (''INSPECTASSETGROUPMETADATAHASH'', 0xe9), (''INSPECTASSETGROUPNUM'', 0xea),
     (''INSPECTASSETGROUP'', 0xeb), (''INSPECTASSETGROUPSUM'', 0xec),
     (''INSPECTOUTASSETCOUNT'', 0xed), (''INSPECTOUTASSETAT'', 0xee), (''INSPECTOUTASSETLOOKUP'', 0xef),
     (''INSPECTINASSETCOUNT'', 0xf0), (''INSPECTINASSETAT'', 0xf1), (''INSPECTINASSETLOOKUP'', 0xf2),
     (''TXID'', 0xf3), (''INSPECTPACKET'', 0xf4), (''INSPECTINPUTPACKET'', 0xf5), (''SIGHASH'', 0xf6)]"

text \<open>\<open>{...a, ...b}\<close> and the reverse lookup, where a later name replaces an earlier one.\<close>

definition spread :: "('k \<times> 'v) list \<Rightarrow> ('k \<times> 'v) list \<Rightarrow> ('k \<times> 'v) list" where
  "spread a b = fold (\<lambda>(k, v). js_set k v) b a"

definition reverse_table :: "('k \<times> 'v) list \<Rightarrow> ('v \<times> 'k) list" where
  "reverse_table t = spread [] (map (\<lambda>(k, v). (v, k)) t)"

definition ARKADE_OPS :: "op_table \<Rightarrow> op_table" where
  "ARKADE_OPS OP = spread OP ARKADE_OP"

definition ArkadeOPNames :: "op_table \<Rightarrow> (byte \<times> string) list" where
  "ArkadeOPNames OP = reverse_table (ARKADE_OPS OP)"

section \<open>Numbers\<close>

definition BIGNUM_MAX_BYTES :: nat where "BIGNUM_MAX_BYTES = 520"

definition bignum_encode :: "(int \<Rightarrow> bytes) \<Rightarrow> int \<Rightarrow> script_err + bytes" where
  "bignum_encode num value =
     (let result = num value
      in if length result > BIGNUM_MAX_BYTES then Inl (BigNumTooLong (length result)) else Inr result)"

section \<open>Encoding\<close>

definition push_bytes :: "bytes \<Rightarrow> script_err + bytes" where
  "push_bytes b =
     (let len = length b
      in if len = 1 \<and> 1 \<le> b ! 0 \<and> b ! 0 \<le> 16 then Inr [0x51 - 1 + b ! 0]
         else if len = 1 \<and> b ! 0 = 0x81 then Inr [0x4f]
         else if len < 0x4c then Inr (word_of_nat len # b)
         else if len \<le> 0xff then Inr (0x4c # word_of_nat len # b)
         else if len \<le> 0xffff then Inr (0x4d # uint16LE (int len) @ b)
         else if len \<le> 0xffffffff then Inr (0x4e # uint32LE len @ b)
         else Inl PushTooLong)"

definition encode_op :: "op_table \<Rightarrow> (int \<Rightarrow> bytes) \<Rightarrow> script_op \<Rightarrow> script_err + bytes" where
  "encode_op OP num oper =
     (case oper of
        Op k \<Rightarrow> (case js_get (ARKADE_OPS OP) k of None \<Rightarrow> Inl (UnknownOpcode k) | Some v \<Rightarrow> Inr [v])
      | Num n \<Rightarrow> r_bind (bignum_encode num n) push_bytes
      | Push b \<Rightarrow> push_bytes b)"

fun ArkadeScript_encode :: "op_table \<Rightarrow> (int \<Rightarrow> bytes) \<Rightarrow> script_op list \<Rightarrow> script_err + bytes" where
  "ArkadeScript_encode OP num [] = Inr []"
| "ArkadeScript_encode OP num (x # xs) =
     r_bind (encode_op OP num x) (\<lambda>b. r_bind (ArkadeScript_encode OP num xs) (\<lambda>bs. Inr (b @ bs)))"

section \<open>Decoding\<close>

definition read_push :: "nat \<Rightarrow> bytes \<Rightarrow> script_err + script_op \<times> bytes" where
  "read_push len r = (if length r < len then Inl ScriptEnd else Inr (Push (take len r), drop len r))"

fun decode_op :: "op_table \<Rightarrow> bytes \<Rightarrow> script_err + script_op \<times> bytes" where
  "decode_op OP [] = Inl ScriptEnd"
| "decode_op OP (cur # r) =
     (if 0 < cur \<and> cur \<le> 0x4e
      then if cur < 0x4c then read_push (unat cur) r
        else if cur = 0x4c
        then if r = [] then Inl ScriptEnd else read_push (unat (r ! 0)) (drop 1 r)
        else if cur = 0x4d
        then if length r < 2 then Inl ScriptEnd else read_push (unat (r ! 0) + 256 * unat (r ! 1)) (drop 2 r)
        else if length r < 4 then Inl ScriptEnd else read_push (le32 r) (drop 4 r)
      else if cur = 0 then Inr (Num 0, r)
      else if 0x51 \<le> cur \<and> cur \<le> 0x60 then Inr (Num (uint cur - 0x50), r)
      else if cur = 0x4f then Inr (Num (- 1), r)
      else (case js_get (ArkadeOPNames OP) cur of
              None \<Rightarrow> Inl (UnknownOpcodeByte cur)
            | Some k \<Rightarrow> Inr (Op k, r)))"

lemma decode_op_progress: "decode_op OP bs = Inr (x, r) \<Longrightarrow> length r < length bs"
  by (cases bs) (auto simp: read_push_def split: if_splits option.splits)

function ArkadeScript_decode :: "op_table \<Rightarrow> bytes \<Rightarrow> script_err + script_op list" where
  "ArkadeScript_decode OP bs =
     (if bs = [] then Inr []
      else case decode_op OP bs of
        Inl e \<Rightarrow> Inl e
      | Inr (x, r) \<Rightarrow> r_bind (ArkadeScript_decode OP r) (\<lambda>xs. Inr (x # xs)))"
  by pat_completeness auto
termination
  by (relation "measure (length \<circ> snd)") (auto dest: decode_op_progress)

declare ArkadeScript_decode.simps [simp del]

lemma decode_Nil [simp]: "ArkadeScript_decode OP [] = Inr []"
  by (simp add: ArkadeScript_decode.simps)

lemma decode_step:
  "decode_op OP bs = Inr (x, r) \<Longrightarrow> ArkadeScript_decode OP bs = r_bind (ArkadeScript_decode OP r) (\<lambda>xs. Inr (x # xs))"
  by (cases bs) (simp_all add: ArkadeScript_decode.simps [of OP "_ # _"])

section \<open>Reading back what was written\<close>

definition canon_push :: "bytes \<Rightarrow> script_op" where
  "canon_push b =
     (if b = [] then Num 0
      else if length b = 1 \<and> 1 \<le> b ! 0 \<and> b ! 0 \<le> 16 then Num (uint (b ! 0))
      else if length b = 1 \<and> b ! 0 = 0x81 then Num (- 1)
      else Push b)"

definition canon_byte :: "op_table \<Rightarrow> byte \<Rightarrow> script_op" where
  "canon_byte OP v =
     (if v = 0 then Num 0
      else if 0x51 \<le> v \<and> v \<le> 0x60 then Num (uint v - 0x50)
      else if v = 0x4f then Num (- 1)
      else Op (the (js_get (ArkadeOPNames OP) v)))"

definition canon_op :: "op_table \<Rightarrow> (int \<Rightarrow> bytes) \<Rightarrow> script_op \<Rightarrow> script_op" where
  "canon_op OP num x =
     (case x of
        Op k \<Rightarrow> canon_byte OP (the (js_get (ARKADE_OPS OP) k))
      | Num n \<Rightarrow> canon_push (num n)
      | Push b \<Rightarrow> canon_push b)"

text \<open>A named opcode whose byte announces a data push cannot be read back as an opcode.\<close>

definition is_pushdata :: "op_table \<Rightarrow> script_op \<Rightarrow> bool" where
  "is_pushdata OP x = (case x of
      Op k \<Rightarrow> (case js_get (ARKADE_OPS OP) k of Some v \<Rightarrow> 0 < v \<and> v \<le> 0x4e | None \<Rightarrow> False)
    | _ \<Rightarrow> False)"

lemma spread_simps [simp]: "spread a [] = a" "spread a ((k, v) # b) = spread (js_set k v a) b"
  by (simp_all add: spread_def)

lemma distinct_spread: "distinct (map fst a) \<Longrightarrow> distinct (map fst (spread a b))"
  by (induction b arbitrary: a) (auto simp: distinct_js_set)

lemma keys_spread: "set (map fst (spread a b)) = set (map fst a) \<union> set (map fst b)"
proof (induction b arbitrary: a)
  case (Cons p b)
  obtain k v where "p = (k, v)" by (cases p)
  then show ?case
    using Cons [of "js_set k v a"] keys_js_set [of k v a] by auto
qed simp

lemma js_get_append: "js_get (a @ b) k = (case js_get a k of None \<Rightarrow> js_get b k | Some v \<Rightarrow> Some v)"
  by (induction a) auto

lemma js_get_spread:
  "js_get (spread a b) k = (case js_get (rev b) k of None \<Rightarrow> js_get a k | Some v \<Rightarrow> Some v)"
proof (induction b arbitrary: a)
  case (Cons p b)
  obtain k' v where "p = (k', v)" by (cases p)
  then show ?case
    using Cons.IH [of "js_set k' v a"] by (simp add: js_get_append split: option.splits)
qed simp

lemma reverse_table_sound:
  assumes "js_get (reverse_table t) v = Some k"
  shows "(k, v) \<in> set t"
proof -
  have "js_get (rev (map (\<lambda>(k, v). (v, k)) t)) v = Some k"
    using assms by (simp add: reverse_table_def js_get_spread split: option.splits)
  then show ?thesis
    by (auto simp: js_get_def dest!: map_of_SomeD)
qed

lemma reverse_table_complete:
  assumes "(k, v) \<in> set t"
  shows "\<exists>k'. js_get (reverse_table t) v = Some k'"
proof -
  have "v \<in> set (map fst (reverse_table t))"
    unfolding reverse_table_def keys_spread using assms by force
  then show ?thesis
    by (metis js_get_None not_Some_eq)
qed

lemma byte_of_nat_less: "len < m \<Longrightarrow> m \<le> 255 \<Longrightarrow> (word_of_nat len :: byte) < word_of_nat m"
  by (simp add: word_less_nat_alt unat_of_nat)

lemma byte_of_nat_pos: "len \<noteq> 0 \<Longrightarrow> len \<le> 255 \<Longrightarrow> (0 :: byte) < word_of_nat len"
  by (simp add: word_less_nat_alt unat_of_nat)

lemma unat_byte_of_nat: "len \<le> 255 \<Longrightarrow> unat (word_of_nat len :: byte) = len"
  by (simp add: unat_of_nat)

lemma small_number_byte:
  fixes x :: byte
  assumes "1 \<le> x" and "x \<le> 16"
  shows "0x4e < 0x51 - 1 + x" and "0x51 \<le> 0x51 - 1 + x" and "0x51 - 1 + x \<le> 0x60"
    and "uint (0x51 - 1 + x) - 0x50 = uint x"
proof -
  have x: "unat x \<ge> 1" "unat x \<le> 16"
    using assms by (simp_all add: word_le_nat_alt)
  have e: "0x51 - 1 + x = 0x50 + x"
    by simp
  have "unat (0x50 + x) = (80 + unat x) mod 256"
    using unat_word_ariths(1) [of "0x50 :: byte" x] by simp
  then have u: "unat (0x50 + x) = 80 + unat x"
    using x by simp
  show "0x4e < 0x51 - 1 + x" "0x51 \<le> 0x51 - 1 + x" "0x51 - 1 + x \<le> 0x60"
    unfolding e using x by (simp_all only: word_less_nat_alt word_le_nat_alt u) simp_all
  have "uint (0x50 + x) = int (80 + unat x)"
    unfolding u [symmetric] by simp
  then show "uint (0x51 - 1 + x) - 0x50 = uint x"
    unfolding e by simp
qed

lemma decode_small_number:
  "1 \<le> x \<Longrightarrow> x \<le> 16 \<Longrightarrow> decode_op OP ((0x51 - 1 + x) # t) = Inr (Num (uint x), t)"
  using small_number_byte [of x] by (auto simp: not_le [symmetric])

lemma read_push_append: "len = length b \<Longrightarrow> read_push len (b @ t) = Inr (Push b, t)"
  by (simp add: read_push_def)

lemma read16:
  "n \<le> 0xffff \<Longrightarrow> unat ((uint16LE (int n) @ t) ! 0) + 256 * unat ((uint16LE (int n) @ t) ! 1) = n"
proof -
  assume n: "n \<le> 0xffff"
  have "unat (word_of_int (int n) :: byte) + 256 * unat (word_of_int (drop_bit 8 (int n)) :: byte)
      = n mod 256 + 256 * (n div 256 mod 256)"
  proof -
    have d: "drop_bit 8 (int n) = int (n div 256)"
      by (simp add: drop_bit_eq_div zdiv_int)
    show ?thesis
      unfolding d by (simp add: unat_of_nat)
  qed
  also have "\<dots> = n mod (256 * 256)"
    using mod_mult2_eq [of n 256 256] by simp
  finally show ?thesis
    using n by (simp add: uint16LE_def)
qed

lemma le32_append: "n \<le> 0xffffffff \<Longrightarrow> le32 (uint32LE n @ t) = n"
  using le32_uint32LE [of n] by (simp add: le32_def uint32LE_def)

lemma push_roundtrip:
  assumes "push_bytes b = Inr w"
  shows "decode_op OP (w @ t) = Inr (canon_push b, t)"
proof -
  consider (num) "length b = 1" "1 \<le> b ! 0" "b ! 0 \<le> 16"
    | (neg) "length b = 1" "b ! 0 = 0x81"
    | (nil) "b = []"
    | (other) "b \<noteq> []" "\<not> (length b = 1 \<and> 1 \<le> b ! 0 \<and> b ! 0 \<le> 16)" "\<not> (length b = 1 \<and> b ! 0 = 0x81)"
    by blast
  then show ?thesis
  proof cases
    case num
    then show ?thesis
      using assms decode_small_number [of "b ! 0" OP t]
      by (auto simp: push_bytes_def canon_push_def)
  next
    case neg
    then show ?thesis
      using assms by (auto simp: push_bytes_def canon_push_def)
  next
    case nil
    then show ?thesis
      using assms by (auto simp: push_bytes_def canon_push_def)
  next
    case other
    then have c: "canon_push b = Push b"
      by (auto simp: canon_push_def)
    consider (a) "length b < 0x4c" "w = word_of_nat (length b) # b"
      | (b) "\<not> length b < 0x4c" "length b \<le> 0xff" "w = 0x4c # word_of_nat (length b) # b"
      | (c) "length b \<le> 0xffff" "w = 0x4d # uint16LE (int (length b)) @ b"
      | (d) "length b \<le> 0xffffffff" "w = 0x4e # uint32LE (length b) @ b"
      using assms other by (auto simp: push_bytes_def Let_def split: if_splits)
    then show ?thesis
    proof cases
      case a
      have "(word_of_nat (length b) :: byte) < word_of_nat 0x4c"
        using a by (intro byte_of_nat_less) auto
      then have l: "(word_of_nat (length b) :: byte) < 0x4c"
        by simp
      then have "(word_of_nat (length b) :: byte) \<le> 0x4e"
        by (simp add: word_less_nat_alt word_le_nat_alt)
      then show ?thesis
        using a l other byte_of_nat_pos [of "length b"]
        by (simp add: c read_push_append unat_byte_of_nat)
    next
      case b
      then show ?thesis
        by (simp add: c read_push_append unat_byte_of_nat)
    next
      case c: c
      then show ?thesis
        using other \<open>canon_push b = Push b\<close> read16 [of "length b" "b @ t"]
        by (simp add: read_push_append)
    next
      case d
      then show ?thesis
        using other \<open>canon_push b = Push b\<close> le32_append [of "length b" "b @ t"]
        by (simp add: read_push_append uint32LE_def)
    qed
  qed
qed

lemma names_complete:
  assumes "js_get (ARKADE_OPS OP) k = Some v"
  shows "\<exists>k'. js_get (ArkadeOPNames OP) v = Some k'"
proof -
  have "(k, v) \<in> set (ARKADE_OPS OP)"
    using assms by (simp add: js_get_def map_of_SomeD)
  then show ?thesis
    unfolding ArkadeOPNames_def by (rule reverse_table_complete)
qed

lemma names_sound:
  assumes "js_get (ArkadeOPNames OP) v = Some k" and "distinct (map fst OP)"
  shows "js_get (ARKADE_OPS OP) k = Some v"
proof -
  have "(k, v) \<in> set (ARKADE_OPS OP)"
    using assms(1) unfolding ArkadeOPNames_def by (rule reverse_table_sound)
  moreover have "distinct (map fst (ARKADE_OPS OP))"
    using assms(2) by (simp add: ARKADE_OPS_def distinct_spread)
  ultimately show ?thesis
    by (simp add: js_get_in)
qed

lemma op_roundtrip:
  assumes "encode_op OP num x = Inr w" and "\<not> is_pushdata OP x"
  shows "decode_op OP (w @ t) = Inr (canon_op OP num x, t)"
proof (cases x)
  case (Op k)
  then obtain v where v: "js_get (ARKADE_OPS OP) k = Some v" and w: "w = [v]"
    using assms(1) by (auto simp: encode_op_def split: option.splits)
  obtain k' where "js_get (ArkadeOPNames OP) v = Some k'"
    using names_complete [OF v] by blast
  then show ?thesis
    using assms(2) v by (auto simp: Op w canon_op_def canon_byte_def is_pushdata_def)
next
  case (Num n)
  then show ?thesis
    using assms(1) push_roundtrip
    by (auto simp: encode_op_def canon_op_def bignum_encode_def Let_def split: if_splits)
next
  case (Push b)
  then show ?thesis
    using assms(1) push_roundtrip by (simp add: encode_op_def canon_op_def)
qed

lemma decode_encode:
  assumes "ArkadeScript_encode OP num xs = Inr bs" and "\<forall>x \<in> set xs. \<not> is_pushdata OP x"
  shows "ArkadeScript_decode OP bs = Inr (map (canon_op OP num) xs)"
  using assms
proof (induction xs arbitrary: bs)
  case (Cons x xs)
  then obtain w t where "encode_op OP num x = Inr w" "ArkadeScript_encode OP num xs = Inr t" "bs = w @ t"
    by auto
  then show ?case
    using Cons decode_step [OF op_roundtrip [of OP num x w t]] by simp
qed simp

text \<open>What is used of the number codec: the script numbers with an opcode of their own.\<close>

definition num_laws :: "(int \<Rightarrow> bytes) \<Rightarrow> bool" where
  "num_laws num \<longleftrightarrow> num 0 = [] \<and> num (- 1) = [0x81] \<and> (\<forall>n \<in> {1..16}. num n = [word_of_int n])"

lemma num_small:
  fixes x :: byte
  assumes "num_laws num" and "1 \<le> x" and "x \<le> 16"
  shows "num (uint x) = [x]"
proof -
  have "uint x \<in> {1..16}"
    using assms(2,3) by (simp add: word_le_def)
  then show ?thesis
    using assms(1) by (simp add: num_laws_def)
qed

lemma encode_canon_push:
  assumes "num_laws num"
  shows "encode_op OP num (canon_push b) = push_bytes b"
proof -
  consider (nil) "b = []" | (one) x where "b = [x]" "1 \<le> x" "x \<le> 16" | (neg) "b = [0x81]"
    | (other) "b \<noteq> []" "\<not> (length b = 1 \<and> 1 \<le> b ! 0 \<and> b ! 0 \<le> 16)" "b \<noteq> [0x81]"
    by (cases b) (auto simp: length_Suc_conv)
  then show ?thesis
  proof cases
    case one
    then show ?thesis
      using num_small [OF assms one(2,3)]
      by (simp add: canon_push_def encode_op_def bignum_encode_def BIGNUM_MAX_BYTES_def)
  next
    case other
    then have "canon_push b = Push b"
      by (cases b) (auto simp: canon_push_def length_Suc_conv)
    then show ?thesis
      by (simp add: encode_op_def)
  qed (use assms in \<open>auto simp: canon_push_def encode_op_def bignum_encode_def BIGNUM_MAX_BYTES_def num_laws_def\<close>)
qed

lemma opcode_number:
  fixes v :: byte
  assumes "0x51 \<le> v" and "v \<le> 0x60"
  obtains x where "1 \<le> x" "x \<le> 16" "v = 0x51 - 1 + x" "uint v - 0x50 = uint x"
proof
  have v: "unat v \<ge> 81" "unat v \<le> 96"
    using assms by (simp_all add: word_le_nat_alt)
  then have "(0x50 :: byte) \<le> v"
    by (simp add: word_le_nat_alt)
  then have u: "unat (v - 0x50) = unat v - 80"
    by (simp add: unat_sub)
  show "1 \<le> v - 0x50" "v - 0x50 \<le> 16"
    using v by (simp_all add: word_le_nat_alt u)
  show "v = 0x51 - 1 + (v - 0x50)"
    by simp
  show "uint v - 0x50 = uint (v - 0x50)"
    using small_number_byte(4) [of "v - 0x50"] \<open>1 \<le> v - 0x50\<close> \<open>v - 0x50 \<le> 16\<close> by simp
qed

lemma encode_canon_op:
  assumes "num_laws num" and "distinct (map fst OP)" and "encode_op OP num x = Inr w"
  shows "encode_op OP num (canon_op OP num x) = Inr w"
proof (cases x)
  case (Op k)
  then obtain v where v: "js_get (ARKADE_OPS OP) k = Some v" and w: "w = [v]"
    using assms(3) by (auto simp: encode_op_def split: option.splits)
  obtain k' where k': "js_get (ArkadeOPNames OP) v = Some k'"
    using names_complete [OF v] by blast
  consider (zero) "v = 0" | (num) "0x51 \<le> v" "v \<le> 0x60" | (neg) "v = 0x4f"
    | (op) "v \<noteq> 0" "\<not> (0x51 \<le> v \<and> v \<le> 0x60)" "v \<noteq> 0x4f"
    by blast
  then show ?thesis
  proof cases
    case num
    then obtain n where n: "1 \<le> n" "n \<le> 16" "v = 0x51 - 1 + n" "uint v - 0x50 = uint n"
      by (rule opcode_number)
    have "canon_op OP num x = Num (uint n)"
      using num n(4) v by (auto simp: Op canon_op_def canon_byte_def)
    then show ?thesis
      using num_small [OF assms(1) n(1,2)] n(1-3)
      by (simp add: encode_op_def bignum_encode_def BIGNUM_MAX_BYTES_def push_bytes_def w)
  next
    case op
    then have "canon_op OP num x = Op k'"
      using v k' by (auto simp: Op canon_op_def canon_byte_def)
    then show ?thesis
      using names_sound [OF k' assms(2)] by (simp add: encode_op_def w)
  qed (use assms(1) v in \<open>auto simp: Op w canon_op_def canon_byte_def encode_op_def bignum_encode_def
        BIGNUM_MAX_BYTES_def num_laws_def push_bytes_def\<close>)
qed (use assms encode_canon_push [OF assms(1)] in
      \<open>auto simp: canon_op_def encode_op_def [of _ _ "Num _"] encode_op_def [of _ _ "Push _"] bignum_encode_def Let_def split: if_splits\<close>)

lemma encode_canon:
  assumes "num_laws num" and "distinct (map fst OP)" and "ArkadeScript_encode OP num xs = Inr bs"
  shows "ArkadeScript_encode OP num (map (canon_op OP num) xs) = Inr bs"
  using assms(3) by (induction xs arbitrary: bs) (auto simp: encode_canon_op [OF assms(1,2)])

lemma js_get_ArkadeOPNames:
  "js_get (ArkadeOPNames OP) v = js_get (rev (map (\<lambda>(k, v). (v, k)) (ARKADE_OPS OP))) v"
  by (simp add: ArkadeOPNames_def reverse_table_def js_get_spread split: option.splits)

text \<open>
  C27. Every script the coder writes reads back as the same operations in canonical form: small numbers
  and pushes of them become numbers, an opcode whose byte has several names comes back under the last
  one. The canonical script encodes to the same bytes, so coding is stable. A named
  push opcode, which announces data the script does not have, is excluded.
\<close>

theorem script_roundtrip:
  assumes "num_laws num" and "distinct (map fst OP)"
    and "ArkadeScript_encode OP num xs = Inr bs" and "\<forall>x \<in> set xs. \<not> is_pushdata OP x"
  shows "ArkadeScript_decode OP bs = Inr (map (canon_op OP num) xs)
    \<and> ArkadeScript_encode OP num (map (canon_op OP num) xs) = Inr bs"
  using decode_encode [OF assms(3,4)] encode_canon [OF assms(1-3)] by simp

definition sample_OP :: op_table where
  "sample_OP = [(''OP_0'', 0), (''PUSHDATA1'', 0x4c), (''OP_1'', 0x51), (''DUP'', 0x76), (''NOP4'', 0xb3),
     (''1NEGATE'', 0x4f)]"

definition sample_num :: "int \<Rightarrow> bytes" where
  "sample_num n = (if n = 0 then [] else if n < 0 then [word_of_int (- n) + 0x80] else [word_of_int n])"

lemma sample_OPS: "ARKADE_OPS sample_OP = sample_OP @ ARKADE_OP"
  by code_simp

lemma sample_bytes:
  "js_get (ARKADE_OPS sample_OP) ''DUP'' = Some 0x76" "js_get (ARKADE_OPS sample_OP) ''NOP4'' = Some 0xb3"
  "js_get (ARKADE_OPS sample_OP) ''TXID'' = Some 0xf3"
  unfolding sample_OPS by (simp_all add: sample_OP_def ARKADE_OP_def)

lemma sample_names:
  "js_get (ArkadeOPNames sample_OP) 0x76 = Some ''DUP''"
  "js_get (ArkadeOPNames sample_OP) 0xb3 = Some ''MERKLEBRANCHVERIFY''"
  "js_get (ArkadeOPNames sample_OP) 0xf3 = Some ''TXID''"
  unfolding js_get_ArkadeOPNames sample_OPS by (simp_all add: sample_OP_def ARKADE_OP_def)

theorem script_roundtrip_witness:
  "ArkadeScript_decode sample_OP [0x76, 0x55, 0x02, 0xab, 0xcd, 0x00, 0xb3, 0xf3]
     = Inr [Op ''DUP'', Num 5, Push [0xab, 0xcd], Num 0, Op ''MERKLEBRANCHVERIFY'', Op ''TXID'']"
proof -
  let ?xs = "[Op ''DUP'', Num 5, Push [0xab, 0xcd], Push [], Op ''NOP4'', Op ''TXID'']"
  have e: "ArkadeScript_encode sample_OP sample_num ?xs = Inr [0x76, 0x55, 0x02, 0xab, 0xcd, 0x00, 0xb3, 0xf3]"
    by (simp add: encode_op_def push_bytes_def bignum_encode_def BIGNUM_MAX_BYTES_def sample_num_def sample_bytes)
  have c: "map (canon_op sample_OP sample_num) ?xs
      = [Op ''DUP'', Num 5, Push [0xab, 0xcd], Num 0, Op ''MERKLEBRANCHVERIFY'', Op ''TXID'']"
    by (simp add: canon_op_def canon_byte_def canon_push_def sample_num_def sample_bytes sample_names)
  have "num_laws sample_num"
    by (simp add: num_laws_def sample_num_def)
  moreover have "distinct (map fst sample_OP)" "\<forall>x \<in> set ?xs. \<not> is_pushdata sample_OP x"
    by (simp_all add: sample_OP_def is_pushdata_def sample_bytes [unfolded sample_OP_def])
  ultimately show ?thesis
    using script_roundtrip [of sample_num sample_OP ?xs] e c by simp
qed

section \<open>Opcode names\<close>

definition ARKADE_OPCODES :: "byte list" where
  "ARKADE_OPCODES = map snd ARKADE_OP"

definition ARKADE_OPCODE_NAMES :: "(byte \<times> string) list" where
  "ARKADE_OPCODE_NAMES = reverse_table ARKADE_OP"

definition ARKADE_OPCODE_VALUES :: op_table where
  "ARKADE_OPCODE_VALUES = spread [] (map (\<lambda>(v, k). (k, v)) ARKADE_OPCODE_NAMES)"

definition op_prefixed :: "string \<Rightarrow> string" where
  "op_prefixed k = (if starts_with ''OP_'' k then k else ''OP_'' @ k)"

definition buildBitcoinOpcodeNames :: "op_table \<Rightarrow> (byte \<times> string) list" where
  "buildBitcoinOpcodeNames OP = js_set 0 ''OP_0'' (spread [] (map (\<lambda>(k, v). (v, op_prefixed k)) OP))"

definition buildBitcoinOpcodeValues :: "op_table \<Rightarrow> op_table" where
  "buildBitcoinOpcodeValues OP = fold (\<lambda>(k, v) values. js_set k v (js_set (op_prefixed k) v values)) OP []"

definition OPCODE_NAMES :: "op_table \<Rightarrow> (byte \<times> string) list" where
  "OPCODE_NAMES OP = spread (buildBitcoinOpcodeNames OP) (map (\<lambda>(v, k). (v, ''OP_'' @ k)) ARKADE_OPCODE_NAMES)"

definition OPCODE_VALUES :: "op_table \<Rightarrow> op_table" where
  "OPCODE_VALUES OP = spread (spread (buildBitcoinOpcodeValues OP) ARKADE_OPCODE_VALUES)
     (map (\<lambda>(k, v). (''OP_'' @ k, v)) ARKADE_OPCODE_VALUES)"

definition getOpcodeName :: "op_table \<Rightarrow> byte \<Rightarrow> string option" where
  "getOpcodeName OP v =
     (if 1 \<le> v \<and> v \<le> 0x4b then Some (''OP_DATA_'' @ nat_str (unat v)) else js_get (OPCODE_NAMES OP) v)"

text \<open>\<open>name.match(/^OP_DATA_([0-9]+)$/)\<close> and \<open>parseInt\<close> of the digits.\<close>

definition digits_after :: "string \<Rightarrow> string \<Rightarrow> nat option" where
  "digits_after p s =
     (if starts_with p s \<and> drop (length p) s \<noteq> [] \<and> list_all is_digit (drop (length p) s)
      then Some (parse_nat (drop (length p) s)) else None)"

definition getOpcodeValue :: "op_table \<Rightarrow> string \<Rightarrow> byte option" where
  "getOpcodeValue OP name =
     (case digits_after ''OP_DATA_'' name of
        Some n \<Rightarrow> if 1 \<le> n \<and> n \<le> 75 then Some (word_of_nat n) else None
      | None \<Rightarrow> js_get (OPCODE_VALUES OP) name)"

lemma digits_after_nat_str [simp]: "digits_after p (p @ nat_str n) = Some n"
  using nat_str_digits [of n] by (simp add: digits_after_def)

section \<open>Assembly\<close>

definition asm_token :: "hex_encode \<Rightarrow> (int \<Rightarrow> bytes) \<Rightarrow> script_op \<Rightarrow> script_err + string" where
  "asm_token henc num x =
     (case x of
        Op k \<Rightarrow> Inr (op_prefixed k)
      | Num n \<Rightarrow>
          if n = 0 then Inr ''OP_0''
          else if 1 \<le> n \<and> n \<le> 16 then Inr (''OP_'' @ nat_str (nat n))
          else if n = - 1 then Inr ''OP_1NEGATE''
          else r_bind (bignum_encode num n) (\<lambda>b. Inr (henc b))
      | Push b \<Rightarrow> Inr (henc b))"

definition toASM :: "hex_encode \<Rightarrow> (int \<Rightarrow> bytes) \<Rightarrow> script_op list \<Rightarrow> script_err + string" where
  "toASM henc num xs = r_bind (r_map (asm_token henc num) xs) (\<lambda>parts. Inr (join_with '' '' parts))"

text \<open>\<open>asm.trim().split(/\s+/).filter(Boolean)\<close>: the maximal runs of characters that are not white space.\<close>

definition js_space :: "char \<Rightarrow> bool" where
  "js_space c \<longleftrightarrow> c \<in> {CHR 0x09, CHR 0x0A, CHR 0x0B, CHR 0x0C, CHR 0x0D, CHR '' '', CHR 0xA0}"

fun words_acc :: "string \<Rightarrow> string \<Rightarrow> string list" where
  "words_acc cur [] = (if cur = [] then [] else [cur])"
| "words_acc cur (c # s) =
     (if js_space c then (if cur = [] then words_acc [] s else cur # words_acc [] s)
      else words_acc (cur @ [c]) s)"

text \<open>\<open>key in ARKADE_OPS\<close> is also true of the names every object inherits.\<close>

definition OBJECT_PROTOTYPE :: "string list" where
  "OBJECT_PROTOTYPE =
     [''constructor'', ''__defineGetter__'', ''__defineSetter__'', ''hasOwnProperty'', ''__lookupGetter__'',
      ''__lookupSetter__'', ''isPrototypeOf'', ''propertyIsEnumerable'', ''toString'', ''valueOf'',
      ''__proto__'', ''toLocaleString'']"

definition is_hex_char :: "char \<Rightarrow> bool" where
  "is_hex_char c \<longleftrightarrow> (let n = (of_char c :: nat) in 48 \<le> n \<and> n \<le> 57 \<or> 97 \<le> n \<and> n \<le> 102 \<or> 65 \<le> n \<and> n \<le> 70)"

definition named_op :: "op_table \<Rightarrow> hex_decode \<Rightarrow> string \<Rightarrow> script_err + script_op" where
  "named_op OP hdec token =
     (let key = (if starts_with ''OP_'' token then drop 3 token else token)
      in if key \<in> set (map fst (ARKADE_OPS OP)) \<or> key \<in> set OBJECT_PROTOTYPE then Inr (Op key)
         else if token \<noteq> [] \<and> list_all is_hex_char token \<and> even (length token)
         then (case hdec token of Some b \<Rightarrow> Inr (Push b) | None \<Rightarrow> Inl (InvalidAsmToken token))
         else Inl (InvalidAsmToken token))"

definition token_op :: "op_table \<Rightarrow> hex_decode \<Rightarrow> string \<Rightarrow> script_err + script_op" where
  "token_op OP hdec token =
     (if token = ''OP_0'' \<or> token = ''OP_FALSE'' then Inr (Num 0)
      else if token = ''OP_TRUE'' then Inr (Num 1)
      else case digits_after ''OP_'' token of
        Some n \<Rightarrow> if 1 \<le> n \<and> n \<le> 16 then Inr (Num (int n)) else named_op OP hdec token
      | None \<Rightarrow> named_op OP hdec token)"

definition fromASM :: "op_table \<Rightarrow> hex_decode \<Rightarrow> string \<Rightarrow> script_err + script_op list" where
  "fromASM OP hdec asm = r_map (token_op OP hdec) (words_acc [] asm)"

definition asmToBytes :: "op_table \<Rightarrow> (int \<Rightarrow> bytes) \<Rightarrow> hex_decode \<Rightarrow> string \<Rightarrow> script_err + bytes" where
  "asmToBytes OP num hdec asm = r_bind (fromASM OP hdec asm) (ArkadeScript_encode OP num)"

definition bytesToASM :: "op_table \<Rightarrow> (int \<Rightarrow> bytes) \<Rightarrow> hex_encode \<Rightarrow> bytes \<Rightarrow> script_err + string" where
  "bytesToASM OP num henc s = r_bind (ArkadeScript_decode OP s) (toASM henc num)"

text \<open>Splitting what \<open>join(" ")\<close> put together.\<close>

definition token_ok :: "string \<Rightarrow> bool" where
  "token_ok t \<longleftrightarrow> t \<noteq> [] \<and> list_all (\<lambda>c. \<not> js_space c) t"

lemma words_acc_token:
  "list_all (\<lambda>c. \<not> js_space c) t \<Longrightarrow> words_acc cur (t @ s) = words_acc (cur @ t) s"
  by (induction t arbitrary: cur) auto

lemma js_space_blank [simp]: "js_space CHR '' ''"
  by (simp add: js_space_def)

lemma words_join:
  "\<forall>t \<in> set ts. token_ok t \<Longrightarrow> words_acc [] (join_with '' '' ts) = ts"
proof (induction "'' ''" ts rule: join_with.induct)
  case (2 t)
  then show ?case
    using words_acc_token [of t "[]" "[]"] by (simp add: token_ok_def)
next
  case (3 t t' ts)
  then show ?case
    using words_acc_token [of t "[]" "CHR '' '' # join_with '' '' (t' # ts)"] by (simp add: token_ok_def)
qed simp

text \<open>
  What is used of the opcode table: its keys are the ones of \<open>@scure\<close>, upper-case names without white space
  that are neither decimal numbers nor \<open>FALSE\<close> and \<open>TRUE\<close>; the keys that start with \<open>OP_\<close> are the small numbers,
  with their bytes.
\<close>

definition key_ok :: "string \<Rightarrow> byte \<Rightarrow> bool" where
  "key_ok k v \<longleftrightarrow>
     token_ok k \<and> \<not> list_all is_digit k \<and> k \<notin> {''FALSE'', ''TRUE''}
     \<and> (starts_with ''OP_'' k \<longrightarrow> (\<exists>n \<le> 16. k = ''OP_'' @ nat_str n \<and> v = (if n = 0 then 0 else 0x50 + word_of_nat n)))
     \<and> \<not> list_all (\<lambda>c. is_hex_char c \<and> \<not> (65 \<le> (of_char c :: nat) \<and> (of_char c :: nat) \<le> 70)) k"

definition table_ok :: "op_table \<Rightarrow> bool" where
  "table_ok OP \<longleftrightarrow> (\<forall>(k, v) \<in> set OP. key_ok k v) \<and> distinct (map fst OP) \<and> js_get OP ''1NEGATE'' = Some 0x4f"

definition hex_strings :: "hex_encode \<Rightarrow> hex_decode \<Rightarrow> bool" where
  "hex_strings henc hdec \<longleftrightarrow> hex_laws henc hdec \<and>
     (\<forall>b. even (length (henc b)) \<and>
        list_all (\<lambda>c. is_hex_char c \<and> \<not> (65 \<le> (of_char c :: nat) \<and> (of_char c :: nat) \<le> 70)) (henc b))"

definition upper :: "char \<Rightarrow> bool" where
  "upper c \<longleftrightarrow> 65 \<le> (of_char c :: nat) \<and> (of_char c :: nat) \<le> 90"

definition plain_key :: "string \<Rightarrow> bool" where
  "plain_key k \<longleftrightarrow>
     token_ok k \<and> upper (hd k) \<and> k \<noteq> ''FALSE'' \<and> k \<noteq> ''TRUE'' \<and> \<not> starts_with ''OP_'' k"

lemma plain_key_ok: "plain_key k \<Longrightarrow> key_ok k v"
  by (cases k) (auto simp: plain_key_def key_ok_def token_ok_def upper_def is_digit_def is_hex_char_def)

lemma ARKADE_OP_keys: "list_all (plain_key \<circ> fst) ARKADE_OP"
  by (simp add: ARKADE_OP_def plain_key_def token_ok_def js_space_def upper_def starts_with_def)

lemma digit_not_space: "is_digit c \<Longrightarrow> \<not> js_space c"
  by (auto simp: is_digit_def js_space_def)

lemma hex_not_space: "is_hex_char c \<Longrightarrow> \<not> js_space c"
  by (auto simp: is_hex_char_def js_space_def)

lemma set_js_set: "set (js_set k v m) \<subseteq> insert (k, v) (set m)"
  by (induction m) auto

lemma set_spread: "set (spread a b) \<subseteq> set a \<union> set b"
proof (induction b arbitrary: a)
  case (Cons p b)
  obtain k v where "p = (k, v)" by (cases p)
  then show ?case
    using Cons [of "js_set k v a"] set_js_set [of k v a] by auto
qed simp

lemma table_key:
  assumes "table_ok OP" and "js_get (ARKADE_OPS OP) k = Some v"
  shows "key_ok k v"
proof -
  have "(k, v) \<in> set (ARKADE_OPS OP)"
    using assms(2) by (simp add: js_get_def map_of_SomeD)
  then show ?thesis
    using assms(1) ARKADE_OP_keys set_spread [of OP ARKADE_OP] plain_key_ok
    unfolding ARKADE_OPS_def table_ok_def list_all_iff by fastforce
qed

lemma table_negate: "table_ok OP \<Longrightarrow> js_get (ARKADE_OPS OP) ''1NEGATE'' = Some 0x4f"
proof -
  have "js_get (rev ARKADE_OP) ''1NEGATE'' = None"
    by (simp add: ARKADE_OP_def)
  then show "table_ok OP \<Longrightarrow> ?thesis"
    by (simp add: ARKADE_OPS_def js_get_spread table_ok_def)
qed

lemma nat_str_zero: "nat_str 0 = ''0''"
  by code_simp

lemma number_token:
  assumes "n \<le> 16"
  shows "token_ok (''OP_'' @ nat_str n) \<and> token_op OP hdec (''OP_'' @ nat_str n) = Inr (Num (int n))"
proof -
  have d: "nat_str n \<noteq> []" "list_all is_digit (nat_str n)"
    using nat_str_digits [of n] by simp_all
  have "nat_str n \<noteq> ''FALSE''" "nat_str n \<noteq> ''TRUE''"
    using d(2) by (auto simp: is_digit_def)
  moreover have "nat_str n = ''0'' \<Longrightarrow> n = 0"
    using parse_nat_str [of n] by (simp add: parse_nat_def)
  moreover note nat_str_zero
  moreover have "token_ok (''OP_'' @ nat_str n)"
  proof -
    have "\<not> js_space CHR ''O''" "\<not> js_space CHR ''P''" "\<not> js_space CHR ''_''"
      by (simp_all add: js_space_def)
    then show ?thesis
      using d(2) by (auto simp: token_ok_def list_all_iff digit_not_space)
  qed
  ultimately show ?thesis
    using assms digits_after_nat_str [of "''OP_''" n] by (cases "n = 0") (auto simp: token_op_def)
qed

lemma encode_small:
  assumes "num_laws num" and "n \<le> 16"
  shows "encode_op OP num (Num (int n)) = Inr [if n = 0 then 0 else 0x50 + word_of_nat n]"
proof -
  consider "n = 0" | "n \<in> {1..16}"
    using assms(2) by force
  then show ?thesis
  proof cases
    case 2
    then have "int n \<in> {1..16}"
      by simp
    then have "num (int n) = [word_of_nat n]"
      using assms(1) by (simp add: num_laws_def)
    moreover have "(1 :: byte) \<le> word_of_nat n" "(word_of_nat n :: byte) \<le> 16"
      using 2 by (simp_all add: word_le_nat_alt unat_of_nat)
    ultimately show ?thesis
      using 2 by (auto simp: encode_op_def bignum_encode_def BIGNUM_MAX_BYTES_def push_bytes_def)
  qed (use assms in \<open>simp add: encode_op_def bignum_encode_def num_laws_def BIGNUM_MAX_BYTES_def push_bytes_def\<close>)
qed

lemma hex_token:
  assumes "table_ok OP" and "hex_strings henc hdec" and "b \<noteq> []"
  shows "token_ok (henc b) \<and> token_op OP hdec (henc b) = Inr (Push b)"
proof -
  let ?hex = "\<lambda>c. is_hex_char c \<and> \<not> (65 \<le> (of_char c :: nat) \<and> (of_char c :: nat) \<le> 70)"
  have h: "even (length (henc b))" "list_all ?hex (henc b)" "henc b \<noteq> []" "hdec (henc b) = Some b"
    using assms(2,3) by (auto simp: hex_strings_def hex_laws_def)
  obtain c s where cs: "henc b = c # s" "?hex c"
    using h(2,3) by (cases "henc b") auto
  have no_op: "\<not> starts_with ''OP_'' (henc b)"
    using cs by (auto simp: starts_with_def is_hex_char_def)
  have "henc b \<notin> set (map fst (ARKADE_OPS OP))"
  proof
    assume "henc b \<in> set (map fst (ARKADE_OPS OP))"
    then obtain v where "js_get (ARKADE_OPS OP) (henc b) = Some v"
      by (metis js_get_None not_Some_eq)
    then show False
      using table_key [OF assms(1)] h(2) by (auto simp: key_ok_def)
  qed
  moreover have "henc b \<notin> set OBJECT_PROTOTYPE"
    using h(2) by (auto simp: OBJECT_PROTOTYPE_def is_hex_char_def)
  moreover have "list_all is_hex_char (henc b)"
    using h(2) by (auto simp: list_all_iff)
  moreover have "token_ok (henc b)"
    using h(2,3) by (auto simp: token_ok_def list_all_iff hex_not_space)
  moreover have "henc b \<noteq> ''OP_0''" "henc b \<noteq> ''OP_FALSE''" "henc b \<noteq> ''OP_TRUE''"
    using no_op by (auto simp: starts_with_def)
  ultimately show ?thesis
    using no_op h by (simp add: token_op_def digits_after_def named_op_def)
qed

lemma name_token:
  assumes "js_get (ARKADE_OPS OP) k = Some v" and "key_ok k v" and "\<not> starts_with ''OP_'' k"
  shows "token_ok (''OP_'' @ k) \<and> token_op OP hdec (''OP_'' @ k) = Inr (Op k)"
proof -
  have "\<not> js_space CHR ''O''" "\<not> js_space CHR ''P''" "\<not> js_space CHR ''_''"
    by (simp_all add: js_space_def)
  moreover have "k \<in> set (map fst (ARKADE_OPS OP))"
    using assms(1) by (metis js_get_None option.distinct(1))
  moreover have "k \<noteq> ''0''"
    using assms(2) by (auto simp: key_ok_def is_digit_def)
  ultimately show ?thesis
    using assms(2) by (auto simp: token_op_def digits_after_def named_op_def key_ok_def token_ok_def starts_with_def)
qed

definition exact_numbers :: "(int \<Rightarrow> bytes) \<Rightarrow> bool" where
  "exact_numbers num \<longleftrightarrow> num_laws num \<and> (\<forall>n. num n = [] \<longrightarrow> n = 0)"

lemma asm_token_roundtrip:
  assumes "table_ok OP" and "exact_numbers num" and "hex_strings henc hdec"
    and "encode_op OP num x = Inr w" and "x \<noteq> Push []"
  obtains t y where "asm_token henc num x = Inr t" "token_ok t" "token_op OP hdec t = Inr y"
    "encode_op OP num y = Inr w"
proof (cases x)
  case (Op k)
  then obtain v where v: "js_get (ARKADE_OPS OP) k = Some v" and w: "w = [v]"
    using assms(4) by (auto simp: encode_op_def split: option.splits)
  have ok: "key_ok k v"
    by (rule table_key [OF assms(1) v])
  show thesis
  proof (cases "starts_with ''OP_'' k")
    case True
    then obtain n where n: "n \<le> 16" "k = ''OP_'' @ nat_str n" "v = (if n = 0 then 0 else 0x50 + word_of_nat n)"
      using ok unfolding key_ok_def by blast
    show thesis
      using number_token [OF n(1)] encode_small [of num n OP] assms(2) n True
      by (intro that [of k "Num (int n)"]) (auto simp: Op asm_token_def op_prefixed_def w exact_numbers_def)
  next
    case False
    then show thesis
      using name_token [OF v ok False] assms(4)
      by (intro that [of "''OP_'' @ k" "Op k"]) (auto simp: Op asm_token_def op_prefixed_def)
  qed
next
  case (Num n)
  have laws: "num_laws num"
    using assms(2) by (simp add: exact_numbers_def)
  consider (small) m where "n = int m" "m \<le> 16" | (neg) "n = - 1" | (other) "\<not> (0 \<le> n \<and> n \<le> 16)" "n \<noteq> - 1"
    by (metis nat_le_iff of_nat_numeral zero_le_imp_eq_int nat_int of_nat_le_iff)
  then show thesis
  proof cases
    case small
    then show thesis
      using number_token [OF small(2)] assms(4) nat_str_zero
      by (intro that [of "''OP_'' @ nat_str m" "Num (int m)"]) (auto simp: Num asm_token_def)
  next
    case neg
    have "w = [0x4f]"
      using assms(4) laws by (auto simp: Num neg encode_op_def bignum_encode_def BIGNUM_MAX_BYTES_def num_laws_def push_bytes_def)
    then show thesis
      using name_token [OF table_negate [OF assms(1)] table_key [OF assms(1) table_negate [OF assms(1)]]]
        table_negate [OF assms(1)]
      by (intro that [of "''OP_1NEGATE''" "Op ''1NEGATE''"]) (auto simp: Num neg asm_token_def encode_op_def starts_with_def)
  next
    case other
    then have "num n \<noteq> []"
      using assms(2) by (auto simp: exact_numbers_def)
    then show thesis
      using hex_token [OF assms(1,3), of "num n"] assms(4) other
      by (intro that [of "henc (num n)" "Push (num n)"])
        (auto simp: Num asm_token_def encode_op_def bignum_encode_def Let_def split: if_splits)
  qed
next
  case (Push b)
  then show thesis
    using hex_token [OF assms(1,3), of b] assms(4,5)
    by (intro that [of "henc b" "Push b"]) (auto simp: asm_token_def)
qed

lemma asm_tokens_roundtrip:
  assumes "table_ok OP" and "exact_numbers num" and "hex_strings henc hdec"
    and "ArkadeScript_encode OP num xs = Inr bs" and "Push [] \<notin> set xs"
  shows "\<exists>ts ys. r_map (asm_token henc num) xs = Inr ts \<and> (\<forall>t \<in> set ts. token_ok t)
    \<and> r_map (token_op OP hdec) ts = Inr ys \<and> ArkadeScript_encode OP num ys = Inr bs"
  using assms(4,5)
proof (induction xs arbitrary: bs)
  case (Cons x xs)
  then obtain w bs' where w: "encode_op OP num x = Inr w" "ArkadeScript_encode OP num xs = Inr bs'" "bs = w @ bs'"
    by auto
  obtain t y where "asm_token henc num x = Inr t" "token_ok t" "token_op OP hdec t = Inr y"
    "encode_op OP num y = Inr w"
    using asm_token_roundtrip [OF assms(1-3) w(1)] Cons.prems(2) by (metis list.set_intros(1))
  then show ?case
    using Cons.IH [OF w(2)] Cons.prems(2) w(3) by fastforce
qed simp

text \<open>
  Writing a script as assembly text and parsing the text gives a script with the same bytes:
  numbers without an opcode of their own are written as the bytes they encode to and come back as a push,
  \<open>OP_1NEGATE\<close> comes back as a named opcode. A push of no bytes, which the text cannot
  show, is excluded.
\<close>

lemma asm_roundtrip:
  assumes "table_ok OP" and "exact_numbers num" and "hex_strings henc hdec"
    and "ArkadeScript_encode OP num xs = Inr bs" and "Push [] \<notin> set xs"
  shows "\<exists>asm. toASM henc num xs = Inr asm \<and> asmToBytes OP num hdec asm = Inr bs"
proof -
  obtain ts ys where "r_map (asm_token henc num) xs = Inr ts" "\<forall>t \<in> set ts. token_ok t"
    "r_map (token_op OP hdec) ts = Inr ys" "ArkadeScript_encode OP num ys = Inr bs"
    using asm_tokens_roundtrip [OF assms] by blast
  then show ?thesis
    by (simp add: toASM_def asmToBytes_def fromASM_def words_join)
qed

text \<open>A push of no bytes is written as an empty token, which the parser drops.\<close>

lemma asm_drops_empty_push:
  assumes "henc [] = []"
  shows "r_bind (toASM henc num [Push [], Op ''DUP'']) (fromASM OP hdec) = r_bind (toASM henc num [Op ''DUP'']) (fromASM OP hdec)"
  by (simp add: toASM_def asm_token_def fromASM_def assms)

text \<open>Lower-case hexadecimal digits, as \<open>@scure/base\<close> writes them.\<close>

definition hex_digit :: "nat \<Rightarrow> char" where
  "hex_digit n = char_of (if n < 10 then 48 + n else 87 + n)"

definition hex_value :: "char \<Rightarrow> nat" where
  "hex_value c = (let n = of_char c in if n < 58 then n - 48 else n - 87)"

fun hex_of_bytes :: "bytes \<Rightarrow> string" where
  "hex_of_bytes [] = []"
| "hex_of_bytes (b # bs) = hex_digit (unat b div 16) # hex_digit (unat b mod 16) # hex_of_bytes bs"

fun bytes_of_hex :: "string \<Rightarrow> bytes option" where
  "bytes_of_hex [] = Some []"
| "bytes_of_hex [c] = None"
| "bytes_of_hex (c # d # s) = map_option ((#) (word_of_nat (16 * hex_value c + hex_value d))) (bytes_of_hex s)"

lemma hex_value_digit: "n < 16 \<Longrightarrow> hex_value (hex_digit n) = n"
  by (auto simp: hex_value_def hex_digit_def Let_def)

lemma hex_digit_lower:
  "n < 16 \<Longrightarrow> is_hex_char (hex_digit n) \<and> \<not> (65 \<le> (of_char (hex_digit n) :: nat) \<and> (of_char (hex_digit n) :: nat) \<le> 70)"
  by (auto simp: is_hex_char_def hex_digit_def Let_def)

lemma hex_of_bytes_strings: "hex_strings hex_of_bytes bytes_of_hex"
proof -
  have "bytes_of_hex (hex_of_bytes b) = Some b" for b
  proof (induction b)
    case (Cons x b)
    have "unat x < 256"
      using unat_byte_less [of x] by simp
    then show ?case
      using Cons by (simp add: hex_value_digit)
  qed simp
  moreover have "hex_of_bytes b = [] \<longrightarrow> b = []" for b
    by (cases b) auto
  moreover have "even (length (hex_of_bytes b))" for b
    by (induction b) auto
  moreover have "list_all (\<lambda>c. is_hex_char c \<and> \<not> (65 \<le> (of_char c :: nat) \<and> (of_char c :: nat) \<le> 70)) (hex_of_bytes b)" for b
  proof (induction b)
    case (Cons x b)
    have "unat x < 256"
      using unat_byte_less [of x] by simp
    then show ?case
      using Cons hex_digit_lower [of "unat x div 16"] hex_digit_lower [of "unat x mod 16"] by simp
  qed simp
  ultimately show ?thesis
    by (simp add: hex_strings_def hex_laws_def)
qed

lemma sample_num_exact: "exact_numbers sample_num"
  by (auto simp: exact_numbers_def num_laws_def sample_num_def)

lemma sample_OP_ok: "table_ok sample_OP"
proof -
  have "key_ok ''OP_0'' 0"
    using nat_str_zero by (auto simp: key_ok_def token_ok_def js_space_def is_digit_def is_hex_char_def intro!: exI [of _ 0])
  moreover have "nat_str 1 = ''1''"
    by code_simp
  then have "key_ok ''OP_1'' 0x51"
    by (auto simp: key_ok_def token_ok_def js_space_def is_digit_def is_hex_char_def intro!: exI [of _ 1])
  moreover have "key_ok ''1NEGATE'' 0x4f"
    by (simp add: key_ok_def token_ok_def js_space_def is_digit_def is_hex_char_def starts_with_def)
  moreover have "plain_key ''PUSHDATA1''" "plain_key ''DUP''" "plain_key ''NOP4''"
    by (simp_all add: plain_key_def token_ok_def js_space_def upper_def starts_with_def)
  ultimately show ?thesis
    by (simp add: table_ok_def sample_OP_def plain_key_ok)
qed

lemma asm_roundtrip_witness:
  "\<exists>asm. toASM hex_of_bytes sample_num [Op ''DUP'', Num 5, Num 200, Push [0xab], Num (- 1)] = Inr asm
     \<and> asmToBytes sample_OP sample_num bytes_of_hex asm = Inr [0x76, 0x55, 0x01, 0xc8, 0x01, 0xab, 0x4f]"
proof (rule asm_roundtrip [OF sample_OP_ok sample_num_exact hex_of_bytes_strings])
  show "ArkadeScript_encode sample_OP sample_num [Op ''DUP'', Num 5, Num 200, Push [0xab], Num (- 1)]
      = Inr [0x76, 0x55, 0x01, 0xc8, 0x01, 0xab, 0x4f]"
    by (simp add: encode_op_def push_bytes_def bignum_encode_def BIGNUM_MAX_BYTES_def sample_num_def sample_bytes)
qed simp

section \<open>Script numbers\<close>

text \<open>
  The number format the code relies on (little endian, sign in the top bit of the last byte, minimal), as an instance of the
  parameter \<open>num\<close>.
\<close>

fun le_bytes :: "nat \<Rightarrow> bytes" where
  "le_bytes n = (if n = 0 then [] else word_of_nat (n mod 256) # le_bytes (n div 256))"

declare le_bytes.simps [simp del]

fun le_value :: "bytes \<Rightarrow> nat" where
  "le_value [] = 0"
| "le_value (b # bs) = unat b + 256 * le_value bs"

definition script_num :: "int \<Rightarrow> bytes" where
  "script_num n =
     (let b = le_bytes (nat \<bar>n\<bar>)
      in if b = [] then []
         else if 0x80 \<le> last b then b @ [if n < 0 then 0x80 else 0]
         else if n < 0 then butlast b @ [last b + 0x80]
         else b)"

definition script_num_decode :: "bytes \<Rightarrow> int option" where
  "script_num_decode b =
     (if b = [] then Some 0
      else if 0x80 \<le> last b then Some (- int (le_value (butlast b @ [last b - 0x80])))
      else Some (int (le_value b)))"

lemma le_value_append: "le_value (a @ b) = le_value a + 256 ^ length a * le_value b"
  by (induction a) (auto simp: algebra_simps)

lemma le_value_bytes: "le_value (le_bytes n) = n"
  by (induction n rule: le_bytes.induct) (simp add: le_bytes.simps unat_of_nat)

lemma script_num_decode: "0 \<le> n \<Longrightarrow> script_num_decode (script_num n) = Some n"
  by (auto simp: script_num_def script_num_decode_def Let_def le_value_append le_value_bytes not_le
      dest: arg_cong [where f = le_value])

lemma script_num_sign: "0 \<le> n \<Longrightarrow> script_num n = [] \<or> last (script_num n) < 0x80"
  by (auto simp: script_num_def Let_def not_le)

lemma le_bytes_byte: "0 < n \<Longrightarrow> n < 256 \<Longrightarrow> le_bytes n = [word_of_nat n]"
  by (simp add: le_bytes.simps [of n] le_bytes.simps [of 0])

lemma script_num_byte: "0 < n \<Longrightarrow> n < 0x80 \<Longrightarrow> script_num n = [word_of_int n]"
proof -
  assume n: "0 < n" "n < 0x80"
  obtain m where m: "n = int m"
    using n by (metis zero_le_imp_eq_int less_imp_le)
  then have "le_bytes m = [word_of_nat m]"
    using n by (intro le_bytes_byte) auto
  moreover have "(word_of_nat m :: byte) < 0x80"
    using n m by (simp add: word_less_nat_alt unat_byte_of_nat)
  ultimately show ?thesis
    using m by (simp add: script_num_def Let_def not_le)
qed

lemma script_num_exact: "exact_numbers script_num"
proof -
  have "script_num (- 1) = [0x81]"
    by (simp add: script_num_def le_bytes_byte Let_def word_le_nat_alt)
  moreover have "script_num n = [] \<longrightarrow> n = 0" for n
    by (auto simp: script_num_def Let_def le_bytes.simps [of "nat \<bar>n\<bar>"] split: if_splits)
  ultimately show ?thesis
    by (simp add: exact_numbers_def num_laws_def script_num_byte) (simp add: script_num_def le_bytes.simps)
qed

end
