(* ===== verification/Tapscript.thy ===== *)
theory Tapscript
  imports Arkade_Script
begin

text \<open>
  The closures of an Arkade output, \<open>script/tapscript.ts\<close>, with \<open>utils/timelock.ts\<close>: five forms of leaf script,
  each with an encoder and a decoder, and \<open>decodeTapscript\<close>, which tries the decoders in turn.

  The script coder \<open>Script\<close>, the number codec \<open>ScriptNum\<close>, \<open>p2tr_ms\<close> and the \<open>bip68\<close> package are
  third-party code: they are the fields of a record \<open>script_lib\<close>, an argument \<open>L\<close> of every definition; a call
  that throws is \<open>None\<close>. The locale \<open>script_library\<close> states what is used of them; everything
  about reading back a written script is proved inside it, and it is interpreted on the Arkade
  coder of \<open>Arkade_Script\<close> with Bitcoin's opcodes.

  An encoder returns its parameters besides the script, because \<open>MultisigTapscript.encode\<close> fills in
  the missing type of the object it is given. \<open>TapParams\<close> has one constructor per \<open>TapscriptType\<close>.
\<close>

datatype tl_unit = InSeconds | InBlocks

record RelativeTimelock =
  tl_value :: int
  tl_type :: tl_unit

datatype bip68 = BlocksValue int | SecondsValue int | NoTimelock

record script_lib =
  s_encode :: "script_op list \<Rightarrow> bytes option"
  s_decode :: "bytes \<Rightarrow> script_op list option"
  num_encode :: "int \<Rightarrow> bytes"
  num_decode :: "bytes \<Rightarrow> int option"
  ms_script :: "bytes list \<Rightarrow> bytes option"
  bip_encode :: "bip68 \<Rightarrow> int option"
  bip_decode :: "int \<Rightarrow> bip68"

datatype MultisigType = CHECKSIG | CHECKSIGADD

record MultisigParams =
  pubkeys :: "bytes list"
  ms_type :: "MultisigType option"

datatype TapParams =
    Multisig MultisigParams
  | CSVMultisig RelativeTimelock MultisigParams
  | ConditionCSVMultisig bytes RelativeTimelock MultisigParams
  | ConditionMultisig bytes MultisigParams
  | CLTVMultisig int MultisigParams

record ArkTapscript =
  tap_params :: TapParams
  tap_script :: bytes

datatype tap_err =
    NoPubkeys | InvalidPubkeyLength nat | LibraryThrew | EmptyTapscript | InvalidSequence int
  | ExpectedChecksigAdd | ExpectedNumEqual | MissingNumEqual | NoPubkeyFound | ReconstructionMismatch
  | UnexpectedEndOfScript | ExpectedChecksig | LastMustBeChecksig
  | TooShort | ExpectedNumber | ExpectedTimelockOps | MissingVerify
  | InvalidMultisig tap_err | InvalidCSVMultisig tap_err | NotATapscript

definition of_lib :: "'a option \<Rightarrow> tap_err + 'a" where
  "of_lib x = (case x of Some y \<Rightarrow> Inr y | None \<Rightarrow> Inl LibraryThrew)"

lemma of_lib_Inr [simp]: "of_lib x = Inr y \<longleftrightarrow> x = Some y"
  by (simp add: of_lib_def split: option.splits)

lemma of_lib_Some [simp]: "of_lib (Some x) = Inr x"
  by simp

section \<open>Timelocks\<close>

definition timelockToSequence :: "script_lib \<Rightarrow> RelativeTimelock \<Rightarrow> tap_err + int" where
  "timelockToSequence L timelock =
     of_lib (bip_encode L (if tl_type timelock = InBlocks then BlocksValue (tl_value timelock)
                           else SecondsValue (tl_value timelock)))"

definition sequenceToTimelock :: "script_lib \<Rightarrow> int \<Rightarrow> tap_err + RelativeTimelock" where
  "sequenceToTimelock L sequence =
     (case bip_decode L sequence of
        BlocksValue b \<Rightarrow> Inr \<lparr>tl_value = b, tl_type = InBlocks\<rparr>
      | SecondsValue s \<Rightarrow> Inr \<lparr>tl_value = s, tl_type = InSeconds\<rparr>
      | NoTimelock \<Rightarrow> Inl (InvalidSequence sequence))"

text \<open>A script number is pushed as a number when it is one byte long.\<close>

definition number_op :: "script_lib \<Rightarrow> int \<Rightarrow> script_op" where
  "number_op L n = (let s = num_encode L n in if length s = 1 then Num (uint (s ! 0)) else Push s)"

definition op_number :: "script_lib \<Rightarrow> script_op \<Rightarrow> tap_err + int" where
  "op_number L x = (case x of
      Num n \<Rightarrow> Inr n
    | Push b \<Rightarrow> of_lib (num_decode L b)
    | Op _ \<Rightarrow> Inl ExpectedNumber)"

section \<open>Multisig\<close>

definition check_pubkey :: "bytes \<Rightarrow> tap_err + unit" where
  "check_pubkey k = r_require (length k = 32) (InvalidPubkeyLength (length k))"

fun checksig_asm :: "bytes list \<Rightarrow> script_op list" where
  "checksig_asm [] = []"
| "checksig_asm (k # ks) =
     Push k # (if ks = [] then Op ''CHECKSIG'' else Op ''CHECKSIGVERIFY'') # checksig_asm ks"

definition MultisigTapscript_encode :: "script_lib \<Rightarrow> MultisigParams \<Rightarrow> tap_err + MultisigParams \<times> bytes" where
  "MultisigTapscript_encode L params =
     r_bind (r_require (pubkeys params \<noteq> []) NoPubkeys) (\<lambda>_.
     r_bind (r_each check_pubkey (pubkeys params)) (\<lambda>_.
       let params = (if ms_type params = Some CHECKSIGADD then params else params\<lparr>ms_type := Some CHECKSIG\<rparr>)
       in if ms_type params = Some CHECKSIGADD
          then r_bind (of_lib (ms_script L (pubkeys params))) (\<lambda>script. Inr (params, script))
          else r_bind (of_lib (s_encode L (checksig_asm (pubkeys params)))) (\<lambda>script. Inr (params, script))))"

fun csa_loop :: "script_op list \<Rightarrow> bytes list \<Rightarrow> bool \<Rightarrow> tap_err + bytes list \<times> bool" where
  "csa_loop [] keys foundNumEqual = Inr (keys, foundNumEqual)"
| "csa_loop (Push b # Op k # asm) keys found =
     (if length b \<noteq> 32 then Inl (InvalidPubkeyLength (length b))
      else if k \<noteq> ''CHECKSIGADD'' \<and> k \<noteq> ''CHECKSIG'' then Inl ExpectedChecksigAdd
      else csa_loop asm (keys @ [b]) found)"
| "csa_loop (Push b # asm) keys found =
     (if length b \<noteq> 32 then Inl (InvalidPubkeyLength (length b)) else Inl ExpectedChecksigAdd)"
| "csa_loop (x # asm) keys found =
     (if asm = [] then if x \<noteq> Op ''NUMEQUAL'' then Inl ExpectedNumEqual else csa_loop [] keys True
      else csa_loop asm keys found)"

definition decodeChecksigAdd :: "script_lib \<Rightarrow> bytes \<Rightarrow> tap_err + MultisigParams" where
  "decodeChecksigAdd L script =
     r_bind (of_lib (s_decode L script)) (\<lambda>asm.
     r_bind (csa_loop asm [] False) (\<lambda>(keys, foundNumEqual).
     r_bind (r_require foundNumEqual MissingNumEqual) (\<lambda>_.
     r_bind (r_require (keys \<noteq> []) NoPubkeyFound) (\<lambda>_.
     r_bind (MultisigTapscript_encode L \<lparr>pubkeys = keys, ms_type = Some CHECKSIGADD\<rparr>) (\<lambda>(params, rebuilt).
     r_bind (r_require (rebuilt = script) ReconstructionMismatch) (\<lambda>_.
     Inr \<lparr>pubkeys = keys, ms_type = Some CHECKSIGADD\<rparr>))))))"

fun cs_loop :: "script_op list \<Rightarrow> bytes list \<Rightarrow> tap_err + bytes list" where
  "cs_loop [] keys = Inr keys"
| "cs_loop (Push b # asm) keys =
     (if length b \<noteq> 32 then Inl (InvalidPubkeyLength (length b))
      else case asm of
        [] \<Rightarrow> Inl UnexpectedEndOfScript
      | nextOp # asm' \<Rightarrow>
          if nextOp \<noteq> Op ''CHECKSIGVERIFY'' \<and> nextOp \<noteq> Op ''CHECKSIG'' then Inl ExpectedChecksig
          else if asm' = [] \<and> nextOp \<noteq> Op ''CHECKSIG'' then Inl LastMustBeChecksig
          else cs_loop asm' (keys @ [b]))"
| "cs_loop (x # asm) keys = cs_loop asm keys"

definition decodeChecksig :: "script_lib \<Rightarrow> bytes \<Rightarrow> tap_err + MultisigParams" where
  "decodeChecksig L script =
     r_bind (of_lib (s_decode L script)) (\<lambda>asm.
     r_bind (cs_loop asm []) (\<lambda>keys.
     r_bind (r_require (keys \<noteq> []) NoPubkeyFound) (\<lambda>_.
     r_bind (MultisigTapscript_encode L \<lparr>pubkeys = keys, ms_type = Some CHECKSIG\<rparr>) (\<lambda>(params, rebuilt).
     r_bind (r_require (rebuilt = script) ReconstructionMismatch) (\<lambda>_.
     Inr \<lparr>pubkeys = keys, ms_type = Some CHECKSIG\<rparr>)))))"

definition MultisigTapscript_decode :: "script_lib \<Rightarrow> bytes \<Rightarrow> tap_err + MultisigParams" where
  "MultisigTapscript_decode L script =
     (if script = [] then Inl EmptyTapscript
      else case decodeChecksigAdd L script of
        Inr params \<Rightarrow> Inr params
      | Inl _ \<Rightarrow> (case decodeChecksig L script of
          Inr params \<Rightarrow> Inr params
        | Inl e \<Rightarrow> Inl (InvalidMultisig e)))"

section \<open>CSV multisig\<close>

definition CSVMultisigTapscript_encode ::
  "script_lib \<Rightarrow> RelativeTimelock \<Rightarrow> MultisigParams \<Rightarrow> tap_err + MultisigParams \<times> bytes" where
  "CSVMultisigTapscript_encode L timelock params =
     r_bind (r_each check_pubkey (pubkeys params)) (\<lambda>_.
     r_bind (timelockToSequence L timelock) (\<lambda>sequence.
     r_bind (MultisigTapscript_encode L params) (\<lambda>(params, multisigScript).
     r_bind (of_lib (s_encode L [number_op L sequence, Op ''CHECKSEQUENCEVERIFY'', Op ''DROP''])) (\<lambda>prefix.
     Inr (params, prefix @ multisigScript)))))"

fun is_opcode :: "script_op \<Rightarrow> bool" where
  "is_opcode (Op _) = True"
| "is_opcode _ = False"

definition CSV_isScriptValid :: "script_lib \<Rightarrow> bytes \<Rightarrow> tap_err + unit" where
  "CSV_isScriptValid L script =
     r_bind (of_lib (s_decode L script)) (\<lambda>asm.
       if length asm < 3 then Inl TooShort
       else if is_opcode (asm ! 0) then Inl ExpectedNumber
       else if asm ! 1 \<noteq> Op ''CHECKSEQUENCEVERIFY'' \<or> asm ! 2 \<noteq> Op ''DROP'' then Inl ExpectedTimelockOps
       else Inr ())"

definition CSVMultisigTapscript_decode ::
  "script_lib \<Rightarrow> bytes \<Rightarrow> tap_err + RelativeTimelock \<times> MultisigParams" where
  "CSVMultisigTapscript_decode L script =
     (if script = [] then Inl EmptyTapscript
      else
        r_bind (CSV_isScriptValid L script) (\<lambda>_.
        r_bind (of_lib (s_decode L script)) (\<lambda>asm.
        r_bind (of_lib (s_encode L (drop 3 asm))) (\<lambda>multisigScript.
        r_bind (case MultisigTapscript_decode L multisigScript of Inl e \<Rightarrow> Inl (InvalidMultisig e) | Inr m \<Rightarrow> Inr m) (\<lambda>multisig.
        r_bind (op_number L (asm ! 0)) (\<lambda>sequence.
        r_bind (sequenceToTimelock L sequence) (\<lambda>timelock.
        r_bind (CSVMultisigTapscript_encode L timelock multisig) (\<lambda>(params, rebuilt).
        r_bind (r_require (rebuilt = script) ReconstructionMismatch) (\<lambda>_.
        Inr (timelock, multisig))))))))))"

section \<open>Condition scripts\<close>

text \<open>The last \<open>VERIFY\<close>, searched from the end.\<close>

fun verify_loop :: "script_op list \<Rightarrow> nat \<Rightarrow> nat option" where
  "verify_loop asm 0 = None"
| "verify_loop asm (Suc i) = (if asm ! i = Op ''VERIFY'' then Some i else verify_loop asm i)"

definition getVerifyIndex :: "script_op list \<Rightarrow> nat option" where
  "getVerifyIndex asm = verify_loop asm (length asm)"

definition Condition_isScriptValid :: "script_lib \<Rightarrow> bytes \<Rightarrow> tap_err + unit" where
  "Condition_isScriptValid L script =
     r_bind (of_lib (s_decode L script)) (\<lambda>asm.
       if length asm < 1 then Inl TooShort
       else if getVerifyIndex asm = None then Inl MissingVerify
       else Inr ())"

definition ConditionCSVMultisigTapscript_encode ::
  "script_lib \<Rightarrow> bytes \<Rightarrow> RelativeTimelock \<Rightarrow> MultisigParams \<Rightarrow> tap_err + MultisigParams \<times> bytes" where
  "ConditionCSVMultisigTapscript_encode L conditionScript timelock params =
     r_bind (of_lib (s_encode L [Op ''VERIFY''])) (\<lambda>verify.
     r_bind (CSVMultisigTapscript_encode L timelock params) (\<lambda>(params, script).
     Inr (params, conditionScript @ verify @ script)))"

definition ConditionCSVMultisigTapscript_decode ::
  "script_lib \<Rightarrow> bytes \<Rightarrow> tap_err + bytes \<times> RelativeTimelock \<times> MultisigParams" where
  "ConditionCSVMultisigTapscript_decode L script =
     (if script = [] then Inl EmptyTapscript
      else
        r_bind (Condition_isScriptValid L script) (\<lambda>_.
        r_bind (of_lib (s_decode L script)) (\<lambda>asm.
        case getVerifyIndex asm of
          None \<Rightarrow> Inl MissingVerify
        | Some verifyIndex \<Rightarrow>
            r_bind (of_lib (s_encode L (take verifyIndex asm))) (\<lambda>conditionScript.
            r_bind (of_lib (s_encode L (drop (verifyIndex + 1) asm))) (\<lambda>csvMultisigScript.
            r_bind (case CSVMultisigTapscript_decode L csvMultisigScript of Inl e \<Rightarrow> Inl (InvalidCSVMultisig e) | Inr c \<Rightarrow> Inr c)
              (\<lambda>(timelock, params).
            r_bind (ConditionCSVMultisigTapscript_encode L conditionScript timelock params) (\<lambda>(_, rebuilt).
            r_bind (r_require (rebuilt = script) ReconstructionMismatch) (\<lambda>_.
            Inr (conditionScript, timelock, params)))))))))"

definition ConditionMultisigTapscript_encode ::
  "script_lib \<Rightarrow> bytes \<Rightarrow> MultisigParams \<Rightarrow> tap_err + MultisigParams \<times> bytes" where
  "ConditionMultisigTapscript_encode L conditionScript params =
     r_bind (of_lib (s_encode L [Op ''VERIFY''])) (\<lambda>verify.
     r_bind (MultisigTapscript_encode L params) (\<lambda>(params, script).
     Inr (params, conditionScript @ verify @ script)))"

definition ConditionMultisigTapscript_decode :: "script_lib \<Rightarrow> bytes \<Rightarrow> tap_err + bytes \<times> MultisigParams" where
  "ConditionMultisigTapscript_decode L script =
     (if script = [] then Inl EmptyTapscript
      else
        r_bind (Condition_isScriptValid L script) (\<lambda>_.
        r_bind (of_lib (s_decode L script)) (\<lambda>asm.
        case getVerifyIndex asm of
          None \<Rightarrow> Inl MissingVerify
        | Some verifyIndex \<Rightarrow>
            r_bind (of_lib (s_encode L (take verifyIndex asm))) (\<lambda>conditionScript.
            r_bind (of_lib (s_encode L (drop (verifyIndex + 1) asm))) (\<lambda>multisigScript.
            r_bind (case MultisigTapscript_decode L multisigScript of Inl e \<Rightarrow> Inl (InvalidMultisig e) | Inr m \<Rightarrow> Inr m)
              (\<lambda>params.
            r_bind (ConditionMultisigTapscript_encode L conditionScript params) (\<lambda>(_, rebuilt).
            r_bind (r_require (rebuilt = script) ReconstructionMismatch) (\<lambda>_.
            Inr (conditionScript, params)))))))))"

section \<open>CLTV multisig\<close>

definition CLTVMultisigTapscript_encode ::
  "script_lib \<Rightarrow> int \<Rightarrow> MultisigParams \<Rightarrow> tap_err + MultisigParams \<times> bytes" where
  "CLTVMultisigTapscript_encode L absoluteTimelock params =
     r_bind (of_lib (s_encode L [number_op L absoluteTimelock, Op ''CHECKLOCKTIMEVERIFY'', Op ''DROP''])) (\<lambda>prefix.
     r_bind (MultisigTapscript_encode L params) (\<lambda>(params, multisigScript).
     Inr (params, prefix @ multisigScript)))"

definition CLTV_isScriptValid :: "script_lib \<Rightarrow> bytes \<Rightarrow> tap_err + unit" where
  "CLTV_isScriptValid L script =
     r_bind (of_lib (s_decode L script)) (\<lambda>asm.
       if length asm < 3 then Inl TooShort
       else if is_opcode (asm ! 0) then Inl ExpectedNumber
       else if asm ! 1 \<noteq> Op ''CHECKLOCKTIMEVERIFY'' \<or> asm ! 2 \<noteq> Op ''DROP'' then Inl ExpectedTimelockOps
       else Inr ())"

definition CLTVMultisigTapscript_decode :: "script_lib \<Rightarrow> bytes \<Rightarrow> tap_err + int \<times> MultisigParams" where
  "CLTVMultisigTapscript_decode L script =
     (if script = [] then Inl EmptyTapscript
      else
        r_bind (CLTV_isScriptValid L script) (\<lambda>_.
        r_bind (of_lib (s_decode L script)) (\<lambda>asm.
        if is_opcode (asm ! 0) then Inl ExpectedNumber
        else if asm ! 1 \<noteq> Op ''CHECKLOCKTIMEVERIFY'' \<or> asm ! 2 \<noteq> Op ''DROP'' then Inl ExpectedTimelockOps
        else
          r_bind (of_lib (s_encode L (drop 3 asm))) (\<lambda>multisigScript.
          r_bind (case MultisigTapscript_decode L multisigScript of Inl e \<Rightarrow> Inl (InvalidMultisig e) | Inr m \<Rightarrow> Inr m) (\<lambda>multisig.
          r_bind (op_number L (asm ! 0)) (\<lambda>absoluteTimelock.
          r_bind (CLTVMultisigTapscript_encode L absoluteTimelock multisig) (\<lambda>(_, rebuilt).
          r_bind (r_require (rebuilt = script) ReconstructionMismatch) (\<lambda>_.
          Inr (absoluteTimelock, multisig)))))))))"

section \<open>All forms\<close>

definition encodeTapscript :: "script_lib \<Rightarrow> TapParams \<Rightarrow> tap_err + ArkTapscript" where
  "encodeTapscript L p =
     (case p of
        Multisig m \<Rightarrow> r_bind (MultisigTapscript_encode L m)
          (\<lambda>(m, script). Inr \<lparr>tap_params = Multisig m, tap_script = script\<rparr>)
      | CSVMultisig t m \<Rightarrow> r_bind (CSVMultisigTapscript_encode L t m)
          (\<lambda>(m, script). Inr \<lparr>tap_params = CSVMultisig t m, tap_script = script\<rparr>)
      | ConditionCSVMultisig c t m \<Rightarrow> r_bind (ConditionCSVMultisigTapscript_encode L c t m)
          (\<lambda>(m, script). Inr \<lparr>tap_params = ConditionCSVMultisig c t m, tap_script = script\<rparr>)
      | ConditionMultisig c m \<Rightarrow> r_bind (ConditionMultisigTapscript_encode L c m)
          (\<lambda>(m, script). Inr \<lparr>tap_params = ConditionMultisig c m, tap_script = script\<rparr>)
      | CLTVMultisig n m \<Rightarrow> r_bind (CLTVMultisigTapscript_encode L n m)
          (\<lambda>(m, script). Inr \<lparr>tap_params = CLTVMultisig n m, tap_script = script\<rparr>))"

definition decodeTapscript :: "script_lib \<Rightarrow> bytes \<Rightarrow> tap_err + ArkTapscript" where
  "decodeTapscript L script =
     (case MultisigTapscript_decode L script of
        Inr m \<Rightarrow> Inr \<lparr>tap_params = Multisig m, tap_script = script\<rparr>
      | Inl _ \<Rightarrow> case CSVMultisigTapscript_decode L script of
        Inr (t, m) \<Rightarrow> Inr \<lparr>tap_params = CSVMultisig t m, tap_script = script\<rparr>
      | Inl _ \<Rightarrow> case ConditionCSVMultisigTapscript_decode L script of
        Inr (c, t, m) \<Rightarrow> Inr \<lparr>tap_params = ConditionCSVMultisig c t m, tap_script = script\<rparr>
      | Inl _ \<Rightarrow> case ConditionMultisigTapscript_decode L script of
        Inr (c, m) \<Rightarrow> Inr \<lparr>tap_params = ConditionMultisig c m, tap_script = script\<rparr>
      | Inl _ \<Rightarrow> case CLTVMultisigTapscript_decode L script of
        Inr (n, m) \<Rightarrow> Inr \<lparr>tap_params = CLTVMultisig n m, tap_script = script\<rparr>
      | Inl _ \<Rightarrow> Inl NotATapscript)"

section \<open>Decoders accept only what the encoders write\<close>

lemma r_bind_pair_InrE:
  assumes "r_bind m (\<lambda>(a, b). f a b) = Inr y"
  obtains a b where "m = Inr (a, b)" and "f a b = Inr y"
  using assms by (cases m) (auto split: prod.splits)

lemma sum_case_Inr:
  "(case x of Inl e \<Rightarrow> Inl (f e) | Inr y \<Rightarrow> Inr y) = Inr z \<longleftrightarrow> x = Inr z"
  by (cases x) auto

lemma multisig_encode_again:
  assumes "MultisigTapscript_encode L p = Inr (p', s)"
  shows "MultisigTapscript_encode L p' = Inr (p', s)" and "pubkeys p' = pubkeys p" and "pubkeys p \<noteq> []"
    and "\<forall>k \<in> set (pubkeys p). length k = 32" and "ms_type p' \<noteq> None"
  using assms by (auto simp: MultisigTapscript_encode_def Let_def check_pubkey_def r_bind_eq_Inr split: if_splits)

lemma multisig_encode_fixed:
  assumes "MultisigTapscript_encode L p = Inr (p', s)" and "ms_type p \<noteq> None"
  shows "p' = p"
proof (cases "ms_type p")
  case (Some t)
  then show ?thesis
    using assms by (cases t) (auto simp: MultisigTapscript_encode_def Let_def)
qed (use assms in simp)

lemma multisig_decode_sound:
  assumes "MultisigTapscript_decode L s = Inr m"
  shows "MultisigTapscript_encode L m = Inr (m, s)"
proof -
  consider "decodeChecksigAdd L s = Inr m" | "decodeChecksig L s = Inr m"
    using assms by (auto simp: MultisigTapscript_decode_def split: if_splits sum.splits)
  then have "\<exists>p'. MultisigTapscript_encode L m = Inr (p', s) \<and> ms_type m \<noteq> None"
    by cases (auto simp: decodeChecksigAdd_def decodeChecksig_def r_bind_eq_Inr split: prod.splits)
  then show ?thesis
    using multisig_encode_fixed by blast
qed

lemma csv_encode_keeps:
  assumes "CSVMultisigTapscript_encode L t m = Inr (p, s)" and "MultisigTapscript_encode L m = Inr (m, u)"
  shows "p = m"
  using assms by (auto simp: CSVMultisigTapscript_encode_def r_bind_eq_Inr)

lemma csv_decode_sound:
  assumes "CSVMultisigTapscript_decode L s = Inr (t, m)"
  shows "CSVMultisigTapscript_encode L t m = Inr (m, s)" and "\<exists>u. MultisigTapscript_encode L m = Inr (m, u)"
proof -
  obtain u p where "MultisigTapscript_decode L u = Inr m" "CSVMultisigTapscript_encode L t m = Inr (p, s)"
    using assms by (auto simp: CSVMultisigTapscript_decode_def r_bind_eq_Inr sum_case_Inr split: if_splits prod.splits)
  then show "CSVMultisigTapscript_encode L t m = Inr (m, s)" "\<exists>u. MultisigTapscript_encode L m = Inr (m, u)"
    using multisig_decode_sound csv_encode_keeps by blast+
qed

lemma condition_csv_decode_sound:
  assumes "ConditionCSVMultisigTapscript_decode L s = Inr (c, t, m)"
  shows "ConditionCSVMultisigTapscript_encode L c t m = Inr (m, s) \<and> (\<exists>u. MultisigTapscript_encode L m = Inr (m, u))"
proof -
  obtain u p where u: "CSVMultisigTapscript_decode L u = Inr (t, m)"
    "ConditionCSVMultisigTapscript_encode L c t m = Inr (p, s)"
    using assms by (auto simp: ConditionCSVMultisigTapscript_decode_def r_bind_eq_Inr sum_case_Inr
        split: if_splits prod.splits option.splits)
  then show ?thesis
    using csv_decode_sound [OF u(1)] by (auto simp: ConditionCSVMultisigTapscript_encode_def r_bind_eq_Inr)
qed

lemma condition_decode_sound:
  assumes "ConditionMultisigTapscript_decode L s = Inr (c, m)"
  shows "ConditionMultisigTapscript_encode L c m = Inr (m, s) \<and> (\<exists>u. MultisigTapscript_encode L m = Inr (m, u))"
proof -
  obtain u p where u: "MultisigTapscript_decode L u = Inr m" "ConditionMultisigTapscript_encode L c m = Inr (p, s)"
    using assms by (auto simp: ConditionMultisigTapscript_decode_def r_bind_eq_Inr sum_case_Inr
        split: if_splits prod.splits option.splits)
  then show ?thesis
    using multisig_decode_sound [OF u(1)] by (auto simp: ConditionMultisigTapscript_encode_def r_bind_eq_Inr)
qed

lemma cltv_decode_sound:
  assumes "CLTVMultisigTapscript_decode L s = Inr (n, m)"
  shows "CLTVMultisigTapscript_encode L n m = Inr (m, s) \<and> (\<exists>u. MultisigTapscript_encode L m = Inr (m, u))"
proof -
  obtain u p where u: "MultisigTapscript_decode L u = Inr m" "CLTVMultisigTapscript_encode L n m = Inr (p, s)"
    using assms by (auto simp: CLTVMultisigTapscript_decode_def r_bind_eq_Inr sum_case_Inr split: if_splits prod.splits)
  then show ?thesis
    using multisig_decode_sound [OF u(1)] by (auto simp: CLTVMultisigTapscript_encode_def r_bind_eq_Inr)
qed

fun multisig_of :: "TapParams \<Rightarrow> MultisigParams" where
  "multisig_of (Multisig m) = m"
| "multisig_of (CSVMultisig _ m) = m"
| "multisig_of (ConditionCSVMultisig _ _ m) = m"
| "multisig_of (ConditionMultisig _ m) = m"
| "multisig_of (CLTVMultisig _ m) = m"

lemma decode_sound:
  assumes "decodeTapscript L s = Inr t"
  shows "tap_script t = s \<and> encodeTapscript L (tap_params t) = Inr t
    \<and> (\<exists>u. MultisigTapscript_encode L (multisig_of (tap_params t)) = Inr (multisig_of (tap_params t), u))"
proof -
  consider m where "MultisigTapscript_decode L s = Inr m" "t = \<lparr>tap_params = Multisig m, tap_script = s\<rparr>"
    | x m where "CSVMultisigTapscript_decode L s = Inr (x, m)" "t = \<lparr>tap_params = CSVMultisig x m, tap_script = s\<rparr>"
    | c x m where "ConditionCSVMultisigTapscript_decode L s = Inr (c, x, m)"
        "t = \<lparr>tap_params = ConditionCSVMultisig c x m, tap_script = s\<rparr>"
    | c m where "ConditionMultisigTapscript_decode L s = Inr (c, m)"
        "t = \<lparr>tap_params = ConditionMultisig c m, tap_script = s\<rparr>"
    | n m where "CLTVMultisigTapscript_decode L s = Inr (n, m)" "t = \<lparr>tap_params = CLTVMultisig n m, tap_script = s\<rparr>"
    using assms by (auto simp: decodeTapscript_def split: sum.splits)
  then show ?thesis
    by cases (auto simp: encodeTapscript_def dest: multisig_decode_sound csv_decode_sound
        condition_csv_decode_sound condition_decode_sound cltv_decode_sound)
qed

text \<open>
  C14. Whatever script \<open>decodeTapscript\<close> accepts, with whatever behaviour of the libraries, is exactly the script the encoder
  writes for the decoded parameters, and it names at least one public key, all of 32 bytes. So a
  closure accepted from a peer means what its decoded parameters say.
\<close>

theorem tapscript_decode_sound:
  assumes "decodeTapscript L s = Inr t"
  shows "tap_script t = s \<and> encodeTapscript L (tap_params t) = Inr t
    \<and> pubkeys (multisig_of (tap_params t)) \<noteq> [] \<and> (\<forall>k \<in> set (pubkeys (multisig_of (tap_params t))). length k = 32)"
  using decode_sound [OF assms] multisig_encode_again by blast

section \<open>The interface of the libraries\<close>

definition push_opcodes :: "string set" where
  "push_opcodes = {''PUSHDATA1'', ''PUSHDATA2'', ''PUSHDATA4''}"

definition closure_opcodes :: "string set" where
  "closure_opcodes = {''CHECKSIG'', ''CHECKSIGVERIFY'', ''CHECKSIGADD'', ''NUMEQUAL'', ''VERIFY'', ''DROP'',
     ''CHECKSEQUENCEVERIFY'', ''CHECKLOCKTIMEVERIFY''}"

fun csa_asm :: "nat \<Rightarrow> bytes list \<Rightarrow> script_op list" where
  "csa_asm m [] = [Num (int m), Op ''NUMEQUAL'']"
| "csa_asm m (k # ks) = Push k # Op ''CHECKSIGADD'' # csa_asm m ks"

text \<open>\<open>p2tr_ms(m, keys)\<close>: the first key is checked with \<open>CHECKSIG\<close>, the others with \<open>CHECKSIGADD\<close>.\<close>

definition ms_asm :: "bytes list \<Rightarrow> script_op list" where
  "ms_asm ks = (case ks of [] \<Rightarrow> [] | k # ks' \<Rightarrow> Push k # Op ''CHECKSIG'' # csa_asm (length ks) ks')"

definition plain_asm :: "script_op list \<Rightarrow> bool" where
  "plain_asm asm \<longleftrightarrow> (\<forall>k. Op k \<in> set asm \<longrightarrow> k \<notin> push_opcodes)"

text \<open>Keys that \<open>OP_1\<close> to \<open>OP_16\<close> can count.\<close>

definition countable_keys :: "MultisigParams \<Rightarrow> bool" where
  "countable_keys m \<longleftrightarrow> ms_type m = Some CHECKSIGADD \<longrightarrow> length (pubkeys m) \<le> 16"

text \<open>
  The parameters whose script can be read back: with \<open>CHECKSIGADD\<close> at most 16 keys, a condition that is itself a
  script the coder wrote, and a lock time that is not negative.
\<close>

definition written_condition :: "script_lib \<Rightarrow> bytes \<Rightarrow> bool" where
  "written_condition L c \<longleftrightarrow> (\<exists>asm. s_encode L asm = Some c \<and> plain_asm asm)"

fun readable :: "script_lib \<Rightarrow> TapParams \<Rightarrow> bool" where
  "readable L (Multisig m) = countable_keys m"
| "readable L (CSVMultisig t m) = countable_keys m"
| "readable L (ConditionCSVMultisig c t m) \<longleftrightarrow> countable_keys m \<and> written_condition L c"
| "readable L (ConditionMultisig c m) \<longleftrightarrow> countable_keys m \<and> written_condition L c"
| "readable L (CLTVMultisig n m) \<longleftrightarrow> countable_keys m \<and> 0 \<le> n"

text \<open>
  \<open>canon\<close> is what an operation reads back as. The laws: what is written reads back in canonical form
  and the canonical form is written the same; scripts concatenate; the opcodes used here and pushes of several bytes are
  canonical; only an opcode reads back as an opcode; numbers that need no push read back as numbers, and the operation
  that pushes a non-negative number reads back as that number or as a push that the number codec decodes to it;
  \<open>p2tr_ms\<close> writes the script above; \<open>bip68\<close> inverts its encoding.
\<close>

locale script_library =
  fixes L :: script_lib and canon :: "script_op \<Rightarrow> script_op"
  assumes decode_encode: "s_encode L asm = Some b \<Longrightarrow> plain_asm asm \<Longrightarrow> s_decode L b = Some (map canon asm)"
    and encode_canon: "s_encode L asm = Some b \<Longrightarrow> plain_asm asm \<Longrightarrow> s_encode L (map canon asm) = Some b"
    and encode_append: "s_encode L (as @ bs) =
      Option.bind (s_encode L as) (\<lambda>x. map_option (\<lambda>y. x @ y) (s_encode L bs))"
    and canon_opcode: "k \<in> closure_opcodes \<Longrightarrow> canon (Op k) = Op k"
    and canon_push: "2 \<le> length b \<Longrightarrow> canon (Push b) = Push b"
    and canon_data: "\<not> is_opcode x \<Longrightarrow> \<not> is_opcode (canon x)"
    and canon_number: "n \<in> {0..16} \<Longrightarrow> canon (Num n) = Num n"
    and number_op: "0 \<le> n \<Longrightarrow> op_number L (canon (number_op L n)) = Inr n"
    and multisig_script: "ms_script L ks = Some s \<Longrightarrow> s_encode L (ms_asm ks) = Some s"
    and bip68_inverse: "bip_encode L timelock = Some n \<Longrightarrow> 0 \<le> n \<and> bip_decode L n = timelock"
begin

text \<open>The operations of a multisig script.\<close>

definition multisig_asm :: "MultisigParams \<Rightarrow> script_op list" where
  "multisig_asm m = (if ms_type m = Some CHECKSIGADD then ms_asm (pubkeys m) else checksig_asm (pubkeys m))"

lemma multisig_encode_asm:
  assumes "MultisigTapscript_encode L m = Inr (m', s)"
  shows "s_encode L (multisig_asm m) = Some s" and "multisig_asm m' = multisig_asm m"
  using assms by (auto simp: MultisigTapscript_encode_def multisig_asm_def r_bind_eq_Inr Let_def
      multisig_script split: if_splits)

lemma plain_simps [simp]:
  "plain_asm []" "plain_asm (Push b # asm) = plain_asm asm" "plain_asm (Num n # asm) = plain_asm asm"
  "plain_asm (Op k # asm) \<longleftrightarrow> k \<notin> push_opcodes \<and> plain_asm asm"
  "plain_asm (as @ bs) \<longleftrightarrow> plain_asm as \<and> plain_asm bs"
  by (auto simp: plain_asm_def)

lemma plain_multisig: "plain_asm (multisig_asm m)"
proof -
  have "plain_asm (checksig_asm ks)" for ks
    by (induction ks) (auto simp: push_opcodes_def)
  moreover have "plain_asm (csa_asm n ks)" for n ks
    by (induction ks) (auto simp: push_opcodes_def)
  ultimately show ?thesis
    by (auto simp: multisig_asm_def ms_asm_def push_opcodes_def split: list.splits)
qed

lemma closure_canon [simp]:
  "canon (Op ''CHECKSIG'') = Op ''CHECKSIG''" "canon (Op ''CHECKSIGVERIFY'') = Op ''CHECKSIGVERIFY''"
  "canon (Op ''CHECKSIGADD'') = Op ''CHECKSIGADD''" "canon (Op ''NUMEQUAL'') = Op ''NUMEQUAL''"
  "canon (Op ''VERIFY'') = Op ''VERIFY''" "canon (Op ''DROP'') = Op ''DROP''"
  "canon (Op ''CHECKSEQUENCEVERIFY'') = Op ''CHECKSEQUENCEVERIFY''"
  "canon (Op ''CHECKLOCKTIMEVERIFY'') = Op ''CHECKLOCKTIMEVERIFY''"
  by (simp_all add: canon_opcode closure_opcodes_def)

lemma canon_not_op [simp]: "Op k \<noteq> canon (Push b)" "Op k \<noteq> canon (Num n)" "canon (Push b) \<noteq> Op k" "canon (Num n) \<noteq> Op k"
  by (metis canon_data is_opcode.simps)+

text \<open>What tells the forms apart: the second operation, and the opcodes that occur.\<close>

lemma multisig_second:
  assumes "pubkeys m \<noteq> []"
  shows "map canon (multisig_asm m) ! 1 \<in> {Op ''CHECKSIG'', Op ''CHECKSIGVERIFY''}"
    and "length (multisig_asm m) \<ge> 2" and "map canon (multisig_asm m) \<noteq> []"
  using assms by (cases "pubkeys m"; auto simp: multisig_asm_def ms_asm_def)+

lemma multisig_no_op:
  assumes "k \<in> {''VERIFY'', ''DROP''}"
  shows "Op k \<notin> set (map canon (multisig_asm m))"
proof -
  have cs: "Op k \<notin> canon ` set (checksig_asm ks)" for ks
    using assms by (induction ks) auto
  have csa: "Op k \<notin> canon ` set (csa_asm n ks)" for n ks
    using assms by (induction ks) auto
  show ?thesis
  proof (cases "pubkeys m")
    case (Cons k' ks)
    then show ?thesis
      using assms cs [of "pubkeys m"] csa [of "length (pubkeys m)" ks]
      by (auto simp: multisig_asm_def ms_asm_def simp del: checksig_asm.simps)
  qed (simp add: multisig_asm_def ms_asm_def)
qed

section \<open>Reading multisig scripts\<close>

lemma cs_loop_checksig:
  "\<forall>k \<in> set ks. length k = 32 \<Longrightarrow> cs_loop (map canon (checksig_asm ks)) keys = Inr (keys @ ks)"
proof (induction ks arbitrary: keys)
  case (Cons k ks)
  then show ?case
    by (cases ks) (auto simp: canon_push)
qed simp

lemma csa_loop_checksig:
  assumes "\<forall>k \<in> set ks. length k = 32" and "csa_loop (map canon (checksig_asm ks)) keys False = Inr (keys', f)"
  shows "\<not> f"
proof (cases ks)
  case (Cons k ks')
  then show ?thesis
    using assms by (cases ks') (auto simp: canon_push)
qed (use assms in simp)

lemma csa_loop_csa:
  assumes "\<forall>k \<in> set ks. length k = 32" and "n \<le> 16"
  shows "csa_loop (map canon (csa_asm n ks)) keys f = Inr (keys @ ks, True)"
  using assms(1)
proof (induction ks arbitrary: keys)
  case Nil
  then show ?case
    using canon_number [of "int n"] assms(2) by simp
qed (simp add: canon_push)

lemma csa_loop_ms:
  assumes "\<forall>k \<in> set ks. length k = 32" and "ks \<noteq> []" and "length ks \<le> 16"
  shows "csa_loop (map canon (ms_asm ks)) [] False = Inr (ks, True)"
proof -
  obtain k ks' where ks: "ks = k # ks'"
    using assms(2) by (cases ks) auto
  then show ?thesis
    using assms csa_loop_csa [of ks' "length ks" "[k]" False] by (simp add: ms_asm_def canon_push)
qed

end

context script_library
begin

lemma multisig_decode_asm:
  assumes "MultisigTapscript_decode L s = Inr m"
  shows "s_decode L s = Some (map canon (multisig_asm m))" and "pubkeys m \<noteq> []"
  using multisig_decode_sound [OF assms] multisig_encode_asm(1) multisig_encode_again(3) decode_encode plain_multisig
  by blast+

lemma multisig_script_nonempty:
  assumes "MultisigTapscript_encode L m = Inr (m', s)"
  shows "s \<noteq> []"
proof
  assume "s = []"
  have "s_encode L (multisig_asm m) = Some s"
    using multisig_encode_asm(1) [OF assms] .
  then have "s_encode L (multisig_asm m @ multisig_asm m) = Some s"
    by (simp add: encode_append \<open>s = []\<close>)
  then have "map canon (multisig_asm m @ multisig_asm m) = map canon (multisig_asm m)"
    using decode_encode [of "multisig_asm m" s] decode_encode [of "multisig_asm m @ multisig_asm m" s] plain_multisig
      \<open>s_encode L (multisig_asm m) = Some s\<close> by simp
  then show False
    using multisig_second(2) [OF multisig_encode_again(3) [OF assms]] by (auto dest!: arg_cong [where f = length])
qed

lemma multisig_roundtrip:
  assumes "MultisigTapscript_encode L m = Inr (m', s)" and "countable_keys m"
  shows "MultisigTapscript_decode L s = Inr m'"
proof -
  note enc = multisig_encode_again [OF assms(1)]
  have ne: "s \<noteq> []"
    by (rule multisig_script_nonempty [OF assms(1)])
  have dec: "s_decode L s = Some (map canon (multisig_asm m))"
    using decode_encode multisig_encode_asm(1) [OF assms(1)] plain_multisig by blast
  show ?thesis
  proof (cases "ms_type m = Some CHECKSIGADD")
    case True
    then have m': "m' = m"
      using multisig_encode_fixed [OF assms(1)] by simp
    have "csa_loop (map canon (multisig_asm m)) [] False = Inr (pubkeys m, True)"
      using csa_loop_ms [of "pubkeys m"] enc(3,4) assms(2) True by (simp add: multisig_asm_def countable_keys_def)
    moreover have "\<lparr>pubkeys = pubkeys m, ms_type = Some CHECKSIGADD\<rparr> = m"
      using True by simp
    ultimately have "decodeChecksigAdd L s = Inr m"
      using assms(1) dec enc(3) by (simp add: decodeChecksigAdd_def of_lib_def m')
    then show ?thesis
      using ne by (simp add: MultisigTapscript_decode_def m')
  next
    case False
    then have m': "m' = \<lparr>pubkeys = pubkeys m, ms_type = Some CHECKSIG\<rparr>"
      using assms(1) by (auto simp: MultisigTapscript_encode_def r_bind_eq_Inr Let_def)
    have asm: "multisig_asm m = checksig_asm (pubkeys m)"
      using False by (simp add: multisig_asm_def)
    have "\<exists>e. decodeChecksigAdd L s = Inl e"
    proof (cases "csa_loop (map canon (checksig_asm (pubkeys m))) [] False")
      case (Inr r)
      then have "\<not> snd r"
        using csa_loop_checksig [OF enc(4), of "[]" "fst r" "snd r"] by simp
      then show ?thesis
        using dec Inr by (cases r) (simp add: decodeChecksigAdd_def of_lib_def asm)
    qed (use dec in \<open>simp add: decodeChecksigAdd_def of_lib_def asm\<close>)
    moreover have "decodeChecksig L s = Inr m'"
      using dec cs_loop_checksig [OF enc(4), of "[]"] enc(1,3) by (simp add: decodeChecksig_def of_lib_def asm m')
    ultimately show ?thesis
      using ne by (auto simp: MultisigTapscript_decode_def)
  qed
qed

section \<open>Reading timelocked scripts\<close>

definition timelock_ops :: "string \<Rightarrow> int \<Rightarrow> script_op list" where
  "timelock_ops k n = [number_op L n, Op k, Op ''DROP'']"

lemma number_op_data [simp]: "\<not> is_opcode (number_op L n)"
  by (simp add: number_op_def Let_def)

lemma plain_timelock: "k \<in> closure_opcodes \<Longrightarrow> plain_asm (timelock_ops k n)"
  by (cases "number_op L n") (auto simp: timelock_ops_def closure_opcodes_def push_opcodes_def
      dest: arg_cong [where f = is_opcode])

lemma csv_encode_asm:
  assumes "CSVMultisigTapscript_encode L t m = Inr (m', s)"
  obtains n u where "timelockToSequence L t = Inr n" "MultisigTapscript_encode L m = Inr (m', u)" "s \<noteq> []"
    "s_encode L (timelock_ops ''CHECKSEQUENCEVERIFY'' n @ multisig_asm m) = Some s"
    "s_decode L s = Some (map canon (timelock_ops ''CHECKSEQUENCEVERIFY'' n @ multisig_asm m))"
proof -
  obtain n u p where n: "timelockToSequence L t = Inr n" and u: "MultisigTapscript_encode L m = Inr (m', u)"
    and p: "s_encode L (timelock_ops ''CHECKSEQUENCEVERIFY'' n) = Some p" "s = p @ u"
    using assms by (auto simp: CSVMultisigTapscript_encode_def timelock_ops_def r_bind_eq_Inr)
  have e: "s_encode L (timelock_ops ''CHECKSEQUENCEVERIFY'' n @ multisig_asm m) = Some s"
    using p multisig_encode_asm(1) [OF u] by (simp add: encode_append)
  moreover have "plain_asm (timelock_ops ''CHECKSEQUENCEVERIFY'' n)"
    by (rule plain_timelock) (simp add: closure_opcodes_def)
  ultimately show thesis
    using that n u p(2) multisig_script_nonempty [OF u] decode_encode plain_multisig by auto
qed

lemma cltv_encode_asm:
  assumes "CLTVMultisigTapscript_encode L n m = Inr (m', s)"
  obtains u where "MultisigTapscript_encode L m = Inr (m', u)" "s \<noteq> []"
    "s_decode L s = Some (map canon (timelock_ops ''CHECKLOCKTIMEVERIFY'' n @ multisig_asm m))"
proof -
  obtain u p where u: "MultisigTapscript_encode L m = Inr (m', u)"
    and p: "s_encode L (timelock_ops ''CHECKLOCKTIMEVERIFY'' n) = Some p" "s = p @ u"
    using assms by (auto simp: CLTVMultisigTapscript_encode_def timelock_ops_def r_bind_eq_Inr)
  have e: "s_encode L (timelock_ops ''CHECKLOCKTIMEVERIFY'' n @ multisig_asm m) = Some s"
    using p multisig_encode_asm(1) [OF u] by (simp add: encode_append)
  moreover have "plain_asm (timelock_ops ''CHECKLOCKTIMEVERIFY'' n)"
    by (rule plain_timelock) (simp add: closure_opcodes_def)
  ultimately show thesis
    using that u p(2) multisig_script_nonempty [OF u] decode_encode plain_multisig by auto
qed

lemma sequence_roundtrip:
  assumes "timelockToSequence L t = Inr n"
  shows "0 \<le> n" and "sequenceToTimelock L n = Inr t"
proof -
  obtain x where x: "bip_encode L x = Some n" "x = (if tl_type t = InBlocks then BlocksValue (tl_value t) else SecondsValue (tl_value t))"
    using assms by (auto simp: timelockToSequence_def)
  show "0 \<le> n"
    using bip68_inverse [OF x(1)] by simp
  show "sequenceToTimelock L n = Inr t"
    using bip68_inverse [OF x(1)] x(2) by (cases "tl_type t") (auto simp: sequenceToTimelock_def)
qed

end

lemma verify_loop_none: "verify_loop xs n = None \<longleftrightarrow> (\<forall>i < n. xs ! i \<noteq> Op ''VERIFY'')"
  by (induction n) (auto simp: less_Suc_eq)

lemma getVerifyIndex_none: "getVerifyIndex xs = None \<longleftrightarrow> Op ''VERIFY'' \<notin> set xs"
  by (auto simp: getVerifyIndex_def verify_loop_none in_set_conv_nth)

lemma getVerifyIndex_last:
  assumes "Op ''VERIFY'' \<notin> set bs"
  shows "getVerifyIndex (as @ Op ''VERIFY'' # bs) = Some (length as)"
proof -
  have "k \<le> length bs \<Longrightarrow> verify_loop (as @ Op ''VERIFY'' # bs) (Suc (length as + k)) = Some (length as)" for k
  proof (induction k)
    case (Suc k)
    have "(as @ Op ''VERIFY'' # bs) ! Suc (length as + k) = bs ! k"
      by (simp add: nth_append)
    moreover have "bs ! k \<noteq> Op ''VERIFY''"
      using Suc.prems assms by (metis Suc_le_lessD nth_mem)
    ultimately show ?case
      using Suc by simp
  qed (simp add: nth_append)
  from this [of "length bs"] show ?thesis
    by (simp add: getVerifyIndex_def)
qed

context script_library
begin

lemma timelock_canon:
  "map canon (timelock_ops k n @ asm) ! 1 = canon (Op k)"
  "drop 3 (map canon (timelock_ops k n @ asm)) = map canon asm"
  "\<not> is_opcode (map canon (timelock_ops k n @ asm) ! 0)"
  "map canon (timelock_ops k n @ asm) ! 2 = Op ''DROP''"
  "3 \<le> length (map canon (timelock_ops k n @ asm))"
  by (simp_all add: timelock_ops_def canon_data numeral_2_eq_2 numeral_3_eq_3)

lemma timelock_no_verify:
  assumes "k \<in> closure_opcodes" and "k \<noteq> ''VERIFY''"
  shows "Op ''VERIFY'' \<notin> set (map canon (timelock_ops k n @ multisig_asm m))"
proof -
  have "canon (number_op L n) \<noteq> Op ''VERIFY''"
    using canon_data [OF number_op_data, of n] by (metis is_opcode.simps(1))
  then show ?thesis
    using assms multisig_no_op [of "''VERIFY''" m] by (auto simp: timelock_ops_def canon_opcode)
qed

lemma csv_encode_again:
  assumes "CSVMultisigTapscript_encode L t m = Inr (m', s)"
  shows "CSVMultisigTapscript_encode L t m' = Inr (m', s)"
proof -
  obtain u where "MultisigTapscript_encode L m = Inr (m', u)"
    using assms by (auto simp: CSVMultisigTapscript_encode_def r_bind_eq_Inr)
  then show ?thesis
    using assms multisig_encode_again [of L m m' u] by (simp add: CSVMultisigTapscript_encode_def r_bind_eq_Inr)
qed

lemma csv_roundtrip:
  assumes "CSVMultisigTapscript_encode L t m = Inr (m', s)" and "countable_keys m"
  shows "CSVMultisigTapscript_decode L s = Inr (t, m')"
proof -
  obtain n u where nu: "timelockToSequence L t = Inr n" "MultisigTapscript_encode L m = Inr (m', u)" "s \<noteq> []"
    and dec: "s_decode L s = Some (map canon (timelock_ops ''CHECKSEQUENCEVERIFY'' n @ multisig_asm m))"
    using csv_encode_asm [OF assms(1)] by metis
  have "CSV_isScriptValid L s = Inr ()"
    using timelock_canon [of "''CHECKSEQUENCEVERIFY''" n "multisig_asm m"]
    by (simp add: CSV_isScriptValid_def dec of_lib_def del: map_append)
  moreover have "s_encode L (map canon (multisig_asm m)) = Some u"
    using encode_canon multisig_encode_asm(1) [OF nu(2)] plain_multisig by blast
  moreover have "op_number L (map canon (timelock_ops ''CHECKSEQUENCEVERIFY'' n @ multisig_asm m) ! 0) = Inr n"
    using number_op [OF sequence_roundtrip(1) [OF nu(1)]] by (simp add: timelock_ops_def)
  ultimately show ?thesis
    using nu(3) dec multisig_roundtrip [OF nu(2) assms(2)] sequence_roundtrip(2) [OF nu(1)] csv_encode_again [OF assms(1)]
    by (simp add: CSVMultisigTapscript_decode_def of_lib_def timelock_canon del: map_append)
qed

lemma cltv_roundtrip:
  assumes "CLTVMultisigTapscript_encode L n m = Inr (m', s)" and "countable_keys m" and "0 \<le> n"
  shows "CLTVMultisigTapscript_decode L s = Inr (n, m')"
proof -
  obtain u where u: "MultisigTapscript_encode L m = Inr (m', u)" "s \<noteq> []"
    and dec: "s_decode L s = Some (map canon (timelock_ops ''CHECKLOCKTIMEVERIFY'' n @ multisig_asm m))"
    using cltv_encode_asm [OF assms(1)] by metis
  have "CLTV_isScriptValid L s = Inr ()"
    using timelock_canon [of "''CHECKLOCKTIMEVERIFY''" n "multisig_asm m"]
    by (simp add: CLTV_isScriptValid_def dec of_lib_def del: map_append)
  moreover have "s_encode L (map canon (multisig_asm m)) = Some u"
    using encode_canon multisig_encode_asm(1) [OF u(1)] plain_multisig by blast
  moreover have "op_number L (map canon (timelock_ops ''CHECKLOCKTIMEVERIFY'' n @ multisig_asm m) ! 0) = Inr n"
    using number_op [OF assms(3)] by (simp add: timelock_ops_def)
  moreover have "CLTVMultisigTapscript_encode L n m' = Inr (m', s)"
    using assms(1) u(1) multisig_encode_again(1) [OF u(1)] by (auto simp: CLTVMultisigTapscript_encode_def r_bind_eq_Inr)
  ultimately show ?thesis
    using u(2) dec multisig_roundtrip [OF u(1) assms(2)] timelock_canon [of "''CHECKLOCKTIMEVERIFY''" n "multisig_asm m"]
    by (simp add: CLTVMultisigTapscript_decode_def of_lib_def del: map_append)
qed

section \<open>A decoder refuses the scripts of the other forms\<close>

lemma multisig_rejects:
  assumes "s_decode L s = Some asm"
    and "asm ! 1 \<notin> {Op ''CHECKSIG'', Op ''CHECKSIGVERIFY''} \<or> Op ''VERIFY'' \<in> set asm"
  shows "\<exists>e. MultisigTapscript_decode L s = Inl e"
proof (cases "MultisigTapscript_decode L s")
  case (Inr m)
  then show ?thesis
    using multisig_decode_asm [OF Inr] assms multisig_second(1) [of m] multisig_no_op [of "''VERIFY''" m] by auto
qed simp

lemma csv_rejects:
  assumes "s_decode L s = Some asm" and "asm ! 1 \<noteq> Op ''CHECKSEQUENCEVERIFY'' \<or> Op ''VERIFY'' \<in> set asm"
  shows "\<exists>e. CSVMultisigTapscript_decode L s = Inl e"
proof (cases "CSVMultisigTapscript_decode L s")
  case (Inr r)
  obtain t m where "r = (t, m)" by (cases r)
  then obtain n where "asm = map canon (timelock_ops ''CHECKSEQUENCEVERIFY'' n @ multisig_asm m)"
    using csv_encode_asm [OF csv_decode_sound(1) [of L s t m]] Inr assms(1) by (metis option.inject)
  moreover have "Op ''VERIFY'' \<notin> set (map canon (timelock_ops ''CHECKSEQUENCEVERIFY'' n @ multisig_asm m))"
    by (rule timelock_no_verify) (simp_all add: closure_opcodes_def)
  ultimately show ?thesis
    using assms(2) timelock_canon(1) [of "''CHECKSEQUENCEVERIFY''" n "multisig_asm m"] by auto
qed simp

lemma conditions_reject:
  assumes "s_decode L s = Some asm" and "Op ''VERIFY'' \<notin> set asm"
  shows "\<exists>e. ConditionCSVMultisigTapscript_decode L s = Inl e" and "\<exists>e. ConditionMultisigTapscript_decode L s = Inl e"
proof -
  have "\<exists>e. Condition_isScriptValid L s = Inl e"
    using assms getVerifyIndex_none [of asm] by (simp add: Condition_isScriptValid_def of_lib_def)
  then show "\<exists>e. ConditionCSVMultisigTapscript_decode L s = Inl e" "\<exists>e. ConditionMultisigTapscript_decode L s = Inl e"
    by (auto simp: ConditionCSVMultisigTapscript_decode_def ConditionMultisigTapscript_decode_def)
qed

section \<open>Reading condition scripts\<close>

lemma condition_asm:
  assumes "s_encode L [Op ''VERIFY''] = Some v" and "s_encode L casm = Some c" and "s_encode L asm = Some u"
    and "plain_asm casm" and "plain_asm asm" and "Op ''VERIFY'' \<notin> set (map canon asm)"
  shows "s_decode L (c @ v @ u) = Some (map canon casm @ Op ''VERIFY'' # map canon asm)"
    and "getVerifyIndex (map canon casm @ Op ''VERIFY'' # map canon asm) = Some (length casm)"
    and "Condition_isScriptValid L (c @ v @ u) = Inr ()"
    and "c @ v @ u \<noteq> []"
proof -
  have "s_encode L (casm @ [Op ''VERIFY''] @ asm) = Some (c @ v @ u)"
    using assms(1-3) by (simp only: encode_append) simp
  then show dec: "s_decode L (c @ v @ u) = Some (map canon casm @ Op ''VERIFY'' # map canon asm)"
    using decode_encode [of "casm @ [Op ''VERIFY''] @ asm" "c @ v @ u"] assms(4,5) by (simp add: push_opcodes_def)
  show idx: "getVerifyIndex (map canon casm @ Op ''VERIFY'' # map canon asm) = Some (length casm)"
    using getVerifyIndex_last [OF assms(6), of "map canon casm"] by simp
  show "Condition_isScriptValid L (c @ v @ u) = Inr ()"
    by (simp add: Condition_isScriptValid_def of_lib_def dec idx)
  have "s_encode L [] = Some []"
    using encode_append [of "[]" casm] assms(2) by (cases "s_encode L []") auto
  then have "s_decode L [] = Some []"
    using decode_encode [of "[]" "[]"] by simp
  then show "c @ v @ u \<noteq> []"
    using dec by auto
qed

end

context script_library
begin

lemma condition_csv_roundtrip:
  assumes "ConditionCSVMultisigTapscript_encode L c t m = Inr (m', s)" and "countable_keys m" and "written_condition L c"
  shows "ConditionCSVMultisigTapscript_decode L s = Inr (c, t, m') \<and> (\<exists>asm. s_decode L s = Some asm \<and> Op ''VERIFY'' \<in> set asm)"
proof -
  obtain casm where casm: "s_encode L casm = Some c" "plain_asm casm"
    using assms(3) by (auto simp: written_condition_def)
  obtain v u where v: "s_encode L [Op ''VERIFY''] = Some v" and u: "CSVMultisigTapscript_encode L t m = Inr (m', u)"
    and s: "s = c @ v @ u"
    using assms(1) by (auto simp: ConditionCSVMultisigTapscript_encode_def r_bind_eq_Inr)
  obtain n where asm: "s_encode L (timelock_ops ''CHECKSEQUENCEVERIFY'' n @ multisig_asm m) = Some u"
    using csv_encode_asm [OF u] by metis
  let ?asm = "timelock_ops ''CHECKSEQUENCEVERIFY'' n @ multisig_asm m"
  have plain: "plain_asm ?asm" and nv: "Op ''VERIFY'' \<notin> set (map canon ?asm)"
    using plain_timelock [of "''CHECKSEQUENCEVERIFY''" n] plain_multisig
      timelock_no_verify [of "''CHECKSEQUENCEVERIFY''" n m] by (simp_all add: closure_opcodes_def)
  note c = condition_asm [OF v casm(1) asm casm(2) plain nv, folded s]
  have "s_encode L (map canon casm) = Some c" "s_encode L (map canon ?asm) = Some u"
    using encode_canon casm asm plain by blast+
  moreover have "ConditionCSVMultisigTapscript_encode L c t m' = Inr (m', s)"
    using v csv_encode_again [OF u] s by (simp add: ConditionCSVMultisigTapscript_encode_def)
  ultimately show ?thesis
    using c csv_roundtrip [OF u assms(2)]
    by (simp add: ConditionCSVMultisigTapscript_decode_def of_lib_def del: map_append)
qed

lemma condition_roundtrip:
  assumes "ConditionMultisigTapscript_encode L c m = Inr (m', s)" and "countable_keys m" and "written_condition L c"
  shows "ConditionMultisigTapscript_decode L s = Inr (c, m') \<and> (\<exists>asm. s_decode L s = Some asm \<and> Op ''VERIFY'' \<in> set asm)
    \<and> (\<exists>e. ConditionCSVMultisigTapscript_decode L s = Inl e)"
proof -
  obtain casm where casm: "s_encode L casm = Some c" "plain_asm casm"
    using assms(3) by (auto simp: written_condition_def)
  obtain v u where v: "s_encode L [Op ''VERIFY''] = Some v" and u: "MultisigTapscript_encode L m = Inr (m', u)"
    and s: "s = c @ v @ u"
    using assms(1) by (auto simp: ConditionMultisigTapscript_encode_def r_bind_eq_Inr)
  have nv: "Op ''VERIFY'' \<notin> set (map canon (multisig_asm m))"
    using multisig_no_op [of "''VERIFY''" m] by simp
  note asm = multisig_encode_asm(1) [OF u]
  note c = condition_asm [OF v casm(1) asm casm(2) plain_multisig nv, folded s]
  have enc: "s_encode L (map canon casm) = Some c" "s_encode L (map canon (multisig_asm m)) = Some u"
    using encode_canon casm asm plain_multisig by blast+
  have "ConditionMultisigTapscript_encode L c m' = Inr (m', s)"
    using v multisig_encode_again(1) [OF u] s by (simp add: ConditionMultisigTapscript_encode_def)
  then have "ConditionMultisigTapscript_decode L s = Inr (c, m')"
    using c enc multisig_roundtrip [OF u assms(2)]
    by (simp add: ConditionMultisigTapscript_decode_def of_lib_def)
  moreover have "map canon (multisig_asm m) ! 1 \<noteq> Op ''CHECKSEQUENCEVERIFY''"
    using multisig_second(1) [OF multisig_encode_again(3) [OF u]] by auto
  then obtain e where "CSVMultisigTapscript_decode L u = Inl e"
    using csv_rejects [of u "map canon (multisig_asm m)"] decode_encode [OF asm plain_multisig] by blast
  then have "\<exists>e. ConditionCSVMultisigTapscript_decode L s = Inl e"
    using c enc by (simp add: ConditionCSVMultisigTapscript_decode_def of_lib_def)
  ultimately show ?thesis
    using c(1) by auto
qed

lemma tapscript_read_back:
  assumes "encodeTapscript L p = Inr t" and "readable L p"
  shows "decodeTapscript L (tap_script t) = Inr t"
proof (cases p)
  case (Multisig m)
  then show ?thesis
    using assms multisig_roundtrip by (auto simp: encodeTapscript_def decodeTapscript_def r_bind_eq_Inr)
next
  case (CSVMultisig x m)
  then obtain m' s where e: "CSVMultisigTapscript_encode L x m = Inr (m', s)"
    "t = \<lparr>tap_params = CSVMultisig x m', tap_script = s\<rparr>"
    using assms(1) by (auto simp: encodeTapscript_def r_bind_eq_Inr)
  obtain n where "s_decode L s = Some (map canon (timelock_ops ''CHECKSEQUENCEVERIFY'' n @ multisig_asm m))"
    using csv_encode_asm [OF e(1)] by metis
  then obtain err where "MultisigTapscript_decode L s = Inl err"
    using multisig_rejects timelock_canon(1) [of "''CHECKSEQUENCEVERIFY''" n "multisig_asm m"] by fastforce
  then show ?thesis
    using csv_roundtrip [OF e(1)] assms(2) CSVMultisig e(2) by (simp add: decodeTapscript_def)
next
  case (ConditionCSVMultisig c x m)
  then obtain m' s where e: "ConditionCSVMultisigTapscript_encode L c x m = Inr (m', s)"
    "t = \<lparr>tap_params = ConditionCSVMultisig c x m', tap_script = s\<rparr>"
    using assms(1) by (auto simp: encodeTapscript_def r_bind_eq_Inr)
  then show ?thesis
    using condition_csv_roundtrip [OF e(1)] assms(2) ConditionCSVMultisig multisig_rejects [of s] csv_rejects [of s]
    by (fastforce simp: decodeTapscript_def)
next
  case (ConditionMultisig c m)
  then obtain m' s where e: "ConditionMultisigTapscript_encode L c m = Inr (m', s)"
    "t = \<lparr>tap_params = ConditionMultisig c m', tap_script = s\<rparr>"
    using assms(1) by (auto simp: encodeTapscript_def r_bind_eq_Inr)
  then show ?thesis
    using condition_roundtrip [OF e(1)] assms(2) ConditionMultisig multisig_rejects [of s] csv_rejects [of s]
    by (fastforce simp: decodeTapscript_def)
next
  case (CLTVMultisig n m)
  then obtain m' s where e: "CLTVMultisigTapscript_encode L n m = Inr (m', s)"
    "t = \<lparr>tap_params = CLTVMultisig n m', tap_script = s\<rparr>"
    using assms(1) by (auto simp: encodeTapscript_def r_bind_eq_Inr)
  obtain asm where asm: "s_decode L s = Some asm" "asm = map canon (timelock_ops ''CHECKLOCKTIMEVERIFY'' n @ multisig_asm m)"
    using cltv_encode_asm [OF e(1)] by metis
  have one: "asm ! 1 = Op ''CHECKLOCKTIMEVERIFY''" and nv: "Op ''VERIFY'' \<notin> set asm"
    using asm(2) timelock_canon(1) [of "''CHECKLOCKTIMEVERIFY''" n "multisig_asm m"]
      timelock_no_verify [of "''CHECKLOCKTIMEVERIFY''" n m] by (simp_all add: closure_opcodes_def)
  obtain e1 e2 e3 e4 where "MultisigTapscript_decode L s = Inl e1" "CSVMultisigTapscript_decode L s = Inl e2"
    "ConditionCSVMultisigTapscript_decode L s = Inl e3" "ConditionMultisigTapscript_decode L s = Inl e4"
    using multisig_rejects [OF asm(1)] csv_rejects [OF asm(1)] conditions_reject [OF asm(1) nv] one by auto
  then show ?thesis
    using cltv_roundtrip [OF e(1)] assms(2) CLTVMultisig e(2) by (simp add: decodeTapscript_def)
qed

end

section \<open>The interface on the Arkade coder\<close>

text \<open>
  The Arkade coder, with Bitcoin's opcodes for the closures and the script numbers above, keeps all the
  laws; \<open>bip68\<close> values are the type bit and 16 bits, seconds in units of 512.
\<close>

definition std_OP :: op_table where
  "std_OP =
    [(''OP_0'', 0x00), (''PUSHDATA1'', 0x4c), (''PUSHDATA2'', 0x4d), (''PUSHDATA4'', 0x4e), (''1NEGATE'', 0x4f),
     (''VERIFY'', 0x69), (''DROP'', 0x75), (''EQUAL'', 0x87), (''NUMEQUAL'', 0x9c), (''HASH160'', 0xa9),
     (''CHECKSIG'', 0xac), (''CHECKSIGVERIFY'', 0xad), (''CHECKLOCKTIMEVERIFY'', 0xb1),
     (''CHECKSEQUENCEVERIFY'', 0xb2), (''CHECKSIGADD'', 0xba)]"

definition std_encode :: "script_op list \<Rightarrow> bytes option" where
  "std_encode asm = (case ArkadeScript_encode std_OP script_num asm of Inr b \<Rightarrow> Some b | Inl _ \<Rightarrow> None)"

definition std_lib :: script_lib where
  "std_lib =
     \<lparr>s_encode = std_encode,
      s_decode = (\<lambda>b. case ArkadeScript_decode std_OP b of Inr asm \<Rightarrow> Some asm | Inl _ \<Rightarrow> None),
      num_encode = script_num, num_decode = script_num_decode,
      ms_script = (\<lambda>ks. std_encode (ms_asm ks)),
      bip_encode = (\<lambda>t. case t of
          BlocksValue b \<Rightarrow> if 0 \<le> b \<and> b \<le> 0xffff then Some b else None
        | SecondsValue s \<Rightarrow> if 0 \<le> s \<and> s mod 512 = 0 \<and> s div 512 \<le> 0xffff then Some (0x400000 + s div 512) else None
        | NoTimelock \<Rightarrow> None),
      bip_decode = (\<lambda>n. if 0x400000 \<le> n then SecondsValue ((n - 0x400000) * 512) else BlocksValue n)\<rparr>"

abbreviation std_canon :: "script_op \<Rightarrow> script_op" where
  "std_canon \<equiv> canon_op std_OP script_num"

lemma std_OPS: "ARKADE_OPS std_OP = std_OP @ ARKADE_OP"
  by code_simp

lemma std_push: "js_get (ARKADE_OPS std_OP) k = Some v \<Longrightarrow> 0 < v \<Longrightarrow> v \<le> 0x4e \<Longrightarrow> k \<in> push_opcodes"
proof -
  have "list_all (\<lambda>(k, v). 0 < v \<and> v \<le> 0x4e \<longrightarrow> k \<in> push_opcodes) (ARKADE_OPS std_OP)"
    unfolding std_OPS by (simp add: std_OP_def ARKADE_OP_def push_opcodes_def)
  then show "js_get (ARKADE_OPS std_OP) k = Some v \<Longrightarrow> 0 < v \<Longrightarrow> v \<le> 0x4e \<Longrightarrow> k \<in> push_opcodes"
    by (auto simp: list_all_iff js_get_def dest!: map_of_SomeD)
qed

lemma std_plain: "plain_asm asm \<Longrightarrow> \<forall>x \<in> set asm. \<not> is_pushdata std_OP x"
  using std_push by (fastforce simp: plain_asm_def is_pushdata_def split: script_op.splits option.splits)

lemma std_names:
  "js_get (ArkadeOPNames std_OP) 0x69 = Some ''VERIFY''" "js_get (ArkadeOPNames std_OP) 0x75 = Some ''DROP''"
  "js_get (ArkadeOPNames std_OP) 0x9c = Some ''NUMEQUAL''" "js_get (ArkadeOPNames std_OP) 0xac = Some ''CHECKSIG''"
  "js_get (ArkadeOPNames std_OP) 0xad = Some ''CHECKSIGVERIFY''"
  "js_get (ArkadeOPNames std_OP) 0xb1 = Some ''CHECKLOCKTIMEVERIFY''"
  "js_get (ArkadeOPNames std_OP) 0xb2 = Some ''CHECKSEQUENCEVERIFY''"
  "js_get (ArkadeOPNames std_OP) 0xba = Some ''CHECKSIGADD''"
  unfolding js_get_ArkadeOPNames std_OPS by (simp_all add: std_OP_def ARKADE_OP_def)

lemma std_bytes:
  "js_get (ARKADE_OPS std_OP) ''VERIFY'' = Some 0x69" "js_get (ARKADE_OPS std_OP) ''DROP'' = Some 0x75"
  "js_get (ARKADE_OPS std_OP) ''NUMEQUAL'' = Some 0x9c" "js_get (ARKADE_OPS std_OP) ''CHECKSIG'' = Some 0xac"
  "js_get (ARKADE_OPS std_OP) ''CHECKSIGVERIFY'' = Some 0xad"
  "js_get (ARKADE_OPS std_OP) ''CHECKLOCKTIMEVERIFY'' = Some 0xb1"
  "js_get (ARKADE_OPS std_OP) ''CHECKSEQUENCEVERIFY'' = Some 0xb2"
  "js_get (ARKADE_OPS std_OP) ''CHECKSIGADD'' = Some 0xba"
  unfolding std_OPS by (simp_all add: std_OP_def)

lemma std_OP_distinct: "distinct (map fst std_OP)"
  by (simp add: std_OP_def)

lemma std_encode_append:
  "std_encode (as @ bs) = Option.bind (std_encode as) (\<lambda>x. map_option (\<lambda>y. x @ y) (std_encode bs))"
proof (induction as)
  case Nil
  then show ?case
    by (cases "std_encode bs") (simp_all add: std_encode_def)
next
  case (Cons x as)
  show ?case
  proof (cases "encode_op std_OP script_num x")
    case (Inr b)
    then show ?thesis
      using Cons by (auto simp: std_encode_def split: sum.splits)
  qed (simp add: std_encode_def)
qed

lemma std_encode_Some: "std_encode asm = Some b \<longleftrightarrow> ArkadeScript_encode std_OP script_num asm = Inr b"
  by (simp add: std_encode_def split: sum.splits)

lemma canon_push_data: "\<not> is_opcode (canon_push b)"
  by (simp add: canon_push_def)

lemma std_number_op:
  assumes "0 \<le> n"
  shows "op_number std_lib (std_canon (number_op std_lib n)) = Inr n"
proof -
  let ?s = "script_num n"
  have dec: "script_num_decode ?s = Some n" and sign: "?s = [] \<or> last ?s < 0x80"
    using script_num_decode [OF assms] script_num_sign [OF assms] .
  have "std_canon (number_op std_lib n) = canon_push ?s"
  proof (cases "length ?s = 1")
    case True
    then obtain x where x: "?s = [x]" "x < 0x80"
      using sign by (auto simp: length_Suc_conv)
    then have "n = uint x"
      using dec by (auto simp: script_num_decode_def not_le [symmetric] split: if_splits)
    then show ?thesis
      using x by (simp add: number_op_def std_lib_def canon_op_def)
  qed (simp add: number_op_def std_lib_def canon_op_def)
  moreover have "op_number std_lib (canon_push ?s) = Inr n"
  proof -
    consider (nil) "?s = []" | (one) x where "?s = [x]" "1 \<le> x" "x \<le> 16"
      | (push) "canon_push ?s = Push ?s"
    proof (cases "length ?s = 1")
      case True
      then obtain x where "?s = [x]"
        by (auto simp: length_Suc_conv)
      moreover have "x \<noteq> 0x81"
        using sign \<open>?s = [x]\<close> by auto
      ultimately show thesis
        using that by (cases "1 \<le> x \<and> x \<le> 16") (auto simp: canon_push_def)
    next
      case False
      then show thesis
        using that by (cases "?s = []") (auto simp: canon_push_def)
    qed
    then show ?thesis
    proof cases
      case one
      then show ?thesis
        using dec sign by (auto simp: script_num_decode_def canon_push_def op_number_def not_le [symmetric] split: if_splits)
    qed (use dec in \<open>auto simp: script_num_decode_def canon_push_def op_number_def std_lib_def\<close>)
  qed
  ultimately show ?thesis
    by simp
qed

interpretation std: script_library std_lib std_canon
proof
  fix asm b
  assume "s_encode std_lib asm = Some b" and plain: "plain_asm asm"
  then have enc: "ArkadeScript_encode std_OP script_num asm = Inr b"
    by (simp add: std_lib_def std_encode_Some)
  show "s_decode std_lib b = Some (map std_canon asm)"
    using decode_encode [OF enc std_plain [OF plain]] by (simp add: std_lib_def)
  show "s_encode std_lib (map std_canon asm) = Some b"
    using encode_canon [OF _ std_OP_distinct enc] script_num_exact
    by (simp add: std_lib_def std_encode_Some exact_numbers_def)
next
  fix as bs
  show "s_encode std_lib (as @ bs) = Option.bind (s_encode std_lib as) (\<lambda>x. map_option (\<lambda>y. x @ y) (s_encode std_lib bs))"
    by (simp add: std_lib_def std_encode_append)
next
  fix k
  assume "k \<in> closure_opcodes"
  then show "std_canon (Op k) = Op k"
    by (auto simp: closure_opcodes_def canon_op_def canon_byte_def std_bytes std_names)
next
  fix b :: bytes
  assume "2 \<le> length b"
  then show "std_canon (Push b) = Push b"
    by (auto simp: canon_op_def canon_push_def)
next
  fix x
  assume "\<not> is_opcode x"
  then show "\<not> is_opcode (std_canon x)"
    by (cases x) (simp_all add: canon_op_def canon_push_data)
next
  fix n :: int
  assume n: "n \<in> {0..16}"
  show "std_canon (Num n) = Num n"
  proof (cases "n = 0")
    case True
    then show ?thesis
      using script_num_exact by (simp add: canon_op_def canon_push_def exact_numbers_def num_laws_def)
  next
    case False
    have "(1 :: byte) \<le> word_of_int n" "(word_of_int n :: byte) \<le> 16"
      using n False by (simp_all add: word_le_def uint_word_of_int)
    then show ?thesis
      using n False by (simp add: canon_op_def canon_push_def script_num_byte uint_word_of_int)
  qed
next
  fix n :: int
  assume "0 \<le> n"
  then show "op_number std_lib (std_canon (number_op std_lib n)) = Inr n"
    by (rule std_number_op)
next
  fix ks s
  assume "ms_script std_lib ks = Some s"
  then show "s_encode std_lib (ms_asm ks) = Some s"
    by (simp add: std_lib_def)
next
  fix timelock n
  assume "bip_encode std_lib timelock = Some n"
  then show "0 \<le> n \<and> bip_decode std_lib n = timelock"
    by (auto simp: std_lib_def split: bip68.splits if_splits)
qed


definition sample_key :: "byte \<Rightarrow> bytes" where
  "sample_key b = replicate 32 b"


theorem tapscript_decode_sound_witness:
  "\<exists>t. decodeTapscript std_lib (0x20 # sample_key 7 @ [0xac]) = Inr t \<and> tap_script t = 0x20 # sample_key 7 @ [0xac]
     \<and> encodeTapscript std_lib (tap_params t) = Inr t"
proof -
  let ?p = "Multisig \<lparr>pubkeys = [sample_key 7], ms_type = None\<rparr>"
  have "encodeTapscript std_lib ?p = Inr \<lparr>tap_params = Multisig \<lparr>pubkeys = [sample_key 7], ms_type = Some CHECKSIG\<rparr>,
      tap_script = 0x20 # sample_key 7 @ [0xac]\<rparr>"
    by (simp add: encodeTapscript_def MultisigTapscript_encode_def check_pubkey_def sample_key_def
        std_lib_def std_encode_def encode_op_def push_bytes_def std_bytes Let_def)
  then have "\<exists>t. decodeTapscript std_lib (0x20 # sample_key 7 @ [0xac]) = Inr t"
    using std.tapscript_read_back [of ?p] by (fastforce simp: countable_keys_def)
  then show ?thesis
    using tapscript_decode_sound by blast
qed

text \<open>
  With \<open>CHECKSIGADD\<close> and more keys than \<open>OP_16\<close> can count, the threshold is pushed as a byte, and the decoder takes
  that push for a key of the wrong length: such a script is written but never read.
\<close>

lemma csa_loop_many:
  assumes "script_library L canon" and "\<forall>k \<in> set ks. length k = 32"
    and "canon (Num (int n)) = Push b" and "length b \<noteq> 32"
  shows "csa_loop (map canon (csa_asm n ks)) keys f = Inl (InvalidPubkeyLength (length b))"
  using assms(2)
proof (induction ks arbitrary: keys)
  case Nil
  then show ?case
    using assms(3,4) script_library.closure_canon(4) [OF assms(1)] by simp
next
  case (Cons k ks)
  then show ?case
    using script_library.canon_push [OF assms(1), of k] script_library.closure_canon(3) [OF assms(1)] by simp
qed

lemma checksigadd_many_keys_unreadable:
  assumes lib: "script_library L canon" and "MultisigTapscript_encode L m = Inr (m', s)"
    and "ms_type m = Some CHECKSIGADD" and "2 \<le> length (pubkeys m)"
    and "canon (Num (int (length (pubkeys m)))) = Push b" and "length b \<noteq> 32"
  shows "\<exists>e. MultisigTapscript_decode L s = Inl e"
proof -
  note enc = multisig_encode_again [OF assms(2)]
  obtain k k' ks where ks: "pubkeys m = k # k' # ks"
    using assms(4) by (metis One_nat_def Suc_1 Suc_le_length_iff)
  have "s_encode L (ms_asm (pubkeys m)) = Some s"
    using script_library.multisig_encode_asm(1) [OF lib assms(2)] assms(3)
    by (simp add: script_library.multisig_asm_def [OF lib])
  moreover have "plain_asm (ms_asm (pubkeys m))"
    using script_library.plain_multisig [OF lib, of m] assms(3) by (simp add: script_library.multisig_asm_def [OF lib])
  ultimately have dec: "s_decode L s = Some (map canon (ms_asm (pubkeys m)))"
    using script_library.decode_encode [OF lib] by blast
  have "\<exists>e. decodeChecksigAdd L s = Inl e"
    using csa_loop_many [OF lib _ assms(5,6), of "k' # ks" "[k]" False] enc(4) dec ks
      script_library.canon_push [OF lib, of k] script_library.closure_canon(1) [OF lib]
    by (auto simp: decodeChecksigAdd_def ms_asm_def)
  moreover have "\<exists>e. decodeChecksig L s = Inl e"
    using enc(4) dec ks script_library.canon_push [OF lib, of k] script_library.canon_push [OF lib, of k']
      script_library.closure_canon(1,3) [OF lib]
    by (auto simp: decodeChecksig_def ms_asm_def)
  ultimately show ?thesis
    by (auto simp: MultisigTapscript_decode_def)
qed

end
