(* ===== verification/Taproot_Tree.thy ===== *)
theory Taproot_Tree
  imports Prelude "HOL-Library.Multiset"
begin

text \<open>
  \<open>assembleBtcdTaprootTree\<close> (\<open>script/taprootTree.ts\<close>): the Taproot script tree of a list of leaf scripts, built
  in the two phases of btcd: neighbouring leaves are paired (an odd last leaf joins the last
  pair), then a queue of branches is merged two by two from the front.

  The leaf version is a constant of a third-party package, the argument \<open>lv\<close>. The lemmas show
  that every script is a leaf exactly once and that the tree is as low as a binary tree can be.
\<close>

datatype TapNode = TapLeaf (leaf_script: bytes) (leafVersion: nat) | TapBranch TapNode TapNode

datatype taptree_err = EmptyScripts | OddLeafWithoutBranch

fun pair_leaves :: "TapNode list \<Rightarrow> TapNode list \<Rightarrow> taptree_err + TapNode list" where
  "pair_leaves [] branches = Inr branches"
| "pair_leaves [leaf] branches =
     (if branches = [] then Inl OddLeafWithoutBranch
      else Inr (butlast branches @ [TapBranch (last branches) leaf]))"
| "pair_leaves (a # b # leaves) branches = pair_leaves leaves (branches @ [TapBranch a b])"

function merge_queue :: "TapNode list \<Rightarrow> TapNode list" where
  "merge_queue (left # right # branches) = merge_queue (branches @ [TapBranch left right])"
| "merge_queue [] = []"
| "merge_queue [b] = [b]"
  by pat_completeness auto
termination
  by (relation "measure length") auto

definition assembleBtcdTaprootTree :: "nat \<Rightarrow> bytes list \<Rightarrow> taptree_err + TapNode" where
  "assembleBtcdTaprootTree lv scripts =
     (if scripts = [] then Inl EmptyScripts
      else
        let leaves = map (\<lambda>s. TapLeaf s lv) scripts
        in if length leaves = 1 then Inr (leaves ! 0)
           else r_bind (pair_leaves leaves []) (\<lambda>branches. Inr (merge_queue branches ! 0)))"

section \<open>The leaves\<close>

fun leaf_scripts :: "TapNode \<Rightarrow> bytes list" where
  "leaf_scripts (TapLeaf s _) = [s]"
| "leaf_scripts (TapBranch l r) = leaf_scripts l @ leaf_scripts r"

fun tap_height :: "TapNode \<Rightarrow> nat" where
  "tap_height (TapLeaf _ _) = 0"
| "tap_height (TapBranch l r) = Suc (max (tap_height l) (tap_height r))"

definition all_scripts :: "TapNode list \<Rightarrow> bytes multiset" where
  "all_scripts ts = (\<Sum>t \<leftarrow> ts. mset (leaf_scripts t))"

lemma all_scripts_simps [simp]:
  "all_scripts [] = {#}" "all_scripts (t # ts) = mset (leaf_scripts t) + all_scripts ts"
  "all_scripts (ts @ us) = all_scripts ts + all_scripts us"
  by (simp_all add: all_scripts_def)

lemma merge_queue_single: "ts \<noteq> [] \<Longrightarrow> \<exists>t. merge_queue ts = [t] \<and> mset (leaf_scripts t) = all_scripts ts"
  by (induction ts rule: merge_queue.induct) (auto simp: ac_simps)

lemma all_scripts_last: "ts \<noteq> [] \<Longrightarrow> all_scripts ts = all_scripts (butlast ts) + mset (leaf_scripts (last ts))"
  by (induction ts) (auto simp: ac_simps)

lemma pair_leaves_scripts:
  "pair_leaves leaves branches = Inr bs \<Longrightarrow> all_scripts bs = all_scripts branches + all_scripts leaves"
proof (induction leaves branches rule: pair_leaves.induct)
  case (2 leaf branches)
  then show ?case
    using all_scripts_last [of branches] by (auto simp: ac_simps split: if_splits)
qed (auto simp: ac_simps)

text \<open>
  The branches after the first phase: all of height one, except that the last has height two when
  the number of leaves is odd.
\<close>

lemma pair_leaves_heights:
  assumes "branches \<noteq> [] \<or> length leaves \<noteq> 1" and "\<forall>b \<in> set branches. tap_height b \<le> 1"
    and "\<forall>l \<in> set leaves. tap_height l = 0"
  shows "\<exists>bs cs. pair_leaves leaves branches = Inr (bs @ cs) \<and> (\<forall>b \<in> set bs. tap_height b \<le> 1)
    \<and> (\<forall>c \<in> set cs. tap_height c \<le> 2) \<and> length bs + 2 * length cs = length branches + (length leaves + 1) div 2"
  using assms
proof (induction leaves branches rule: pair_leaves.induct)
  case (1 branches)
  then show ?case
    by (intro exI [of _ branches] exI [of _ "[]"]) simp
next
  case (2 leaf branches)
  then have "tap_height (last branches) \<le> 1" "\<forall>b \<in> set (butlast branches). tap_height b \<le> 1"
    by (auto dest: in_set_butlastD)
  then show ?case
    using 2 by (intro exI [of _ "butlast branches"] exI [of _ "[TapBranch (last branches) leaf]"])
      (cases branches, auto)
next
  case (3 a b leaves branches)
  then show ?case
    by (auto simp: ball_Un)
qed

section \<open>The height\<close>

text \<open>
  While the queue is merged it consists of branches of height at most \<open>h\<close> followed by branches of height
  at most \<open>h + 1\<close>; the latter count twice in the bound.
\<close>

lemma merge_queue_height:
  assumes "\<forall>t \<in> set as. tap_height t \<le> h" and "\<forall>t \<in> set bs. tap_height t \<le> Suc h"
    and "length as + 2 * length bs \<le> 2 ^ k" and "as @ bs \<noteq> []"
  shows "\<forall>t \<in> set (merge_queue (as @ bs)). tap_height t \<le> h + k"
  using assms
proof (induction "length (as @ bs)" arbitrary: as bs h k rule: less_induct)
  case less
  consider (two) a a' as' where "as = a # a' # as'" | (one) a where "as = [a]" "bs = []"
    | (mixed) a b bs' where "as = [a]" "bs = b # bs'" | (last) b where "as = []" "bs = [b]"
    | (high) b b' bs' where "as = []" "bs = b # b' # bs'"
    using less.prems(4) by (metis append_Nil list.exhaust)
  then show ?case
  proof cases
    case two
    have "\<forall>t \<in> set (merge_queue (as' @ (bs @ [TapBranch a a']))). tap_height t \<le> h + k"
      by (rule less.hyps) (use two less.prems in auto)
    then show ?thesis
      using two by simp
  next
    case one
    then show ?thesis
      using less.prems by simp
  next
    case mixed
    then have "1 + 2 * (1 + length bs') \<le> 2 ^ k"
      using less.prems(3) by simp
    then obtain j where j: "k = Suc j" "length bs' + 2 \<le> 2 ^ j"
      by (cases k) auto
    have "\<forall>t \<in> set (merge_queue (bs' @ [TapBranch a b])). tap_height t \<le> Suc h + j"
      by (rule less.hyps) (use mixed less.prems j in auto)
    then show ?thesis
      using mixed j by simp
  next
    case last
    then obtain j where "k = Suc j"
      using less.prems(3) by (cases k) auto
    then show ?thesis
      using last less.prems by simp
  next
    case high
    then have "2 * (2 + length bs') \<le> 2 ^ k"
      using less.prems(3) by simp
    then obtain j where j: "k = Suc j" "length bs' + 2 \<le> 2 ^ j"
      by (cases k) auto
    have "\<forall>t \<in> set (merge_queue (bs' @ [TapBranch b b'])). tap_height t \<le> Suc h + j"
      by (rule less.hyps) (use high less.prems j in auto)
    then show ?thesis
      using high j by simp
  qed
qed

lemma assembled_tree:
  assumes "scripts \<noteq> []"
  shows "\<exists>t. assembleBtcdTaprootTree lv scripts = Inr t \<and> mset (leaf_scripts t) = mset scripts
    \<and> (\<forall>k. length scripts \<le> 2 ^ k \<longrightarrow> tap_height t \<le> k)"
proof (cases "length scripts = 1")
  case True
  then obtain s where "scripts = [s]"
    by (cases scripts) auto
  then show ?thesis
    by (auto simp: assembleBtcdTaprootTree_def)
next
  case False
  let ?leaves = "map (\<lambda>s. TapLeaf s lv) scripts"
  have "all_scripts ?leaves = mset scripts"
    by (induction scripts) auto
  obtain bs cs where p: "pair_leaves ?leaves [] = Inr (bs @ cs)" "\<forall>b \<in> set bs. tap_height b \<le> 1"
    "\<forall>c \<in> set cs. tap_height c \<le> 2" "length bs + 2 * length cs = (length scripts + 1) div 2"
    using pair_leaves_heights [of "[]" ?leaves] False by auto
  have "bs @ cs \<noteq> []"
    using p(4) assms by (cases scripts) auto
  then obtain t where t: "merge_queue (bs @ cs) = [t]" "mset (leaf_scripts t) = all_scripts (bs @ cs)"
    using merge_queue_single by blast
  have "tap_height t \<le> k" if "length scripts \<le> 2 ^ k" for k
  proof -
    have "2 \<le> length scripts"
      using False assms by (cases scripts; cases "tl scripts") auto
    then have "k \<noteq> 0"
      using that by (intro notI) simp
    then obtain j where k: "k = Suc j"
      by (cases k) auto
    then have "length scripts \<le> 2 * 2 ^ j"
      using that by simp
    then have j: "k = Suc j" "(length scripts + 1) div 2 \<le> 2 ^ j"
      using k by linarith+
    then show ?thesis
      using merge_queue_height [of bs 1 cs j] p(2-4) t(1) \<open>bs @ cs \<noteq> []\<close> by (simp add: numeral_2_eq_2)
  qed
  moreover have "mset (leaf_scripts t) = mset scripts"
    using t(2) pair_leaves_scripts [OF p(1)] \<open>all_scripts ?leaves = mset scripts\<close> by simp
  ultimately show ?thesis
    using assms False p(1) t(1) by (simp add: assembleBtcdTaprootTree_def)
qed

text \<open>
  For every non-empty list of scripts the assembly returns a tree whose leaves are exactly the given scripts,
  each as often as it was given, and whose height is the least possible: at most \<open>k\<close>
  whenever there are at most \<open>2 ^ k\<close> scripts. So a set of scripts within the 128 levels of a Taproot proof
  never exceeds them.
\<close>

lemma taproot_tree_minimal:
  assumes "scripts \<noteq> []"
  shows "\<exists>t. assembleBtcdTaprootTree lv scripts = Inr t \<and> mset (leaf_scripts t) = mset scripts
    \<and> (\<forall>k. length scripts \<le> 2 ^ k \<longrightarrow> tap_height t \<le> k)"
  using assembled_tree [OF assms] .

lemma taproot_tree_minimal_witness:
  "\<exists>t. assembleBtcdTaprootTree 0xc0 [[1], [2], [3]] = Inr t \<and> mset (leaf_scripts t) = mset [[1], [2], [3]]
     \<and> tap_height t \<le> 2"
  using taproot_tree_minimal [of "[[1], [2], [3]]"] by fastforce

end
