(* ===== verification/Vtxo_Script.thy ===== *)
theory Vtxo_Script
  imports Tapscript Taproot_Tree
begin

text \<open>
  Output scripts: \<open>VtxoScript\<close> and \<open>getSequence\<close> (\<open>script/base.ts\<close>), \<open>DefaultVtxo.Script\<close> (\<open>script/default.ts\<close>) and
  \<open>DelegateVtxo.Script\<close> (\<open>script/delegate.ts\<close>).

  \<open>p2tr\<close> (with the unspendable internal key) and the \<open>TapTree\<close> coder of PSBTs are third-party code, the
  arguments \<open>p2tr\<close> and \<open>coder\<close>; the address classes are not modelled. What is used of \<open>p2tr\<close> is \<open>p2tr_leaves\<close>: it
  lists the leaves of the tree from left to right, each script followed by a version byte.
\<close>

record TapLeafScript =
  leaf_internalKey :: bytes
  leaf_merklePath :: "bytes list"
  leaf_bytes :: bytes

record payment =
  pay_tapLeafScript :: "TapLeafScript list option"
  pay_tweakedPubkey :: bytes
  pay_script :: bytes

type_synonym p2tr_fun = "TapNode \<Rightarrow> payment option"

definition scriptFromTapLeafScript :: "TapLeafScript \<Rightarrow> bytes" where
  "scriptFromTapLeafScript leaf = take (length (leaf_bytes leaf) - 1) (leaf_bytes leaf)"

record VtxoScript =
  vs_scripts :: "bytes list"
  vs_leaves :: "TapLeafScript list"
  vs_tweakedPublicKey :: bytes
  vs_pkScript :: bytes

datatype vscript_err =
    TreeErr taptree_err | P2trThrew | InvalidScripts | TapTreeUndecodable | LeafNotFound string | TapErr tap_err

definition lift_tap :: "tap_err + 'a \<Rightarrow> vscript_err + 'a" where
  "lift_tap r = (case r of Inl e \<Rightarrow> Inl (TapErr e) | Inr x \<Rightarrow> Inr x)"

definition VtxoScript_new :: "nat \<Rightarrow> p2tr_fun \<Rightarrow> bytes list \<Rightarrow> vscript_err + VtxoScript" where
  "VtxoScript_new lv p2tr scripts =
     (case assembleBtcdTaprootTree lv scripts of
        Inl e \<Rightarrow> Inl (TreeErr e)
      | Inr tapTree \<Rightarrow>
          (case p2tr tapTree of
             None \<Rightarrow> Inl P2trThrew
           | Some pay \<Rightarrow>
               (case pay_tapLeafScript pay of
                  None \<Rightarrow> Inl InvalidScripts
                | Some ls \<Rightarrow>
                    if length ls \<noteq> length scripts then Inl InvalidScripts
                    else Inr \<lparr>vs_scripts = scripts, vs_leaves = ls,
                              vs_tweakedPublicKey = pay_tweakedPubkey pay, vs_pkScript = pay_script pay\<rparr>)))"

record tap_entry =
  te_depth :: nat
  te_version :: nat
  te_script :: bytes

record taptree_coder =
  tt_encode :: "tap_entry list \<Rightarrow> bytes"
  tt_decode :: "bytes \<Rightarrow> tap_entry list option"

definition VtxoScript_decode :: "nat \<Rightarrow> p2tr_fun \<Rightarrow> taptree_coder \<Rightarrow> bytes \<Rightarrow> vscript_err + VtxoScript" where
  "VtxoScript_decode lv p2tr coder tapTree =
     (case tt_decode coder tapTree of
        None \<Rightarrow> Inl TapTreeUndecodable
      | Some leaves \<Rightarrow> VtxoScript_new lv p2tr (map te_script leaves))"

definition VtxoScript_encode :: "nat \<Rightarrow> taptree_coder \<Rightarrow> VtxoScript \<Rightarrow> bytes" where
  "VtxoScript_encode lv coder v =
     tt_encode coder (map (\<lambda>s. \<lparr>te_depth = 1, te_version = lv, te_script = s\<rparr>) (vs_scripts v))"

definition findLeaf :: "hex_encode \<Rightarrow> VtxoScript \<Rightarrow> string \<Rightarrow> vscript_err + TapLeafScript" where
  "findLeaf henc v scriptHex =
     (case List.find (\<lambda>leaf. henc (scriptFromTapLeafScript leaf) = scriptHex) (vs_leaves v) of
        Some leaf \<Rightarrow> Inr leaf
      | None \<Rightarrow> Inl (LeafNotFound scriptHex))"

text \<open>A leaf that cannot be decoded is skipped.\<close>

definition exit_path :: "script_lib \<Rightarrow> TapLeafScript \<Rightarrow> ArkTapscript list" where
  "exit_path L leaf =
     (let script = scriptFromTapLeafScript leaf
      in case s_decode L script of
           None \<Rightarrow> []
         | Some _ \<Rightarrow>
             if CSV_isScriptValid L script = Inr ()
             then (case CSVMultisigTapscript_decode L script of
                     Inr (t, m) \<Rightarrow> [\<lparr>tap_params = CSVMultisig t m, tap_script = script\<rparr>]
                   | Inl _ \<Rightarrow> [])
             else if Condition_isScriptValid L script = Inr ()
             then (case ConditionCSVMultisigTapscript_decode L script of
                     Inr (c, t, m) \<Rightarrow> [\<lparr>tap_params = ConditionCSVMultisig c t m, tap_script = script\<rparr>]
                   | Inl _ \<Rightarrow> [])
             else [])"

definition exitPaths :: "script_lib \<Rightarrow> VtxoScript \<Rightarrow> ArkTapscript list" where
  "exitPaths L v = concat (map (exit_path L) (vs_leaves v))"

definition getSequence :: "script_lib \<Rightarrow> TapLeafScript \<Rightarrow> int option" where
  "getSequence L leaf =
     (let script = scriptFromTapLeafScript leaf
      in case r_bind (CSVMultisigTapscript_decode L script) (\<lambda>(timelock, _). timelockToSequence L timelock) of
           Inr n \<Rightarrow> Some n
         | Inl _ \<Rightarrow> (case CLTVMultisigTapscript_decode L script of
             Inr (absoluteTimelock, _) \<Rightarrow> Some absoluteTimelock
           | Inl _ \<Rightarrow> None))"

section \<open>The default output\<close>

record DefaultOptions =
  opt_pubKey :: bytes
  opt_serverPubKey :: bytes
  opt_csvTimelock :: RelativeTimelock

definition DEFAULT_TIMELOCK :: RelativeTimelock where
  "DEFAULT_TIMELOCK = \<lparr>tl_value = 144, tl_type = InBlocks\<rparr>"

record DefaultScript = VtxoScript +
  ds_forfeitScript :: string
  ds_exitScript :: string

definition DefaultVtxo_new ::
  "script_lib \<Rightarrow> hex_encode \<Rightarrow> nat \<Rightarrow> p2tr_fun \<Rightarrow> DefaultOptions \<Rightarrow> vscript_err + DefaultScript" where
  "DefaultVtxo_new L henc lv p2tr options =
     r_bind (lift_tap (MultisigTapscript_encode L
       \<lparr>pubkeys = [opt_pubKey options, opt_serverPubKey options], ms_type = None\<rparr>)) (\<lambda>(_, forfeitScript).
     r_bind (lift_tap (CSVMultisigTapscript_encode L (opt_csvTimelock options)
       \<lparr>pubkeys = [opt_pubKey options], ms_type = None\<rparr>)) (\<lambda>(_, exitScript).
     r_bind (VtxoScript_new lv p2tr [forfeitScript, exitScript]) (\<lambda>v.
     Inr (VtxoScript.extend v \<lparr>ds_forfeitScript = henc forfeitScript, ds_exitScript = henc exitScript\<rparr>))))"

definition base_script :: "'a VtxoScript_scheme \<Rightarrow> VtxoScript" where
  "base_script v = VtxoScript.truncate v"

definition DefaultVtxo_forfeit :: "hex_encode \<Rightarrow> DefaultScript \<Rightarrow> vscript_err + TapLeafScript" where
  "DefaultVtxo_forfeit henc v = findLeaf henc (base_script v) (ds_forfeitScript v)"

definition DefaultVtxo_exit :: "hex_encode \<Rightarrow> DefaultScript \<Rightarrow> vscript_err + TapLeafScript" where
  "DefaultVtxo_exit henc v = findLeaf henc (base_script v) (ds_exitScript v)"

section \<open>The delegate output\<close>

record DelegateOptions = DefaultOptions +
  opt_delegatePubKey :: bytes

record DelegateScript = VtxoScript +
  dg_defaultVtxo :: DefaultScript
  dg_delegateScript :: string

definition DelegateVtxo_new ::
  "script_lib \<Rightarrow> hex_encode \<Rightarrow> nat \<Rightarrow> p2tr_fun \<Rightarrow> DelegateOptions \<Rightarrow> vscript_err + DelegateScript" where
  "DelegateVtxo_new L henc lv p2tr options =
     r_bind (DefaultVtxo_new L henc lv p2tr (DefaultOptions.truncate options)) (\<lambda>defaultVtxo.
     r_bind (lift_tap (MultisigTapscript_encode L
       \<lparr>pubkeys = [opt_pubKey options, opt_delegatePubKey options, opt_serverPubKey options], ms_type = None\<rparr>))
       (\<lambda>(_, delegateScript).
     r_bind (VtxoScript_new lv p2tr (vs_scripts defaultVtxo @ [delegateScript])) (\<lambda>v.
     Inr (VtxoScript.extend v \<lparr>dg_defaultVtxo = defaultVtxo, dg_delegateScript = henc delegateScript\<rparr>))))"

definition DelegateVtxo_forfeit :: "hex_encode \<Rightarrow> DelegateScript \<Rightarrow> vscript_err + TapLeafScript" where
  "DelegateVtxo_forfeit henc v = findLeaf henc (base_script v) (ds_forfeitScript (dg_defaultVtxo v))"

definition DelegateVtxo_exit :: "hex_encode \<Rightarrow> DelegateScript \<Rightarrow> vscript_err + TapLeafScript" where
  "DelegateVtxo_exit henc v = findLeaf henc (base_script v) (ds_exitScript (dg_defaultVtxo v))"

definition DelegateVtxo_delegate :: "hex_encode \<Rightarrow> DelegateScript \<Rightarrow> vscript_err + TapLeafScript" where
  "DelegateVtxo_delegate henc v = findLeaf henc (base_script v) (dg_delegateScript v)"

section \<open>What the paths of the default output are\<close>

definition p2tr_leaves :: "p2tr_fun \<Rightarrow> bool" where
  "p2tr_leaves p2tr \<longleftrightarrow> (\<forall>t pay. p2tr t = Some pay \<longrightarrow>
     (\<exists>ls. pay_tapLeafScript pay = Some ls \<and> map scriptFromTapLeafScript ls = leaf_scripts t))"

lemma lift_tap_Inr [simp]: "lift_tap r = Inr x \<longleftrightarrow> r = Inr x"
  by (simp add: lift_tap_def split: sum.splits)

context script_library
begin

lemma csv_valid:
  assumes "CSVMultisigTapscript_encode L t m = Inr (m', s)"
  shows "CSV_isScriptValid L s = Inr ()"
proof -
  obtain n where "s_decode L s = Some (map canon (timelock_ops ''CHECKSEQUENCEVERIFY'' n @ multisig_asm m))"
    using csv_encode_asm [OF assms] by metis
  then show ?thesis
    using timelock_canon [of "''CHECKSEQUENCEVERIFY''" n "multisig_asm m"]
    by (simp add: CSV_isScriptValid_def del: map_append)
qed

lemma exit_path_csv:
  assumes "CSVMultisigTapscript_encode L t m = Inr (m', s)" and "countable_keys m" and "scriptFromTapLeafScript leaf = s"
  shows "exit_path L leaf = [\<lparr>tap_params = CSVMultisig t m', tap_script = s\<rparr>]"
proof -
  obtain n where "s_decode L s = Some (map canon (timelock_ops ''CHECKSEQUENCEVERIFY'' n @ multisig_asm m))"
    using csv_encode_asm [OF assms(1)] by metis
  then show ?thesis
    using csv_valid [OF assms(1)] csv_roundtrip [OF assms(1,2)] assms(3) by (simp add: exit_path_def)
qed

lemma exit_path_multisig:
  assumes "MultisigTapscript_encode L m = Inr (m', s)" and "scriptFromTapLeafScript leaf = s"
  shows "exit_path L leaf = []"
proof -
  have dec: "s_decode L s = Some (map canon (multisig_asm m))"
    using decode_encode multisig_encode_asm(1) [OF assms(1)] plain_multisig by blast
  define asm where "asm = map canon (multisig_asm m)"
  have "asm ! 1 \<noteq> Op ''CHECKSEQUENCEVERIFY''"
    using multisig_second(1) [OF multisig_encode_again(3) [OF assms(1)]] unfolding asm_def by auto
  then have "CSV_isScriptValid L s \<noteq> Inr ()"
    using dec unfolding asm_def [symmetric] by (auto simp: CSV_isScriptValid_def)
  moreover have "Condition_isScriptValid L s \<noteq> Inr ()"
    using multisig_no_op [of "''VERIFY''" m] dec getVerifyIndex_none [of "map canon (multisig_asm m)"]
    by (auto simp: Condition_isScriptValid_def)
  ultimately show ?thesis
    using assms(2) by (simp add: exit_path_def split: option.splits)
qed

lemma csv_not_multisig:
  assumes "CSVMultisigTapscript_encode L t m = Inr (m', s)" and "MultisigTapscript_encode L k = Inr (k', s')"
  shows "s \<noteq> s'"
proof
  assume "s = s'"
  obtain n where "s_decode L s = Some (map canon (timelock_ops ''CHECKSEQUENCEVERIFY'' n @ multisig_asm m))"
    using csv_encode_asm [OF assms(1)] by metis
  moreover have "s_decode L s' = Some (map canon (multisig_asm k))"
    using decode_encode multisig_encode_asm(1) [OF assms(2)] plain_multisig by blast
  ultimately have "map canon (multisig_asm k) ! 1 = Op ''CHECKSEQUENCEVERIFY''"
    using timelock_canon(1) [of "''CHECKSEQUENCEVERIFY''" n "multisig_asm m"] \<open>s = s'\<close> by simp
  then show False
    using multisig_second(1) [OF multisig_encode_again(3) [OF assms(2)]] by auto
qed

end

lemma VtxoScript_new_leaves:
  assumes "VtxoScript_new lv p2tr scripts = Inr v" and "p2tr_leaves p2tr"
  shows "\<exists>t. assembleBtcdTaprootTree lv scripts = Inr t \<and> map scriptFromTapLeafScript (vs_leaves v) = leaf_scripts t"
proof -
  obtain t pay ls where "assembleBtcdTaprootTree lv scripts = Inr t" "p2tr t = Some pay" "pay_tapLeafScript pay = Some ls"
    "vs_leaves v = ls"
    using assms(1) by (auto simp: VtxoScript_new_def split: sum.splits option.splits if_splits)
  moreover from this(2) obtain ls' where "pay_tapLeafScript pay = Some ls'" "map scriptFromTapLeafScript ls' = leaf_scripts t"
    using assms(2) unfolding p2tr_leaves_def by blast
  ultimately show ?thesis
    by auto
qed

text \<open>
  C22. The default output a wallet builds has exactly the two paths it is meant to have: the forfeit leaf decodes to the
  multisig of user and server, and the only unilateral exit path is the user's key alone behind the CSV timelock of the
  options, whose sequence number \<open>getSequence\<close> reports. Both leaves are found by the accessors.
\<close>

theorem default_vtxo_paths:
  assumes "script_library L canon" and "hex_laws henc hdec" and "p2tr_leaves p2tr"
    and "DefaultVtxo_new L henc lv p2tr options = Inr v"
  shows "\<exists>f e n. DefaultVtxo_forfeit henc v = Inr f \<and> DefaultVtxo_exit henc v = Inr e
    \<and> decodeTapscript L (scriptFromTapLeafScript f) = Inr
        \<lparr>tap_params = Multisig \<lparr>pubkeys = [opt_pubKey options, opt_serverPubKey options], ms_type = Some CHECKSIG\<rparr>,
         tap_script = scriptFromTapLeafScript f\<rparr>
    \<and> exitPaths L (base_script v) =
        [\<lparr>tap_params = CSVMultisig (opt_csvTimelock options) \<lparr>pubkeys = [opt_pubKey options], ms_type = Some CHECKSIG\<rparr>,
          tap_script = scriptFromTapLeafScript e\<rparr>]
    \<and> timelockToSequence L (opt_csvTimelock options) = Inr n \<and> getSequence L e = Some n"
proof -
  let ?fm = "\<lparr>pubkeys = [opt_pubKey options, opt_serverPubKey options], ms_type = None\<rparr>"
  let ?em = "\<lparr>pubkeys = [opt_pubKey options], ms_type = None\<rparr>"
  obtain fm fs em es w where fs: "MultisigTapscript_encode L ?fm = Inr (fm, fs)"
    and es: "CSVMultisigTapscript_encode L (opt_csvTimelock options) ?em = Inr (em, es)"
    and w: "VtxoScript_new lv p2tr [fs, es] = Inr w"
    and v: "v = VtxoScript.extend w \<lparr>ds_forfeitScript = henc fs, ds_exitScript = henc es\<rparr>"
    using assms(4) unfolding DefaultVtxo_new_def by (auto simp: r_bind_eq_Inr)
  obtain t where t: "assembleBtcdTaprootTree lv [fs, es] = Inr t" "map scriptFromTapLeafScript (vs_leaves w) = leaf_scripts t"
    using VtxoScript_new_leaves [OF w assms(3)] by blast
  have "leaf_scripts t = [fs, es]"
    using t(1) by (auto simp: assembleBtcdTaprootTree_def)
  then obtain l1 l2 where l: "vs_leaves w = [l1, l2]" "scriptFromTapLeafScript l1 = fs" "scriptFromTapLeafScript l2 = es"
    using t(2) by (auto simp: Cons_eq_map_conv map_eq_Cons_conv)
  have ne: "fs \<noteq> es"
    using script_library.csv_not_multisig [OF assms(1) es fs] by auto
  have inj: "henc a = henc b \<Longrightarrow> a = b" for a b
    using assms(2) by (metis hex_laws_def option.inject)
  have base: "vs_leaves (base_script v) = [l1, l2]" "ds_forfeitScript v = henc fs" "ds_exitScript v = henc es"
    using l(1) by (simp_all add: v base_script_def VtxoScript.defs)
  have keys: "fm = \<lparr>pubkeys = [opt_pubKey options, opt_serverPubKey options], ms_type = Some CHECKSIG\<rparr>"
    "em = \<lparr>pubkeys = [opt_pubKey options], ms_type = Some CHECKSIG\<rparr>"
    using fs es by (auto simp: CSVMultisigTapscript_encode_def MultisigTapscript_encode_def r_bind_eq_Inr Let_def)
  obtain n where n: "timelockToSequence L (opt_csvTimelock options) = Inr n"
    using es by (auto simp: CSVMultisigTapscript_encode_def r_bind_eq_Inr)
  have "DefaultVtxo_forfeit henc v = Inr l1" "DefaultVtxo_exit henc v = Inr l2"
    using base l ne inj by (auto simp: DefaultVtxo_forfeit_def DefaultVtxo_exit_def findLeaf_def)
  moreover have "decodeTapscript L fs = Inr \<lparr>tap_params = Multisig fm, tap_script = fs\<rparr>"
    using script_library.multisig_roundtrip [OF assms(1) fs] by (simp add: decodeTapscript_def countable_keys_def)
  moreover have "exitPaths L (base_script v) = [\<lparr>tap_params = CSVMultisig (opt_csvTimelock options) em, tap_script = es\<rparr>]"
    using script_library.exit_path_csv [OF assms(1) es _ l(3)] script_library.exit_path_multisig [OF assms(1) fs l(2)] base(1)
    by (simp add: exitPaths_def countable_keys_def)
  moreover have "getSequence L l2 = Some n"
    using script_library.csv_roundtrip [OF assms(1) es] n l(3) by (simp add: getSequence_def countable_keys_def)
  ultimately show ?thesis
    using keys n l(2,3) by auto
qed

definition sample_p2tr :: p2tr_fun where
  "sample_p2tr t = Some \<lparr>pay_tapLeafScript =
     Some (map (\<lambda>s. \<lparr>leaf_internalKey = [], leaf_merklePath = [], leaf_bytes = s @ [0xc0]\<rparr>) (leaf_scripts t)),
     pay_tweakedPubkey = [], pay_script = []\<rparr>"

theorem default_vtxo_paths_witness:
  "\<exists>v e. DefaultVtxo_new std_lib hex_of_bytes 0xc0 sample_p2tr
       \<lparr>opt_pubKey = sample_key 1, opt_serverPubKey = sample_key 2, opt_csvTimelock = DEFAULT_TIMELOCK\<rparr> = Inr v
     \<and> DefaultVtxo_exit hex_of_bytes v = Inr e \<and> getSequence std_lib e = Some 144"
proof -
  let ?o = "\<lparr>opt_pubKey = sample_key 1, opt_serverPubKey = sample_key 2, opt_csvTimelock = DEFAULT_TIMELOCK\<rparr>"
  have "script_num 144 = [0x90, 0x00]"
    by code_simp
  then have "\<exists>v. DefaultVtxo_new std_lib hex_of_bytes 0xc0 sample_p2tr ?o = Inr v"
    by (simp add: DefaultVtxo_new_def CSVMultisigTapscript_encode_def MultisigTapscript_encode_def check_pubkey_def
        sample_key_def timelockToSequence_def std_lib_def number_op_def std_encode_def encode_op_def push_bytes_def
        std_bytes Let_def DEFAULT_TIMELOCK_def lift_tap_def VtxoScript_new_def assembleBtcdTaprootTree_def sample_p2tr_def)
  then obtain v where v: "DefaultVtxo_new std_lib hex_of_bytes 0xc0 sample_p2tr ?o = Inr v"
    by blast
  have "p2tr_leaves sample_p2tr"
    by (simp add: p2tr_leaves_def sample_p2tr_def scriptFromTapLeafScript_def comp_def)
  moreover have "hex_laws hex_of_bytes bytes_of_hex"
    using hex_of_bytes_strings by (simp add: hex_strings_def)
  moreover have "timelockToSequence std_lib (opt_csvTimelock ?o) = Inr 144"
    by (simp add: timelockToSequence_def std_lib_def DEFAULT_TIMELOCK_def)
  ultimately show ?thesis
    using default_vtxo_paths [OF std.script_library_axioms _ _ v] v by fastforce
qed

end
