(* ===== verification/Vhtlc_Script.thy ===== *)
theory Vhtlc_Script
  imports Vtxo_Script
begin

text \<open>
  The hash time lock contract of \<open>script/vhtlc.ts\<close>: option validation, the six to eight closures of
  \<open>BaseScript\<close> with their accessors, the preimage conditions of the two versions and the covenants of the
  non-interactive leaves.

  The libraries behind it are collected in \<open>vhtlc_lib\<close>: the script library of the closures, Bitcoin's opcode
  table and the number codec of the Arkade coder, the elliptic-curve tweak
  \<open>computeArkadeScriptPublicKey\<close> (\<open>None\<close> when it throws), the hex coder, the leaf version and \<open>p2tr\<close>. A
  \<open>number\<close> that must be an integer is an \<open>int\<close>; fields the type makes mandatory are present.
\<close>

record vhtlc_lib =
  vl_script :: script_lib
  vl_OP :: op_table
  vl_num :: "int \<Rightarrow> bytes"
  vl_tweak :: "bytes \<Rightarrow> bytes \<Rightarrow> bytes option"
  vl_hex :: hex_encode
  vl_leafVersion :: nat
  vl_p2tr :: p2tr_fun

section \<open>Options\<close>

record strict_claim =
  strict_amount :: int
  strict_assetAmount :: "int option"

record ni_claim =
  nic_receiverPkScript :: bytes
  nic_emulatorPubkey :: bytes
  nic_strict :: "strict_claim option"

record ni_refund =
  nir_senderPkScript :: bytes
  nir_emulatorPubkey :: bytes

record vhtlc_asset =
  asset_txid :: bytes
  asset_groupIndex :: int

record VhtlcOptions =
  vo_sender :: bytes
  vo_receiver :: bytes
  vo_server :: bytes
  vo_preimageHash :: bytes
  vo_refundLocktime :: int
  vo_unilateralClaimDelay :: RelativeTimelock
  vo_unilateralRefundDelay :: RelativeTimelock
  vo_unilateralRefundWithoutReceiverDelay :: RelativeTimelock
  vo_nonInteractiveClaim :: "ni_claim option"
  vo_nonInteractiveRefund :: "ni_refund option"
  vo_asset :: "vhtlc_asset option"

datatype vhtlc_err =
    PreimageHashLength | AssetWithoutEffect | StrictAmount int | StrictNeedsAssetAmount | StrictAssetWithoutAsset
  | StrictAssetAmount int | KeyLength string | InvalidP2tr | RefundLocktime | DelayNotPositive string
  | DelayNotMultiple | DelayTooShort | AssetTxidLength nat | AssetGroupIndex int
  | CovenantErr script_err | TweakThrew | ScriptErr vscript_err | ConditionThrew
  | NoClaimLeaf | NoRefundLeaf

definition lift_vs :: "vscript_err + 'a \<Rightarrow> vhtlc_err + 'a" where
  "lift_vs r = (case r of Inl e \<Rightarrow> Inl (ScriptErr e) | Inr x \<Rightarrow> Inr x)"

definition isP2trPkScript :: "bytes \<Rightarrow> bool" where
  "isP2trPkScript pkScript \<longleftrightarrow> length pkScript = 34 \<and> pkScript ! 0 = 0x51 \<and> pkScript ! 1 = 0x20"

definition check_strict :: "VhtlcOptions \<Rightarrow> vhtlc_err + unit" where
  "check_strict options =
     (case Option.bind (vo_nonInteractiveClaim options) nic_strict of
        None \<Rightarrow> Inr ()
      | Some strict \<Rightarrow>
          if strict_amount strict \<le> 0 then Inl (StrictAmount (strict_amount strict))
          else if vo_asset options \<noteq> None \<and> strict_assetAmount strict = None then Inl StrictNeedsAssetAmount
          else if vo_asset options = None \<and> strict_assetAmount strict \<noteq> None then Inl StrictAssetWithoutAsset
          else (case strict_assetAmount strict of
                  Some a \<Rightarrow> if a \<le> 0 then Inl (StrictAssetAmount a) else Inr ()
                | None \<Rightarrow> Inr ()))"

definition check_pinned :: "bytes \<Rightarrow> bytes \<Rightarrow> vhtlc_err + unit" where
  "check_pinned emulatorPubkey pkScript =
     (if length emulatorPubkey \<noteq> 32 \<and> length emulatorPubkey \<noteq> 33 then Inl (KeyLength ''emulator'')
      else if \<not> isP2trPkScript pkScript then Inl InvalidP2tr
      else Inr ())"

definition check_delay :: "string \<Rightarrow> RelativeTimelock \<Rightarrow> vhtlc_err + unit" where
  "check_delay what delay =
     (if tl_value delay \<le> 0 then Inl (DelayNotPositive what)
      else if tl_type delay = InSeconds \<and> tl_value delay mod 512 \<noteq> 0 then Inl DelayNotMultiple
      else if tl_type delay = InSeconds \<and> tl_value delay < 512 then Inl DelayTooShort
      else Inr ())"

definition validateOptions :: "VhtlcOptions \<Rightarrow> vhtlc_err + unit" where
  "validateOptions options =
     r_bind (r_require (length (vo_preimageHash options) = 20) PreimageHashLength) (\<lambda>_.
     r_bind (r_require (vo_asset options = None \<or> vo_nonInteractiveClaim options \<noteq> None \<or> vo_nonInteractiveRefund options \<noteq> None)
       AssetWithoutEffect) (\<lambda>_.
     r_bind (check_strict options) (\<lambda>_.
     r_bind (case vo_nonInteractiveClaim options of None \<Rightarrow> Inr ()
             | Some c \<Rightarrow> check_pinned (nic_emulatorPubkey c) (nic_receiverPkScript c)) (\<lambda>_.
     r_bind (case vo_nonInteractiveRefund options of None \<Rightarrow> Inr ()
             | Some c \<Rightarrow> check_pinned (nir_emulatorPubkey c) (nir_senderPkScript c)) (\<lambda>_.
     r_bind (r_require (length (vo_receiver options) = 32) (KeyLength ''receiver'')) (\<lambda>_.
     r_bind (r_require (length (vo_sender options) = 32) (KeyLength ''sender'')) (\<lambda>_.
     r_bind (r_require (length (vo_server options) = 32) (KeyLength ''server'')) (\<lambda>_.
     r_bind (r_require (0 < vo_refundLocktime options) RefundLocktime) (\<lambda>_.
     r_bind (check_delay ''unilateral claim delay'' (vo_unilateralClaimDelay options)) (\<lambda>_.
     r_bind (check_delay ''unilateral refund delay'' (vo_unilateralRefundDelay options)) (\<lambda>_.
     check_delay ''unilateral refund without receiver delay'' (vo_unilateralRefundWithoutReceiverDelay options))))))))))))"

section \<open>Conditions and covenants\<close>

definition preimageConditionScript :: "script_lib \<Rightarrow> bytes \<Rightarrow> bytes option" where
  "preimageConditionScript L preimageHash = s_encode L [Op ''HASH160'', Push preimageHash, Op ''EQUAL'']"

definition preimageConditionScriptV2 :: "script_lib \<Rightarrow> bytes \<Rightarrow> bytes option" where
  "preimageConditionScriptV2 L preimageHash =
     s_encode L [Op ''SIZE'', Num 32, Op ''EQUALVERIFY'', Op ''HASH160'', Push preimageHash, Op ''EQUAL'']"

definition quoted :: "int option \<Rightarrow> script_op list" where
  "quoted amount = (case amount of None \<Rightarrow> []
     | Some n \<Rightarrow> [Op ''DUP'', Num n, Op ''GREATERTHANOREQUAL'', Op ''VERIFY''])"

definition satClause :: "bytes \<Rightarrow> int option \<Rightarrow> script_op list" where
  "satClause destinationPkScript quotedSats =
     [Op ''PUSHCURRENTINPUTINDEX'', Op ''DUP'', Op ''INSPECTOUTPUTSCRIPTPUBKEY'', Num 1, Op ''EQUALVERIFY'',
      Push (drop 2 destinationPkScript), Op ''EQUALVERIFY'', Op ''INSPECTOUTPUTVALUE'']
     @ quoted quotedSats
     @ [Op ''PUSHCURRENTINPUTINDEX'', Op ''INSPECTINPUTVALUE'', Op ''GREATERTHANOREQUAL'']"

definition covenant_encode :: "vhtlc_lib \<Rightarrow> script_op list \<Rightarrow> vhtlc_err + bytes" where
  "covenant_encode E asm = (case ArkadeScript_encode (vl_OP E) (vl_num E) asm of Inl e \<Rightarrow> Inl (CovenantErr e) | Inr b \<Rightarrow> Inr b)"

definition enforcePayTo :: "vhtlc_lib \<Rightarrow> bytes \<Rightarrow> int option \<Rightarrow> vhtlc_err + bytes" where
  "enforcePayTo E destinationPkScript quotedSats =
     (if \<not> isP2trPkScript destinationPkScript then Inl InvalidP2tr
      else covenant_encode E (satClause destinationPkScript quotedSats))"

definition assetClause :: "vhtlc_asset \<Rightarrow> int option \<Rightarrow> script_op list" where
  "assetClause asset assetAmount =
     (let inspectionTxid = rev (asset_txid asset)
      in [Op ''PUSHCURRENTINPUTINDEX'', Push inspectionTxid, Num (asset_groupIndex asset),
          Op ''INSPECTOUTASSETLOOKUP'', Op ''VERIFY'']
         @ quoted assetAmount
         @ [Op ''PUSHCURRENTINPUTINDEX'', Push inspectionTxid, Num (asset_groupIndex asset),
            Op ''INSPECTINASSETLOOKUP'', Op ''VERIFY'', Op ''GREATERTHANOREQUAL'', Op ''VERIFY'',
            Op ''PUSHCURRENTINPUTINDEX'', Op ''INSPECTOUTASSETCOUNT'', Num 1, Op ''EQUALVERIFY''])"

definition enforcePayToAsset ::
  "vhtlc_lib \<Rightarrow> bytes \<Rightarrow> vhtlc_asset \<Rightarrow> strict_claim option \<Rightarrow> vhtlc_err + bytes" where
  "enforcePayToAsset E destinationPkScript asset strict =
     (if \<not> isP2trPkScript destinationPkScript then Inl InvalidP2tr
      else if length (asset_txid asset) \<noteq> 32 then Inl (AssetTxidLength (length (asset_txid asset)))
      else if asset_groupIndex asset < 0 \<or> asset_groupIndex asset > 0xffff then Inl (AssetGroupIndex (asset_groupIndex asset))
      else covenant_encode E (assetClause asset (Option.bind strict strict_assetAmount)
             @ satClause destinationPkScript (map_option strict_amount strict)))"

definition enforcePayToMaybeAsset ::
  "vhtlc_lib \<Rightarrow> bytes \<Rightarrow> vhtlc_asset option \<Rightarrow> strict_claim option \<Rightarrow> vhtlc_err + bytes" where
  "enforcePayToMaybeAsset E destinationPkScript asset strict =
     (case asset of
        None \<Rightarrow> enforcePayTo E destinationPkScript (map_option strict_amount strict)
      | Some a \<Rightarrow> enforcePayToAsset E destinationPkScript a strict)"

section \<open>The contract\<close>

record VhtlcScript = VtxoScript +
  vh_options :: VhtlcOptions
  vh_claimScript :: string
  vh_refundScript :: string
  vh_refundWithoutReceiverScript :: string
  vh_unilateralClaimScript :: string
  vh_unilateralRefundScript :: string
  vh_unilateralRefundWithoutReceiverScript :: string
  vh_nonInteractiveClaimScript :: "string option"
  vh_nonInteractiveClaimArkadeScript :: "bytes option"
  vh_nonInteractiveRefundScript :: "string option"
  vh_nonInteractiveRefundArkadeScript :: "bytes option"

definition keys_of :: "bytes list \<Rightarrow> MultisigParams" where
  "keys_of ks = \<lparr>pubkeys = ks, ms_type = None\<rparr>"

definition closure :: "tap_err + MultisigParams \<times> bytes \<Rightarrow> vhtlc_err + bytes" where
  "closure r = (case r of Inl e \<Rightarrow> Inl (ScriptErr (TapErr e)) | Inr (_, script) \<Rightarrow> Inr script)"

definition tweaked_key :: "vhtlc_lib \<Rightarrow> bytes \<Rightarrow> bytes \<Rightarrow> vhtlc_err + bytes" where
  "tweaked_key E emulatorPubkey arkadeScript =
     (case vl_tweak E emulatorPubkey arkadeScript of None \<Rightarrow> Inl TweakThrew | Some k \<Rightarrow> Inr k)"

text \<open>The optional leaves: the covenant and the leaf script, when the option is set.\<close>

definition claim_leaf :: "vhtlc_lib \<Rightarrow> bytes \<Rightarrow> VhtlcOptions \<Rightarrow> vhtlc_err + (bytes \<times> bytes) option" where
  "claim_leaf E conditionScript options =
     (case vo_nonInteractiveClaim options of
        None \<Rightarrow> Inr None
      | Some c \<Rightarrow>
          r_bind (enforcePayToMaybeAsset E (nic_receiverPkScript c) (vo_asset options) (nic_strict c)) (\<lambda>arkadeScriptNic.
          r_bind (tweaked_key E (nic_emulatorPubkey c) arkadeScriptNic) (\<lambda>emulatorKey.
          r_bind (closure (ConditionMultisigTapscript_encode (vl_script E) conditionScript
            (keys_of [vo_server options, emulatorKey]))) (\<lambda>script.
          Inr (Some (arkadeScriptNic, script))))))"

definition refund_leaf :: "vhtlc_lib \<Rightarrow> VhtlcOptions \<Rightarrow> vhtlc_err + (bytes \<times> bytes) option" where
  "refund_leaf E options =
     (case vo_nonInteractiveRefund options of
        None \<Rightarrow> Inr None
      | Some c \<Rightarrow>
          r_bind (enforcePayToMaybeAsset E (nir_senderPkScript c) (vo_asset options) None) (\<lambda>arkadeScriptNir.
          r_bind (tweaked_key E (nir_emulatorPubkey c) arkadeScriptNir) (\<lambda>emulatorKey.
          r_bind (closure (MultisigTapscript_encode (vl_script E)
            (keys_of [vo_server options, vo_receiver options, emulatorKey]))) (\<lambda>script.
          Inr (Some (arkadeScriptNir, script))))))"

definition optional_scripts :: "(bytes \<times> bytes) option \<Rightarrow> bytes list" where
  "optional_scripts leaf = (case leaf of None \<Rightarrow> [] | Some (_, script) \<Rightarrow> [script])"

definition BaseScript_new ::
  "vhtlc_lib \<Rightarrow> VhtlcOptions \<Rightarrow> (script_lib \<Rightarrow> bytes \<Rightarrow> bytes option) \<Rightarrow> vhtlc_err + VhtlcScript" where
  "BaseScript_new E options preimageCondition =
     (let L = vl_script E; henc = vl_hex E in
     r_bind (validateOptions options) (\<lambda>_.
     r_bind (case preimageCondition L (vo_preimageHash options) of None \<Rightarrow> Inl ConditionThrew | Some c \<Rightarrow> Inr c) (\<lambda>conditionScript.
     r_bind (closure (ConditionMultisigTapscript_encode L conditionScript
       (keys_of [vo_receiver options, vo_server options]))) (\<lambda>claimScript.
     r_bind (closure (MultisigTapscript_encode L
       (keys_of [vo_sender options, vo_receiver options, vo_server options]))) (\<lambda>refundScript.
     r_bind (closure (CLTVMultisigTapscript_encode L (vo_refundLocktime options)
       (keys_of [vo_sender options, vo_server options]))) (\<lambda>refundWithoutReceiverScript.
     r_bind (closure (ConditionCSVMultisigTapscript_encode L conditionScript (vo_unilateralClaimDelay options)
       (keys_of [vo_receiver options]))) (\<lambda>unilateralClaimScript.
     r_bind (closure (CSVMultisigTapscript_encode L (vo_unilateralRefundDelay options)
       (keys_of [vo_sender options, vo_receiver options]))) (\<lambda>unilateralRefundScript.
     r_bind (closure (CSVMultisigTapscript_encode L (vo_unilateralRefundWithoutReceiverDelay options)
       (keys_of [vo_sender options]))) (\<lambda>unilateralRefundWithoutReceiverScript.
     r_bind (claim_leaf E conditionScript options) (\<lambda>nic.
     r_bind (refund_leaf E options) (\<lambda>nir.
     r_bind (lift_vs (VtxoScript_new (vl_leafVersion E) (vl_p2tr E)
       ([claimScript, refundScript, refundWithoutReceiverScript, unilateralClaimScript, unilateralRefundScript,
         unilateralRefundWithoutReceiverScript] @ optional_scripts nic @ optional_scripts nir))) (\<lambda>v.
     Inr (VtxoScript.extend v
       \<lparr>vh_options = options,
        vh_claimScript = henc claimScript,
        vh_refundScript = henc refundScript,
        vh_refundWithoutReceiverScript = henc refundWithoutReceiverScript,
        vh_unilateralClaimScript = henc unilateralClaimScript,
        vh_unilateralRefundScript = henc unilateralRefundScript,
        vh_unilateralRefundWithoutReceiverScript = henc unilateralRefundWithoutReceiverScript,
        vh_nonInteractiveClaimScript = map_option (henc \<circ> snd) nic,
        vh_nonInteractiveClaimArkadeScript = map_option fst nic,
        vh_nonInteractiveRefundScript = map_option (henc \<circ> snd) nir,
        vh_nonInteractiveRefundArkadeScript = map_option fst nir\<rparr>)))))))))))))"

definition VHTLC_Script :: "vhtlc_lib \<Rightarrow> VhtlcOptions \<Rightarrow> vhtlc_err + VhtlcScript" where
  "VHTLC_Script E options = BaseScript_new E options preimageConditionScript"

definition VHTLC_ScriptV2 :: "vhtlc_lib \<Rightarrow> VhtlcOptions \<Rightarrow> vhtlc_err + VhtlcScript" where
  "VHTLC_ScriptV2 E options = BaseScript_new E options preimageConditionScriptV2"

definition vhtlc_leaf :: "hex_encode \<Rightarrow> VhtlcScript \<Rightarrow> string \<Rightarrow> vhtlc_err + TapLeafScript" where
  "vhtlc_leaf henc v scriptHex = lift_vs (findLeaf henc (base_script v) scriptHex)"

definition vhtlc_claim :: "hex_encode \<Rightarrow> VhtlcScript \<Rightarrow> vhtlc_err + TapLeafScript" where
  "vhtlc_claim henc v = vhtlc_leaf henc v (vh_claimScript v)"

definition vhtlc_refund :: "hex_encode \<Rightarrow> VhtlcScript \<Rightarrow> vhtlc_err + TapLeafScript" where
  "vhtlc_refund henc v = vhtlc_leaf henc v (vh_refundScript v)"

definition refundWithoutReceiver :: "hex_encode \<Rightarrow> VhtlcScript \<Rightarrow> vhtlc_err + TapLeafScript" where
  "refundWithoutReceiver henc v = vhtlc_leaf henc v (vh_refundWithoutReceiverScript v)"

definition unilateralClaim :: "hex_encode \<Rightarrow> VhtlcScript \<Rightarrow> vhtlc_err + TapLeafScript" where
  "unilateralClaim henc v = vhtlc_leaf henc v (vh_unilateralClaimScript v)"

definition unilateralRefund :: "hex_encode \<Rightarrow> VhtlcScript \<Rightarrow> vhtlc_err + TapLeafScript" where
  "unilateralRefund henc v = vhtlc_leaf henc v (vh_unilateralRefundScript v)"

definition unilateralRefundWithoutReceiver :: "hex_encode \<Rightarrow> VhtlcScript \<Rightarrow> vhtlc_err + TapLeafScript" where
  "unilateralRefundWithoutReceiver henc v = vhtlc_leaf henc v (vh_unilateralRefundWithoutReceiverScript v)"

definition nonInteractiveClaim :: "hex_encode \<Rightarrow> VhtlcScript \<Rightarrow> vhtlc_err + TapLeafScript \<times> bytes" where
  "nonInteractiveClaim henc v =
     (case (vh_nonInteractiveClaimScript v, vh_nonInteractiveClaimArkadeScript v) of
        (Some s, Some a) \<Rightarrow>
          if s = [] then Inl NoClaimLeaf else r_bind (vhtlc_leaf henc v s) (\<lambda>leaf. Inr (leaf, a))
      | _ \<Rightarrow> Inl NoClaimLeaf)"

definition nonInteractiveRefund :: "hex_encode \<Rightarrow> VhtlcScript \<Rightarrow> vhtlc_err + TapLeafScript \<times> bytes" where
  "nonInteractiveRefund henc v =
     (case (vh_nonInteractiveRefundScript v, vh_nonInteractiveRefundArkadeScript v) of
        (Some s, Some a) \<Rightarrow>
          if s = [] then Inl NoRefundLeaf else r_bind (vhtlc_leaf henc v s) (\<lambda>leaf. Inr (leaf, a))
      | _ \<Rightarrow> Inl NoRefundLeaf)"

section \<open>What the leaves are\<close>

definition checksig_keys :: "bytes list \<Rightarrow> MultisigParams" where
  "checksig_keys ks = \<lparr>pubkeys = ks, ms_type = Some CHECKSIG\<rparr>"

definition emulator_key ::
  "vhtlc_lib \<Rightarrow> bytes \<Rightarrow> bytes \<Rightarrow> vhtlc_asset option \<Rightarrow> strict_claim option \<Rightarrow> bytes option" where
  "emulator_key E emulatorPubkey destination asset strict =
     (case enforcePayToMaybeAsset E destination asset strict of
        Inr covenant \<Rightarrow> vl_tweak E emulatorPubkey covenant
      | Inl _ \<Rightarrow> None)"

definition vhtlc_closures :: "vhtlc_lib \<Rightarrow> VhtlcOptions \<Rightarrow> bytes \<Rightarrow> TapParams list" where
  "vhtlc_closures E options condition =
     (let sender = vo_sender options; receiver = vo_receiver options; server = vo_server options in
      [ConditionMultisig condition (checksig_keys [receiver, server]),
       Multisig (checksig_keys [sender, receiver, server]),
       CLTVMultisig (vo_refundLocktime options) (checksig_keys [sender, server]),
       ConditionCSVMultisig condition (vo_unilateralClaimDelay options) (checksig_keys [receiver]),
       CSVMultisig (vo_unilateralRefundDelay options) (checksig_keys [sender, receiver]),
       CSVMultisig (vo_unilateralRefundWithoutReceiverDelay options) (checksig_keys [sender])]
      @ (case vo_nonInteractiveClaim options of None \<Rightarrow> []
         | Some n \<Rightarrow> [ConditionMultisig condition (checksig_keys [server,
             the (emulator_key E (nic_emulatorPubkey n) (nic_receiverPkScript n) (vo_asset options) (nic_strict n))])])
      @ (case vo_nonInteractiveRefund options of None \<Rightarrow> []
         | Some n \<Rightarrow> [Multisig (checksig_keys [server, receiver,
             the (emulator_key E (nir_emulatorPubkey n) (nir_senderPkScript n) (vo_asset options) None)])]))"

definition decodes_to :: "script_lib \<Rightarrow> TapParams \<Rightarrow> bytes \<Rightarrow> bool" where
  "decodes_to L p s \<longleftrightarrow> decodeTapscript L s = Inr \<lparr>tap_params = p, tap_script = s\<rparr>"

lemma closure_Inr: "closure r = Inr s \<longleftrightarrow> (\<exists>m. r = Inr (m, s))"
  by (auto simp: closure_def split: sum.splits)

lemma lift_vs_Inr [simp]: "lift_vs r = Inr x \<longleftrightarrow> r = Inr x"
  by (simp add: lift_vs_def split: sum.splits)

lemma keys_of_checksig:
  assumes "MultisigTapscript_encode L (keys_of ks) = Inr (m, s)"
  shows "m = checksig_keys ks"
  using assms by (auto simp: MultisigTapscript_encode_def keys_of_def checksig_keys_def r_bind_eq_Inr Let_def)

lemma csv_checksig:
  assumes "CSVMultisigTapscript_encode L t (keys_of ks) = Inr (m, s)"
  shows "m = checksig_keys ks"
  using assms keys_of_checksig by (auto simp: CSVMultisigTapscript_encode_def r_bind_eq_Inr)

lemmas closure_defs = encodeTapscript_def ConditionMultisigTapscript_encode_def CLTVMultisigTapscript_encode_def
  ConditionCSVMultisigTapscript_encode_def

lemma countable_keys_of [simp]: "countable_keys (keys_of ks)"
  by (simp add: countable_keys_def keys_of_def)

context script_library
begin

lemma reads_multisig: "closure (MultisigTapscript_encode L (keys_of ks)) = Inr s \<Longrightarrow> decodes_to L (Multisig (checksig_keys ks)) s"
  using tapscript_read_back [of "Multisig (keys_of ks)"] keys_of_checksig
  by (fastforce simp: decodes_to_def closure_Inr encodeTapscript_def)

lemma reads_csv: "closure (CSVMultisigTapscript_encode L t (keys_of ks)) = Inr s \<Longrightarrow> decodes_to L (CSVMultisig t (checksig_keys ks)) s"
  using tapscript_read_back [of "CSVMultisig t (keys_of ks)"] csv_checksig
  by (fastforce simp: decodes_to_def closure_Inr encodeTapscript_def)

lemma reads_cltv:
  "closure (CLTVMultisigTapscript_encode L n (keys_of ks)) = Inr s \<Longrightarrow> 0 \<le> n \<Longrightarrow> decodes_to L (CLTVMultisig n (checksig_keys ks)) s"
  using tapscript_read_back [of "CLTVMultisig n (keys_of ks)"] keys_of_checksig
  by (fastforce simp: decodes_to_def closure_Inr closure_defs r_bind_eq_Inr)

lemma reads_condition:
  "closure (ConditionMultisigTapscript_encode L c (keys_of ks)) = Inr s \<Longrightarrow> written_condition L c
   \<Longrightarrow> decodes_to L (ConditionMultisig c (checksig_keys ks)) s"
  using tapscript_read_back [of "ConditionMultisig c (keys_of ks)"] keys_of_checksig
  by (fastforce simp: decodes_to_def closure_Inr closure_defs r_bind_eq_Inr)

lemma reads_condition_csv:
  "closure (ConditionCSVMultisigTapscript_encode L c t (keys_of ks)) = Inr s \<Longrightarrow> written_condition L c
   \<Longrightarrow> decodes_to L (ConditionCSVMultisig c t (checksig_keys ks)) s"
  using tapscript_read_back [of "ConditionCSVMultisig c t (keys_of ks)"] csv_checksig
  by (fastforce simp: decodes_to_def closure_Inr closure_defs r_bind_eq_Inr)

end

lemma preimage_condition_written:
  assumes "cond \<in> {preimageConditionScript, preimageConditionScriptV2}" and "cond L h = Some c"
  shows "written_condition L c"
proof -
  have "plain_asm [Op ''HASH160'', Push h, Op ''EQUAL'']"
    and "plain_asm [Op ''SIZE'', Num 32, Op ''EQUALVERIFY'', Op ''HASH160'', Push h, Op ''EQUAL'']"
    by (auto simp: plain_asm_def push_opcodes_def)
  then show ?thesis
    using assms by (auto simp: written_condition_def preimageConditionScript_def preimageConditionScriptV2_def)
qed

lemma findLeaf_found:
  assumes "s \<in> set (map scriptFromTapLeafScript (vs_leaves v))" and "\<And>a b. henc a = henc b \<Longrightarrow> a = b"
  shows "\<exists>leaf. findLeaf henc v (henc s) = Inr leaf \<and> scriptFromTapLeafScript leaf = s"
proof -
  let ?P = "\<lambda>leaf. henc (scriptFromTapLeafScript leaf) = henc s"
  have "List.find ?P (vs_leaves v) \<noteq> None"
    using assms(1) by (auto simp: find_None_iff)
  then obtain leaf where leaf: "List.find ?P (vs_leaves v) = Some leaf"
    by blast
  then have "?P leaf"
    by (auto simp: find_Some_iff)
  then show ?thesis
    using leaf assms(2) by (auto simp: findLeaf_def)
qed

lemma claim_leaf_reads:
  assumes "claim_leaf E c options = Inr leaf" and "script_library (vl_script E) canon" and "written_condition (vl_script E) c"
  shows "list_all2 (decodes_to (vl_script E))
    (case vo_nonInteractiveClaim options of None \<Rightarrow> []
     | Some n \<Rightarrow> [ConditionMultisig c (checksig_keys [vo_server options,
         the (emulator_key E (nic_emulatorPubkey n) (nic_receiverPkScript n) (vo_asset options) (nic_strict n))])])
    (optional_scripts leaf)"
  using assms(1) script_library.reads_condition [OF assms(2) _ assms(3)]
  by (auto simp: claim_leaf_def optional_scripts_def emulator_key_def tweaked_key_def r_bind_eq_Inr split: option.splits)

lemma refund_leaf_reads:
  assumes "refund_leaf E options = Inr leaf" and "script_library (vl_script E) canon"
  shows "list_all2 (decodes_to (vl_script E))
    (case vo_nonInteractiveRefund options of None \<Rightarrow> []
     | Some n \<Rightarrow> [Multisig (checksig_keys [vo_server options, vo_receiver options,
         the (emulator_key E (nir_emulatorPubkey n) (nir_senderPkScript n) (vo_asset options) None)])])
    (optional_scripts leaf)"
  using assms(1) script_library.reads_multisig [OF assms(2)]
  by (auto simp: refund_leaf_def optional_scripts_def emulator_key_def tweaked_key_def r_bind_eq_Inr split: option.splits)

lemma VtxoScript_new_scripts:
  assumes "VtxoScript_new lv p2tr scripts = Inr v" and "p2tr_leaves p2tr"
  shows "vs_scripts v = scripts" and "mset (map scriptFromTapLeafScript (vs_leaves v)) = mset scripts"
proof -
  show "vs_scripts v = scripts"
    using assms(1) by (auto simp: VtxoScript_new_def split: sum.splits option.splits if_splits)
  obtain t where t: "assembleBtcdTaprootTree lv scripts = Inr t" "map scriptFromTapLeafScript (vs_leaves v) = leaf_scripts t"
    using VtxoScript_new_leaves [OF assms] by blast
  then have "scripts \<noteq> []"
    by (auto simp: assembleBtcdTaprootTree_def)
  then show "mset (map scriptFromTapLeafScript (vs_leaves v)) = mset scripts"
    using assembled_tree [of scripts lv] t by auto
qed

lemma built_contract:
  assumes "script_library (vl_script E) canon" and "hex_laws (vl_hex E) hdec" and "p2tr_leaves (vl_p2tr E)"
    and "condition \<in> {preimageConditionScript, preimageConditionScriptV2}"
    and "BaseScript_new E options condition = Inr v"
  shows "\<exists>c. condition (vl_script E) (vo_preimageHash options) = Some c
    \<and> list_all2 (decodes_to (vl_script E)) (vhtlc_closures E options c) (vs_scripts v)
    \<and> mset (map scriptFromTapLeafScript (vs_leaves v)) = mset (vs_scripts v)
    \<and> (\<forall>(path, script) \<in> set (zip [vhtlc_claim, vhtlc_refund, refundWithoutReceiver, unilateralClaim,
          unilateralRefund, unilateralRefundWithoutReceiver] (vs_scripts v)).
        \<exists>leaf. path (vl_hex E) v = Inr leaf \<and> scriptFromTapLeafScript leaf = script)"
proof -
  note lib = assms(1)
  let ?L = "vl_script E" and ?henc = "vl_hex E"
  obtain c s1 s2 s3 s4 s5 s6 nic nir w where valid: "validateOptions options = Inr ()"
    and c: "condition ?L (vo_preimageHash options) = Some c"
    and s1: "closure (ConditionMultisigTapscript_encode ?L c (keys_of [vo_receiver options, vo_server options])) = Inr s1"
    and s2: "closure (MultisigTapscript_encode ?L (keys_of [vo_sender options, vo_receiver options, vo_server options])) = Inr s2"
    and s3: "closure (CLTVMultisigTapscript_encode ?L (vo_refundLocktime options) (keys_of [vo_sender options, vo_server options])) = Inr s3"
    and s4: "closure (ConditionCSVMultisigTapscript_encode ?L c (vo_unilateralClaimDelay options) (keys_of [vo_receiver options])) = Inr s4"
    and s5: "closure (CSVMultisigTapscript_encode ?L (vo_unilateralRefundDelay options) (keys_of [vo_sender options, vo_receiver options])) = Inr s5"
    and s6: "closure (CSVMultisigTapscript_encode ?L (vo_unilateralRefundWithoutReceiverDelay options) (keys_of [vo_sender options])) = Inr s6"
    and nic: "claim_leaf E c options = Inr nic" and nir: "refund_leaf E options = Inr nir"
    and w: "VtxoScript_new (vl_leafVersion E) (vl_p2tr E) ([s1, s2, s3, s4, s5, s6] @ optional_scripts nic @ optional_scripts nir) = Inr w"
    and base: "base_script v = w" and names: "vh_claimScript v = ?henc s1" "vh_refundScript v = ?henc s2"
      "vh_refundWithoutReceiverScript v = ?henc s3" "vh_unilateralClaimScript v = ?henc s4"
      "vh_unilateralRefundScript v = ?henc s5" "vh_unilateralRefundWithoutReceiverScript v = ?henc s6"
    using assms(5) by (auto simp: BaseScript_new_def r_bind_eq_Inr Let_def base_script_def VtxoScript.defs split: option.splits)
  let ?scripts = "[s1, s2, s3, s4, s5, s6] @ optional_scripts nic @ optional_scripts nir"
  have v: "vs_scripts v = ?scripts" "vs_leaves v = vs_leaves w"
    using VtxoScript_new_scripts(1) [OF w assms(3)] base by (auto simp: base_script_def VtxoScript.defs)
  note written = preimage_condition_written [OF assms(4) c]
  have "0 < vo_refundLocktime options"
    using valid by (auto simp: validateOptions_def r_bind_eq_Inr)
  then have "list_all2 (decodes_to ?L) (vhtlc_closures E options c) ?scripts"
    using script_library.reads_condition [OF lib s1 written] script_library.reads_multisig [OF lib s2]
      script_library.reads_cltv [OF lib s3] script_library.reads_condition_csv [OF lib s4 written]
      script_library.reads_csv [OF lib s5] script_library.reads_csv [OF lib s6]
    by (auto simp: vhtlc_closures_def Let_def intro!: list_all2_appendI claim_leaf_reads [OF nic lib written]
        refund_leaf_reads [OF nir lib])
  moreover have m: "mset (map scriptFromTapLeafScript (vs_leaves w)) = mset ?scripts"
    using VtxoScript_new_scripts(2) [OF w assms(3)] .
  moreover have "\<exists>leaf. vhtlc_leaf ?henc v (?henc s) = Inr leaf \<and> scriptFromTapLeafScript leaf = s" if "s \<in> set ?scripts" for s
  proof -
    have "?henc a = ?henc b \<Longrightarrow> a = b" for a b
      using assms(2) by (metis hex_laws_def option.inject)
    moreover have "s \<in> set (map scriptFromTapLeafScript (vs_leaves w))"
      using that unfolding mset_eq_setD [OF m] .
    ultimately show ?thesis
      using findLeaf_found [of s w ?henc] base by (simp add: vhtlc_leaf_def)
  qed
  ultimately show ?thesis
    using c v by (simp add: names vhtlc_claim_def vhtlc_refund_def refundWithoutReceiver_def unilateralClaim_def
        unilateralRefund_def unilateralRefundWithoutReceiver_def)
qed


section \<open>The covenant and what it commits to\<close>

definition covenant_table :: "op_table \<Rightarrow> bool" where
  "covenant_table OP \<longleftrightarrow> distinct (map fst OP)
     \<and> js_get OP ''DUP'' = Some 0x76 \<and> js_get OP ''EQUALVERIFY'' = Some 0x88
     \<and> js_get OP ''VERIFY'' = Some 0x69 \<and> js_get OP ''GREATERTHANOREQUAL'' = Some 0xa2"

definition exact_amounts :: "(int \<Rightarrow> bytes) \<Rightarrow> bool" where
  "exact_amounts num \<longleftrightarrow> (\<forall>m n. 0 \<le> m \<and> 0 \<le> n \<and> num m = num n \<longrightarrow> m = n)"

lemma covenant_ops:
  assumes "covenant_table OP"
  shows "js_get (ARKADE_OPS OP) ''DUP'' = Some 0x76" "js_get (ARKADE_OPS OP) ''EQUALVERIFY'' = Some 0x88"
    "js_get (ARKADE_OPS OP) ''VERIFY'' = Some 0x69" "js_get (ARKADE_OPS OP) ''GREATERTHANOREQUAL'' = Some 0xa2"
    "js_get (ARKADE_OPS OP) ''PUSHCURRENTINPUTINDEX'' = Some 0xcd"
    "js_get (ARKADE_OPS OP) ''INSPECTOUTPUTSCRIPTPUBKEY'' = Some 0xd1"
    "js_get (ARKADE_OPS OP) ''INSPECTOUTPUTVALUE'' = Some 0xcf" "js_get (ARKADE_OPS OP) ''INSPECTINPUTVALUE'' = Some 0xc9"
    "js_get (ARKADE_OPS OP) ''INSPECTOUTASSETLOOKUP'' = Some 0xef" "js_get (ARKADE_OPS OP) ''INSPECTINASSETLOOKUP'' = Some 0xf2"
    "js_get (ARKADE_OPS OP) ''INSPECTOUTASSETCOUNT'' = Some 0xed"
  using assms unfolding ARKADE_OPS_def js_get_spread covenant_table_def by (simp_all add: ARKADE_OP_def)

lemma covenant_plain:
  assumes "covenant_table OP"
  shows "\<forall>x \<in> set (satClause d q). \<not> is_pushdata OP x" and "\<forall>x \<in> set (assetClause a q). \<not> is_pushdata OP x"
  by (auto simp: satClause_def assetClause_def quoted_def is_pushdata_def covenant_ops [OF assms] Let_def split: option.splits)

lemma canon_push_inj: "canon_push a = canon_push b \<Longrightarrow> a = b"
proof -
  assume eq: "canon_push a = canon_push b"
  have neg: "uint x \<noteq> - 1" for x :: byte
    using uint_ge_0 [of x] by linarith
  have pos: "1 \<le> x \<Longrightarrow> uint x \<noteq> 0" for x :: byte
    by (auto simp: word_le_def)
  have inj: "uint x = uint y \<Longrightarrow> x = y" for x y :: byte
    by (rule unsigned_word_eqI)
  show "a = b"
    using eq neg [symmetric] neg pos pos [THEN not_sym]
    by (auto simp: canon_push_def length_Suc_conv dest: inj split: if_splits)
qed

lemma dup_differs:
  assumes "covenant_table OP"
  shows "canon_op OP num (Op ''DUP'') \<noteq> canon_op OP num (Op ''PUSHCURRENTINPUTINDEX'')"
    and "length b = 32 \<Longrightarrow> canon_op OP num (Op ''DUP'') \<noteq> canon_op OP num (Push b)"
proof -
  have dist: "distinct (map fst OP)"
    using assms by (simp add: covenant_table_def)
  obtain k k' where "js_get (ArkadeOPNames OP) 0x76 = Some k" "js_get (ArkadeOPNames OP) 0xcd = Some k'"
    using names_complete covenant_ops(1,5) [OF assms] by metis
  moreover from this have "k \<noteq> k'"
    using names_sound [of OP "0x76" k] names_sound [of OP "0xcd" k'] dist by auto
  ultimately show "canon_op OP num (Op ''DUP'') \<noteq> canon_op OP num (Op ''PUSHCURRENTINPUTINDEX'')"
    by (simp add: canon_op_def canon_byte_def covenant_ops [OF assms])
  show "canon_op OP num (Op ''DUP'') \<noteq> canon_op OP num (Push b)" if "length b = 32"
    using that by (auto simp: canon_op_def canon_byte_def canon_push_def covenant_ops [OF assms])
qed

lemma covenant_canon:
  assumes "covenant_table OP" and "ArkadeScript_encode OP num xs = Inr b" and "ArkadeScript_encode OP num ys = Inr b"
    and "\<forall>x \<in> set xs. \<not> is_pushdata OP x" and "\<forall>x \<in> set ys. \<not> is_pushdata OP x"
  shows "map (canon_op OP num) xs = map (canon_op OP num) ys"
  using decode_encode [OF assms(2,4)] decode_encode [OF assms(3,5)] by simp

lemma canon_data_inj:
  "canon_op OP num (Push a) = canon_op OP num (Push b) \<longleftrightarrow> a = b"
  "exact_amounts num \<Longrightarrow> 0 \<le> m \<Longrightarrow> 0 \<le> n \<Longrightarrow> canon_op OP num (Num m) = canon_op OP num (Num n) \<longleftrightarrow> m = n"
  by (auto simp: canon_op_def exact_amounts_def dest: canon_push_inj)

lemma p2tr_program:
  assumes "isP2trPkScript d" and "isP2trPkScript d'" and "drop 2 d = drop 2 d'"
  shows "d = d'"
proof -
  have "d = 0x51 # 0x20 # drop 2 d" if "isP2trPkScript d" for d
    using that by (cases d; cases "tl d") (auto simp: isP2trPkScript_def)
  then show ?thesis
    using assms by metis
qed

definition amounts_ok :: "int option \<Rightarrow> bool" where
  "amounts_ok q \<longleftrightarrow> (\<forall>n. q = Some n \<longrightarrow> 0 \<le> n)"

lemma satClause_inj:
  assumes "covenant_table OP" and "exact_amounts num" and "amounts_ok q" and "amounts_ok q'"
    and "map (canon_op OP num) (satClause d q) = map (canon_op OP num) (satClause d' q')"
  shows "drop 2 d = drop 2 d' \<and> q = q'"
  using assms(5) dup_differs(1) [OF assms(1)] dup_differs(1) [OF assms(1), THEN not_sym] assms(3,4)
  by (cases q; cases q') (auto simp: satClause_def quoted_def canon_data_inj(1) canon_data_inj(2) [OF assms(2)] amounts_ok_def)

lemma assetClause_inj:
  assumes "covenant_table OP" and "exact_amounts num" and "amounts_ok q" and "amounts_ok q'"
    and "0 \<le> asset_groupIndex a" and "0 \<le> asset_groupIndex a'"
    and "map (canon_op OP num) (assetClause a q) @ xs = map (canon_op OP num) (assetClause a' q') @ ys"
  shows "a = a' \<and> q = q' \<and> xs = ys"
  using assms(7) dup_differs(1) [OF assms(1)] dup_differs(1) [OF assms(1), THEN not_sym] assms(3-6)
  by (cases q; cases q') (auto simp: assetClause_def quoted_def Let_def canon_data_inj(1) canon_data_inj(2) [OF assms(2)] amounts_ok_def
      intro: vhtlc_asset.equality)

lemma covenant_encode_Inr: "covenant_encode E asm = Inr b \<longleftrightarrow> ArkadeScript_encode (vl_OP E) (vl_num E) asm = Inr b"
  by (simp add: covenant_encode_def split: sum.splits)

definition asset_quote :: "vhtlc_asset option \<Rightarrow> strict_claim option \<Rightarrow> int option" where
  "asset_quote asset strict = (case asset of None \<Rightarrow> None | Some _ \<Rightarrow> Option.bind strict strict_assetAmount)"

definition covenant_asm :: "bytes \<Rightarrow> vhtlc_asset option \<Rightarrow> strict_claim option \<Rightarrow> script_op list" where
  "covenant_asm d asset strict =
     (case asset of None \<Rightarrow> [] | Some a \<Rightarrow> assetClause a (asset_quote asset strict)) @ satClause d (map_option strict_amount strict)"

lemma covenant_written:
  assumes "enforcePayToMaybeAsset E d asset strict = Inr b"
  shows "isP2trPkScript d \<and> ArkadeScript_encode (vl_OP E) (vl_num E) (covenant_asm d asset strict) = Inr b
    \<and> (\<forall>a. asset = Some a \<longrightarrow> 0 \<le> asset_groupIndex a \<and> length (asset_txid a) = 32)"
  using assms by (auto simp: enforcePayToMaybeAsset_def enforcePayTo_def enforcePayToAsset_def covenant_encode_Inr
      covenant_asm_def asset_quote_def split: option.splits if_splits)

lemma sat_not_asset:
  assumes "covenant_table OP" and "length (asset_txid a) = 32"
  shows "map (canon_op OP num) (satClause d q) \<noteq> map (canon_op OP num) (assetClause a q') @ xs"
  using dup_differs(2) [OF assms(1), of "rev (asset_txid a)" num] assms(2) by (auto simp: satClause_def assetClause_def Let_def)

text \<open>
  C23. The covenant of a non-interactive leaf, and with it the key the emulator signs for, commits to everything the contract
  pins: two covenants with the same bytes pay the same destination, name the same asset and
  enforce the same quoted amounts. No other destination, asset or quote can be passed off under the same leaf.
\<close>

theorem covenant_binding:
  assumes "covenant_table (vl_OP E)" and "exact_amounts (vl_num E)"
    and "enforcePayToMaybeAsset E d asset strict = Inr covenant"
    and "enforcePayToMaybeAsset E d' asset' strict' = Inr covenant"
    and "\<forall>s \<in> set_option strict \<union> set_option strict'. 0 \<le> strict_amount s \<and> amounts_ok (strict_assetAmount s)"
  shows "d = d' \<and> asset = asset' \<and> map_option strict_amount strict = map_option strict_amount strict'
    \<and> asset_quote asset strict = asset_quote asset' strict'"
proof -
  let ?C = "canon_op (vl_OP E) (vl_num E)"
  let ?q = "map_option strict_amount strict" and ?q' = "map_option strict_amount strict'"
  note w = covenant_written [OF assms(3)] and w' = covenant_written [OF assms(4)]
  have plain: "\<forall>x \<in> set (covenant_asm d a s). \<not> is_pushdata (vl_OP E) x" for d a s
    using covenant_plain [OF assms(1)] by (auto simp: covenant_asm_def split: option.splits)
  have eq: "map ?C (covenant_asm d asset strict) = map ?C (covenant_asm d' asset' strict')"
    using covenant_canon [OF assms(1) _ _ plain plain] w w' by blast
  have ok: "amounts_ok ?q" "amounts_ok ?q'" "amounts_ok (asset_quote asset strict)" "amounts_ok (asset_quote asset' strict')"
    using assms(5) by (cases strict; cases strict'; cases asset; cases asset'; simp add: amounts_ok_def asset_quote_def)+
  note sat = satClause_inj [OF assms(1,2) ok(1,2), of d d']
  have p2tr: "drop 2 d = drop 2 d' \<Longrightarrow> d = d'"
    using p2tr_program w w' by blast
  show ?thesis
  proof (cases asset; cases asset')
    assume "asset = None" "asset' = None"
    then show ?thesis
      using eq sat p2tr by (simp add: covenant_asm_def asset_quote_def)
  next
    fix a' assume "asset = None" "asset' = Some a'"
    then show ?thesis
      using eq sat_not_asset [OF assms(1), of a'] w' by (simp add: covenant_asm_def)
  next
    fix a assume "asset = Some a" "asset' = None"
    then show ?thesis
      using eq sat_not_asset [OF assms(1), of a, THEN not_sym] w by (simp add: covenant_asm_def)
  next
    fix a a' assume a: "asset = Some a" "asset' = Some a'"
    have "map ?C (assetClause a (asset_quote asset strict)) @ map ?C (satClause d ?q)
        = map ?C (assetClause a' (asset_quote asset' strict')) @ map ?C (satClause d' ?q')"
      using eq a by (simp add: covenant_asm_def)
    then have "a = a'" "asset_quote asset strict = asset_quote asset' strict'"
      "map ?C (satClause d ?q) = map ?C (satClause d' ?q')"
      using assetClause_inj [OF assms(1,2) ok(3,4)] w w' a by blast+
    then show ?thesis
      using a sat p2tr by blast
  qed
qed

definition sample_options :: VhtlcOptions where
  "sample_options =
     \<lparr>vo_sender = sample_key 1, vo_receiver = sample_key 2, vo_server = sample_key 3, vo_preimageHash = replicate 20 4,
      vo_refundLocktime = 10,
      vo_unilateralClaimDelay = \<lparr>tl_value = 5, tl_type = InBlocks\<rparr>,
      vo_unilateralRefundDelay = \<lparr>tl_value = 6, tl_type = InBlocks\<rparr>,
      vo_unilateralRefundWithoutReceiverDelay = \<lparr>tl_value = 7, tl_type = InBlocks\<rparr>,
      vo_nonInteractiveClaim = None,
      vo_nonInteractiveRefund = Some \<lparr>nir_senderPkScript = 0x51 # 0x20 # sample_key 8, nir_emulatorPubkey = sample_key 9\<rparr>,
      vo_asset = None\<rparr>"

definition sample_covenant_OP :: op_table where
  "sample_covenant_OP = [(''VERIFY'', 0x69), (''DUP'', 0x76), (''EQUALVERIFY'', 0x88), (''GREATERTHANOREQUAL'', 0xa2)]"

definition sample_vhtlc_lib :: vhtlc_lib where
  "sample_vhtlc_lib =
     \<lparr>vl_script = std_lib, vl_OP = sample_covenant_OP, vl_num = script_num, vl_tweak = (\<lambda>key script. Some key),
      vl_hex = hex_of_bytes, vl_leafVersion = 0xc0, vl_p2tr = sample_p2tr\<rparr>"

lemma sample_covenant_table: "covenant_table sample_covenant_OP"
  by (simp add: covenant_table_def sample_covenant_OP_def)

lemma script_num_amounts: "exact_amounts script_num"
  unfolding exact_amounts_def by (metis option.inject script_num_decode)

lemma sample_covenant:
  "\<exists>covenant. enforcePayToMaybeAsset sample_vhtlc_lib (0x51 # 0x20 # sample_key 8) None None = Inr covenant"
  by (simp add: enforcePayToMaybeAsset_def enforcePayTo_def isP2trPkScript_def sample_key_def covenant_encode_def
      satClause_def quoted_def sample_vhtlc_lib_def encode_op_def push_bytes_def bignum_encode_def BIGNUM_MAX_BYTES_def
      script_num_byte covenant_ops [OF sample_covenant_table] Let_def)

theorem covenant_binding_witness:
  "enforcePayToMaybeAsset sample_vhtlc_lib (0x51 # 0x20 # sample_key 8) None None
     \<noteq> enforcePayToMaybeAsset sample_vhtlc_lib (0x51 # 0x20 # sample_key 9) None None"
proof
  assume eq: "enforcePayToMaybeAsset sample_vhtlc_lib (0x51 # 0x20 # sample_key 8) None None
    = enforcePayToMaybeAsset sample_vhtlc_lib (0x51 # 0x20 # sample_key 9) None None"
  obtain c where "enforcePayToMaybeAsset sample_vhtlc_lib (0x51 # 0x20 # sample_key 8) None None = Inr c"
    using sample_covenant by blast
  then have "sample_key 8 = sample_key 9"
    using covenant_binding [of sample_vhtlc_lib "0x51 # 0x20 # sample_key 8" None None c "0x51 # 0x20 # sample_key 9" None None]
      eq sample_covenant_table script_num_amounts by (simp add: sample_vhtlc_lib_def)
  then show False
    by (simp add: sample_key_def)
qed

lemma std_condition_bytes:
  "js_get (ARKADE_OPS std_OP) ''HASH160'' = Some 0xa9" "js_get (ARKADE_OPS std_OP) ''EQUAL'' = Some 0x87"
  unfolding std_OPS by (simp_all add: std_OP_def)

lemma std_multisig:
  "ks \<noteq> [] \<Longrightarrow> \<forall>k \<in> set ks. length k = 32 \<Longrightarrow> \<exists>s. MultisigTapscript_encode std_lib (keys_of ks) = Inr (checksig_keys ks, s)"
proof -
  assume ks: "ks \<noteq> []" "\<forall>k \<in> set ks. length k = 32"
  have "\<exists>s. std_encode (checksig_asm ks) = Some s"
    using ks(2)
  proof (induction ks)
    case (Cons k ks)
    then obtain s where "ArkadeScript_encode std_OP script_num (checksig_asm ks) = Inr s"
      by (auto simp: std_encode_Some)
    then show ?case
      using Cons.prems by (auto simp: std_encode_Some encode_op_def push_bytes_def std_bytes)
  qed (simp add: std_encode_def)
  moreover have "r_each check_pubkey ks = Inr ()"
    using ks(2) by (simp add: check_pubkey_def)
  ultimately show ?thesis
    using ks(1) by (auto simp: MultisigTapscript_encode_def keys_of_def checksig_keys_def std_lib_def Let_def simp del: r_each_Inr)
qed

lemma std_timelock:
  assumes "0 < n" and "n < 0x80"
  shows "\<exists>s. std_encode [number_op std_lib n, Op ''CHECKSEQUENCEVERIFY'', Op ''DROP''] = Some s"
    and "\<exists>s. std_encode [number_op std_lib n, Op ''CHECKLOCKTIMEVERIFY'', Op ''DROP''] = Some s"
  using assms by (simp_all add: std_encode_Some number_op_def std_lib_def script_num_byte encode_op_def push_bytes_def bignum_encode_def
      BIGNUM_MAX_BYTES_def std_bytes uint_word_of_int Let_def)

lemma std_csv:
  assumes "ks \<noteq> []" and "\<forall>k \<in> set ks. length k = 32" and "0 < n" and "n < 0x80"
  shows "\<exists>s. CSVMultisigTapscript_encode std_lib \<lparr>tl_value = n, tl_type = InBlocks\<rparr> (keys_of ks) = Inr (checksig_keys ks, s)"
proof -
  obtain s t where "MultisigTapscript_encode std_lib (keys_of ks) = Inr (checksig_keys ks, s)"
    "s_encode std_lib [number_op std_lib n, Op ''CHECKSEQUENCEVERIFY'', Op ''DROP''] = Some t"
    using std_multisig [OF assms(1,2)] std_timelock(1) [OF assms(3,4)] by (auto simp: std_lib_def)
  moreover have "timelockToSequence std_lib \<lparr>tl_value = n, tl_type = InBlocks\<rparr> = Inr n"
    using assms(3,4) by (simp add: timelockToSequence_def std_lib_def)
  moreover have "r_each check_pubkey ks = Inr ()"
    using assms(2) by (simp add: check_pubkey_def)
  ultimately show ?thesis
    by (auto simp: CSVMultisigTapscript_encode_def keys_of_def simp del: r_each_Inr)
qed

lemma std_verify: "s_encode std_lib [Op ''VERIFY''] = Some [0x69]"
  by (simp add: std_lib_def std_encode_def encode_op_def std_bytes)

lemma sample_vhtlc: "\<exists>v. VHTLC_Script sample_vhtlc_lib sample_options = Inr v"
proof -
  let ?ok = "\<lambda>ks. (ks :: bytes list) \<noteq> [] \<and> (\<forall>k \<in> set ks. length k = 32)"
  have len: "length (sample_key b) = 32" for b
    by (simp add: sample_key_def)
  obtain c where c: "preimageConditionScript std_lib (replicate 20 4) = Some c"
    by (simp add: preimageConditionScript_def std_lib_def std_encode_def encode_op_def push_bytes_def std_condition_bytes)
  obtain s1 where s1: "closure (ConditionMultisigTapscript_encode std_lib c (keys_of [sample_key 2, sample_key 3])) = Inr s1"
    using std_multisig [of "[sample_key 2, sample_key 3]"] len
    by (auto simp: closure_Inr ConditionMultisigTapscript_encode_def std_verify)
  obtain s2 where s2: "closure (MultisigTapscript_encode std_lib (keys_of [sample_key 1, sample_key 2, sample_key 3])) = Inr s2"
    using std_multisig [of "[sample_key 1, sample_key 2, sample_key 3]"] len by (auto simp: closure_Inr)
  obtain s3 where s3: "closure (CLTVMultisigTapscript_encode std_lib 10 (keys_of [sample_key 1, sample_key 3])) = Inr s3"
    using std_multisig [of "[sample_key 1, sample_key 3]"] std_timelock(2) [of 10] len
    by (auto simp: closure_Inr CLTVMultisigTapscript_encode_def std_lib_def)
  obtain s4 where s4: "closure (ConditionCSVMultisigTapscript_encode std_lib c \<lparr>tl_value = 5, tl_type = InBlocks\<rparr> (keys_of [sample_key 2])) = Inr s4"
    using std_csv [of "[sample_key 2]" 5] len by (auto simp: closure_Inr ConditionCSVMultisigTapscript_encode_def std_verify)
  obtain s5 where s5: "closure (CSVMultisigTapscript_encode std_lib \<lparr>tl_value = 6, tl_type = InBlocks\<rparr> (keys_of [sample_key 1, sample_key 2])) = Inr s5"
    using std_csv [of "[sample_key 1, sample_key 2]" 6] len by (auto simp: closure_Inr)
  obtain s6 where s6: "closure (CSVMultisigTapscript_encode std_lib \<lparr>tl_value = 7, tl_type = InBlocks\<rparr> (keys_of [sample_key 1])) = Inr s6"
    using std_csv [of "[sample_key 1]" 7] len by (auto simp: closure_Inr)
  obtain s8 where s8: "closure (MultisigTapscript_encode std_lib (keys_of [sample_key 3, sample_key 2, sample_key 9])) = Inr s8"
    using std_multisig [of "[sample_key 3, sample_key 2, sample_key 9]"] len by (auto simp: closure_Inr)
  obtain covenant where covenant: "enforcePayToMaybeAsset sample_vhtlc_lib (0x51 # 0x20 # sample_key 8) None None = Inr covenant"
    using sample_covenant by blast
  have valid: "validateOptions sample_options = Inr ()"
    by (simp add: validateOptions_def sample_options_def check_strict_def check_pinned_def check_delay_def isP2trPkScript_def sample_key_def)
  have nic: "claim_leaf sample_vhtlc_lib c sample_options = Inr None"
    by (simp add: claim_leaf_def sample_options_def)
  have nir: "refund_leaf sample_vhtlc_lib sample_options = Inr (Some (covenant, s8))"
    using covenant s8 by (simp add: refund_leaf_def sample_options_def tweaked_key_def) (simp add: sample_vhtlc_lib_def)
  obtain t where t: "assembleBtcdTaprootTree 0xc0 [s1, s2, s3, s4, s5, s6, s8] = Inr t"
    "mset (leaf_scripts t) = mset [s1, s2, s3, s4, s5, s6, s8]"
    using assembled_tree [of "[s1, s2, s3, s4, s5, s6, s8]" "0xc0"] by auto
  have "\<exists>w. VtxoScript_new 0xc0 sample_p2tr [s1, s2, s3, s4, s5, s6, s8] = Inr w"
    using t(1) mset_eq_length [OF t(2)] by (simp add: VtxoScript_new_def sample_p2tr_def)
  then show ?thesis
    using valid c s1 s2 s3 s4 s5 s6 nic nir
    by (auto simp: VHTLC_Script_def BaseScript_new_def Let_def optional_scripts_def lift_vs_def)
       (auto simp: sample_vhtlc_lib_def sample_options_def)
qed

lemma sample_p2tr_leaves: "p2tr_leaves sample_p2tr"
  by (simp add: p2tr_leaves_def sample_p2tr_def scriptFromTapLeafScript_def comp_def)

lemma sample_refund_leaf:
  assumes "VHTLC_Script sample_vhtlc_lib sample_options = Inr v"
  shows "\<exists>leaf. refundWithoutReceiver hex_of_bytes v = Inr leaf
    \<and> decodes_to std_lib (CLTVMultisig 10 (checksig_keys [sample_key 1, sample_key 3])) (scriptFromTapLeafScript leaf)"
proof -
  have "\<exists>c. list_all2 (decodes_to std_lib) (vhtlc_closures sample_vhtlc_lib sample_options c) (vs_scripts v)
    \<and> (\<forall>(path, script) \<in> set (zip [vhtlc_claim, vhtlc_refund, refundWithoutReceiver, unilateralClaim,
          unilateralRefund, unilateralRefundWithoutReceiver] (vs_scripts v)).
        \<exists>leaf. path hex_of_bytes v = Inr leaf \<and> scriptFromTapLeafScript leaf = script)"
    using built_contract [OF _ _ _ _ assms [unfolded VHTLC_Script_def], of std_canon bytes_of_hex] std.script_library_axioms
      hex_of_bytes_strings sample_p2tr_leaves by (auto simp: sample_vhtlc_lib_def hex_strings_def)
  then show ?thesis
    by (fastforce simp: vhtlc_closures_def sample_options_def Let_def list_all2_Cons1)
qed


end
