(* ===== verification/Js_Number.thy ===== *)
theory Js_Number
  imports Arkade_Script
begin

text \<open>
  Numbers as text: \<open>n.toString()\<close>, \<open>BigInt(s)\<close> and \<open>Number(s)\<close> of JavaScript, on the strings in which parameters are
  stored. A text \<open>BigInt\<close> rejects is \<open>None\<close>. Of \<open>Number\<close> the integers are modelled: any other text,
  also a fraction or an exponent, is \<open>NaN\<close>.
\<close>

datatype js_number = NaN | JsInt int

definition int_str :: "int \<Rightarrow> string" where
  "int_str n = (if n < 0 then CHR ''-'' # nat_str (nat (- n)) else nat_str (nat n))"

definition trim :: "string \<Rightarrow> string" where
  "trim s = rev (dropWhile js_space (rev (dropWhile js_space s)))"

definition radix_digit :: "char \<Rightarrow> nat option" where
  "radix_digit c =
     (let n = (of_char c :: nat) in
      if 48 \<le> n \<and> n \<le> 57 then Some (n - 48)
      else if 97 \<le> n \<and> n \<le> 122 then Some (n - 87)
      else if 65 \<le> n \<and> n \<le> 90 then Some (n - 55)
      else None)"

fun radix_value :: "nat \<Rightarrow> string \<Rightarrow> nat \<Rightarrow> nat option" where
  "radix_value r [] a = Some a"
| "radix_value r (c # s) a =
     (case radix_digit c of
        Some d \<Rightarrow> if d < r then radix_value r s (r * a + d) else None
      | None \<Rightarrow> None)"

definition radix_text :: "nat \<Rightarrow> string \<Rightarrow> int option" where
  "radix_text r s = (if s = [] then None else map_option int (radix_value r s 0))"

definition integer_text :: "string \<Rightarrow> int option" where
  "integer_text t =
     (if t = [] then Some 0
      else if starts_with ''0x'' t \<or> starts_with ''0X'' t then radix_text 16 (drop 2 t)
      else if starts_with ''0o'' t \<or> starts_with ''0O'' t then radix_text 8 (drop 2 t)
      else if starts_with ''0b'' t \<or> starts_with ''0B'' t then radix_text 2 (drop 2 t)
      else if starts_with ''-'' t then map_option uminus (radix_text 10 (drop 1 t))
      else if starts_with ''+'' t then radix_text 10 (drop 1 t)
      else radix_text 10 t)"

definition js_BigInt :: "string \<Rightarrow> int option" where
  "js_BigInt s = integer_text (trim s)"

definition js_Number :: "string \<Rightarrow> js_number" where
  "js_Number s = (case integer_text (trim s) of Some n \<Rightarrow> JsInt n | None \<Rightarrow> NaN)"

section \<open>Reading back\<close>

lemma radix_digit_char: "d < 10 \<Longrightarrow> radix_digit (digit_char d) = Some d"
  by (simp add: radix_digit_def of_digit_char)

lemma radix_value_append:
  "radix_value r (s @ t) a = Option.bind (radix_value r s a) (radix_value r t)"
  by (induction s arbitrary: a) (auto split: option.splits)

lemma radix_value_nat_str: "radix_value 10 (nat_str n) 0 = Some n"
proof (induction n rule: nat_str.induct)
  case (1 n)
  then show ?case
    by (cases "n < 10") (simp_all add: nat_str.simps [of n] radix_value_append radix_digit_char)
qed

lemma nat_str_chars: "c \<in> set (nat_str n) \<Longrightarrow> is_digit c"
  using nat_str_digits [of n] by (simp add: list_all_iff)

lemma digit_not_blank: "is_digit c \<Longrightarrow> \<not> js_space c"
  by (rule digit_not_space)

lemma trim_tight: "s \<noteq> [] \<Longrightarrow> \<not> js_space (hd s) \<Longrightarrow> \<not> js_space (last s) \<Longrightarrow> trim s = s"
proof -
  assume s: "s \<noteq> []" "\<not> js_space (hd s)" "\<not> js_space (last s)"
  then have "dropWhile js_space s = s"
    by (cases s) auto
  moreover have "dropWhile js_space (rev s) = rev s"
    using s by (cases s rule: rev_cases) auto
  ultimately show ?thesis
    by (simp add: trim_def)
qed

lemma digits_end:
  "is_digit (hd (nat_str n))" "is_digit (last (nat_str n))"
  using nat_str_digits [of n] nat_str_chars [of _ n] hd_in_set last_in_set by blast+

lemma trim_nat_str [simp]: "trim (nat_str n) = nat_str n"
  using nat_str_digits [of n] digits_end [of n] digit_not_blank by (intro trim_tight) blast+

lemma trim_minus [simp]: "trim (CHR ''-'' # nat_str n) = CHR ''-'' # nat_str n"
proof (rule trim_tight)
  show "\<not> js_space (last (CHR ''-'' # nat_str n))"
    using nat_str_digits [of n] digits_end(2) [of n] digit_not_blank by simp
qed (simp_all add: js_space_def)

lemma nat_str_prefix:
  assumes "\<not> is_digit x"
  shows "\<not> starts_with [x] (nat_str n)" and "\<not> starts_with [y, x] (nat_str n)"
proof -
  have "x \<notin> set (nat_str n)"
    using assms nat_str_chars by blast
  then show "\<not> starts_with [x] (nat_str n)" "\<not> starts_with [y, x] (nat_str n)"
    by (auto simp: starts_with_def dest: in_set_takeD arg_cong [where f = set])
      (metis in_set_takeD list.set_intros)+
qed

lemma integer_text_nat: "integer_text (nat_str n) = Some (int n)"
  using nat_str_digits [of n] radix_value_nat_str [of n]
  by (simp add: integer_text_def radix_text_def nat_str_prefix is_digit_def)

lemma integer_text_int [simp]: "integer_text (int_str n) = Some n"
proof (cases "n < 0")
  case True
  then show ?thesis
    using nat_str_digits [of "nat (- n)"] radix_value_nat_str [of "nat (- n)"]
    by (simp add: int_str_def integer_text_def radix_text_def starts_with_def)
qed (simp add: int_str_def integer_text_nat)

lemma trim_int_str [simp]: "trim (int_str n) = int_str n"
  by (simp add: int_str_def)

lemma js_BigInt_str [simp]: "js_BigInt (int_str n) = Some n"
  by (simp add: js_BigInt_def)

lemma js_Number_str [simp]: "js_Number (int_str n) = JsInt n"
  by (simp add: js_Number_def)

lemma int_str_nonempty [simp]: "int_str n \<noteq> []"
  using nat_str_digits by (simp add: int_str_def)

end
