(* ===== verification/Descriptor.thy ===== *)
theory Descriptor
  imports Asset_Id
begin

text \<open>
  Output descriptors of keys, \<open>identity/descriptor.ts\<close>. Parsing is done by a third-party package: \<open>expand\<close> is an argument,
  from the network (mainnet or not) and the descriptor to the key of the expansion's \<open>@0\<close> (\<open>None\<close> when it
  throws, \<open>Some None\<close> when there is no key); deriving a child key is the argument \<open>derive\<close>.
\<close>

record expanded_key =
  ek_bip32 :: "string option"
  ek_bip32_publicKey :: bytes
  ek_pubkey :: "bytes option"
  ek_masterFingerprint :: "bytes option"
  ek_originPath :: "string option"
  ek_keyPath :: "string option"

type_synonym expand_fun = "bool \<Rightarrow> string \<Rightarrow> expanded_key option option"

datatype descriptor_err =
    EmptyKey | ExpandThrew | NeedsDerivation | NoKeyFound | LeafUnparsable nat | LeafWithoutKey nat | NotHD nat | BadKeyHex

definition isMainnetDescriptor :: "string \<Rightarrow> bool" where
  "isMainnetDescriptor descriptor \<longleftrightarrow> \<not> str_includes ''tpub'' descriptor"

definition isDescriptor :: "string \<Rightarrow> bool" where
  "isDescriptor value \<longleftrightarrow> starts_with ''tr('' value \<and> starts_with '')'' (rev value) \<and> length value > 4"

definition normalizeToDescriptor :: "string \<Rightarrow> descriptor_err + string" where
  "normalizeToDescriptor value =
     (if value = [] then Inl EmptyKey
      else if isDescriptor value then Inr value
      else Inr (''tr('' @ value @ '')''))"

definition extractPubKey :: "hex_encode \<Rightarrow> expand_fun \<Rightarrow> string \<Rightarrow> descriptor_err + string" where
  "extractPubKey henc expand descriptor =
     (if \<not> isDescriptor descriptor then Inr descriptor
      else case expand (isMainnetDescriptor descriptor) descriptor of
        None \<Rightarrow> Inl ExpandThrew
      | Some None \<Rightarrow> Inl NoKeyFound
      | Some (Some key) \<Rightarrow>
          if ek_bip32 key \<noteq> None then Inl NeedsDerivation
          else (case ek_pubkey key of None \<Rightarrow> Inl NoKeyFound | Some k \<Rightarrow> Inr (henc k)))"

definition deriveDescriptorLeafPubKey :: "expand_fun \<Rightarrow> string \<Rightarrow> descriptor_err + bytes" where
  "deriveDescriptorLeafPubKey expand descriptor =
     (case expand (isMainnetDescriptor descriptor) descriptor of
        None \<Rightarrow> Inl (LeafUnparsable (length descriptor))
      | Some key \<Rightarrow>
          (case Option.bind key ek_pubkey of
             None \<Rightarrow> Inl (LeafWithoutKey (length descriptor))
           | Some k \<Rightarrow> Inr k))"

text \<open>\<open>s.replace(/^\\//, "")\<close>.\<close>

definition drop_slash :: "string \<Rightarrow> string" where
  "drop_slash s = (if starts_with ''/'' s then drop 1 s else s)"

definition deriveDescriptorLeafCompressedPubKey ::
  "expand_fun \<Rightarrow> (string \<Rightarrow> string \<Rightarrow> bytes) \<Rightarrow> string \<Rightarrow> descriptor_err + bytes" where
  "deriveDescriptorLeafCompressedPubKey expand derive descriptor =
     (case expand (isMainnetDescriptor descriptor) descriptor of
        None \<Rightarrow> Inl (LeafUnparsable (length descriptor))
      | Some None \<Rightarrow> Inl (NotHD (length descriptor))
      | Some (Some key) \<Rightarrow>
          (case ek_bip32 key of
             None \<Rightarrow> Inl (NotHD (length descriptor))
           | Some node \<Rightarrow>
               if truthy_str (ek_keyPath key) then Inr (derive node (drop_slash (the (ek_keyPath key))))
               else Inr (ek_bip32_publicKey key)))"

text \<open>Whether a candidate descriptor belongs to the identity of \<open>ourDescriptor\<close>.\<close>

definition descriptorIsOurs :: "hex_encode \<Rightarrow> expand_fun \<Rightarrow> string \<Rightarrow> string \<Rightarrow> bytes \<Rightarrow> bool" where
  "descriptorIsOurs henc expand candidate ourDescriptor ourXOnlyPubkey =
     (if \<not> isDescriptor candidate then False
      else case expand (isMainnetDescriptor candidate) candidate of
        None \<Rightarrow> False
      | Some None \<Rightarrow> False
      | Some (Some info) \<Rightarrow>
          (case ek_bip32 info of
             Some xpub \<Rightarrow>
               (case expand (isMainnetDescriptor ourDescriptor) ourDescriptor of
                  Some (Some ours) \<Rightarrow> ek_bip32 ours = Some xpub
                | _ \<Rightarrow> False)
           | None \<Rightarrow>
               (case ek_pubkey info of
                  None \<Rightarrow> False
                | Some k \<Rightarrow>
                    let candidatePub = (if length k = 33 then drop 1 k else k)
                    in length candidatePub = length ourXOnlyPubkey \<and> henc candidatePub = henc ourXOnlyPubkey)))"

record ParsedHDDescriptor =
  hd_fingerprint :: string
  hd_basePath :: string
  hd_xpub :: string
  hd_derivationPath :: string

definition parseHDDescriptor :: "hex_encode \<Rightarrow> expand_fun \<Rightarrow> string \<Rightarrow> ParsedHDDescriptor option" where
  "parseHDDescriptor henc expand descriptor =
     (if \<not> isDescriptor descriptor then None
      else case expand (isMainnetDescriptor descriptor) descriptor of
        Some (Some key) \<Rightarrow>
          (case (ek_masterFingerprint key, ek_bip32 key) of
             (Some fingerprint, Some xpub) \<Rightarrow>
               if truthy_str (ek_originPath key) \<and> truthy_str (ek_keyPath key)
               then Some \<lparr>hd_fingerprint = henc fingerprint, hd_basePath = drop_slash (the (ek_originPath key)),
                          hd_xpub = xpub, hd_derivationPath = drop_slash (the (ek_keyPath key))\<rparr>
               else None
           | _ \<Rightarrow> None)
      | _ \<Rightarrow> None)"

definition identityDescriptor :: "hex_encode \<Rightarrow> bytes \<Rightarrow> descriptor_err + string" where
  "identityDescriptor henc xOnlyPublicKey = normalizeToDescriptor (henc xOnlyPublicKey)"

section \<open>Round trips\<close>

lemma isDescriptor_wrap: "v \<noteq> [] \<Longrightarrow> isDescriptor (''tr('' @ v @ '')'')"
  by (cases v) (simp_all add: isDescriptor_def starts_with_def)

lemma normalizeToDescriptor_idem: "normalizeToDescriptor v = Inr d \<Longrightarrow> isDescriptor d \<and> normalizeToDescriptor d = Inr d"
  using isDescriptor_wrap by (auto simp: normalizeToDescriptor_def split: if_splits)

text \<open>What is used of the package: the expansion of \<open>tr(key)\<close> with a plain key is that key.\<close>

definition expands_raw_keys :: "hex_encode \<Rightarrow> expand_fun \<Rightarrow> bool" where
  "expands_raw_keys henc expand \<longleftrightarrow> (\<forall>k net. length k = 32 \<longrightarrow>
     (\<exists>key. expand net (''tr('' @ henc k @ '')'') = Some (Some key) \<and> ek_bip32 key = None \<and> ek_pubkey key = Some k))"

end
