(* ===== verification/Contract_Paths.thy ===== *)
theory Contract_Paths
  imports Vhtlc_Script Js_Number Descriptor
begin

text \<open>
  The contract types of \<open>contracts/types.ts\<close> and the handlers that choose how to spend a contract:
  \<open>contracts/handlers/helpers.ts\<close> (roles, timelock checks, path selection), \<open>default.ts\<close>, \<open>delegate.ts\<close>,
  \<open>boarding.ts\<close>, \<open>vhtlc.ts\<close> and \<open>vhtlcV2.ts\<close>. Discovery is in \<open>Discovery\<close>.

  \<open>params\<close> is the list of the object's properties. \<open>contract_lib\<close> collects the third-party code: the
  libraries of the scripts, the hex decoder, the descriptor parser and the coder of PSBT trees. Of the
  virtual output of a context only the confirmation is read. Whatever throws is an error of type \<open>path_err\<close>.
\<close>

section \<open>Contracts\<close>

datatype ContractState = Active | Inactive
datatype ContractWatchState = Watched | AwaitingFunds | Retained

record Contract =
  c_label :: "string option"
  c_type :: string
  c_params :: "(string \<times> string) list"
  c_script :: string
  c_address :: string
  c_state :: ContractState
  c_watch :: "ContractWatchState option"
  c_createdAt :: int
  c_metadata :: "(string \<times> string) list option"

definition watchStateOf :: "Contract \<Rightarrow> ContractWatchState" where
  "watchStateOf contract = or_default (c_watch contract) Watched"

definition isWatchedContract :: "Contract \<Rightarrow> bool" where
  "isWatchedContract contract \<longleftrightarrow> watchStateOf contract \<noteq> Retained"

record coin_confirmation =
  conf_height :: "int option"
  conf_time :: "int option"

record PathContext =
  collaborative :: bool
  currentTime :: int
  blockHeight :: "int option"
  walletDescriptor :: "string option"
  walletPubKey :: "string option"
  ctx_role :: "string option"
  chainTime :: "int option"
  ctx_vtxo :: "coin_confirmation option"

record PathSelection =
  sel_leaf :: TapLeafScript
  sel_extraWitness :: "bytes list option"
  sel_sequence :: "js_number option"

record contract_lib =
  cl_vhtlc :: vhtlc_lib
  cl_hdec :: hex_decode
  cl_expand :: expand_fun
  cl_taptree :: taptree_coder

definition cl_hex :: "contract_lib \<Rightarrow> hex_encode" where "cl_hex E = vl_hex (cl_vhtlc E)"
definition cl_script :: "contract_lib \<Rightarrow> script_lib" where "cl_script E = vl_script (cl_vhtlc E)"

datatype path_err =
    MissingParam string | BadBigInt string | BadHex string | LeafErr vhtlc_err | TimelockErr tap_err
  | DescriptorErr descriptor_err | CannotBeSpentYet int | BadGroupIndex string | HalfCovenant string
  | IncompleteAsset | StrictAssetWithoutAmount

definition lift_leaf :: "vhtlc_err + 'a \<Rightarrow> path_err + 'a" where
  "lift_leaf r = (case r of Inl e \<Rightarrow> Inl (LeafErr e) | Inr x \<Rightarrow> Inr x)"

definition lift_vscript :: "vscript_err + 'a \<Rightarrow> path_err + 'a" where
  "lift_vscript r = lift_leaf (lift_vs r)"

definition lift_timelock :: "tap_err + 'a \<Rightarrow> path_err + 'a" where
  "lift_timelock r = (case r of Inl e \<Rightarrow> Inl (TimelockErr e) | Inr x \<Rightarrow> Inr x)"

definition lift_descriptor :: "descriptor_err + 'a \<Rightarrow> path_err + 'a" where
  "lift_descriptor r = (case r of Inl e \<Rightarrow> Inl (DescriptorErr e) | Inr x \<Rightarrow> Inr x)"

lemma lifts_Inr [simp]:
  "lift_leaf r = Inr x \<longleftrightarrow> r = Inr x" "lift_timelock t = Inr y \<longleftrightarrow> t = Inr y"
  "lift_descriptor d = Inr z \<longleftrightarrow> d = Inr z" "lift_vscript v = Inr w \<longleftrightarrow> v = Inr w"
  by (simp_all add: lift_leaf_def lift_timelock_def lift_descriptor_def lift_vscript_def lift_vs_def split: sum.splits)

section \<open>Parameters\<close>

definition hex_param :: "contract_lib \<Rightarrow> (string \<times> string) list \<Rightarrow> string \<Rightarrow> path_err + bytes" where
  "hex_param E params key =
     (case js_get params key of
        None \<Rightarrow> Inl (MissingParam key)
      | Some s \<Rightarrow> (case cl_hdec E s of None \<Rightarrow> Inl (BadHex s) | Some b \<Rightarrow> Inr b))"

definition bigint_param :: "(string \<times> string) list \<Rightarrow> string \<Rightarrow> path_err + int" where
  "bigint_param params key =
     (case js_get params key of
        None \<Rightarrow> Inl (MissingParam key)
      | Some s \<Rightarrow> (case js_BigInt s of None \<Rightarrow> Inl (BadBigInt s) | Some n \<Rightarrow> Inr n))"

definition number_param :: "(string \<times> string) list \<Rightarrow> string \<Rightarrow> js_number" where
  "number_param params key = (case js_get params key of None \<Rightarrow> NaN | Some s \<Rightarrow> js_Number s)"

text \<open>\<open>bip68.decode\<close> works on the bits of its argument; \<open>NaN\<close> has none, as the code notes.\<close>

definition sequence_timelock :: "script_lib \<Rightarrow> js_number \<Rightarrow> path_err + RelativeTimelock" where
  "sequence_timelock L n = lift_timelock (sequenceToTimelock L (case n of NaN \<Rightarrow> 0 | JsInt i \<Rightarrow> i))"

definition deserializeCsvTimelock :: "script_lib \<Rightarrow> string option \<Rightarrow> path_err + RelativeTimelock" where
  "deserializeCsvTimelock L t =
     (if t \<noteq> None \<and> t \<noteq> Some [] then sequence_timelock L (js_Number (the t)) else Inr DEFAULT_TIMELOCK)"

definition extractPubKeyBytes :: "contract_lib \<Rightarrow> (string \<times> string) list \<Rightarrow> string \<Rightarrow> path_err + bytes" where
  "extractPubKeyBytes E params key =
     (case js_get params key of
        None \<Rightarrow> Inl (MissingParam key)
      | Some s \<Rightarrow>
          r_bind (lift_descriptor (r_bind (normalizeToDescriptor s) (extractPubKey (cl_hex E) (cl_expand E)))) (\<lambda>k.
          case cl_hdec E k of None \<Rightarrow> Inl (BadHex k) | Some b \<Rightarrow> Inr b))"

section \<open>Roles\<close>

datatype role = Sender | Receiver

definition lower_char :: "char \<Rightarrow> char" where
  "lower_char c = (let n = (of_char c :: nat) in if 65 \<le> n \<and> n \<le> 90 then char_of (n + 32) else c)"

definition extractRawPubKey :: "contract_lib \<Rightarrow> string \<Rightarrow> string option" where
  "extractRawPubKey E s =
     (if \<not> isDescriptor s then Some (map lower_char s)
      else case extractPubKey (cl_hex E) (cl_expand E) s of
        Inr k \<Rightarrow> Some (map lower_char k)
      | Inl _ \<Rightarrow> None)"

definition param_key :: "contract_lib \<Rightarrow> Contract \<Rightarrow> string \<Rightarrow> string option" where
  "param_key E contract key =
     (case js_get (c_params contract) key of
        Some s \<Rightarrow> if s = [] then None else extractRawPubKey E s
      | None \<Rightarrow> None)"

definition matchRole :: "string option \<Rightarrow> string option \<Rightarrow> string option \<Rightarrow> role option" where
  "matchRole senderKey receiverKey rawWalletKey =
     (if \<not> truthy_str rawWalletKey then None
      else if truthy_str senderKey \<and> rawWalletKey = senderKey then Some Sender
      else if truthy_str receiverKey \<and> rawWalletKey = receiverKey then Some Receiver
      else None)"

definition resolveRole :: "contract_lib \<Rightarrow> Contract \<Rightarrow> PathContext \<Rightarrow> role option" where
  "resolveRole E contract context =
     (if ctx_role context = Some ''sender'' then Some Sender
      else if ctx_role context = Some ''receiver'' then Some Receiver
      else
        let match = matchRole (param_key E contract ''sender'') (param_key E contract ''receiver'') in
        if truthy_str (walletDescriptor context)
        then (let walletDescriptorKey = extractRawPubKey E (the (walletDescriptor context)) in
              case match walletDescriptorKey of
                Some r \<Rightarrow> Some r
              | None \<Rightarrow>
                  if \<not> truthy_str walletDescriptorKey \<and> truthy_str (walletPubKey context)
                  then match (extractRawPubKey E (the (walletPubKey context)))
                  else None)
        else if truthy_str (walletPubKey context)
        then match (extractRawPubKey E (the (walletPubKey context)))
        else None)"

section \<open>Timelocks\<close>

definition CLTV_HEIGHT_THRESHOLD :: int where "CLTV_HEIGHT_THRESHOLD = 500000000"

datatype CltvMaturity = Satisfied | Pending | Unknown

definition nowSeconds :: "PathContext \<Rightarrow> int" where
  "nowSeconds context = (case chainTime context of Some t \<Rightarrow> t | None \<Rightarrow> currentTime context div 1000)"

definition isHeightLocktime :: "int \<Rightarrow> bool" where
  "isHeightLocktime locktime \<longleftrightarrow> locktime < CLTV_HEIGHT_THRESHOLD"

definition cltvMaturity :: "PathContext \<Rightarrow> int \<Rightarrow> CltvMaturity" where
  "cltvMaturity context locktime =
     (if locktime < CLTV_HEIGHT_THRESHOLD
      then (case blockHeight context of
              None \<Rightarrow> Unknown
            | Some h \<Rightarrow> if h \<ge> locktime then Satisfied else Pending)
      else if nowSeconds context \<ge> locktime then Satisfied else Pending)"

definition isCltvSatisfied :: "PathContext \<Rightarrow> int \<Rightarrow> bool" where
  "isCltvSatisfied context locktime \<longleftrightarrow> cltvMaturity context locktime = Satisfied"

definition isCsvSpendable :: "script_lib \<Rightarrow> PathContext \<Rightarrow> js_number option \<Rightarrow> path_err + bool" where
  "isCsvSpendable L context sequence =
     (case sequence of
        None \<Rightarrow> Inr True
      | Some n \<Rightarrow>
          (case ctx_vtxo context of
             None \<Rightarrow> Inr False
           | Some coin \<Rightarrow>
               r_bind (sequence_timelock L n) (\<lambda>timelock.
               case tl_type timelock of
                 InBlocks \<Rightarrow>
                   (case (blockHeight context, conf_height coin) of
                      (Some h, Some c) \<Rightarrow> Inr (h - c \<ge> tl_value timelock)
                    | _ \<Rightarrow> Inr False)
               | InSeconds \<Rightarrow>
                   (case conf_time coin of
                      Some t \<Rightarrow> Inr (nowSeconds context - t \<ge> tl_value timelock)
                    | None \<Rightarrow> Inr False))))"

definition assertVhtlcSpendableNow :: "contract_lib \<Rightarrow> Contract \<Rightarrow> PathContext \<Rightarrow> path_err + unit" where
  "assertVhtlcSpendableNow E contract context =
     (if \<not> collaborative context then Inr ()
      else if resolveRole E contract context \<noteq> Some Sender then Inr ()
      else case js_get (c_params contract) ''refundLocktime'' of
        None \<Rightarrow> Inr ()
      | Some raw \<Rightarrow>
          (case js_BigInt raw of
             None \<Rightarrow> Inr ()
           | Some refundLocktime \<Rightarrow>
               if cltvMaturity context refundLocktime \<noteq> Pending then Inr ()
               else Inl (CannotBeSpentYet refundLocktime)))"

section \<open>Forfeit and exit\<close>

text \<open>The two accessors shared by the default and the delegate script; calling one may throw.\<close>

record ForfeitExitScript =
  fe_forfeit :: "vscript_err + TapLeafScript"
  fe_exit :: "vscript_err + TapLeafScript"

definition select :: "TapLeafScript \<Rightarrow> bytes list option \<Rightarrow> js_number option \<Rightarrow> PathSelection" where
  "select leaf witness sequence = \<lparr>sel_leaf = leaf, sel_extraWitness = witness, sel_sequence = sequence\<rparr>"

definition exitSequence :: "Contract \<Rightarrow> js_number option" where
  "exitSequence contract =
     (case js_get (c_params contract) ''csvTimelock'' of
        Some s \<Rightarrow> if s = [] then None else Some (js_Number s)
      | None \<Rightarrow> None)"

definition selectForfeitOrExitPath ::
  "script_lib \<Rightarrow> ForfeitExitScript \<Rightarrow> Contract \<Rightarrow> PathContext \<Rightarrow> path_err + PathSelection option" where
  "selectForfeitOrExitPath L script contract context =
     (if collaborative context
      then r_bind (lift_vscript (fe_forfeit script)) (\<lambda>leaf. Inr (Some (select leaf None None)))
      else
        r_bind (isCsvSpendable L context (exitSequence contract)) (\<lambda>mature.
        if \<not> mature then Inr None
        else r_bind (lift_vscript (fe_exit script)) (\<lambda>leaf. Inr (Some (select leaf None (exitSequence contract))))))"

definition forfeit_paths :: "ForfeitExitScript \<Rightarrow> PathContext \<Rightarrow> path_err + PathSelection list" where
  "forfeit_paths script context =
     (if collaborative context
      then r_bind (lift_vscript (fe_forfeit script)) (\<lambda>leaf. Inr [select leaf None None])
      else Inr [])"

definition forfeitExitAllPaths ::
  "ForfeitExitScript \<Rightarrow> Contract \<Rightarrow> PathContext \<Rightarrow> path_err + PathSelection list" where
  "forfeitExitAllPaths script contract context =
     r_bind (forfeit_paths script context) (\<lambda>paths.
     r_bind (lift_vscript (fe_exit script)) (\<lambda>leaf.
     Inr (paths @ [select leaf None (exitSequence contract)])))"

definition forfeitExitSpendablePaths ::
  "script_lib \<Rightarrow> ForfeitExitScript \<Rightarrow> Contract \<Rightarrow> PathContext \<Rightarrow> path_err + PathSelection list" where
  "forfeitExitSpendablePaths L script contract context =
     r_bind (forfeit_paths script context) (\<lambda>paths.
     r_bind (isCsvSpendable L context (exitSequence contract)) (\<lambda>mature.
     if mature
     then r_bind (lift_vscript (fe_exit script)) (\<lambda>leaf. Inr (paths @ [select leaf None (exitSequence contract)]))
     else Inr paths))"

section \<open>The default and the delegate handler\<close>

definition Default_deserializeParams :: "contract_lib \<Rightarrow> (string \<times> string) list \<Rightarrow> path_err + DefaultOptions" where
  "Default_deserializeParams E params =
     r_bind (extractPubKeyBytes E params ''pubKey'') (\<lambda>pubKey.
     r_bind (extractPubKeyBytes E params ''serverPubKey'') (\<lambda>serverPubKey.
     r_bind (deserializeCsvTimelock (cl_script E) (js_get params ''csvTimelock'')) (\<lambda>csvTimelock.
     Inr \<lparr>opt_pubKey = pubKey, opt_serverPubKey = serverPubKey, opt_csvTimelock = csvTimelock\<rparr>)))"

definition Default_serializeParams :: "contract_lib \<Rightarrow> DefaultOptions \<Rightarrow> path_err + (string \<times> string) list" where
  "Default_serializeParams E params =
     r_bind (lift_timelock (timelockToSequence (cl_script E) (opt_csvTimelock params))) (\<lambda>csv.
     Inr [(''pubKey'', cl_hex E (opt_pubKey params)), (''serverPubKey'', cl_hex E (opt_serverPubKey params)),
          (''csvTimelock'', int_str csv)])"

definition new_default :: "contract_lib \<Rightarrow> DefaultOptions \<Rightarrow> path_err + DefaultScript" where
  "new_default E options =
     lift_vscript (DefaultVtxo_new (cl_script E) (cl_hex E) (vl_leafVersion (cl_vhtlc E)) (vl_p2tr (cl_vhtlc E)) options)"

definition Default_createScript :: "contract_lib \<Rightarrow> (string \<times> string) list \<Rightarrow> path_err + DefaultScript" where
  "Default_createScript E params = r_bind (Default_deserializeParams E params) (new_default E)"

definition default_accessors :: "contract_lib \<Rightarrow> DefaultScript \<Rightarrow> ForfeitExitScript" where
  "default_accessors E v = \<lparr>fe_forfeit = DefaultVtxo_forfeit (cl_hex E) v, fe_exit = DefaultVtxo_exit (cl_hex E) v\<rparr>"

definition Default_selectPath ::
  "contract_lib \<Rightarrow> DefaultScript \<Rightarrow> Contract \<Rightarrow> PathContext \<Rightarrow> path_err + PathSelection option" where
  "Default_selectPath E script contract context =
     selectForfeitOrExitPath (cl_script E) (default_accessors E script) contract context"

definition Default_getAllSpendingPaths ::
  "contract_lib \<Rightarrow> DefaultScript \<Rightarrow> Contract \<Rightarrow> PathContext \<Rightarrow> path_err + PathSelection list" where
  "Default_getAllSpendingPaths E script contract context = forfeitExitAllPaths (default_accessors E script) contract context"

definition Default_getSpendablePaths ::
  "contract_lib \<Rightarrow> DefaultScript \<Rightarrow> Contract \<Rightarrow> PathContext \<Rightarrow> path_err + PathSelection list" where
  "Default_getSpendablePaths E script contract context =
     forfeitExitSpendablePaths (cl_script E) (default_accessors E script) contract context"

definition Delegate_deserializeParams :: "contract_lib \<Rightarrow> (string \<times> string) list \<Rightarrow> path_err + DelegateOptions" where
  "Delegate_deserializeParams E params =
     r_bind (extractPubKeyBytes E params ''pubKey'') (\<lambda>pubKey.
     r_bind (extractPubKeyBytes E params ''serverPubKey'') (\<lambda>serverPubKey.
     r_bind (extractPubKeyBytes E params ''delegatePubKey'') (\<lambda>delegatePubKey.
     r_bind (deserializeCsvTimelock (cl_script E) (js_get params ''csvTimelock'')) (\<lambda>csvTimelock.
     Inr \<lparr>opt_pubKey = pubKey, opt_serverPubKey = serverPubKey, opt_csvTimelock = csvTimelock,
          opt_delegatePubKey = delegatePubKey\<rparr>))))"

definition Delegate_serializeParams :: "contract_lib \<Rightarrow> DelegateOptions \<Rightarrow> path_err + (string \<times> string) list" where
  "Delegate_serializeParams E params =
     r_bind (lift_timelock (timelockToSequence (cl_script E) (opt_csvTimelock params))) (\<lambda>csv.
     Inr [(''pubKey'', cl_hex E (opt_pubKey params)), (''serverPubKey'', cl_hex E (opt_serverPubKey params)),
          (''delegatePubKey'', cl_hex E (opt_delegatePubKey params)), (''csvTimelock'', int_str csv)])"

definition new_delegate :: "contract_lib \<Rightarrow> DelegateOptions \<Rightarrow> path_err + DelegateScript" where
  "new_delegate E options =
     lift_vscript (DelegateVtxo_new (cl_script E) (cl_hex E) (vl_leafVersion (cl_vhtlc E)) (vl_p2tr (cl_vhtlc E)) options)"

definition Delegate_createScript :: "contract_lib \<Rightarrow> (string \<times> string) list \<Rightarrow> path_err + DelegateScript" where
  "Delegate_createScript E params = r_bind (Delegate_deserializeParams E params) (new_delegate E)"

definition delegate_accessors :: "contract_lib \<Rightarrow> DelegateScript \<Rightarrow> ForfeitExitScript" where
  "delegate_accessors E v = \<lparr>fe_forfeit = DelegateVtxo_forfeit (cl_hex E) v, fe_exit = DelegateVtxo_exit (cl_hex E) v\<rparr>"

definition Delegate_selectPath ::
  "contract_lib \<Rightarrow> DelegateScript \<Rightarrow> Contract \<Rightarrow> PathContext \<Rightarrow> path_err + PathSelection option" where
  "Delegate_selectPath E script contract context =
     selectForfeitOrExitPath (cl_script E) (delegate_accessors E script) contract context"

definition Delegate_getAllSpendingPaths ::
  "contract_lib \<Rightarrow> DelegateScript \<Rightarrow> Contract \<Rightarrow> PathContext \<Rightarrow> path_err + PathSelection list" where
  "Delegate_getAllSpendingPaths E script contract context =
     r_bind (forfeitExitAllPaths (delegate_accessors E script) contract context) (\<lambda>paths.
     if collaborative context
     then r_bind (lift_vscript (DelegateVtxo_delegate (cl_hex E) script)) (\<lambda>leaf. Inr (paths @ [select leaf None None]))
     else Inr paths)"

definition Delegate_getSpendablePaths ::
  "contract_lib \<Rightarrow> DelegateScript \<Rightarrow> Contract \<Rightarrow> PathContext \<Rightarrow> path_err + PathSelection list" where
  "Delegate_getSpendablePaths E script contract context =
     forfeitExitSpendablePaths (cl_script E) (delegate_accessors E script) contract context"

section \<open>The VHTLC handler\<close>

definition base_params :: "contract_lib \<Rightarrow> VhtlcOptions \<Rightarrow> path_err + (string \<times> string) list" where
  "base_params E params =
     (let L = cl_script E; henc = cl_hex E in
     r_bind (lift_timelock (timelockToSequence L (vo_unilateralClaimDelay params))) (\<lambda>claimDelay.
     r_bind (lift_timelock (timelockToSequence L (vo_unilateralRefundDelay params))) (\<lambda>refundDelay.
     r_bind (lift_timelock (timelockToSequence L (vo_unilateralRefundWithoutReceiverDelay params))) (\<lambda>refundNoReceiverDelay.
     Inr [(''sender'', henc (vo_sender params)), (''receiver'', henc (vo_receiver params)),
          (''server'', henc (vo_server params)), (''hash'', henc (vo_preimageHash params)),
          (''refundLocktime'', int_str (vo_refundLocktime params)), (''claimDelay'', int_str claimDelay),
          (''refundDelay'', int_str refundDelay), (''refundNoReceiverDelay'', int_str refundNoReceiverDelay)]))))"

definition Vhtlc_serializeParams :: "contract_lib \<Rightarrow> VhtlcOptions \<Rightarrow> path_err + (string \<times> string) list" where
  "Vhtlc_serializeParams E params = base_params E params"

definition parse_base ::
  "contract_lib \<Rightarrow> (string \<times> string) list \<Rightarrow> ni_claim option \<Rightarrow> ni_refund option \<Rightarrow> vhtlc_asset option
     \<Rightarrow> path_err + VhtlcOptions" where
  "parse_base E params claim refund asset =
     (let L = cl_script E in
     r_bind (hex_param E params ''sender'') (\<lambda>sender.
     r_bind (hex_param E params ''receiver'') (\<lambda>receiver.
     r_bind (hex_param E params ''server'') (\<lambda>server.
     r_bind (hex_param E params ''hash'') (\<lambda>preimageHash.
     r_bind (bigint_param params ''refundLocktime'') (\<lambda>refundLocktime.
     r_bind (sequence_timelock L (number_param params ''claimDelay'')) (\<lambda>claimDelay.
     r_bind (sequence_timelock L (number_param params ''refundDelay'')) (\<lambda>refundDelay.
     r_bind (sequence_timelock L (number_param params ''refundNoReceiverDelay'')) (\<lambda>refundNoReceiverDelay.
     Inr \<lparr>vo_sender = sender, vo_receiver = receiver, vo_server = server, vo_preimageHash = preimageHash,
          vo_refundLocktime = refundLocktime, vo_unilateralClaimDelay = claimDelay,
          vo_unilateralRefundDelay = refundDelay,
          vo_unilateralRefundWithoutReceiverDelay = refundNoReceiverDelay,
          vo_nonInteractiveClaim = claim, vo_nonInteractiveRefund = refund, vo_asset = asset\<rparr>)))))))))"

definition Vhtlc_deserializeParams :: "contract_lib \<Rightarrow> (string \<times> string) list \<Rightarrow> path_err + VhtlcOptions" where
  "Vhtlc_deserializeParams E params = parse_base E params None None None"

definition Vhtlc_createScript :: "contract_lib \<Rightarrow> (string \<times> string) list \<Rightarrow> path_err + VhtlcScript" where
  "Vhtlc_createScript E params =
     r_bind (Vhtlc_deserializeParams E params) (\<lambda>typed. lift_leaf (VHTLC_Script (cl_vhtlc E) typed))"

definition preimage_path ::
  "contract_lib \<Rightarrow> (vhtlc_err + TapLeafScript) \<Rightarrow> string \<Rightarrow> js_number option \<Rightarrow> path_err + PathSelection" where
  "preimage_path E leaf preimage sequence =
     r_bind (lift_leaf leaf) (\<lambda>leaf.
     case cl_hdec E preimage of
       None \<Rightarrow> Inl (BadHex preimage)
     | Some b \<Rightarrow> Inr (select leaf (Some [b]) sequence))"

definition plain_path :: "(vhtlc_err + TapLeafScript) \<Rightarrow> js_number option \<Rightarrow> path_err + PathSelection" where
  "plain_path leaf sequence = r_bind (lift_leaf leaf) (\<lambda>leaf. Inr (select leaf None sequence))"

definition one_path :: "bool \<Rightarrow> path_err + PathSelection \<Rightarrow> path_err + PathSelection list" where
  "one_path c p = (if c then r_bind p (\<lambda>p. Inr [p]) else Inr [])"

definition Vhtlc_selectPath ::
  "contract_lib \<Rightarrow> VhtlcScript \<Rightarrow> Contract \<Rightarrow> PathContext \<Rightarrow> path_err + PathSelection option" where
  "Vhtlc_selectPath E script contract context =
     (let henc = cl_hex E; preimage = js_get (c_params contract) ''preimage'';
          role = resolveRole E contract context in
     r_bind (bigint_param (c_params contract) ''refundLocktime'') (\<lambda>refundLocktime.
     case role of
       None \<Rightarrow> Inr None
     | Some role \<Rightarrow>
         if collaborative context
         then
           if role = Receiver \<and> truthy_str preimage
           then r_bind (preimage_path E (vhtlc_claim henc script) (the preimage) None) (\<lambda>p. Inr (Some p))
           else if role = Sender \<and> isCltvSatisfied context refundLocktime
           then r_bind (plain_path (refundWithoutReceiver henc script) None) (\<lambda>p. Inr (Some p))
           else Inr None
         else
           if role = Receiver \<and> truthy_str preimage
           then (let sequence = number_param (c_params contract) ''claimDelay'' in
                 r_bind (isCsvSpendable (cl_script E) context (Some sequence)) (\<lambda>mature.
                 if \<not> mature then Inr None
                 else r_bind (preimage_path E (unilateralClaim henc script) (the preimage) (Some sequence)) (\<lambda>p. Inr (Some p))))
           else if role = Sender
           then (let sequence = number_param (c_params contract) ''refundNoReceiverDelay'' in
                 r_bind (isCsvSpendable (cl_script E) context (Some sequence)) (\<lambda>mature.
                 if \<not> mature then Inr None
                 else r_bind (plain_path (unilateralRefundWithoutReceiver henc script) (Some sequence)) (\<lambda>p. Inr (Some p))))
           else Inr None))"

definition Vhtlc_getAllSpendingPaths ::
  "contract_lib \<Rightarrow> VhtlcScript \<Rightarrow> Contract \<Rightarrow> PathContext \<Rightarrow> path_err + PathSelection list" where
  "Vhtlc_getAllSpendingPaths E script contract context =
     (let henc = cl_hex E; preimage = js_get (c_params contract) ''preimage'' in
     case resolveRole E contract context of
       None \<Rightarrow> Inr []
     | Some role \<Rightarrow>
         if collaborative context
         then
           r_bind (one_path (role = Receiver \<and> truthy_str preimage)
             (preimage_path E (vhtlc_claim henc script) (the preimage) None)) (\<lambda>a.
           r_bind (one_path (role = Sender) (plain_path (refundWithoutReceiver henc script) None)) (\<lambda>b.
           Inr (a @ b)))
         else
           r_bind (one_path (role = Receiver \<and> truthy_str preimage)
             (preimage_path E (unilateralClaim henc script) (the preimage)
               (Some (number_param (c_params contract) ''claimDelay'')))) (\<lambda>a.
           r_bind (one_path (role = Sender) (plain_path (unilateralRefundWithoutReceiver henc script)
               (Some (number_param (c_params contract) ''refundNoReceiverDelay'')))) (\<lambda>b.
           Inr (a @ b))))"

definition csv_path ::
  "contract_lib \<Rightarrow> PathContext \<Rightarrow> bool \<Rightarrow> js_number \<Rightarrow> (js_number option \<Rightarrow> path_err + PathSelection)
     \<Rightarrow> path_err + PathSelection list" where
  "csv_path E context c sequence p =
     (if c
      then r_bind (isCsvSpendable (cl_script E) context (Some sequence)) (\<lambda>mature. one_path mature (p (Some sequence)))
      else Inr [])"

definition Vhtlc_getSpendablePaths ::
  "contract_lib \<Rightarrow> VhtlcScript \<Rightarrow> Contract \<Rightarrow> PathContext \<Rightarrow> path_err + PathSelection list" where
  "Vhtlc_getSpendablePaths E script contract context =
     (let henc = cl_hex E; preimage = js_get (c_params contract) ''preimage'' in
     case resolveRole E contract context of
       None \<Rightarrow> Inr []
     | Some role \<Rightarrow>
         r_bind (bigint_param (c_params contract) ''refundLocktime'') (\<lambda>refundLocktime.
         if collaborative context
         then
           r_bind (one_path (role = Receiver \<and> truthy_str preimage)
             (preimage_path E (vhtlc_claim henc script) (the preimage) None)) (\<lambda>a.
           r_bind (one_path (role = Sender \<and> isCltvSatisfied context refundLocktime)
             (plain_path (refundWithoutReceiver henc script) None)) (\<lambda>b.
           Inr (a @ b)))
         else
           r_bind (csv_path E context (role = Receiver \<and> truthy_str preimage)
             (number_param (c_params contract) ''claimDelay'')
             (preimage_path E (unilateralClaim henc script) (the preimage))) (\<lambda>a.
           r_bind (csv_path E context (role = Sender) (number_param (c_params contract) ''refundNoReceiverDelay'')
             (plain_path (unilateralRefundWithoutReceiver henc script))) (\<lambda>b.
           Inr (a @ b)))))"

record DerivedContractTapscripts =
  dt_forfeitTapLeafScript :: TapLeafScript
  dt_intentTapLeafScript :: TapLeafScript
  dt_tapTree :: bytes

definition Vhtlc_deriveTapscripts :: "contract_lib \<Rightarrow> VhtlcScript \<Rightarrow> path_err + DerivedContractTapscripts" where
  "Vhtlc_deriveTapscripts E script =
     r_bind (lift_leaf (refundWithoutReceiver (cl_hex E) script)) (\<lambda>leaf.
     Inr \<lparr>dt_forfeitTapLeafScript = leaf, dt_intentTapLeafScript = leaf,
          dt_tapTree = VtxoScript_encode (vl_leafVersion (cl_vhtlc E)) (cl_taptree E) (base_script script)\<rparr>)"

section \<open>Parameters of the second version\<close>

definition parseGroupIndex :: "string \<Rightarrow> path_err + int" where
  "parseGroupIndex raw =
     (if raw \<noteq> [] \<and> list_all is_digit raw \<and> (hd raw \<noteq> CHR ''0'' \<or> length raw = 1) then Inr (int (parse_nat raw))
      else Inl (BadGroupIndex raw))"

definition decodeCovenantLeaf ::
  "contract_lib \<Rightarrow> (string \<times> string) list \<Rightarrow> string \<Rightarrow> string \<Rightarrow> string \<Rightarrow> path_err + (bytes \<times> bytes) option" where
  "decodeCovenantLeaf E params destinationKey emulatorKey label =
     (let destination = js_get params destinationKey; emulator = js_get params emulatorKey in
      if \<not> truthy_str destination \<and> \<not> truthy_str emulator then Inr None
      else if \<not> truthy_str destination \<or> \<not> truthy_str emulator then Inl (HalfCovenant label)
      else
        r_bind (hex_param E params destinationKey) (\<lambda>d.
        r_bind (hex_param E params emulatorKey) (\<lambda>e.
        Inr (Some (d, e)))))"

definition claim_params :: "hex_encode \<Rightarrow> ni_claim option \<Rightarrow> (string \<times> string) list" where
  "claim_params henc claim =
     (case claim of None \<Rightarrow> []
      | Some c \<Rightarrow>
          [(''nonInteractiveClaimReceiverPkScript'', henc (nic_receiverPkScript c)),
           (''nonInteractiveClaimEmulatorPubkey'', henc (nic_emulatorPubkey c))]
          @ (case nic_strict c of None \<Rightarrow> []
             | Some strict \<Rightarrow>
                 [(''strictClaimAmount'', int_str (strict_amount strict))]
                 @ (case strict_assetAmount strict of None \<Rightarrow> []
                    | Some a \<Rightarrow> [(''strictClaimAssetAmount'', int_str a)])))"

definition refund_params :: "hex_encode \<Rightarrow> ni_refund option \<Rightarrow> (string \<times> string) list" where
  "refund_params henc refund =
     (case refund of None \<Rightarrow> []
      | Some c \<Rightarrow>
          [(''nonInteractiveRefundSenderPkScript'', henc (nir_senderPkScript c)),
           (''nonInteractiveRefundEmulatorPubkey'', henc (nir_emulatorPubkey c))])"

definition asset_params :: "hex_encode \<Rightarrow> vhtlc_asset option \<Rightarrow> (string \<times> string) list" where
  "asset_params henc asset =
     (case asset of None \<Rightarrow> []
      | Some a \<Rightarrow> [(''assetTxid'', henc (asset_txid a)), (''assetGroupIndex'', int_str (asset_groupIndex a))])"

definition VhtlcV2_serializeParams :: "contract_lib \<Rightarrow> VhtlcOptions \<Rightarrow> path_err + (string \<times> string) list" where
  "VhtlcV2_serializeParams E params =
     r_bind (base_params E params) (\<lambda>base.
     Inr (base @ claim_params (cl_hex E) (vo_nonInteractiveClaim params)
       @ refund_params (cl_hex E) (vo_nonInteractiveRefund params) @ asset_params (cl_hex E) (vo_asset params)))"

definition parse_strict :: "(string \<times> string) list \<Rightarrow> path_err + strict_claim option" where
  "parse_strict params =
     (if js_get params ''strictClaimAmount'' = None then Inr None
      else
        r_bind (bigint_param params ''strictClaimAmount'') (\<lambda>amount.
        r_bind (if js_get params ''strictClaimAssetAmount'' = None then Inr None
                else r_bind (bigint_param params ''strictClaimAssetAmount'') (\<lambda>a. Inr (Some a))) (\<lambda>assetAmount.
        Inr (Some \<lparr>strict_amount = amount, strict_assetAmount = assetAmount\<rparr>))))"

definition VhtlcV2_deserializeParams :: "contract_lib \<Rightarrow> (string \<times> string) list \<Rightarrow> path_err + VhtlcOptions" where
  "VhtlcV2_deserializeParams E params =
     r_bind (decodeCovenantLeaf E params ''nonInteractiveClaimReceiverPkScript'' ''nonInteractiveClaimEmulatorPubkey''
       ''nonInteractiveClaim'') (\<lambda>claim.
     r_bind (decodeCovenantLeaf E params ''nonInteractiveRefundSenderPkScript'' ''nonInteractiveRefundEmulatorPubkey''
       ''nonInteractiveRefund'') (\<lambda>refund.
     if (js_get params ''assetTxid'' = None) \<noteq> (js_get params ''assetGroupIndex'' = None) then Inl IncompleteAsset
     else if js_get params ''strictClaimAssetAmount'' \<noteq> None \<and> js_get params ''strictClaimAmount'' = None
     then Inl StrictAssetWithoutAmount
     else
       r_bind (case (js_get params ''assetTxid'', js_get params ''assetGroupIndex'') of
                 (Some _, Some g) \<Rightarrow>
                   r_bind (hex_param E params ''assetTxid'') (\<lambda>txid.
                   r_bind (parseGroupIndex g) (\<lambda>groupIndex.
                   Inr (Some \<lparr>asset_txid = txid, asset_groupIndex = groupIndex\<rparr>)))
               | _ \<Rightarrow> Inr None) (\<lambda>asset.
       r_bind (parse_base E params None None asset) (\<lambda>base.
       r_bind (case claim of None \<Rightarrow> Inr None
               | Some (destination, emulator) \<Rightarrow>
                   r_bind (parse_strict params) (\<lambda>strict.
                   Inr (Some \<lparr>nic_receiverPkScript = destination, nic_emulatorPubkey = emulator, nic_strict = strict\<rparr>)))
         (\<lambda>nic.
       Inr (base\<lparr>vo_nonInteractiveClaim := nic,
                 vo_nonInteractiveRefund := (case refund of None \<Rightarrow> None
                   | Some (destination, emulator) \<Rightarrow>
                       Some \<lparr>nir_senderPkScript = destination, nir_emulatorPubkey = emulator\<rparr>)\<rparr>))))))"

definition VhtlcV2_createScript :: "contract_lib \<Rightarrow> (string \<times> string) list \<Rightarrow> path_err + VhtlcScript" where
  "VhtlcV2_createScript E params =
     r_bind (VhtlcV2_deserializeParams E params) (\<lambda>typed. lift_leaf (VHTLC_ScriptV2 (cl_vhtlc E) typed))"

section \<open>A contract survives storage\<close>

lemma nat_str_lead: "hd (nat_str n) \<noteq> CHR ''0'' \<or> length (nat_str n) = 1"
proof (induction n rule: nat_str.induct)
  case (1 n)
  have zero: "digit_char d = CHR ''0'' \<Longrightarrow> d < 10 \<Longrightarrow> d = 0" for d
    using of_digit_char [of d] by auto
  have long: "2 \<le> length (nat_str m)" if "\<not> m < 10" for m
    using that nat_str_digits [of "m div 10"] by (cases "nat_str (m div 10)") (simp_all add: nat_str.simps [of m])
  show ?case
  proof (cases "n < 10")
    case False
    have "hd (nat_str (n div 10)) \<noteq> CHR ''0''"
    proof (cases "n div 10 < 10")
      case True
      then show ?thesis
        using False zero [of "n div 10"] by (auto simp: nat_str.simps [of "n div 10"])
    qed (use 1 False long [of "n div 10"] in auto)
    then show ?thesis
      using False nat_str_digits [of "n div 10"] by (simp add: nat_str.simps [of n])
  qed (simp add: nat_str.simps [of n])
qed

lemma parseGroupIndex_str: "0 \<le> g \<Longrightarrow> parseGroupIndex (int_str g) = Inr g"
  using nat_str_digits [of "nat g"] nat_str_lead [of "nat g"] by (simp add: parseGroupIndex_def int_str_def)

lemma sequence_written:
  assumes "script_library L canon" and "timelockToSequence L t = Inr n"
  shows "sequence_timelock L (JsInt n) = Inr t"
  using script_library.sequence_roundtrip [OF assms] by (simp add: sequence_timelock_def lift_timelock_def)

lemma hex_written:
  assumes "hex_laws (cl_hex E) (cl_hdec E)" and "js_get ps k = Some (cl_hex E b)"
  shows "hex_param E ps k = Inr b"
  using assms by (simp add: hex_param_def hex_laws_def)

lemma number_written: "js_get ps k = Some (int_str n) \<Longrightarrow> number_param ps k = JsInt n"
  by (simp add: number_param_def)

lemma bigint_written: "js_get ps k = Some (int_str n) \<Longrightarrow> bigint_param ps k = Inr n"
  by (simp add: bigint_param_def)

lemma parse_base_written:
  assumes "hex_laws (cl_hex E) (cl_hdec E)" and "script_library (cl_script E) canon" and "base_params E p = Inr base"
  shows "parse_base E (base @ opt) c r a = Inr (p\<lparr>vo_nonInteractiveClaim := c, vo_nonInteractiveRefund := r, vo_asset := a\<rparr>)"
    and "k \<notin> {''sender'', ''receiver'', ''server'', ''hash'', ''refundLocktime'', ''claimDelay'', ''refundDelay'',
      ''refundNoReceiverDelay''} \<Longrightarrow> js_get (base @ opt) k = js_get opt k"
proof -
  let ?L = "cl_script E" and ?henc = "cl_hex E"
  obtain n1 n2 n3 where n: "timelockToSequence ?L (vo_unilateralClaimDelay p) = Inr n1"
    "timelockToSequence ?L (vo_unilateralRefundDelay p) = Inr n2"
    "timelockToSequence ?L (vo_unilateralRefundWithoutReceiverDelay p) = Inr n3"
    and base: "base = [(''sender'', ?henc (vo_sender p)), (''receiver'', ?henc (vo_receiver p)),
      (''server'', ?henc (vo_server p)), (''hash'', ?henc (vo_preimageHash p)),
      (''refundLocktime'', int_str (vo_refundLocktime p)), (''claimDelay'', int_str n1),
      (''refundDelay'', int_str n2), (''refundNoReceiverDelay'', int_str n3)]"
    using assms(3) by (auto simp: base_params_def r_bind_eq_Inr Let_def)
  show "k \<notin> {''sender'', ''receiver'', ''server'', ''hash'', ''refundLocktime'', ''claimDelay'', ''refundDelay'',
      ''refundNoReceiverDelay''} \<Longrightarrow> js_get (base @ opt) k = js_get opt k"
    by (auto simp: base)
  show "parse_base E (base @ opt) c r a = Inr (p\<lparr>vo_nonInteractiveClaim := c, vo_nonInteractiveRefund := r, vo_asset := a\<rparr>)"
    using sequence_written [OF assms(2) n(1)] sequence_written [OF assms(2) n(2)] sequence_written [OF assms(2) n(3)]
    by (simp add: parse_base_def Let_def base hex_written [OF assms(1)] number_written bigint_written)
qed

lemma serialized_delays:
  assumes "BaseScript_new (cl_vhtlc E) p cond = Inr v"
  shows "\<exists>base. base_params E p = Inr base"
proof -
  have "\<exists>n. timelockToSequence L t = Inr n" if "closure (CSVMultisigTapscript_encode L t m) = Inr s" for L t m s
    using that by (auto simp: closure_Inr CSVMultisigTapscript_encode_def r_bind_eq_Inr)
  moreover have "\<exists>n. timelockToSequence L t = Inr n" if "closure (ConditionCSVMultisigTapscript_encode L c t m) = Inr s" for L c t m s
    using that by (auto simp: closure_Inr ConditionCSVMultisigTapscript_encode_def CSVMultisigTapscript_encode_def r_bind_eq_Inr)
  ultimately have "\<exists>n1. timelockToSequence (cl_script E) (vo_unilateralClaimDelay p) = Inr n1"
    "\<exists>n2. timelockToSequence (cl_script E) (vo_unilateralRefundDelay p) = Inr n2"
    "\<exists>n3. timelockToSequence (cl_script E) (vo_unilateralRefundWithoutReceiverDelay p) = Inr n3"
    using assms by (auto simp: BaseScript_new_def r_bind_eq_Inr Let_def cl_script_def)
  then show ?thesis
    by (auto simp: base_params_def lift_timelock_def Let_def)
qed

lemma optional_params:
  "k \<notin> {''nonInteractiveClaimReceiverPkScript'', ''nonInteractiveClaimEmulatorPubkey'', ''strictClaimAmount'',
      ''strictClaimAssetAmount''} \<Longrightarrow> js_get (claim_params henc c @ opt) k = js_get opt k"
  "k \<notin> {''nonInteractiveRefundSenderPkScript'', ''nonInteractiveRefundEmulatorPubkey''} \<Longrightarrow>
     js_get (refund_params henc r @ opt) k = js_get opt k"
  "k \<notin> {''assetTxid'', ''assetGroupIndex''} \<Longrightarrow> js_get (asset_params henc a) k = None"
  by (auto simp: claim_params_def refund_params_def asset_params_def split: option.splits)

text \<open>What an accepted contract guarantees about its optional parameters.\<close>

definition optional_ok :: "VhtlcOptions \<Rightarrow> bool" where
  "optional_ok p \<longleftrightarrow>
     (\<forall>c. vo_nonInteractiveClaim p = Some c \<longrightarrow> nic_receiverPkScript c \<noteq> [] \<and> nic_emulatorPubkey c \<noteq> [])
     \<and> (\<forall>c. vo_nonInteractiveRefund p = Some c \<longrightarrow> nir_senderPkScript c \<noteq> [] \<and> nir_emulatorPubkey c \<noteq> [])
     \<and> (\<forall>a. vo_asset p = Some a \<longrightarrow> 0 \<le> asset_groupIndex a)"

lemma accepted_optional:
  assumes "BaseScript_new E p cond = Inr v"
  shows "optional_ok p"
proof -
  obtain c nic nir where valid: "validateOptions p = Inr ()" and nic: "claim_leaf E c p = Inr nic" and nir: "refund_leaf E p = Inr nir"
    using assms by (auto simp: BaseScript_new_def r_bind_eq_Inr Let_def)
  have pinned: "k \<noteq> [] \<and> s \<noteq> []" if "check_pinned k s = Inr ()" for k s
    using that by (auto simp: check_pinned_def isP2trPkScript_def split: if_splits)
  have asset: "0 \<le> asset_groupIndex a" if "enforcePayToMaybeAsset E d (Some a) s = Inr x" for a d s x
    using covenant_written [OF that] by simp
  have "vo_asset p = None \<or> vo_nonInteractiveClaim p \<noteq> None \<or> vo_nonInteractiveRefund p \<noteq> None"
    using valid by (auto simp: validateOptions_def r_bind_eq_Inr)
  moreover have "check_pinned (nic_emulatorPubkey c) (nic_receiverPkScript c) = Inr ()"
    if "vo_nonInteractiveClaim p = Some c" for c
    using valid that by (auto simp: validateOptions_def r_bind_eq_Inr)
  moreover have "check_pinned (nir_emulatorPubkey c) (nir_senderPkScript c) = Inr ()"
    if "vo_nonInteractiveRefund p = Some c" for c
    using valid that by (auto simp: validateOptions_def r_bind_eq_Inr)
  moreover have "0 \<le> asset_groupIndex a" if "vo_asset p = Some a" "vo_nonInteractiveClaim p = Some c" for a c
    using nic that asset by (auto simp: claim_leaf_def r_bind_eq_Inr)
  moreover have "0 \<le> asset_groupIndex a" if "vo_asset p = Some a" "vo_nonInteractiveRefund p = Some c" for a c
    using nir that asset by (auto simp: refund_leaf_def r_bind_eq_Inr)
  ultimately show ?thesis
    using pinned unfolding optional_ok_def by (metis not_Some_eq)
qed

lemma covenant_leaf_written:
  assumes "hex_laws (cl_hex E) (cl_hdec E)" and "js_get ps dk = Some (cl_hex E d)" and "js_get ps ek = Some (cl_hex E e)"
    and "d \<noteq> []" and "e \<noteq> []"
  shows "decodeCovenantLeaf E ps dk ek l = Inr (Some (d, e))"
proof -
  have "cl_hex E d \<noteq> []" "cl_hex E e \<noteq> []"
    using assms(1,4,5) by (auto simp: hex_laws_def)
  then show ?thesis
    using assms(2,3) by (simp add: decodeCovenantLeaf_def hex_written [OF assms(1)])
qed

lemma covenant_leaf_absent:
  "js_get ps dk = None \<Longrightarrow> js_get ps ek = None \<Longrightarrow> decodeCovenantLeaf E ps dk ek l = Inr None"
  by (simp add: decodeCovenantLeaf_def)

lemma deserialize_serialize:
  assumes hex: "hex_laws (cl_hex E) (cl_hdec E)" and "script_library (cl_script E) canon"
    and "VhtlcV2_serializeParams E p = Inr ps" and ok: "optional_ok p"
  shows "VhtlcV2_deserializeParams E ps = Inr p"
proof -
  let ?henc = "cl_hex E"
  let ?opt = "claim_params ?henc (vo_nonInteractiveClaim p) @ refund_params ?henc (vo_nonInteractiveRefund p)
    @ asset_params ?henc (vo_asset p)"
  obtain base where base: "base_params E p = Inr base" and ps: "ps = base @ ?opt"
    using assms(3) by (auto simp: VhtlcV2_serializeParams_def r_bind_eq_Inr)
  note get = parse_base_written(2) [OF hex assms(2) base]
  have claim: "decodeCovenantLeaf E ps ''nonInteractiveClaimReceiverPkScript'' ''nonInteractiveClaimEmulatorPubkey''
      ''nonInteractiveClaim'' = Inr (map_option (\<lambda>c. (nic_receiverPkScript c, nic_emulatorPubkey c)) (vo_nonInteractiveClaim p))"
    using ok by (cases "vo_nonInteractiveClaim p")
      (auto simp: ps get optional_params claim_params_def optional_ok_def covenant_leaf_absent intro!: covenant_leaf_written [OF hex])
  have refund: "decodeCovenantLeaf E ps ''nonInteractiveRefundSenderPkScript'' ''nonInteractiveRefundEmulatorPubkey''
      ''nonInteractiveRefund'' = Inr (map_option (\<lambda>c. (nir_senderPkScript c, nir_emulatorPubkey c)) (vo_nonInteractiveRefund p))"
    using ok by (cases "vo_nonInteractiveRefund p")
      (auto simp: ps get optional_params refund_params_def optional_ok_def covenant_leaf_absent intro!: covenant_leaf_written [OF hex])
  have asset: "js_get ps ''assetTxid'' = map_option (\<lambda>a. ?henc (asset_txid a)) (vo_asset p)"
    "js_get ps ''assetGroupIndex'' = map_option (\<lambda>a. int_str (asset_groupIndex a)) (vo_asset p)"
  proof -
    have "js_get ps k = js_get (asset_params ?henc (vo_asset p)) k" if "k = ''assetTxid'' \<or> k = ''assetGroupIndex''" for k
      using that unfolding ps by (elim disjE) (simp_all only: get optional_params(1,2) insert_iff empty_iff list.inject char.inject simp_thms not_False_eq_True list.distinct)
    then show "js_get ps ''assetTxid'' = map_option (\<lambda>a. ?henc (asset_txid a)) (vo_asset p)"
      "js_get ps ''assetGroupIndex'' = map_option (\<lambda>a. int_str (asset_groupIndex a)) (vo_asset p)"
      by (cases "vo_asset p"; simp add: asset_params_def)+
  qed
  have strict: "js_get ps ''strictClaimAmount'' = map_option (\<lambda>s. int_str (strict_amount s)) (Option.bind (vo_nonInteractiveClaim p) nic_strict)"
    "js_get ps ''strictClaimAssetAmount'' =
      Option.bind (Option.bind (vo_nonInteractiveClaim p) nic_strict) (\<lambda>s. map_option int_str (strict_assetAmount s))"
  proof -
    have "js_get ps k = js_get (claim_params ?henc (vo_nonInteractiveClaim p)) k"
      if "k = ''strictClaimAmount'' \<or> k = ''strictClaimAssetAmount''" for k
    proof -
      have "js_get (refund_params ?henc (vo_nonInteractiveRefund p) @ asset_params ?henc (vo_asset p)) k = None"
        using that by (elim disjE) (simp_all add: optional_params(2,3))
      moreover have "js_get ps k = js_get ?opt k"
        using that unfolding ps by (elim disjE) (simp_all add: get)
      ultimately show ?thesis
        by (simp add: js_get_append [of "claim_params _ _"] split: option.splits)
    qed
    then show "js_get ps ''strictClaimAmount'' = map_option (\<lambda>s. int_str (strict_amount s)) (Option.bind (vo_nonInteractiveClaim p) nic_strict)"
      "js_get ps ''strictClaimAssetAmount'' =
        Option.bind (Option.bind (vo_nonInteractiveClaim p) nic_strict) (\<lambda>s. map_option int_str (strict_assetAmount s))"
      by (simp_all add: claim_params_def split: option.splits)
  qed
  have parsed: "parse_strict ps = Inr (Option.bind (vo_nonInteractiveClaim p) nic_strict)"
  proof (cases "Option.bind (vo_nonInteractiveClaim p) nic_strict")
    case (Some st)
    then show ?thesis
      using strict by (cases st; cases "strict_assetAmount st") (simp_all add: parse_strict_def bigint_written)
  qed (use strict in \<open>simp add: parse_strict_def\<close>)
  have group: "(case (js_get ps ''assetTxid'', js_get ps ''assetGroupIndex'') of
        (Some _, Some g) \<Rightarrow>
          r_bind (hex_param E ps ''assetTxid'') (\<lambda>txid. r_bind (parseGroupIndex g) (\<lambda>groupIndex.
            Inr (Some \<lparr>asset_txid = txid, asset_groupIndex = groupIndex\<rparr>)))
      | _ \<Rightarrow> Inr None) = Inr (vo_asset p)"
  proof (cases "vo_asset p")
    case (Some a)
    then show ?thesis
      using asset ok hex_written [OF hex] by (cases a) (simp add: parseGroupIndex_str optional_ok_def)
  qed (use asset in simp)
  have base: "parse_base E ps None None (vo_asset p)
      = Inr (p\<lparr>vo_nonInteractiveClaim := None, vo_nonInteractiveRefund := None, vo_asset := vo_asset p\<rparr>)"
    unfolding ps by (rule parse_base_written(1) [OF hex assms(2) base])
  have complete: "(js_get ps ''assetTxid'' = None) = (js_get ps ''assetGroupIndex'' = None)"
    "\<not> (js_get ps ''strictClaimAssetAmount'' \<noteq> None \<and> js_get ps ''strictClaimAmount'' = None)"
    using asset strict by (cases "Option.bind (vo_nonInteractiveClaim p) nic_strict"; simp)+
  have nic: "(case map_option (\<lambda>c. (nic_receiverPkScript c, nic_emulatorPubkey c)) (vo_nonInteractiveClaim p) of
        None \<Rightarrow> Inr None
      | Some (destination, emulator) \<Rightarrow> r_bind (parse_strict ps) (\<lambda>strict.
          Inr (Some \<lparr>nic_receiverPkScript = destination, nic_emulatorPubkey = emulator, nic_strict = strict\<rparr>)))
      = (Inr (vo_nonInteractiveClaim p) :: path_err + ni_claim option)"
    using parsed by (cases "vo_nonInteractiveClaim p") simp_all
  have nir: "(case map_option (\<lambda>c. (nir_senderPkScript c, nir_emulatorPubkey c)) (vo_nonInteractiveRefund p) of
        None \<Rightarrow> None
      | Some (destination, emulator) \<Rightarrow> Some \<lparr>nir_senderPkScript = destination, nir_emulatorPubkey = emulator\<rparr>)
      = vo_nonInteractiveRefund p"
    by (cases "vo_nonInteractiveRefund p") simp_all
  show ?thesis
    unfolding VhtlcV2_deserializeParams_def claim refund using complete
    by (simp only: r_bind_Inr if_False group base nic nir not_True_eq_False refl) simp
qed

lemma Vhtlc_written:
  assumes "hex_laws (cl_hex E) (cl_hdec E)" and "script_library (cl_script E) canon" and "base_params E p = Inr base"
    and "vo_nonInteractiveClaim p = None" and "vo_nonInteractiveRefund p = None" and "vo_asset p = None"
  shows "Vhtlc_deserializeParams E base = Inr p"
  using parse_base_written(1) [OF assms(1-3), of "[]" None None None] assms(4-6) by (simp add: Vhtlc_deserializeParams_def)

text \<open>
  C32. A contract that can be built survives storage: its parameters are written, and the \<open>vhtlc-v2\<close> handler reads back
  the same options, covenants, quoted amounts and asset included, so the script it derives from the stored row is the one
  the options give. The \<open>vhtlc\<close> handler does the same for contracts without the optional leaves.
\<close>

theorem vhtlc_params_roundtrip:
  assumes "hex_laws (cl_hex E) (cl_hdec E)" and "script_library (cl_script E) canon"
    and "BaseScript_new (cl_vhtlc E) p condition = Inr v"
  shows "(\<exists>ps. VhtlcV2_serializeParams E p = Inr ps \<and> VhtlcV2_deserializeParams E ps = Inr p
      \<and> VhtlcV2_createScript E ps = lift_leaf (VHTLC_ScriptV2 (cl_vhtlc E) p))
    \<and> (vo_nonInteractiveClaim p = None \<and> vo_nonInteractiveRefund p = None \<and> vo_asset p = None \<longrightarrow>
      (\<exists>ps. Vhtlc_serializeParams E p = Inr ps \<and> Vhtlc_createScript E ps = lift_leaf (VHTLC_Script (cl_vhtlc E) p)))"
proof -
  obtain base where base: "base_params E p = Inr base"
    using serialized_delays [OF assms(3)] by blast
  then obtain ps where "VhtlcV2_serializeParams E p = Inr ps"
    by (simp add: VhtlcV2_serializeParams_def)
  then have "\<exists>ps. VhtlcV2_serializeParams E p = Inr ps \<and> VhtlcV2_deserializeParams E ps = Inr p
      \<and> VhtlcV2_createScript E ps = lift_leaf (VHTLC_ScriptV2 (cl_vhtlc E) p)"
    using deserialize_serialize [OF assms(1,2) _ accepted_optional [OF assms(3)]] by (simp add: VhtlcV2_createScript_def)
  moreover have "\<exists>ps. Vhtlc_serializeParams E p = Inr ps \<and> Vhtlc_createScript E ps = lift_leaf (VHTLC_Script (cl_vhtlc E) p)"
    if "vo_nonInteractiveClaim p = None \<and> vo_nonInteractiveRefund p = None \<and> vo_asset p = None"
    using Vhtlc_written [OF assms(1,2) base] that base by (simp add: Vhtlc_serializeParams_def Vhtlc_createScript_def)
  ultimately show ?thesis
    by blast
qed

definition sample_contract_lib :: contract_lib where
  "sample_contract_lib =
     \<lparr>cl_vhtlc = sample_vhtlc_lib, cl_hdec = bytes_of_hex, cl_expand = (\<lambda>net d. None),
      cl_taptree = \<lparr>tt_encode = (\<lambda>_. []), tt_decode = (\<lambda>_. None)\<rparr>\<rparr>"

theorem vhtlc_params_roundtrip_witness:
  "\<exists>ps. VhtlcV2_serializeParams sample_contract_lib sample_options = Inr ps
     \<and> VhtlcV2_deserializeParams sample_contract_lib ps = Inr sample_options"
proof -
  obtain v where "BaseScript_new (cl_vhtlc sample_contract_lib) sample_options preimageConditionScript = Inr v"
    using sample_vhtlc by (auto simp: VHTLC_Script_def sample_contract_lib_def)
  moreover have "hex_laws (cl_hex sample_contract_lib) (cl_hdec sample_contract_lib)"
    using hex_of_bytes_strings by (simp add: hex_strings_def cl_hex_def sample_contract_lib_def sample_vhtlc_lib_def)
  moreover have "script_library (cl_script sample_contract_lib) std_canon"
    using std.script_library_axioms by (simp add: cl_script_def sample_contract_lib_def sample_vhtlc_lib_def)
  ultimately show ?thesis
    using vhtlc_params_roundtrip by blast
qed

section \<open>The second version selects paths like the first\<close>

text \<open>\<open>vhtlcV2.ts\<close> repeats the methods of \<open>vhtlc.ts\<close> word for word.\<close>

definition VhtlcV2_selectPath ::
  "contract_lib \<Rightarrow> VhtlcScript \<Rightarrow> Contract \<Rightarrow> PathContext \<Rightarrow> path_err + PathSelection option" where
  "VhtlcV2_selectPath = Vhtlc_selectPath"

definition VhtlcV2_getAllSpendingPaths ::
  "contract_lib \<Rightarrow> VhtlcScript \<Rightarrow> Contract \<Rightarrow> PathContext \<Rightarrow> path_err + PathSelection list" where
  "VhtlcV2_getAllSpendingPaths = Vhtlc_getAllSpendingPaths"

definition VhtlcV2_getSpendablePaths ::
  "contract_lib \<Rightarrow> VhtlcScript \<Rightarrow> Contract \<Rightarrow> PathContext \<Rightarrow> path_err + PathSelection list" where
  "VhtlcV2_getSpendablePaths = Vhtlc_getSpendablePaths"

section \<open>What is offered and what is refused\<close>

lemma one_path_Inr: "one_path c p = Inr ps \<longleftrightarrow> (if c then \<exists>x. p = Inr x \<and> ps = [x] else ps = [])"
  by (auto simp: one_path_def r_bind_eq_Inr)

lemma csv_path_Inr:
  "csv_path E context c sequence p = Inr ps \<longleftrightarrow>
     (if c then \<exists>mature. isCsvSpendable (cl_script E) context (Some sequence) = Inr mature
            \<and> one_path mature (p (Some sequence)) = Inr ps
      else ps = [])"
  by (auto simp: csv_path_def r_bind_eq_Inr)

lemma r_bind_unit [simp]: "r_bind m Inr = m"
  by (cases m) simp_all

lemma one_path_False [simp]: "one_path False p = Inr []" "csv_path E context False n q = Inr []"
  by (simp_all add: one_path_def csv_path_def)

text \<open>The methods case by case: what the role is offered, now or at all, and what is selected.\<close>

lemma spendable_cases:
  assumes "resolveRole E contract context = Some role" and "bigint_param (c_params contract) ''refundLocktime'' = Inr lock"
  shows "Vhtlc_getSpendablePaths E script contract context =
    (let henc = cl_hex E; preimage = js_get (c_params contract) ''preimage'' in
     case (collaborative context, role) of
       (True, Receiver) \<Rightarrow> one_path (truthy_str preimage) (preimage_path E (vhtlc_claim henc script) (the preimage) None)
     | (True, Sender) \<Rightarrow> one_path (isCltvSatisfied context lock) (plain_path (refundWithoutReceiver henc script) None)
     | (False, Receiver) \<Rightarrow> csv_path E context (truthy_str preimage) (number_param (c_params contract) ''claimDelay'')
         (preimage_path E (unilateralClaim henc script) (the preimage))
     | (False, Sender) \<Rightarrow> csv_path E context True (number_param (c_params contract) ''refundNoReceiverDelay'')
         (plain_path (unilateralRefundWithoutReceiver henc script)))"
  using assms by (cases role; cases "collaborative context") (simp_all add: Vhtlc_getSpendablePaths_def Let_def)

lemma all_cases:
  assumes "resolveRole E contract context = Some role"
  shows "Vhtlc_getAllSpendingPaths E script contract context =
    (let henc = cl_hex E; preimage = js_get (c_params contract) ''preimage'' in
     case (collaborative context, role) of
       (True, Receiver) \<Rightarrow> one_path (truthy_str preimage) (preimage_path E (vhtlc_claim henc script) (the preimage) None)
     | (True, Sender) \<Rightarrow> one_path True (plain_path (refundWithoutReceiver henc script) None)
     | (False, Receiver) \<Rightarrow> one_path (truthy_str preimage) (preimage_path E (unilateralClaim henc script) (the preimage)
         (Some (number_param (c_params contract) ''claimDelay'')))
     | (False, Sender) \<Rightarrow> one_path True (plain_path (unilateralRefundWithoutReceiver henc script)
         (Some (number_param (c_params contract) ''refundNoReceiverDelay''))))"
  using assms by (cases role; cases "collaborative context") (simp_all add: Vhtlc_getAllSpendingPaths_def Let_def)

definition first_path :: "path_err + PathSelection list \<Rightarrow> path_err + PathSelection option" where
  "first_path r = r_bind r (\<lambda>ps. Inr (if ps = [] then None else Some (hd ps)))"

lemma first_one_path: "first_path (one_path c p) = (if c then r_bind p (\<lambda>x. Inr (Some x)) else Inr None)"
  by (cases p) (simp_all add: first_path_def one_path_def)

lemma first_csv_path:
  "first_path (csv_path E context c n p) =
     (if c then r_bind (isCsvSpendable (cl_script E) context (Some n)) (\<lambda>mature.
        if \<not> mature then Inr None else r_bind (p (Some n)) (\<lambda>x. Inr (Some x)))
      else Inr None)"
proof (cases "isCsvSpendable (cl_script E) context (Some n)")
  case (Inr mature)
  then show ?thesis
    using first_one_path [of mature "p (Some n)"] by (cases mature) (simp_all add: csv_path_def first_path_def)
qed (simp add: csv_path_def first_path_def)

lemma select_cases:
  assumes "resolveRole E contract context = Some role" and "bigint_param (c_params contract) ''refundLocktime'' = Inr lock"
  shows "Vhtlc_selectPath E script contract context = first_path (Vhtlc_getSpendablePaths E script contract context)"
  unfolding spendable_cases [OF assms]
  using assms by (cases role; cases "collaborative context")
    (simp_all add: Vhtlc_selectPath_def Let_def first_one_path first_csv_path)

lemma spendable_lock:
  assumes "resolveRole E contract context = Some role" and "Vhtlc_getSpendablePaths E script contract context = Inr ps"
  shows "\<exists>lock. bigint_param (c_params contract) ''refundLocktime'' = Inr lock"
  using assms by (cases "bigint_param (c_params contract) ''refundLocktime''") (simp_all add: Vhtlc_getSpendablePaths_def)

lemma one_path_among: "one_path m p = Inr ps \<Longrightarrow> one_path c p = Inr as \<Longrightarrow> m \<longrightarrow> c \<Longrightarrow> set ps \<subseteq> set as"
  by (auto simp: one_path_Inr split: if_splits)

lemma csv_path_among: "csv_path E context c n q = Inr ps \<Longrightarrow> one_path c (q (Some n)) = Inr as \<Longrightarrow> set ps \<subseteq> set as"
  by (auto simp: one_path_Inr csv_path_Inr split: if_splits)

text \<open>
  C31. For every role that is resolved, the path the handler selects is the first of the spendable ones (there is none
  exactly when nothing is spendable, and an error when listing them is one), and every spendable path is among all paths of
  the contract.
\<close>

theorem vhtlc_select_first_spendable:
  assumes "resolveRole E contract context = Some role" and "bigint_param (c_params contract) ''refundLocktime'' = Inr lock"
  shows "Vhtlc_selectPath E script contract context =
      r_bind (Vhtlc_getSpendablePaths E script contract context) (\<lambda>ps. Inr (if ps = [] then None else Some (hd ps)))
    \<and> (\<forall>ps as. Vhtlc_getSpendablePaths E script contract context = Inr ps
        \<and> Vhtlc_getAllSpendingPaths E script contract context = Inr as \<longrightarrow> set ps \<subseteq> set as)"
proof (intro conjI allI impI)
  show "Vhtlc_selectPath E script contract context =
      r_bind (Vhtlc_getSpendablePaths E script contract context) (\<lambda>ps. Inr (if ps = [] then None else Some (hd ps)))"
    using select_cases [OF assms] by (simp add: first_path_def)
next
  fix ps as
  assume "Vhtlc_getSpendablePaths E script contract context = Inr ps \<and> Vhtlc_getAllSpendingPaths E script contract context = Inr as"
  then have "Vhtlc_getSpendablePaths E script contract context = Inr ps" "Vhtlc_getAllSpendingPaths E script contract context = Inr as"
    by simp_all
  then show "set ps \<subseteq> set as"
    unfolding spendable_cases [OF assms] all_cases [OF assms(1)] Let_def
    by (cases role; cases "collaborative context"; simp) ((erule (1) csv_path_among | erule (1) one_path_among); simp)+
qed

text \<open>
  C26. Offering and refusing agree. The explicit check refuses a spend exactly when a collaborating sender's refund lock is
  readable and definitely not mature; whenever it refuses, the handler offers nothing, and what a collaborating sender is
  offered is the refund leaf, after the chain has reached the lock time.
\<close>

theorem vhtlc_refusal_agrees:
  "(assertVhtlcSpendableNow E contract context = Inr () \<longleftrightarrow>
     \<not> (collaborative context \<and> resolveRole E contract context = Some Sender
        \<and> (\<exists>lock. bigint_param (c_params contract) ''refundLocktime'' = Inr lock \<and> cltvMaturity context lock = Pending)))
   \<and> (\<forall>ps. Vhtlc_getSpendablePaths E script contract context = Inr ps \<longrightarrow>
     (assertVhtlcSpendableNow E contract context \<noteq> Inr () \<longrightarrow> ps = [])
     \<and> (collaborative context \<and> resolveRole E contract context = Some Sender \<longrightarrow> (\<forall>p \<in> set ps.
       \<exists>lock leaf. bigint_param (c_params contract) ''refundLocktime'' = Inr lock
         \<and> (if lock < 500000000 then \<exists>h. blockHeight context = Some h \<and> lock \<le> h else lock \<le> nowSeconds context)
         \<and> refundWithoutReceiver (cl_hex E) script = Inr leaf \<and> sel_leaf p = leaf)))"
proof (intro conjI allI impI ballI)
  show refused: "assertVhtlcSpendableNow E contract context = Inr () \<longleftrightarrow>
     \<not> (collaborative context \<and> resolveRole E contract context = Some Sender
        \<and> (\<exists>lock. bigint_param (c_params contract) ''refundLocktime'' = Inr lock \<and> cltvMaturity context lock = Pending))"
    by (auto simp: assertVhtlcSpendableNow_def bigint_param_def split: option.splits)
  have offered: "\<exists>lock. bigint_param (c_params contract) ''refundLocktime'' = Inr lock
      \<and> one_path (isCltvSatisfied context lock) (plain_path (refundWithoutReceiver (cl_hex E) script) None) = Inr ps"
    if offer: "collaborative context" "resolveRole E contract context = Some Sender" "Vhtlc_getSpendablePaths E script contract context = Inr ps"
    for ps
  proof -
    obtain lock where lock: "bigint_param (c_params contract) ''refundLocktime'' = Inr lock"
      using spendable_lock [OF offer(2,3)] by blast
    then show ?thesis
      using spendable_cases [OF offer(2) lock, of script] offer by simp
  qed
  fix ps
  assume ps: "Vhtlc_getSpendablePaths E script contract context = Inr ps"
  show "ps = []" if "assertVhtlcSpendableNow E contract context \<noteq> Inr ()"
    using offered [OF _ _ ps] that unfolding refused by (fastforce simp: isCltvSatisfied_def one_path_Inr)
  fix p
  assume "collaborative context \<and> resolveRole E contract context = Some Sender" "p \<in> set ps"
  moreover from this obtain lock where lock: "bigint_param (c_params contract) ''refundLocktime'' = Inr lock"
    "one_path (isCltvSatisfied context lock) (plain_path (refundWithoutReceiver (cl_hex E) script) None) = Inr ps"
    using offered [OF _ _ ps] by blast
  ultimately have "isCltvSatisfied context lock" "plain_path (refundWithoutReceiver (cl_hex E) script) None = Inr p"
    by (auto simp: one_path_Inr split: if_splits)
  then show "\<exists>lock leaf. bigint_param (c_params contract) ''refundLocktime'' = Inr lock
      \<and> (if lock < 500000000 then \<exists>h. blockHeight context = Some h \<and> lock \<le> h else lock \<le> nowSeconds context)
      \<and> refundWithoutReceiver (cl_hex E) script = Inr leaf \<and> sel_leaf p = leaf"
    using lock(1) by (auto simp: isCltvSatisfied_def cltvMaturity_def CLTV_HEIGHT_THRESHOLD_def plain_path_def
        select_def r_bind_eq_Inr split: option.splits if_splits)
qed

definition sample_contract :: Contract where
  "sample_contract =
     \<lparr>c_label = None, c_type = ''vhtlc'', c_params = [(''refundLocktime'', ''10''), (''refundNoReceiverDelay'', ''7'')],
      c_script = ''5120'', c_address = ''ark'', c_state = Active, c_watch = None, c_createdAt = 0, c_metadata = None\<rparr>"

definition sample_context :: "int \<Rightarrow> PathContext" where
  "sample_context height =
     \<lparr>collaborative = True, currentTime = 0, blockHeight = Some height, walletDescriptor = None, walletPubKey = None,
      ctx_role = Some ''sender'', chainTime = None, ctx_vtxo = None\<rparr>"

lemma ten: "js_BigInt ''10'' = Some 10"
  by code_simp

lemma sample_lock: "bigint_param (c_params sample_contract) ''refundLocktime'' = Inr 10"
  by (simp add: bigint_param_def sample_contract_def ten)

lemma sample_role: "resolveRole E sample_contract (sample_context h) = Some Sender"
  by (simp add: resolveRole_def sample_context_def)

theorem vhtlc_select_first_spendable_witness:
  "(\<forall>script. Vhtlc_selectPath sample_contract_lib script sample_contract (sample_context 9) = Inr None)
   \<and> (\<exists>v path. VHTLC_Script sample_vhtlc_lib sample_options = Inr v
        \<and> Vhtlc_selectPath sample_contract_lib v sample_contract (sample_context 10) = Inr (Some path))"
proof (intro conjI allI)
  fix script
  have "Vhtlc_getSpendablePaths sample_contract_lib script sample_contract (sample_context 9) = Inr []"
    unfolding spendable_cases [OF sample_role sample_lock]
    by (simp add: sample_context_def one_path_def isCltvSatisfied_def cltvMaturity_def CLTV_HEIGHT_THRESHOLD_def)
  then show "Vhtlc_selectPath sample_contract_lib script sample_contract (sample_context 9) = Inr None"
    using vhtlc_select_first_spendable [OF sample_role sample_lock, of sample_contract_lib script 9] by simp
next
  obtain v where v: "VHTLC_Script sample_vhtlc_lib sample_options = Inr v"
    using sample_vhtlc by blast
  obtain leaf where "refundWithoutReceiver hex_of_bytes v = Inr leaf"
    using sample_refund_leaf [OF v] by blast
  then have "\<exists>p. Vhtlc_getSpendablePaths sample_contract_lib v sample_contract (sample_context 10) = Inr [p]"
    unfolding spendable_cases [OF sample_role sample_lock]
    by (simp add: sample_context_def one_path_def isCltvSatisfied_def cltvMaturity_def CLTV_HEIGHT_THRESHOLD_def plain_path_def
        lift_leaf_def cl_hex_def sample_contract_lib_def sample_vhtlc_lib_def)
  then show "\<exists>v path. VHTLC_Script sample_vhtlc_lib sample_options = Inr v
      \<and> Vhtlc_selectPath sample_contract_lib v sample_contract (sample_context 10) = Inr (Some path)"
    using vhtlc_select_first_spendable [OF sample_role sample_lock, of sample_contract_lib v 10] v by auto
qed

theorem vhtlc_refusal_agrees_witness:
  "assertVhtlcSpendableNow sample_contract_lib sample_contract (sample_context 9) \<noteq> Inr ()
   \<and> (\<forall>script p. Vhtlc_getSpendablePaths sample_contract_lib script sample_contract (sample_context 9) \<noteq> Inr [p])
   \<and> assertVhtlcSpendableNow sample_contract_lib sample_contract (sample_context 10) = Inr ()"
proof -
  have "assertVhtlcSpendableNow sample_contract_lib sample_contract (sample_context 9) \<noteq> Inr ()"
    "assertVhtlcSpendableNow sample_contract_lib sample_contract (sample_context 10) = Inr ()"
    using vhtlc_refusal_agrees [of sample_contract_lib sample_contract "sample_context 9"]
      vhtlc_refusal_agrees [of sample_contract_lib sample_contract "sample_context 10"]
    by (simp_all add: sample_role sample_lock) (simp_all add: sample_context_def cltvMaturity_def CLTV_HEIGHT_THRESHOLD_def)
  then show ?thesis
    using vhtlc_refusal_agrees [of sample_contract_lib sample_contract "sample_context 9"] by blast
qed

end
