(* ===== verification/Discovery.thy ===== *)
theory Discovery
  imports Contract_Paths Vtxo_Query
begin

text \<open>
  How a wallet finds its contracts again: the probe of \<open>contracts/handlers/helpers.ts\<close> over the indexer, the candidate
  scripts of an index, and the discovery of the \<open>default\<close>, \<open>delegate\<close> and \<open>boarding\<close> handlers.

  The indexer is the provider of \<open>Vtxo_Query\<close>; the value \<open>None\<close> of a search is a page loop that never ends. A
  JavaScript \<open>Set\<close> is the list of its elements in insertion order. The address coder and the
  on-chain provider are arguments.
\<close>

section \<open>Which scripts were used\<close>

definition used_step :: "VirtualCoin \<Rightarrow> string list \<times> string list \<Rightarrow> string list \<times> string list" where
  "used_step vtxo = (\<lambda>(missing, used).
     if coin_script vtxo \<in> set missing
     then (filter (\<lambda>s. s \<noteq> coin_script vtxo) missing, js_add (coin_script vtxo) used)
     else (missing, used))"

partial_function (option) used_loop ::
  "'f get_vtxos \<Rightarrow> 'f \<Rightarrow> string list \<Rightarrow> nat \<Rightarrow> string list \<Rightarrow> string list \<Rightarrow> (provider_err + string list) option" where
  "used_loop provider filters scripts pageIndex missing used =
     (if missing = [] then Some (Inr used)
      else case getNormalizedVtxos provider \<lparr>q_filters = filters, q_scripts = scripts, q_outpoints = [],
             q_pageIndex = pageIndex, q_pageSize = DEFAULT_PAGE_SIZE\<rparr> of
        Inl e \<Rightarrow> Some (Inl e)
      | Inr (vtxos, page) \<Rightarrow>
          (let (missing', used') = fold used_step vtxos (missing, used)
           in if page \<and> length vtxos = DEFAULT_PAGE_SIZE
              then used_loop provider filters scripts (pageIndex + 1) missing' used'
              else Some (Inr used')))"

fun used_chunks ::
  "'f get_vtxos \<Rightarrow> 'f \<Rightarrow> string list list \<Rightarrow> string list \<Rightarrow> (provider_err + string list) option" where
  "used_chunks provider filters [] used = Some (Inr used)"
| "used_chunks provider filters (scripts # cs) used =
     (case used_loop provider filters scripts 0 scripts used of
        None \<Rightarrow> None
      | Some (Inl e) \<Rightarrow> Some (Inl e)
      | Some (Inr used') \<Rightarrow> used_chunks provider filters cs used')"

definition unique :: "'a list \<Rightarrow> 'a list" where
  "unique xs = fold js_add xs []"

definition detectUsedScripts :: "'f get_vtxos \<Rightarrow> 'f \<Rightarrow> string list \<Rightarrow> (provider_err + string list) option" where
  "detectUsedScripts provider filters scriptHexes =
     used_chunks provider filters (chunks SCRIPT_QUERY_CHUNK_SIZE (unique scriptHexes)) []"

lemma set_fold_add: "set (fold js_add xs ys) = set xs \<union> set ys"
  by (induction xs arbitrary: ys) auto

lemma set_unique [simp]: "set (unique xs) = set xs"
  by (simp add: unique_def set_fold_add)

lemma used_fold:
  "fold used_step vs (missing, used) = (r, u) \<Longrightarrow>
     set r = set missing - coin_script ` set vs \<and> set u = set used \<union> (set missing \<inter> coin_script ` set vs)"
proof (induction vs arbitrary: missing used)
  case (Cons v vs)
  obtain r' u' where step: "used_step v (missing, used) = (r', u')"
    by fastforce
  then have "set r' = set missing - {coin_script v}" "set u' = set used \<union> (set missing \<inter> {coin_script v})"
    by (auto simp: used_step_def split: if_splits)
  then show ?case
    using Cons.IH [of r' u'] Cons.prems step by auto
qed simp

lemma used_loop_complete:
  assumes pg: "pages_correctly provider filters coins_of" and small: "length scripts \<le> SCRIPT_QUERY_CHUNK_SIZE"
  shows "\<exists>u. used_loop provider filters scripts p missing used = Some (Inr u)
    \<and> set u = set used \<union> (set missing \<inter> coin_script ` set (map normalizeVtxo (drop (p * DEFAULT_PAGE_SIZE) (concat (map coins_of scripts)))))"
proof (induction "length (concat (map coins_of scripts)) - p * DEFAULT_PAGE_SIZE" arbitrary: p missing used rule: less_induct)
  case less
  let ?L = "concat (map coins_of scripts)" and ?N = DEFAULT_PAGE_SIZE
  let ?page = "take ?N (drop (p * ?N) ?L)"
  have get: "getNormalizedVtxos provider \<lparr>q_filters = filters, q_scripts = scripts, q_outpoints = [],
      q_pageIndex = p, q_pageSize = ?N\<rparr> = Inr (map normalizeVtxo ?page, True)"
    using pg small by (simp add: getNormalizedVtxos_def pages_correctly_def)
  obtain r u where ru: "fold used_step (map normalizeVtxo ?page) (missing, used) = (r, u)"
    by fastforce
  note set_ru = used_fold [OF ru]
  have split: "drop (p * ?N) ?L = ?page @ drop ((p + 1) * ?N) ?L"
    by (simp add: algebra_simps flip: drop_drop)
  show ?case
  proof (cases "missing = []")
    case True
    then show ?thesis
      by (simp add: used_loop.simps)
  next
    case False
    show ?thesis
    proof (cases "length ?page = ?N")
      case True
      have "length ?page \<le> length ?L - p * ?N"
        by simp
      with True have "length ?L - (p + 1) * ?N < length ?L - p * ?N"
        by (simp add: algebra_simps DEFAULT_PAGE_SIZE_def)
      from less [OF this, of r u] obtain u' where "used_loop provider filters scripts (p + 1) r u = Some (Inr u')"
        "set u' = set u \<union> (set r \<inter> coin_script ` set (map normalizeVtxo (drop ((p + 1) * ?N) ?L)))"
        by blast
      moreover have "used_loop provider filters scripts p missing used = used_loop provider filters scripts (p + 1) r u"
        using False True get ru by (simp add: used_loop.simps [of _ _ _ p])
      moreover have "set (map normalizeVtxo (drop (p * ?N) ?L))
          = set (map normalizeVtxo ?page) \<union> set (map normalizeVtxo (drop ((p + 1) * ?N) ?L))"
        by (subst split) simp
      ultimately show ?thesis
        using set_ru by auto
    next
      case short: False
      then have "length (drop (p * ?N) ?L) < ?N"
        by (simp add: min_def split: if_splits)
      then have "drop (p * ?N) ?L = ?page"
        by simp
      then show ?thesis
        using short False get ru set_ru by (simp add: used_loop.simps [of _ _ _ p])
    qed
  qed
qed

text \<open>The chain tells which coins a script holds, under that script.\<close>

definition coins_by_script :: "(string \<Rightarrow> VirtualCoin list) \<Rightarrow> bool" where
  "coins_by_script coins_of \<longleftrightarrow> (\<forall>s. \<forall>v \<in> set (coins_of s). coin_script v = s)"

lemma script_normalize [simp]: "coin_script (normalizeVtxo v) = coin_script v"
  by (simp add: normalizeVtxo_def Let_def)

lemma scripts_of_coins:
  "coins_by_script coins_of \<Longrightarrow> set scripts \<inter> coin_script ` set (map normalizeVtxo (concat (map coins_of scripts)))
     = {s \<in> set scripts. coins_of s \<noteq> []}"
  by (fastforce simp: coins_by_script_def image_iff neq_Nil_conv)

lemma used_chunks_complete:
  assumes pg: "pages_correctly provider filters coins_of" and own: "coins_by_script coins_of"
    and small: "\<forall>c \<in> set cs. length c \<le> SCRIPT_QUERY_CHUNK_SIZE"
  shows "\<exists>u. used_chunks provider filters cs used = Some (Inr u)
    \<and> set u = set used \<union> {s \<in> set (concat cs). coins_of s \<noteq> []}"
  using small
proof (induction cs arbitrary: used)
  case (Cons c cs)
  obtain u where u: "used_loop provider filters c 0 c used = Some (Inr u)"
    "set u = set used \<union> {s \<in> set c. coins_of s \<noteq> []}"
    using used_loop_complete [OF pg, of c 0 c used] Cons.prems scripts_of_coins [OF own, of c] by auto
  obtain u' where "used_chunks provider filters cs u = Some (Inr u')"
    "set u' = set u \<union> {s \<in> set (concat cs). coins_of s \<noteq> []}"
    using Cons.IH [of u] Cons.prems by auto
  then show ?case
    using u by auto
qed simp

lemma detect_used:
  assumes "pages_correctly provider filters coins_of" and "coins_by_script coins_of"
  shows "\<exists>u. detectUsedScripts provider filters xs = Some (Inr u) \<and> set u = {s \<in> set xs. coins_of s \<noteq> []}"
proof -
  have chunk: "0 < SCRIPT_QUERY_CHUNK_SIZE"
    by (simp add: SCRIPT_QUERY_CHUNK_SIZE_def)
  show ?thesis
    using used_chunks_complete [OF assms, of "chunks SCRIPT_QUERY_CHUNK_SIZE (unique xs)" "[]"] chunks_bounds
      concat_chunks [OF chunk, of "unique xs"] by (auto simp: detectUsedScripts_def)
qed

section \<open>Candidates and discovered contracts\<close>

record DiscoveredContract =
  dc_type :: string
  dc_params :: "(string \<times> string) list"
  dc_script :: string
  dc_address :: string
  dc_metadata :: "(string \<times> string) list option"
  dc_label :: "string option"

record CandidateDeps =
  cd_serverPubKey :: bytes
  cd_deprecatedSignerPubKeys :: "bytes list option"
  cd_csvTimelocks :: "RelativeTimelock list"
  cd_delegatePubKey :: "bytes option"

record 's SignerCandidate =
  cand_pubKey :: bytes
  cand_serverPubKey :: bytes
  cand_csvTimelock :: RelativeTimelock
  cand_script :: 's
  cand_scriptHex :: string

datatype disc_err = BuildErr path_err | ProviderErr provider_err | OnchainErr

definition WALLET_RECEIVE_SOURCE :: string where "WALLET_RECEIVE_SOURCE = ''wallet-receive''"

text \<open>The cross product of signers and timelocks, in the order of the two nested loops.\<close>

definition cross :: "'a list \<Rightarrow> 'b list \<Rightarrow> ('a \<times> 'b) list" where
  "cross as bs = concat (map (\<lambda>a. map (\<lambda>b. (a, b)) bs) as)"

fun candidate_loop ::
  "(bytes \<Rightarrow> RelativeTimelock \<Rightarrow> path_err + 's) \<Rightarrow> ('s \<Rightarrow> string) \<Rightarrow> bytes \<Rightarrow> (bytes \<times> RelativeTimelock) list
     \<Rightarrow> string list \<Rightarrow> path_err + 's SignerCandidate list" where
  "candidate_loop makeScript scriptHexOf pubKey [] seen = Inr []"
| "candidate_loop makeScript scriptHexOf pubKey ((serverPubKey, csvTimelock) # pairs) seen =
     r_bind (makeScript serverPubKey csvTimelock) (\<lambda>script.
     let scriptHex = scriptHexOf script in
     if scriptHex \<in> set seen then candidate_loop makeScript scriptHexOf pubKey pairs seen
     else
       r_bind (candidate_loop makeScript scriptHexOf pubKey pairs (js_add scriptHex seen)) (\<lambda>candidates.
       Inr (\<lparr>cand_pubKey = pubKey, cand_serverPubKey = serverPubKey, cand_csvTimelock = csvTimelock,
             cand_script = script, cand_scriptHex = scriptHex\<rparr> # candidates)))"

definition buildSignerTimelockCandidates ::
  "expand_fun \<Rightarrow> string \<Rightarrow> CandidateDeps \<Rightarrow> (bytes \<Rightarrow> bytes \<Rightarrow> RelativeTimelock \<Rightarrow> path_err + 's) \<Rightarrow> ('s \<Rightarrow> string)
     \<Rightarrow> path_err + 's SignerCandidate list" where
  "buildSignerTimelockCandidates expand descriptor deps makeScript scriptHexOf =
     r_bind (lift_descriptor (deriveDescriptorLeafPubKey expand descriptor)) (\<lambda>pubKey.
     let signers = cd_serverPubKey deps # or_default (cd_deprecatedSignerPubKeys deps) [] in
     candidate_loop (makeScript pubKey) scriptHexOf pubKey (cross signers (cd_csvTimelocks deps)) [])"

definition rotatedReceiveMetadata :: "nat \<Rightarrow> string \<Rightarrow> (string \<times> string) list option" where
  "rotatedReceiveMetadata index descriptor =
     (if index > 0 then Some [(''source'', WALLET_RECEIVE_SOURCE), (''signingDescriptor'', descriptor)] else None)"

definition speculativeReceiveMetadata :: "string \<Rightarrow> (string \<times> string) list option" where
  "speculativeReceiveMetadata descriptor = Some [(''signingDescriptor'', descriptor)]"

text \<open>
  \<open>discoverIndexerCandidates\<close>: the candidates of every entry are built first, one probe covers them all, and every
  requested index gets the candidates that were used.
\<close>

definition discoverIndexerCandidates ::
  "'f get_vtxos \<Rightarrow> 'f \<Rightarrow> (nat \<times> string) list \<Rightarrow> (nat \<Rightarrow> string \<Rightarrow> path_err + DiscoveredContract list)
     \<Rightarrow> (DiscoveredContract \<Rightarrow> nat \<Rightarrow> string \<Rightarrow> DiscoveredContract)
     \<Rightarrow> (disc_err + (nat \<times> DiscoveredContract list) list) option" where
  "discoverIndexerCandidates provider filters entries buildCandidates emit =
     (case r_map (\<lambda>(index, descriptor). r_bind (buildCandidates index descriptor) (\<lambda>cs. Inr (index, descriptor, cs))) entries of
        Inl e \<Rightarrow> Some (Inl (BuildErr e))
      | Inr perIndex \<Rightarrow>
          (case detectUsedScripts provider filters (concat (map (\<lambda>(_, _, cs). map dc_script cs) perIndex)) of
             None \<Rightarrow> None
           | Some (Inl e) \<Rightarrow> Some (Inl (ProviderErr e))
           | Some (Inr used) \<Rightarrow>
               Some (Inr (fold (\<lambda>(index, descriptor, candidates).
                 js_set index (map (\<lambda>c. emit c index descriptor) (filter (\<lambda>c. dc_script c \<in> set used) candidates)))
                 perIndex []))))"

definition script_hex :: "contract_lib \<Rightarrow> VtxoScript \<Rightarrow> string" where
  "script_hex E v = cl_hex E (vs_pkScript v)"

definition csv_string :: "contract_lib \<Rightarrow> RelativeTimelock \<Rightarrow> path_err + string" where
  "csv_string E t = r_bind (lift_timelock (timelockToSequence (cl_script E) t)) (\<lambda>n. Inr (int_str n))"

text \<open>\<open>address\<close> stands for \<open>script.address(hrp, serverPubKey).encode()\<close>.\<close>

type_synonym address_fun = "VtxoScript \<Rightarrow> bytes \<Rightarrow> string"

definition defaultCandidatesAt ::
  "contract_lib \<Rightarrow> address_fun \<Rightarrow> CandidateDeps \<Rightarrow> nat \<Rightarrow> string \<Rightarrow> path_err + DiscoveredContract list" where
  "defaultCandidatesAt E address deps index descriptor =
     r_bind (buildSignerTimelockCandidates (cl_expand E) descriptor deps
       (\<lambda>pubKey serverPubKey csvTimelock. r_bind (new_default E
          \<lparr>opt_pubKey = pubKey, opt_serverPubKey = serverPubKey, opt_csvTimelock = csvTimelock\<rparr>) (\<lambda>v. Inr (base_script v)))
       (script_hex E)) (\<lambda>candidates.
     r_map (\<lambda>c. r_bind (csv_string E (cand_csvTimelock c)) (\<lambda>csv.
       Inr \<lparr>dc_type = ''default'',
            dc_params = [(''pubKey'', cl_hex E (cand_pubKey c)), (''serverPubKey'', cl_hex E (cand_serverPubKey c)),
                         (''csvTimelock'', csv)],
            dc_script = cand_scriptHex c,
            dc_address = address (cand_script c) (cand_serverPubKey c),
            dc_metadata = None, dc_label = None\<rparr>)) candidates)"

definition emit_rotated :: "DiscoveredContract \<Rightarrow> nat \<Rightarrow> string \<Rightarrow> DiscoveredContract" where
  "emit_rotated c index descriptor =
     (case rotatedReceiveMetadata index descriptor of
        None \<Rightarrow> c
      | Some m \<Rightarrow> c\<lparr>dc_metadata := Some m\<rparr>)"

definition discoverDefaultRange ::
  "contract_lib \<Rightarrow> address_fun \<Rightarrow> 'f get_vtxos \<Rightarrow> 'f \<Rightarrow> CandidateDeps \<Rightarrow> (nat \<times> string) list
     \<Rightarrow> (disc_err + (nat \<times> DiscoveredContract list) list) option" where
  "discoverDefaultRange E address provider filters deps entries =
     discoverIndexerCandidates provider filters entries (defaultCandidatesAt E address deps) emit_rotated"

definition delegateCandidatesAt ::
  "contract_lib \<Rightarrow> address_fun \<Rightarrow> CandidateDeps \<Rightarrow> nat \<Rightarrow> string \<Rightarrow> path_err + DiscoveredContract list" where
  "delegateCandidatesAt E address deps index descriptor =
     (case cd_delegatePubKey deps of
        None \<Rightarrow> Inr []
      | Some delegatePubKey \<Rightarrow>
          r_bind (buildSignerTimelockCandidates (cl_expand E) descriptor deps
            (\<lambda>pubKey serverPubKey csvTimelock. r_bind (new_delegate E
               \<lparr>opt_pubKey = pubKey, opt_serverPubKey = serverPubKey, opt_csvTimelock = csvTimelock,
                opt_delegatePubKey = delegatePubKey\<rparr>) (\<lambda>v. Inr (base_script v)))
            (script_hex E)) (\<lambda>candidates.
          r_map (\<lambda>c. r_bind (csv_string E (cand_csvTimelock c)) (\<lambda>csv.
            Inr \<lparr>dc_type = ''delegate'',
                 dc_params = [(''pubKey'', cl_hex E (cand_pubKey c)), (''serverPubKey'', cl_hex E (cand_serverPubKey c)),
                              (''delegatePubKey'', cl_hex E delegatePubKey), (''csvTimelock'', csv)],
                 dc_script = cand_scriptHex c,
                 dc_address = address (cand_script c) (cand_serverPubKey c),
                 dc_metadata = None, dc_label = None\<rparr>)) candidates))"

definition discoverDelegateRange ::
  "contract_lib \<Rightarrow> address_fun \<Rightarrow> 'f get_vtxos \<Rightarrow> 'f \<Rightarrow> CandidateDeps \<Rightarrow> (nat \<times> string) list
     \<Rightarrow> (disc_err + (nat \<times> DiscoveredContract list) list) option" where
  "discoverDelegateRange E address provider filters deps entries =
     (if cd_delegatePubKey deps = None
      then Some (Inr (fold (\<lambda>(index, _). js_set index []) entries []))
      else discoverIndexerCandidates provider filters entries (delegateCandidatesAt E address deps) emit_rotated)"

definition discoverAtViaRange ::
  "((nat \<times> string) list \<Rightarrow> (disc_err + (nat \<times> DiscoveredContract list) list) option)
     \<Rightarrow> nat \<Rightarrow> string \<Rightarrow> (disc_err + DiscoveredContract list) option" where
  "discoverAtViaRange discoverRange index descriptor =
     (case discoverRange [(index, descriptor)] of
        None \<Rightarrow> None
      | Some (Inl e) \<Rightarrow> Some (Inl e)
      | Some (Inr m) \<Rightarrow> Some (Inr (or_default (js_get m index) [])))"

text \<open>
  The boarding probe asks the chain for coins at the on-chain address of the script; \<open>getCoins\<close> gives
  their number, or throws.
\<close>

definition Boarding_discoverAt ::
  "contract_lib \<Rightarrow> address_fun \<Rightarrow> (VtxoScript \<Rightarrow> string) \<Rightarrow> (string \<Rightarrow> nat option) \<Rightarrow> bytes
     \<Rightarrow> RelativeTimelock option \<Rightarrow> bool \<Rightarrow> nat \<Rightarrow> string \<Rightarrow> disc_err + DiscoveredContract list" where
  "Boarding_discoverAt E address onchainAddress getCoins serverPubKey boardingTimelock hasNetwork index descriptor =
     (case boardingTimelock of
        None \<Rightarrow> Inr []
      | Some timelock \<Rightarrow>
          if \<not> hasNetwork then Inr []
          else case r_bind (lift_descriptor (deriveDescriptorLeafPubKey (cl_expand E) descriptor)) (\<lambda>pubKey.
                      r_bind (new_default E \<lparr>opt_pubKey = pubKey, opt_serverPubKey = serverPubKey, opt_csvTimelock = timelock\<rparr>)
                        (\<lambda>v. Inr (pubKey, base_script v))) of
            Inl e \<Rightarrow> Inl (BuildErr e)
          | Inr (pubKey, script) \<Rightarrow>
              (case getCoins (onchainAddress script) of
                 None \<Rightarrow> Inl OnchainErr
               | Some 0 \<Rightarrow> Inr []
               | Some (Suc _) \<Rightarrow>
                   (case csv_string E timelock of
                      Inl e \<Rightarrow> Inl (BuildErr e)
                    | Inr boardingSeq \<Rightarrow>
                        Inr [\<lparr>dc_type = ''boarding'',
                              dc_params = [(''pubKey'', cl_hex E pubKey), (''serverPubKey'', cl_hex E serverPubKey),
                                           (''csvTimelock'', boardingSeq)],
                              dc_script = script_hex E script,
                              dc_address = address script serverPubKey,
                              dc_metadata = rotatedReceiveMetadata index descriptor, dc_label = None\<rparr>])))"

section \<open>What discovery finds\<close>

lemma set_cross [simp]: "set (cross as bs) = set as \<times> set bs"
  by (auto simp: cross_def)

lemma candidate_scripts_step:
  "mk s t = Inr v \<Longrightarrow> {hexOf v |s' t' v. (s', t') \<in> set ((s, t) # pairs) \<and> mk s' t' = Inr v}
     = insert (hexOf v) {hexOf v |s t v. (s, t) \<in> set pairs \<and> mk s t = Inr v}"
  by auto

lemma candidate_loop_scripts:
  assumes "candidate_loop mk hexOf k pairs seen = Inr cands"
  shows "distinct (map cand_scriptHex cands) \<and> set (map cand_scriptHex cands) \<inter> set seen = {}
    \<and> set (map cand_scriptHex cands) \<union> set seen = {hexOf v |s t v. (s, t) \<in> set pairs \<and> mk s t = Inr v} \<union> set seen"
  using assms
proof (induction pairs arbitrary: seen cands)
  case (Cons p pairs)
  obtain s t where p: "p = (s, t)"
    by fastforce
  then obtain v where v: "mk s t = Inr v"
    using Cons.prems by auto
  let ?S = "{hexOf v |s t v. (s, t) \<in> set pairs \<and> mk s t = Inr v}"
  show ?case
  proof (cases "hexOf v \<in> set seen")
    case True
    then have loop: "candidate_loop mk hexOf k pairs seen = Inr cands"
      using Cons.prems p v by simp
    show ?thesis
      using Cons.IH [OF loop] True unfolding p candidate_scripts_step [of mk, OF v] by (simp add: insert_absorb)
  next
    case False
    then obtain cs where loop: "candidate_loop mk hexOf k pairs (js_add (hexOf v) seen) = Inr cs"
      and hex: "map cand_scriptHex cands = hexOf v # map cand_scriptHex cs"
      using Cons.prems p v by (auto simp: Let_def r_bind_eq_Inr)
    have "set (map cand_scriptHex cs) \<union> insert (hexOf v) (set seen) = ?S \<union> insert (hexOf v) (set seen)"
      "set (map cand_scriptHex cs) \<inter> insert (hexOf v) (set seen) = {}" "distinct (map cand_scriptHex cs)"
      using Cons.IH [OF loop] by simp_all
    then show ?thesis
      using False unfolding p candidate_scripts_step [of mk, OF v] hex by (simp add: Un_insert_right)
  qed
qed simp

text \<open>Every candidate is the first of the pairs that give its script, so the current signer wins.\<close>

lemma candidate_loop_first:
  assumes "candidate_loop mk hexOf k pairs seen = Inr cands" and "c \<in> set cands"
  shows "cand_pubKey c = k \<and> mk (cand_serverPubKey c) (cand_csvTimelock c) = Inr (cand_script c)
    \<and> cand_scriptHex c = hexOf (cand_script c) \<and> cand_scriptHex c \<notin> set seen
    \<and> (\<exists>pre suf. pairs = pre @ (cand_serverPubKey c, cand_csvTimelock c) # suf
        \<and> (\<forall>(s, t) \<in> set pre. \<forall>v. mk s t = Inr v \<longrightarrow> hexOf v \<noteq> cand_scriptHex c))"
  using assms
proof (induction pairs arbitrary: seen cands)
  case (Cons p pairs)
  obtain s t where p: "p = (s, t)"
    by fastforce
  then obtain v where v: "mk s t = Inr v"
    using Cons.prems by auto
  have later: ?case if loop: "candidate_loop mk hexOf k pairs seen' = Inr cs" "c \<in> set cs"
    and seen': "hexOf v \<in> set seen'" "set seen \<subseteq> set seen'" for seen' cs
  proof -
    note IH = Cons.IH [OF loop]
    then obtain pre suf where "pairs = pre @ (cand_serverPubKey c, cand_csvTimelock c) # suf"
      "\<forall>(s, t) \<in> set pre. \<forall>v. mk s t = Inr v \<longrightarrow> hexOf v \<noteq> cand_scriptHex c"
      by blast
    moreover have "hexOf v \<noteq> cand_scriptHex c"
      using IH seen'(1) by metis
    ultimately have "p # pairs = (p # pre) @ (cand_serverPubKey c, cand_csvTimelock c) # suf"
      "\<forall>(s, t) \<in> set (p # pre). \<forall>v. mk s t = Inr v \<longrightarrow> hexOf v \<noteq> cand_scriptHex c"
      using v p by auto
    then show ?thesis
      using IH seen'(2) by blast
  qed
  show ?case
  proof (cases "hexOf v \<in> set seen")
    case True
    moreover from this have "candidate_loop mk hexOf k pairs seen = Inr cands"
      using Cons.prems(1) p v by simp
    ultimately show ?thesis
      using later Cons.prems(2) by blast
  next
    case False
    then obtain cs where loop: "candidate_loop mk hexOf k pairs (js_add (hexOf v) seen) = Inr cs"
      and cands: "cands = \<lparr>cand_pubKey = k, cand_serverPubKey = s, cand_csvTimelock = t, cand_script = v,
        cand_scriptHex = hexOf v\<rparr> # cs"
      using Cons.prems p v by (auto simp: Let_def r_bind_eq_Inr)
    show ?thesis
    proof (cases "c \<in> set cs")
      case True
      then show ?thesis
        using later [OF loop] by auto
    next
      case new: False
      then show ?thesis
        using Cons.prems(2) cands p v False by (intro conjI exI [of _ "[]"] exI [of _ pairs]) auto
    qed
  qed
qed simp

definition all_signers :: "CandidateDeps \<Rightarrow> bytes set" where
  "all_signers deps = insert (cd_serverPubKey deps) (set (or_default (cd_deprecatedSignerPubKeys deps) []))"

lemma candidates_spec:
  assumes "buildSignerTimelockCandidates expand d deps mk hexOf = Inr cands"
  obtains k where "deriveDescriptorLeafPubKey expand d = Inr k" "distinct (map cand_scriptHex cands)"
    "set (map cand_scriptHex cands) = {hexOf v |s t v. s \<in> all_signers deps \<and> t \<in> set (cd_csvTimelocks deps) \<and> mk k s t = Inr v}"
proof -
  obtain k where k: "deriveDescriptorLeafPubKey expand d = Inr k"
    and loop: "candidate_loop (mk k) hexOf k (cross (cd_serverPubKey deps # or_default (cd_deprecatedSignerPubKeys deps) [])
      (cd_csvTimelocks deps)) [] = Inr cands"
    using assms by (auto simp: buildSignerTimelockCandidates_def r_bind_eq_Inr Let_def)
  note spec = candidate_loop_scripts [OF loop]
  have "set (map cand_scriptHex cands) \<union> set [] = {hexOf v |s t v. (s, t) \<in> set (cross (cd_serverPubKey deps
      # or_default (cd_deprecatedSignerPubKeys deps) []) (cd_csvTimelocks deps)) \<and> mk k s t = Inr v} \<union> set []"
    using spec by blast
  then have "set (map cand_scriptHex cands)
      = {hexOf v |s t v. s \<in> all_signers deps \<and> t \<in> set (cd_csvTimelocks deps) \<and> mk k s t = Inr v}"
    by (simp add: all_signers_def)
  then show thesis
    using that [OF k] spec by simp
qed

definition default_scripts :: "contract_lib \<Rightarrow> CandidateDeps \<Rightarrow> string \<Rightarrow> string set" where
  "default_scripts E deps descriptor =
     {script_hex E (base_script v) |k s t v. deriveDescriptorLeafPubKey (cl_expand E) descriptor = Inr k \<and> s \<in> all_signers deps
        \<and> t \<in> set (cd_csvTimelocks deps)
        \<and> new_default E \<lparr>opt_pubKey = k, opt_serverPubKey = s, opt_csvTimelock = t\<rparr> = Inr v}"

lemma r_map_project:
  assumes "r_map f xs = Inr ys" and "\<And>x y. f x = Inr y \<Longrightarrow> g y = h x"
  shows "map g ys = map h xs"
  using assms(1) by (induction xs arbitrary: ys) (auto simp: assms(2) r_bind_eq_Inr)

lemma default_candidates:
  assumes "defaultCandidatesAt E address deps i d = Inr cs"
  shows "distinct (map dc_script cs) \<and> set (map dc_script cs) = default_scripts E deps d"
proof -
  let ?mk = "\<lambda>pubKey serverPubKey csvTimelock. r_bind (new_default E
      \<lparr>opt_pubKey = pubKey, opt_serverPubKey = serverPubKey, opt_csvTimelock = csvTimelock\<rparr>) (\<lambda>v. Inr (base_script v))"
  let ?dc = "\<lambda>c. r_bind (csv_string E (cand_csvTimelock c)) (\<lambda>csv.
       Inr \<lparr>dc_type = ''default'',
            dc_params = [(''pubKey'', cl_hex E (cand_pubKey c)), (''serverPubKey'', cl_hex E (cand_serverPubKey c)),
                         (''csvTimelock'', csv)],
            dc_script = cand_scriptHex c, dc_address = address (cand_script c) (cand_serverPubKey c),
            dc_metadata = None, dc_label = None\<rparr>)"
  obtain cands where cands: "buildSignerTimelockCandidates (cl_expand E) d deps ?mk (script_hex E) = Inr cands"
    and mapped: "r_map ?dc cands = Inr cs"
    using assms by (auto simp: defaultCandidatesAt_def r_bind_eq_Inr)
  have cs: "map dc_script cs = map cand_scriptHex cands"
    by (rule r_map_project [OF mapped]) (auto simp: r_bind_eq_Inr)
  obtain k where "deriveDescriptorLeafPubKey (cl_expand E) d = Inr k" "distinct (map cand_scriptHex cands)"
    "set (map cand_scriptHex cands) = {script_hex E v |s t v. s \<in> all_signers deps \<and> t \<in> set (cd_csvTimelocks deps) \<and> ?mk k s t = Inr v}"
    using candidates_spec [OF cands] by blast
  then show ?thesis
    unfolding cs default_scripts_def by (auto simp: r_bind_eq_Inr)
qed

lemma fold_js_set:
  "distinct (map fst xs) \<Longrightarrow> (i, y) \<in> set xs \<Longrightarrow> js_get (fold (\<lambda>(i, y). js_set i y) xs m) i = Some y"
proof (induction xs arbitrary: m)
  case (Cons x xs)
  have other: "i \<notin> set (map fst xs) \<Longrightarrow> js_get (fold (\<lambda>(i, y). js_set i y) xs m) i = js_get m i" for m
    by (induction xs arbitrary: m) auto
  show ?case
    using Cons by (cases x) (auto simp: other image_iff split: prod.splits)
qed simp

lemma discover_spec:
  assumes "pages_correctly provider filters coins_of" and "coins_by_script coins_of" and "distinct (map fst entries)"
    and build: "\<forall>(i, d) \<in> set entries. build i d = Inr (cands i d)"
  shows "\<exists>m. discoverIndexerCandidates provider filters entries build emit = Some (Inr m)
    \<and> (\<forall>(i, d) \<in> set entries. js_get m i = Some (map (\<lambda>c. emit c i d) (filter (\<lambda>c. coins_of (dc_script c) \<noteq> []) (cands i d))))"
proof -
  let ?per = "map (\<lambda>(i, d). (i, d, cands i d)) entries"
  let ?scripts = "concat (map (\<lambda>(_, _, cs). map dc_script cs) ?per)"
  have per: "r_map (\<lambda>(i, d). r_bind (build i d) (\<lambda>cs. Inr (i, d, cs))) entries = Inr ?per"
    using build by (intro r_map_all) auto
  obtain u where u: "detectUsedScripts provider filters ?scripts = Some (Inr u)" "set u = {s \<in> set ?scripts. coins_of s \<noteq> []}"
    using detect_used [OF assms(1,2)] by blast
  let ?entry = "\<lambda>(i, d, cs). (i, map (\<lambda>c. emit c i d) (filter (\<lambda>c. dc_script c \<in> set u) cs))"
  let ?m = "fold (\<lambda>(i, y). js_set i y) (map ?entry ?per) []"
  have "discoverIndexerCandidates provider filters entries build emit = Some (Inr ?m)"
    using per u(1) by (simp add: discoverIndexerCandidates_def fold_map comp_def case_prod_beta)
  moreover have "js_get ?m i = Some (map (\<lambda>c. emit c i d) (filter (\<lambda>c. coins_of (dc_script c) \<noteq> []) (cands i d)))"
    if e: "(i, d) \<in> set entries" for i d
  proof -
    have used: "filter (\<lambda>c. dc_script c \<in> set u) (cands i d) = filter (\<lambda>c. coins_of (dc_script c) \<noteq> []) (cands i d)"
    proof (rule filter_cong [OF refl])
      fix c
      assume "c \<in> set (cands i d)"
      then have "dc_script c \<in> set ?scripts"
        using e by (auto intro!: bexI [of _ "(i, d)"])
      then show "dc_script c \<in> set u \<longleftrightarrow> coins_of (dc_script c) \<noteq> []"
        by (simp add: u(2))
    qed
    have "map fst (map ?entry ?per) = map fst entries"
      by (simp add: comp_def case_prod_beta)
    then have dist: "distinct (map fst (map ?entry ?per))"
      using assms(3) by (simp only:)
    have mem: "(i, map (\<lambda>c. emit c i d) (filter (\<lambda>c. dc_script c \<in> set u) (cands i d))) \<in> set (map ?entry ?per)"
      unfolding set_map by (rule image_eqI [of _ _ "(i, d, cands i d)"]) (use e in \<open>auto intro: rev_image_eqI\<close>)
    show ?thesis
      using fold_js_set [OF dist mem, of "[]"] unfolding used .
  qed
  ultimately show ?thesis
    by auto
qed

lemma emit_script [simp]: "dc_script (emit_rotated c i d) = dc_script c"
  by (simp add: emit_rotated_def split: option.splits)

text \<open>
  C25. Discovery is complete and exact. Against an indexer that pages correctly, the discovery of the default contracts ends
  with an answer for every requested index, and the contracts it reports for an index are exactly the scripts of the index's
  key with some signer, current or deprecated, and some timelock, that hold or held a coin, each reported once.
\<close>

theorem discovery_complete:
  assumes "pages_correctly provider filters coins_of" and "coins_by_script coins_of" and "distinct (map fst entries)"
    and "\<forall>(i, d) \<in> set entries. \<exists>cs. defaultCandidatesAt E address deps i d = Inr cs"
  shows "\<exists>m. discoverDefaultRange E address provider filters deps entries = Some (Inr m)
    \<and> (\<forall>(i, d) \<in> set entries. \<exists>found. js_get m i = Some found \<and> distinct (map dc_script found)
        \<and> set (map dc_script found) = {s \<in> default_scripts E deps d. coins_of s \<noteq> []})"
proof -
  let ?cands = "\<lambda>i d. projr (defaultCandidatesAt E address deps i d)"
  have build: "\<forall>(i, d) \<in> set entries. defaultCandidatesAt E address deps i d = Inr (?cands i d)"
    using assms(4) by fastforce
  obtain m where m: "discoverDefaultRange E address provider filters deps entries = Some (Inr m)"
    and found: "\<forall>(i, d) \<in> set entries. js_get m i =
      Some (map (\<lambda>c. emit_rotated c i d) (filter (\<lambda>c. coins_of (dc_script c) \<noteq> []) (?cands i d)))"
    using discover_spec [OF assms(1-3) build, of emit_rotated] by (auto simp: discoverDefaultRange_def)
  have "\<exists>found. js_get m i = Some found \<and> distinct (map dc_script found)
      \<and> set (map dc_script found) = {s \<in> default_scripts E deps d. coins_of s \<noteq> []}" if e: "(i, d) \<in> set entries" for i d
  proof -
    let ?found = "map (\<lambda>c. emit_rotated c i d) (filter (\<lambda>c. coins_of (dc_script c) \<noteq> []) (?cands i d))"
    have cands: "distinct (map dc_script (?cands i d))" "set (map dc_script (?cands i d)) = default_scripts E deps d"
      using default_candidates [of E address deps i d "?cands i d"] build e by auto
    have "map dc_script ?found = filter (\<lambda>s. coins_of s \<noteq> []) (map dc_script (?cands i d))"
      by (simp add: comp_def filter_map)
    then have "distinct (map dc_script ?found)"
      "set (map dc_script ?found) = {s \<in> default_scripts E deps d. coins_of s \<noteq> []}"
      using cands by (simp_all only: distinct_filter set_filter)
    moreover have "js_get m i = Some ?found"
      using found e by auto
    ultimately show ?thesis
      by blast
  qed
  then show ?thesis
    using m by auto
qed

definition sample_discovery_lib :: contract_lib where
  "sample_discovery_lib = sample_contract_lib\<lparr>cl_expand := (\<lambda>net d. Some (Some
     \<lparr>ek_bip32 = None, ek_bip32_publicKey = [], ek_pubkey = Some (sample_key 1), ek_masterFingerprint = None,
      ek_originPath = None, ek_keyPath = None\<rparr>))\<rparr>"

definition sample_deps :: CandidateDeps where
  "sample_deps = \<lparr>cd_serverPubKey = sample_key 2, cd_deprecatedSignerPubKeys = None,
     cd_csvTimelocks = [\<lparr>tl_value = 5, tl_type = InBlocks\<rparr>], cd_delegatePubKey = None\<rparr>"

definition found_coin :: "string \<Rightarrow> VirtualCoin" where
  "found_coin s = \<lparr>coin_txid = ''t'', coin_vout = 0, coin_value = 1, coin_status = \<lparr>confirmed = True, isLeaf = None, block_time = None\<rparr>,
     coin_createdAt = 0, coin_script = s, isUnrolled = False, isSpent = None, isSwept = None, isPreconfirmed = None,
     settledBy = None, spentBy = None, arkTxId = None, commitmentTxIds = None, expiry = no_expiry, virtualStatus = None,
     coin_assets = None\<rparr>"

definition found_indexer :: "unit get_vtxos" where
  "found_indexer q = Inr (take (q_pageSize q) (drop (q_pageIndex q * q_pageSize q)
     (concat (map (\<lambda>s. [found_coin s]) (q_scripts q)))), True)"

lemma sample_default:
  "\<exists>v. new_default sample_discovery_lib \<lparr>opt_pubKey = sample_key 1, opt_serverPubKey = sample_key 2,
     opt_csvTimelock = \<lparr>tl_value = 5, tl_type = InBlocks\<rparr>\<rparr> = Inr v"
proof -
  obtain s1 s2 where s: "MultisigTapscript_encode std_lib (keys_of [sample_key 1, sample_key 2])
      = Inr (checksig_keys [sample_key 1, sample_key 2], s1)"
    "CSVMultisigTapscript_encode std_lib \<lparr>tl_value = 5, tl_type = InBlocks\<rparr> (keys_of [sample_key 1])
      = Inr (checksig_keys [sample_key 1], s2)"
    using std_multisig [of "[sample_key 1, sample_key 2]"] std_csv [of "[sample_key 1]" 5] by (auto simp: sample_key_def)
  have "\<exists>w. VtxoScript_new 0xc0 sample_p2tr [s1, s2] = Inr w"
    by (simp add: VtxoScript_new_def assembleBtcdTaprootTree_def sample_p2tr_def)
  then show ?thesis
    using s by (auto simp: new_default_def DefaultVtxo_new_def lift_vscript_def lift_leaf_def lift_vs_def lift_tap_def keys_of_def
        cl_hex_def cl_script_def sample_discovery_lib_def sample_contract_lib_def sample_vhtlc_lib_def)
qed

theorem discovery_complete_witness:
  "\<exists>m c. discoverDefaultRange sample_discovery_lib (\<lambda>v k. ''ark'') found_indexer () sample_deps [(1, ''tr(x)'')] = Some (Inr m)
     \<and> js_get m 1 = Some [c]"
proof -
  let ?E = sample_discovery_lib and ?address = "\<lambda>v k. ''ark''"
  obtain v where v: "new_default ?E \<lparr>opt_pubKey = sample_key 1, opt_serverPubKey = sample_key 2,
      opt_csvTimelock = \<lparr>tl_value = 5, tl_type = InBlocks\<rparr>\<rparr> = Inr v"
    using sample_default by blast
  have key: "deriveDescriptorLeafPubKey (cl_expand ?E) ''tr(x)'' = Inr (sample_key 1)"
    by (simp add: deriveDescriptorLeafPubKey_def sample_discovery_lib_def)
  have "csv_string ?E \<lparr>tl_value = 5, tl_type = InBlocks\<rparr> = Inr (int_str 5)"
    by (simp add: csv_string_def timelockToSequence_def lift_timelock_def std_lib_def cl_script_def sample_discovery_lib_def
        sample_contract_lib_def sample_vhtlc_lib_def)
  then have built: "\<exists>cs. defaultCandidatesAt ?E ?address sample_deps 1 ''tr(x)'' = Inr cs"
    using v key by (simp add: defaultCandidatesAt_def buildSignerTimelockCandidates_def sample_deps_def cross_def lift_descriptor_def)
  have "default_scripts ?E sample_deps ''tr(x)'' = {script_hex ?E (base_script v)}"
    using v key by (auto simp: default_scripts_def all_signers_def sample_deps_def)
  moreover have "pages_correctly found_indexer () (\<lambda>s. [found_coin s])"
    by (simp add: pages_correctly_def found_indexer_def)
  moreover have "coins_by_script (\<lambda>s. [found_coin s])"
    by (simp add: coins_by_script_def found_coin_def)
  ultimately obtain m found where m: "discoverDefaultRange ?E ?address found_indexer () sample_deps [(1, ''tr(x)'')] = Some (Inr m)"
    "js_get m 1 = Some found" "distinct (map dc_script found)" "set (map dc_script found) = {script_hex ?E (base_script v)}"
    using discovery_complete [of found_indexer "()" "\<lambda>s. [found_coin s]" "[(1, ''tr(x)'')]" ?E ?address sample_deps] built by auto
  then have "card (set (map dc_script found)) = length found"
    using distinct_card [OF m(3)] by simp
  then have "length found = 1"
    using m(4) by simp
  then obtain c where "found = [c]"
    by (cases found) auto
  then show ?thesis
    using m by blast
qed

end
