(* ===== verification/Batch_Recipients.thy ===== *)
theory Batch_Recipients
  imports Extension Asset_Coins Tx_Tree Tapscript
begin

text \<open>
  What a batch pays: Arkade addresses (\<open>script/address.ts\<close>) and the checks of \<open>wallet/validation.ts\<close> that every requested recipient is
  in the batch the server built, offchain ones in the leaves of the virtual output tree with their assets, onchain ones in the
  commitment transaction.

  \<open>recipient_lib\<close> collects the third-party code: hex, the script coder, bech32m (\<open>None\<close> when decoding throws or
  finds no address) and the scripts of onchain addresses. Transaction outputs are those of \<open>Tx_Tree\<close>.
\<close>

section \<open>Addresses\<close>

record ArkAddress =
  aa_serverPubKey :: bytes
  aa_vtxoTaprootKey :: bytes
  aa_hrp :: string
  aa_version :: byte

datatype address_err = InvalidAddress | InvalidDataLength nat | InvalidServerKeyLength nat | InvalidTaprootKeyLength nat

definition ArkAddress_new :: "bytes \<Rightarrow> bytes \<Rightarrow> string \<Rightarrow> byte \<Rightarrow> address_err + ArkAddress" where
  "ArkAddress_new serverPubKey vtxoTaprootKey prefix version =
     r_bind (r_require (length serverPubKey = 32) (InvalidServerKeyLength (length serverPubKey))) (\<lambda>_.
     r_bind (r_require (length vtxoTaprootKey = 32) (InvalidTaprootKeyLength (length vtxoTaprootKey))) (\<lambda>_.
       Inr \<lparr>aa_serverPubKey = serverPubKey, aa_vtxoTaprootKey = vtxoTaprootKey, aa_hrp = prefix, aa_version = version\<rparr>))"

definition ArkAddress_decode :: "(string \<Rightarrow> (string \<times> bytes) option) \<Rightarrow> string \<Rightarrow> address_err + ArkAddress" where
  "ArkAddress_decode b32dec address =
     (case b32dec address of
        None \<Rightarrow> Inl InvalidAddress
      | Some (prefix, data) \<Rightarrow>
          r_bind (r_require (length data = 1 + 32 + 32) (InvalidDataLength (length data))) (\<lambda>_.
            ArkAddress_new (take 32 (drop 1 data)) (take 32 (drop 33 data)) prefix (data ! 0)))"

definition ArkAddress_encode :: "(string \<Rightarrow> bytes \<Rightarrow> string option) \<Rightarrow> ArkAddress \<Rightarrow> string option" where
  "ArkAddress_encode b32enc a = b32enc (aa_hrp a) (aa_version a # aa_serverPubKey a @ aa_vtxoTaprootKey a)"

definition pkScript :: "script_lib \<Rightarrow> ArkAddress \<Rightarrow> bytes option" where
  "pkScript L a = s_encode L [Op ''OP_1'', Push (aa_vtxoTaprootKey a)]"

definition subdustPkScript :: "script_lib \<Rightarrow> ArkAddress \<Rightarrow> bytes option" where
  "subdustPkScript L a = s_encode L [Op ''RETURN'', Push (aa_vtxoTaprootKey a)]"

text \<open>An address that is written reads back, when bech32m does.\<close>

lemma address_roundtrip:
  assumes "\<And>p d s. b32enc p d = Some s \<Longrightarrow> b32dec s = Some (p, d)"
    and "ArkAddress_new k v p n = Inr a" and "ArkAddress_encode b32enc a = Some s"
  shows "ArkAddress_decode b32dec s = Inr a"
proof -
  have a: "length k = 32" "length v = 32"
    "a = \<lparr>aa_serverPubKey = k, aa_vtxoTaprootKey = v, aa_hrp = p, aa_version = n\<rparr>"
    using assms(2) by (auto simp: ArkAddress_new_def r_bind_eq_Inr)
  have "b32dec s = Some (p, n # k @ v)"
    using assms(1,3) by (simp add: ArkAddress_encode_def a)
  then show ?thesis
    by (simp add: ArkAddress_decode_def ArkAddress_new_def a)
qed

section \<open>Recipients of a batch\<close>

record recipient_lib =
  rl_henc :: hex_encode
  rl_sdec :: script_decode
  rl_script :: script_lib
  rl_b32 :: "string \<Rightarrow> (string \<times> bytes) option"
  rl_onchain :: "string \<Rightarrow> bytes option"

datatype recipient_err =
    ErrOffchainOutputNotFound string | ErrInvalidAssetOutputAmount int int string | ErrAssetGroupNotFound string
  | ErrAssetOutputNotFound string nat | ErrOnchainOutputNotFound string | ErrUnvalidatedOffchainOutput string
  | ErrInvalidOnchainOutputAmount string | ErrInvalidOnchainOutputAssets string | ErrInvalidOffchainOutputAmount string
  | FinalCommitmentDiffers string string | NoAssetPacket | ExtensionErr ext_err | BadOnchainAddress string
  | ScriptCoderThrew

definition assertFinalCommitmentMatchesValidated :: "Tx \<Rightarrow> string option \<Rightarrow> recipient_err + unit" where
  "assertFinalCommitmentMatchesValidated finalCommitmentTx validatedCommitmentTxid =
     (if \<not> truthy_str validatedCommitmentTxid then Inr ()
      else if Some (tx_id finalCommitmentTx) = validatedCommitmentTxid then Inr ()
      else Inl (FinalCommitmentDiffers (tx_id finalCommitmentTx) (the validatedCommitmentTxid)))"

definition has_script :: "TxOutput \<Rightarrow> bytes \<Rightarrow> bool" where
  "has_script out s \<longleftrightarrow> (case out_script out of None \<Rightarrow> False | Some t \<Rightarrow> t \<noteq> [] \<and> t = s)"

fun onchain_loop :: "bytes \<Rightarrow> int \<Rightarrow> nat list \<Rightarrow> nat \<Rightarrow> TxOutput list \<Rightarrow> nat option" where
  "onchain_loop expected amount used i [] = None"
| "onchain_loop expected amount used i (out # outs) =
     (if i \<notin> set used \<and> has_script out expected \<and> TxOutput.out_amount out = Some amount then Some i
      else onchain_loop expected amount used (Suc i) outs)"

definition no_amount :: "Recipient \<Rightarrow> bool" where
  "no_amount r \<longleftrightarrow> rec_amount r = None \<or> rec_amount r = Some 0"

definition validateOnchainRecipient :: "recipient_lib \<Rightarrow> Tx \<Rightarrow> Recipient \<Rightarrow> nat list \<Rightarrow> recipient_err + nat list" where
  "validateOnchainRecipient E commitmentTx r used =
     (case rl_onchain E (rec_address r) of
        None \<Rightarrow> Inl (BadOnchainAddress (rec_address r))
      | Some expected \<Rightarrow>
          if no_amount r then Inl (ErrInvalidOnchainOutputAmount (rec_address r))
          else if (case rec_assets r of Some as \<Rightarrow> as \<noteq> [] | None \<Rightarrow> False)
               then Inl (ErrInvalidOnchainOutputAssets (rec_address r))
          else case onchain_loop expected (the (rec_amount r)) used 0 (tx_outputs commitmentTx) of
              None \<Rightarrow> Inl (ErrOnchainOutputNotFound (rec_address r))
            | Some i \<Rightarrow> Inr (i # used))"

definition validateAssetGroupOutput :: "hex_encode \<Rightarrow> AssetGroup list \<Rightarrow> nat \<Rightarrow> Asset \<Rightarrow> recipient_err + unit" where
  "validateAssetGroupOutput henc packet outputIndex a =
     (case find (\<lambda>g. \<not> isIssuance g \<and> AssetId_toString henc (the (ag_assetId g)) = Inr (assetId a)) packet of
        None \<Rightarrow> Inl (ErrAssetGroupNotFound (assetId a))
      | Some assetGroup \<Rightarrow>
          (case find (\<lambda>out. out_vout out = int outputIndex) (ag_outputs assetGroup) of
             None \<Rightarrow> Inl (ErrAssetOutputNotFound (assetId a) outputIndex)
           | Some out \<Rightarrow> if AssetOutput.out_amount out \<noteq> asset_amount a
               then Inl (ErrInvalidAssetOutputAmount (AssetOutput.out_amount out) (asset_amount a) (assetId a))
               else Inr ()))"

definition validateAssetOutputs :: "recipient_lib \<Rightarrow> Tx \<Rightarrow> nat \<Rightarrow> Asset list \<Rightarrow> recipient_err + unit" where
  "validateAssetOutputs E leafTx outputIndex expectedAssets =
     (case Extension_fromTx (rl_henc E) (rl_sdec E) (map out_script (tx_outputs leafTx)) of
        Inl e \<Rightarrow> Inl (ExtensionErr e)
      | Inr ext \<Rightarrow>
          (case getAssetPacket ext of
             None \<Rightarrow> Inl NoAssetPacket
           | Some packet \<Rightarrow> r_each (validateAssetGroupOutput (rl_henc E) packet outputIndex) expectedAssets))"

text \<open>The used outputs are pairs of a leaf's and an output's index, the key \<open>leafIdx:outputIndex\<close>.\<close>

fun output_loop :: "bytes \<Rightarrow> int \<Rightarrow> (nat \<times> nat) list \<Rightarrow> nat \<Rightarrow> nat \<Rightarrow> TxOutput list \<Rightarrow> nat option" where
  "output_loop expected amount used leafIdx k [] = None"
| "output_loop expected amount used leafIdx k (out # outs) =
     (if has_script out expected \<and> TxOutput.out_amount out = Some amount \<and> (leafIdx, k) \<notin> set used then Some k
      else output_loop expected amount used leafIdx (Suc k) outs)"

fun leaf_loop :: "bytes \<Rightarrow> int \<Rightarrow> (nat \<times> nat) list \<Rightarrow> nat \<Rightarrow> Tx list \<Rightarrow> (nat \<times> nat \<times> Tx) option" where
  "leaf_loop expected amount used leafIdx [] = None"
| "leaf_loop expected amount used leafIdx (leaf # ls) =
     (case output_loop expected amount used leafIdx 0 (tx_outputs leaf) of
        Some k \<Rightarrow> Some (leafIdx, k, leaf)
      | None \<Rightarrow> leaf_loop expected amount used (Suc leafIdx) ls)"

definition validateOffchainRecipient ::
  "recipient_lib \<Rightarrow> Tx list \<Rightarrow> ArkAddress \<Rightarrow> Recipient \<Rightarrow> (nat \<times> nat) list \<Rightarrow> recipient_err + (nat \<times> nat) list" where
  "validateOffchainRecipient E ls arkAddress r used =
     (case pkScript (rl_script E) arkAddress of
        None \<Rightarrow> Inl ScriptCoderThrew
      | Some expected \<Rightarrow>
          if no_amount r then Inl (ErrInvalidOffchainOutputAmount (rec_address r))
          else case leaf_loop expected (the (rec_amount r)) used 0 ls of
              None \<Rightarrow> Inl (ErrOffchainOutputNotFound (rec_address r))
            | Some (leafIdx, k, leaf) \<Rightarrow>
                r_bind (case rec_assets r of
                    Some as \<Rightarrow> if as \<noteq> [] then validateAssetOutputs E leaf k as else Inr ()
                  | None \<Rightarrow> Inr ()) (\<lambda>_. Inr ((leafIdx, k) # used)))"

fun recipients_loop ::
  "recipient_lib \<Rightarrow> Tx \<Rightarrow> Tx list \<Rightarrow> Recipient list \<Rightarrow> (nat \<times> nat) list \<Rightarrow> nat list \<Rightarrow> recipient_err + unit" where
  "recipients_loop E commitmentTx ls [] used usedOnchain = Inr ()"
| "recipients_loop E commitmentTx ls (r # rs) used usedOnchain =
     (case ArkAddress_decode (rl_b32 E) (rec_address r) of
        Inl _ \<Rightarrow> r_bind (validateOnchainRecipient E commitmentTx r usedOnchain)
                  (recipients_loop E commitmentTx ls rs used)
      | Inr a \<Rightarrow> r_bind (validateOffchainRecipient E ls a r used)
                  (\<lambda>used'. recipients_loop E commitmentTx ls rs used' usedOnchain))"

definition validateBatchRecipients :: "recipient_lib \<Rightarrow> Tx \<Rightarrow> Tx list \<Rightarrow> Recipient list \<Rightarrow> recipient_err + unit" where
  "validateBatchRecipients E commitmentTx vtxoTreeLeaves recipients =
     recipients_loop E commitmentTx vtxoTreeLeaves recipients [] []"

fun onchain_recipients_loop :: "recipient_lib \<Rightarrow> Tx \<Rightarrow> Recipient list \<Rightarrow> nat list \<Rightarrow> recipient_err + unit" where
  "onchain_recipients_loop E commitmentTx [] usedOnchain = Inr ()"
| "onchain_recipients_loop E commitmentTx (r # rs) usedOnchain =
     (case ArkAddress_decode (rl_b32 E) (rec_address r) of
        Inl _ \<Rightarrow> r_bind (validateOnchainRecipient E commitmentTx r usedOnchain)
                  (onchain_recipients_loop E commitmentTx rs)
      | Inr a \<Rightarrow> Inl (ErrUnvalidatedOffchainOutput (rec_address r)))"

definition validateBatchRecipientsWithoutTree :: "recipient_lib \<Rightarrow> Tx \<Rightarrow> Recipient list \<Rightarrow> recipient_err + unit" where
  "validateBatchRecipientsWithoutTree E commitmentTx recipients =
     onchain_recipients_loop E commitmentTx recipients []"

section \<open>What an accepted batch pays\<close>

datatype paid_at = InCommitment nat | InLeaf nat nat

definition pays :: "TxOutput list \<Rightarrow> nat \<Rightarrow> bytes option \<Rightarrow> Recipient \<Rightarrow> bool" where
  "pays outs k s r \<longleftrightarrow> (\<exists>t amt. s = Some t \<and> rec_amount r = Some amt \<and> amt \<noteq> 0 \<and> k < length outs \<and>
     out_script (outs ! k) = Some t \<and> t \<noteq> [] \<and> TxOutput.out_amount (outs ! k) = Some amt)"

definition asset_paid :: "recipient_lib \<Rightarrow> Tx \<Rightarrow> nat \<Rightarrow> Asset \<Rightarrow> bool" where
  "asset_paid E leaf k a \<longleftrightarrow> (\<exists>ext packet g out.
     Extension_fromTx (rl_henc E) (rl_sdec E) (map out_script (tx_outputs leaf)) = Inr ext \<and>
     getAssetPacket ext = Some packet \<and> g \<in> set packet \<and> \<not> isIssuance g \<and>
     AssetId_toString (rl_henc E) (the (ag_assetId g)) = Inr (assetId a) \<and>
     out \<in> set (ag_outputs g) \<and> out_vout out = int k \<and> AssetOutput.out_amount out = asset_amount a)"

fun paid :: "recipient_lib \<Rightarrow> Tx \<Rightarrow> Tx list \<Rightarrow> Recipient \<Rightarrow> paid_at \<Rightarrow> bool" where
  "paid E tx ls r (InCommitment k) \<longleftrightarrow>
     pays (tx_outputs tx) k (rl_onchain E (rec_address r)) r \<and> (rec_assets r = None \<or> rec_assets r = Some [])"
| "paid E tx ls r (InLeaf l k) \<longleftrightarrow>
     (\<exists>a. ArkAddress_decode (rl_b32 E) (rec_address r) = Inr a \<and> l < length ls \<and>
       pays (tx_outputs (ls ! l)) k (pkScript (rl_script E) a) r) \<and>
     (\<forall>as \<in> set_option (rec_assets r). \<forall>x \<in> set as. asset_paid E (ls ! l) k x)"

lemma has_script_iff: "has_script out s \<longleftrightarrow> out_script out = Some s \<and> s \<noteq> []"
  by (auto simp: has_script_def split: option.splits)

lemma onchain_loop_Some:
  "onchain_loop s amt used i outs = Some k \<Longrightarrow>
     k \<notin> set used \<and> i \<le> k \<and> k - i < length outs \<and> has_script (outs ! (k - i)) s \<and>
     TxOutput.out_amount (outs ! (k - i)) = Some amt"
proof (induction s amt used i outs rule: onchain_loop.induct)
  case (2 s amt used i out outs)
  then show ?case
    by (cases "k = i") (auto simp: nth_Cons' Suc_diff_Suc split: if_splits)
qed simp

lemma output_loop_Some:
  "output_loop s amt used l i outs = Some k \<Longrightarrow>
     (l, k) \<notin> set used \<and> i \<le> k \<and> k - i < length outs \<and> has_script (outs ! (k - i)) s \<and>
     TxOutput.out_amount (outs ! (k - i)) = Some amt"
proof (induction s amt used l i outs rule: output_loop.induct)
  case (2 s amt used l i out outs)
  then show ?case
    by (cases "k = i") (auto simp: nth_Cons' Suc_diff_Suc split: if_splits)
qed simp

lemma leaf_loop_Some:
  "leaf_loop s amt used i ls = Some (l, k, leaf) \<Longrightarrow>
     i \<le> l \<and> l - i < length ls \<and> ls ! (l - i) = leaf \<and> (l, k) \<notin> set used \<and> k < length (tx_outputs leaf) \<and>
     has_script (tx_outputs leaf ! k) s \<and> TxOutput.out_amount (tx_outputs leaf ! k) = Some amt"
proof (induction s amt used i ls rule: leaf_loop.induct)
  case (2 s amt used i leaf' ls)
  show ?case
  proof (cases "output_loop s amt used i 0 (tx_outputs leaf')")
    case None
    then show ?thesis
      using 2 by (cases "l = i") (auto simp: nth_Cons' Suc_diff_Suc)
  next
    case (Some k')
    then show ?thesis
      using 2(2) output_loop_Some [OF Some] by auto
  qed
qed simp

lemma asset_group_paid:
  assumes "validateAssetOutputs E leaf k as = Inr ()" and "a \<in> set as"
  shows "asset_paid E leaf k a"
proof -
  obtain ext packet where e: "Extension_fromTx (rl_henc E) (rl_sdec E) (map out_script (tx_outputs leaf)) = Inr ext"
    "getAssetPacket ext = Some packet" "validateAssetGroupOutput (rl_henc E) packet k a = Inr ()"
    using assms by (auto simp: validateAssetOutputs_def split: sum.splits option.splits)
  then obtain g out where "find (\<lambda>g. \<not> isIssuance g \<and> AssetId_toString (rl_henc E) (the (ag_assetId g)) = Inr (assetId a)) packet = Some g"
    "find (\<lambda>out. out_vout out = int k) (ag_outputs g) = Some out" "AssetOutput.out_amount out = asset_amount a"
    by (auto simp: validateAssetGroupOutput_def split: option.splits if_splits)
  then show ?thesis
    using e unfolding asset_paid_def find_Some_iff by (metis nth_mem)
qed

lemma onchain_paid:
  assumes "validateOnchainRecipient E tx r used = Inr used'"
  shows "\<exists>k. used' = k # used \<and> k \<notin> set used \<and> paid E tx ls r (InCommitment k)"
  using assms onchain_loop_Some [of _ "the (rec_amount r)" used 0 "tx_outputs tx"]
  by (auto simp: validateOnchainRecipient_def pays_def no_amount_def has_script_iff split: option.splits if_splits)

lemma offchain_paid:
  assumes "ArkAddress_decode (rl_b32 E) (rec_address r) = Inr a" and "validateOffchainRecipient E ls a r used = Inr used'"
  shows "\<exists>l k. used' = (l, k) # used \<and> (l, k) \<notin> set used \<and> paid E tx ls r (InLeaf l k)"
proof -
  obtain s where s: "pkScript (rl_script E) a = Some s" "\<not> no_amount r"
    using assms(2) by (auto simp: validateOffchainRecipient_def split: option.splits if_splits)
  then obtain l k leaf where lp: "leaf_loop s (the (rec_amount r)) used 0 ls = Some (l, k, leaf)"
    using assms(2) by (auto simp: validateOffchainRecipient_def split: option.splits)
  note leaf = leaf_loop_Some [OF lp]
  have u: "used' = (l, k) # used"
    and assets: "\<forall>as \<in> set_option (rec_assets r). as \<noteq> [] \<longrightarrow> validateAssetOutputs E (ls ! l) k as = Inr ()"
    using assms(2) leaf by (auto simp: validateOffchainRecipient_def s lp r_bind_eq_Inr split: option.splits if_splits)
  have "\<forall>as \<in> set_option (rec_assets r). \<forall>x \<in> set as. asset_paid E (ls ! l) k x"
    using assets asset_group_paid by fastforce
  then show ?thesis
    using s u assms(1) leaf by (auto simp: pays_def no_amount_def has_script_iff)
qed

lemma recipients_loop_paid:
  "recipients_loop E tx ls rs used usedOn = Inr () \<Longrightarrow>
     \<exists>locs. list_all2 (paid E tx ls) rs locs \<and> distinct locs \<and>
       set locs \<inter> ((\<lambda>(l, k). InLeaf l k) ` set used \<union> InCommitment ` set usedOn) = {}"
proof (induction rs arbitrary: used usedOn)
  case (Cons r rs)
  show ?case
  proof (cases "ArkAddress_decode (rl_b32 E) (rec_address r)")
    case (Inl e)
    then obtain k where k: "k \<notin> set usedOn" "paid E tx ls r (InCommitment k)"
      "recipients_loop E tx ls rs used (k # usedOn) = Inr ()"
      using Cons(2) onchain_paid by (fastforce simp: r_bind_eq_Inr)
    from Cons.IH [OF k(3)] obtain locs where "list_all2 (paid E tx ls) rs locs" "distinct locs"
      "set locs \<inter> ((\<lambda>(l, k). InLeaf l k) ` set used \<union> InCommitment ` set (k # usedOn)) = {}"
      by blast
    then show ?thesis
      using k by (intro exI [of _ "InCommitment k # locs"]) auto
  next
    case (Inr a)
    then obtain l k where k: "(l, k) \<notin> set used" "paid E tx ls r (InLeaf l k)"
      "recipients_loop E tx ls rs ((l, k) # used) usedOn = Inr ()"
      using Cons(2) offchain_paid [OF Inr] by (fastforce simp: r_bind_eq_Inr)
    from Cons.IH [OF k(3)] obtain locs where "list_all2 (paid E tx ls) rs locs" "distinct locs"
      "set locs \<inter> ((\<lambda>(l, k). InLeaf l k) ` set ((l, k) # used) \<union> InCommitment ` set usedOn) = {}"
      by blast
    then show ?thesis
      using k by (intro exI [of _ "InLeaf l k # locs"]) auto
  qed
qed simp

text \<open>
  C4. A batch that passes the recipient checks pays every requested recipient, each by an output of its own:
  there are distinct outputs, one per recipient, with the script of its address and exactly its amount, onchain recipients in the
  commitment transaction and offchain ones in a leaf of the tree, whose asset packet assigns that output exactly the requested assets.
\<close>

theorem recipients_paid:
  assumes "validateBatchRecipients E tx ls rs = Inr ()"
  shows "\<exists>locs. list_all2 (paid E tx ls) rs locs \<and> distinct locs"
  using recipients_loop_paid [of E tx ls rs "[]" "[]"] assms by (auto simp: validateBatchRecipients_def)

lemma without_tree_loop:
  "onchain_recipients_loop E tx rs used = Inr () \<Longrightarrow>
     recipients_loop E tx ls rs usedLeaves used = Inr () \<and>
     (\<forall>r \<in> set rs. \<forall>a. ArkAddress_decode (rl_b32 E) (rec_address r) \<noteq> Inr a)"
  by (induction rs arbitrary: used) (auto split: sum.splits simp: r_bind_eq_Inr)

lemma without_tree_paid:
  assumes "validateBatchRecipientsWithoutTree E tx rs = Inr ()"
  shows "\<exists>ks. list_all2 (paid E tx []) rs (map InCommitment ks) \<and> distinct ks"
proof -
  obtain locs where l: "list_all2 (paid E tx []) rs locs" "distinct locs"
    using without_tree_loop [of E tx rs "[]" "[]" "[]"] recipients_loop_paid [of E tx "[]" rs "[]" "[]"] assms
    by (auto simp: validateBatchRecipientsWithoutTree_def)
  have "\<exists>k. x = InCommitment k" if mem: "x \<in> set locs" for x
  proof -
    obtain i where "i < length locs" "x = locs ! i"
      using mem by (auto simp: in_set_conv_nth)
    then have "paid E tx [] (rs ! i) x"
      using list_all2_nthD2 [OF l(1)] by simp
    then show ?thesis
      by (cases x) auto
  qed
  then obtain f where "\<forall>x \<in> set locs. x = InCommitment (f x)"
    by metis
  then have "locs = map InCommitment (map f locs)"
    by (simp add: map_idI)
  then show ?thesis
    using l by (metis distinct_map)
qed

text \<open>A batch with one leaf and one onchain output, both paid once.\<close>

definition sample_recipients :: recipient_lib where
  "sample_recipients = \<lparr>rl_henc = key_of_bytes, rl_sdec = (\<lambda>_. None), rl_script = std_lib\<lparr>s_encode := (\<lambda>_. Some [0x51])\<rparr>,
     rl_b32 = (\<lambda>s. if s = ''ark1'' then Some (''ark'', 0 # sample_key 1 @ sample_key 2) else None),
     rl_onchain = (\<lambda>s. Some [0x52])\<rparr>"

definition sample_out :: "byte \<Rightarrow> int \<Rightarrow> TxOutput" where
  "sample_out b n = \<lparr>out_amount = Some n, out_script = Some [b]\<rparr>"

definition sample_tx :: "string \<Rightarrow> TxOutput list \<Rightarrow> Tx" where
  "sample_tx t outs = \<lparr>tx_id = t, tx_inputs = [], tx_outputs = outs, tx_cosigners = [], tx_tapKeySig = None\<rparr>"

theorem recipients_paid_witness:
  "\<exists>locs. list_all2 (paid sample_recipients (sample_tx ''c'' [sample_out 0x51 9, sample_out 0x52 5]) [sample_tx ''l'' [sample_out 0x51 7]])
     [\<lparr>rec_address = ''ark1'', rec_amount = Some 7, rec_assets = None\<rparr>,
      \<lparr>rec_address = ''bc1'', rec_amount = Some 5, rec_assets = None\<rparr>] locs \<and> distinct locs"
  by (rule recipients_paid) (simp add: validateBatchRecipients_def sample_recipients_def ArkAddress_decode_def ArkAddress_new_def
      sample_key_def validateOffchainRecipient_def validateOnchainRecipient_def no_amount_def pkScript_def sample_tx_def
      sample_out_def has_script_def)

end
