(* ===== verification/Server_Policy.thy ===== *)
theory Server_Policy
  imports Vhtlc_Script Js_Number
begin

text \<open>
  What the wallet accepts from the server: the networks and the pinned co-signer keys (\<open>networks.ts\<close>), the
  floors of server-supplied timelocks (\<open>wallet/timelockPolicy.ts\<close>, \<open>wallet/batchExpiry.ts\<close>,
  \<open>wallet/checkpointExitDelay.ts\<close>), key normalization (\<open>utils/keys.ts\<close>) and the classification of
  the server's signers (\<open>wallet/signerRotation.ts\<close>).

  The hex codec is third-party code, an argument. \<open>Partial\<close> overrides of a policy are a function on policies.
\<close>

section \<open>Networks\<close>

datatype NetworkName = Bitcoin | Testnet | Signet | Mutinynet | Regtest

record Network =
  hrp :: string
  bech32 :: string
  pubKeyHash :: int
  scriptHash :: int
  wif :: int
  net_name :: "NetworkName option"

text \<open>\<open>NETWORK\<close> and \<open>TEST_NETWORK\<close> of the signer package; only the three overridden fields and the prefix are
  the code's own.\<close>

definition withArkPrefix :: "Network \<Rightarrow> string \<Rightarrow> NetworkName \<Rightarrow> Network" where
  "withArkPrefix network prefix nm = network\<lparr>hrp := prefix, net_name := Some nm\<rparr>"

definition networks :: "Network \<Rightarrow> Network \<Rightarrow> NetworkName \<Rightarrow> Network" where
  "networks main test nm =
     (case nm of
        Bitcoin \<Rightarrow> withArkPrefix main ''ark'' Bitcoin
      | Testnet \<Rightarrow> withArkPrefix test ''tark'' Testnet
      | Signet \<Rightarrow> withArkPrefix test ''tark'' Signet
      | Mutinynet \<Rightarrow> withArkPrefix test ''tark'' Mutinynet
      | Regtest \<Rightarrow> withArkPrefix (test\<lparr>bech32 := ''bcrt'', pubKeyHash := 0x6f, scriptHash := 0xc4\<rparr>) ''tark'' Regtest)"

text \<open>\<open>None\<close> is a name that is no network.\<close>

datatype network_err = UnsupportedNetwork | NoEmulatorPinned "NetworkName option" | MalformedEmulatorPubkey string

definition getNetwork :: "Network \<Rightarrow> Network \<Rightarrow> NetworkName option \<Rightarrow> network_err + Network" where
  "getNetwork main test nm = (case nm of None \<Rightarrow> Inl UnsupportedNetwork | Some n \<Rightarrow> Inr (networks main test n))"

definition EMULATOR_PUBKEYS :: "(NetworkName \<times> string) list" where
  "EMULATOR_PUBKEYS =
     [(Bitcoin, ''0239c196415da47b26456a101daaa12ba9e445bfe153197f1e2b750bf40e52092e''),
      (Mutinynet, ''03f823b9b2febc81f4af967e77aed2f541cbd3397c6d8f5a72e32eb7b471af889a''),
      (Regtest, ''02999413c46fa10ada5cbc4bcc79a1d09160c2ba3cfc812705d7a13e5e545fb2a9'')]"

definition defaultEmulatorPubkey :: "Network \<Rightarrow> network_err + string" where
  "defaultEmulatorPubkey network =
     (case Option.bind (net_name network) (js_get EMULATOR_PUBKEYS) of
        None \<Rightarrow> Inl (NoEmulatorPinned (net_name network))
      | Some k \<Rightarrow> Inr k)"

text \<open>\<open>/^0[23][0-9a-f]{64}$/\<close>.\<close>

definition COMPRESSED_PUBKEY :: "string \<Rightarrow> bool" where
  "COMPRESSED_PUBKEY s \<longleftrightarrow> length s = 66 \<and> s ! 0 = CHR ''0'' \<and> s ! 1 \<in> set ''23'' \<and>
     list_all (\<lambda>c. c \<in> set ''0123456789abcdef'') (drop 2 s)"

definition resolveEmulatorPubkey :: "Network \<Rightarrow> string option \<Rightarrow> network_err + string" where
  "resolveEmulatorPubkey network override =
     (case override of
        None \<Rightarrow> defaultEmulatorPubkey network
      | Some k \<Rightarrow> r_bind (r_require (COMPRESSED_PUBKEY k) (MalformedEmulatorPubkey k)) (\<lambda>_. Inr k))"

lemma pinned_keys_well_formed: "list_all (COMPRESSED_PUBKEY \<circ> snd) EMULATOR_PUBKEYS"
  by (simp add: EMULATOR_PUBKEYS_def COMPRESSED_PUBKEY_def numeral_nat)

section \<open>Timelock floors\<close>

definition isRegtest :: "Network \<Rightarrow> bool" where
  "isRegtest network \<longleftrightarrow> bech32 network = ''bcrt''"

definition NOMINAL_BLOCK_SECONDS :: int where
  "NOMINAL_BLOCK_SECONDS = 600"

record TimelockFloorPolicy =
  minSeconds :: int
  requireSeconds :: bool

definition toTimelock :: "int \<Rightarrow> RelativeTimelock" where
  "toTimelock v = \<lparr>tl_value = v, tl_type = (if v \<ge> 512 then InSeconds else InBlocks)\<rparr>"

definition toSeconds :: "RelativeTimelock \<Rightarrow> int" where
  "toSeconds t = (if tl_type t = InSeconds then tl_value t else tl_value t * NOMINAL_BLOCK_SECONDS)"

datatype policy_err =
    BlockTyped int | BelowFloor RelativeTimelock int | NotAdvertised int int
  | InvalidCheckpoint | NotOnePubkey nat | WrongForfeitKey bytes

definition assertTimelockInPolicy :: "RelativeTimelock \<Rightarrow> 'a TimelockFloorPolicy_scheme \<Rightarrow> policy_err + RelativeTimelock" where
  "assertTimelockInPolicy timelock p =
     (if requireSeconds p \<and> tl_type timelock = InBlocks then Inl (BlockTyped (tl_value timelock))
      else let seconds = toSeconds timelock in
        if seconds < minSeconds p then Inl (BelowFloor timelock seconds) else Inr timelock)"

definition assertTimelockWithinFloor :: "int \<Rightarrow> 'a TimelockFloorPolicy_scheme \<Rightarrow> policy_err + RelativeTimelock" where
  "assertTimelockWithinFloor v p = assertTimelockInPolicy (toTimelock v) p"

lemma in_policy_iff:
  "assertTimelockInPolicy t p = Inr t' \<longleftrightarrow>
     t' = t \<and> minSeconds p \<le> toSeconds t \<and> (requireSeconds p \<longrightarrow> tl_type t = InSeconds)"
  by (cases "tl_type t") (auto simp: assertTimelockInPolicy_def Let_def)

section \<open>The batch expiry\<close>

definition DEFAULT_MIN_BATCH_EXPIRY_SECONDS :: int where "DEFAULT_MIN_BATCH_EXPIRY_SECONDS = 86400"
definition REGTEST_MIN_BATCH_EXPIRY_SECONDS :: int where "REGTEST_MIN_BATCH_EXPIRY_SECONDS = 6000"

record BatchExpiryPolicy = TimelockFloorPolicy +
  advertisedVtxoTreeExpiry :: "int option"

definition defaultBatchExpiryPolicy :: "Network \<Rightarrow> BatchExpiryPolicy" where
  "defaultBatchExpiryPolicy network =
     (if isRegtest network
      then \<lparr>minSeconds = REGTEST_MIN_BATCH_EXPIRY_SECONDS, requireSeconds = False, advertisedVtxoTreeExpiry = None\<rparr>
      else \<lparr>minSeconds = DEFAULT_MIN_BATCH_EXPIRY_SECONDS, requireSeconds = True, advertisedVtxoTreeExpiry = None\<rparr>)"

definition resolveBatchExpiryPolicy :: "Network \<Rightarrow> (BatchExpiryPolicy \<Rightarrow> BatchExpiryPolicy) \<Rightarrow> BatchExpiryPolicy" where
  "resolveBatchExpiryPolicy network overrides = overrides (defaultBatchExpiryPolicy network)"

definition assertValidBatchExpiry :: "int \<Rightarrow> BatchExpiryPolicy \<Rightarrow> policy_err + RelativeTimelock" where
  "assertValidBatchExpiry batch_expiry p =
     (case advertisedVtxoTreeExpiry p of
        Some a \<Rightarrow> if batch_expiry \<noteq> a then Inl (NotAdvertised batch_expiry a)
                  else assertTimelockWithinFloor batch_expiry p
      | None \<Rightarrow> assertTimelockWithinFloor batch_expiry p)"

section \<open>The checkpoint exit delay\<close>

definition DEFAULT_MIN_CHECKPOINT_EXIT_DELAY_SECONDS :: int where "DEFAULT_MIN_CHECKPOINT_EXIT_DELAY_SECONDS = 86400"
definition REGTEST_MIN_CHECKPOINT_EXIT_DELAY_SECONDS :: int where "REGTEST_MIN_CHECKPOINT_EXIT_DELAY_SECONDS = 1200"
definition MUTINYNET_MIN_CHECKPOINT_EXIT_DELAY_SECONDS :: int where "MUTINYNET_MIN_CHECKPOINT_EXIT_DELAY_SECONDS = 4096"
definition SIGNET_MIN_CHECKPOINT_EXIT_DELAY_SECONDS :: int where "SIGNET_MIN_CHECKPOINT_EXIT_DELAY_SECONDS = 86016"

definition HOSTED_MIN_CHECKPOINT_EXIT_DELAY_SECONDS :: "(NetworkName \<times> int) list" where
  "HOSTED_MIN_CHECKPOINT_EXIT_DELAY_SECONDS =
     [(Signet, SIGNET_MIN_CHECKPOINT_EXIT_DELAY_SECONDS), (Mutinynet, MUTINYNET_MIN_CHECKPOINT_EXIT_DELAY_SECONDS)]"

record CheckpointExitDelayPolicy = TimelockFloorPolicy +
  advertisedForfeitPubkey :: "bytes option"

definition defaultCheckpointExitDelayPolicy :: "Network \<Rightarrow> CheckpointExitDelayPolicy" where
  "defaultCheckpointExitDelayPolicy network =
     (if isRegtest network
      then \<lparr>minSeconds = REGTEST_MIN_CHECKPOINT_EXIT_DELAY_SECONDS, requireSeconds = False, advertisedForfeitPubkey = None\<rparr>
      else let hosted = Option.bind (net_name network) (js_get HOSTED_MIN_CHECKPOINT_EXIT_DELAY_SECONDS)
        in \<lparr>minSeconds = or_default hosted DEFAULT_MIN_CHECKPOINT_EXIT_DELAY_SECONDS, requireSeconds = True,
            advertisedForfeitPubkey = None\<rparr>)"

definition resolveCheckpointExitDelayPolicy ::
  "Network \<Rightarrow> (CheckpointExitDelayPolicy \<Rightarrow> CheckpointExitDelayPolicy) \<Rightarrow> CheckpointExitDelayPolicy" where
  "resolveCheckpointExitDelayPolicy network overrides = overrides (defaultCheckpointExitDelayPolicy network)"

definition assertValidServerUnrollScript ::
  "script_lib \<Rightarrow> hex_decode \<Rightarrow> string \<Rightarrow> CheckpointExitDelayPolicy \<Rightarrow> policy_err + RelativeTimelock \<times> MultisigParams \<times> bytes" where
  "assertValidServerUnrollScript L hdec checkpointTapscript p =
     r_bind (case hdec checkpointTapscript of
         None \<Rightarrow> Inl InvalidCheckpoint
       | Some b \<Rightarrow> (case CSVMultisigTapscript_decode L b of
             Inl e \<Rightarrow> Inl InvalidCheckpoint
           | Inr (timelock, ms) \<Rightarrow> Inr (timelock, ms, b))) (\<lambda>(timelock, ms, script).
     r_bind (case advertisedForfeitPubkey p of
         None \<Rightarrow> Inr ()
       | Some k \<Rightarrow>
           r_bind (r_require (length (pubkeys ms) = 1) (NotOnePubkey (length (pubkeys ms)))) (\<lambda>_.
             r_require (pubkeys ms ! 0 = k) (WrongForfeitKey (pubkeys ms ! 0)))) (\<lambda>_.
     r_bind (assertTimelockInPolicy timelock p) (\<lambda>_.
       Inr (timelock, ms, script))))"

lemma unroll_script_sound:
  assumes "assertValidServerUnrollScript L hdec hx p = Inr (t, m, s)"
  shows "hdec hx = Some s \<and> CSVMultisigTapscript_encode L t m = Inr (m, s) \<and> minSeconds p \<le> toSeconds t \<and>
    (requireSeconds p \<longrightarrow> tl_type t = InSeconds) \<and> (\<forall>k. advertisedForfeitPubkey p = Some k \<longrightarrow> pubkeys m = [k])"
proof -
  have d: "hdec hx = Some s" "CSVMultisigTapscript_decode L s = Inr (t, m)" "assertTimelockInPolicy t p = Inr t"
    using assms by (auto simp: assertValidServerUnrollScript_def r_bind_eq_Inr in_policy_iff
        split: option.splits sum.splits prod.splits)
  have "pubkeys m = [k]" if "advertisedForfeitPubkey p = Some k" for k
    using assms that d(1,2) by (auto simp: assertValidServerUnrollScript_def r_bind_eq_Inr length_Suc_conv)
  then show ?thesis
    using d csv_decode_sound(1) [OF d(2)] by (simp add: in_policy_iff)
qed

definition checkpoint_floor :: "Network \<Rightarrow> int" where
  "checkpoint_floor network =
     (if isRegtest network then 1200 else if net_name network = Some Signet then 86016
      else if net_name network = Some Mutinynet then 4096 else 86400)"

definition batch_floor :: "Network \<Rightarrow> int" where
  "batch_floor network = (if isRegtest network then 6000 else 86400)"

lemma default_floors:
  "minSeconds (defaultCheckpointExitDelayPolicy network) = checkpoint_floor network"
  "requireSeconds (defaultCheckpointExitDelayPolicy network) \<longleftrightarrow> \<not> isRegtest network"
  "minSeconds (defaultBatchExpiryPolicy network) = batch_floor network"
  "requireSeconds (defaultBatchExpiryPolicy network) \<longleftrightarrow> \<not> isRegtest network"
  by (cases "net_name network"; auto simp: defaultCheckpointExitDelayPolicy_def checkpoint_floor_def Let_def
      REGTEST_MIN_CHECKPOINT_EXIT_DELAY_SECONDS_def DEFAULT_MIN_CHECKPOINT_EXIT_DELAY_SECONDS_def
      HOSTED_MIN_CHECKPOINT_EXIT_DELAY_SECONDS_def SIGNET_MIN_CHECKPOINT_EXIT_DELAY_SECONDS_def
      MUTINYNET_MIN_CHECKPOINT_EXIT_DELAY_SECONDS_def defaultBatchExpiryPolicy_def batch_floor_def
      REGTEST_MIN_BATCH_EXPIRY_SECONDS_def DEFAULT_MIN_BATCH_EXPIRY_SECONDS_def)+

text \<open>The timelock the code of the batch handler encodes for an accepted batch expiry.\<close>

lemma batch_expiry_iff:
  "assertValidBatchExpiry n p = Inr t \<longleftrightarrow>
     (\<forall>a. advertisedVtxoTreeExpiry p = Some a \<longrightarrow> n = a) \<and> t = toTimelock n \<and> minSeconds p \<le> toSeconds t \<and>
     (requireSeconds p \<longrightarrow> 512 \<le> n)"
  by (cases "advertisedVtxoTreeExpiry p")
     (auto simp: assertValidBatchExpiry_def assertTimelockWithinFloor_def in_policy_iff toTimelock_def)

text \<open>
  C33. Under the default policies a server cannot choose a timelock that lets it sweep early: an accepted checkpoint script is
  the one a closure encoder writes for a delay of at least the network's floor with the forfeit key as its only
  key, an accepted batch expiry is at least the network's floor and the one advertised, and outside regtest both are wall-clock delays.
\<close>

theorem server_timelocks_bounded:
  assumes "assertValidServerUnrollScript L hdec hx
      (resolveCheckpointExitDelayPolicy network (\<lambda>p. p\<lparr>advertisedForfeitPubkey := Some k\<rparr>)) = Inr (t, m, s)"
    and "assertValidBatchExpiry n (resolveBatchExpiryPolicy network (\<lambda>p. p\<lparr>advertisedVtxoTreeExpiry := adv\<rparr>)) = Inr b"
  shows "hdec hx = Some s \<and> CSVMultisigTapscript_encode L t m = Inr (m, s) \<and> pubkeys m = [k] \<and>
    checkpoint_floor network \<le> toSeconds t \<and> batch_floor network \<le> toSeconds b \<and> (\<forall>a. adv = Some a \<longrightarrow> n = a) \<and>
    (\<not> isRegtest network \<longrightarrow> tl_type t = InSeconds \<and> b = \<lparr>tl_value = n, tl_type = InSeconds\<rparr>)"
  using unroll_script_sound [OF assms(1)] assms(2)
  by (auto simp: resolveCheckpointExitDelayPolicy_def resolveBatchExpiryPolicy_def default_floors batch_expiry_iff
      toTimelock_def)

section \<open>Keys and signers\<close>

definition toXOnly :: "bytes \<Rightarrow> bytes option" where
  "toXOnly key =
     (if length key = 32 then Some key
      else if length key = 33 \<and> (key ! 0 = 0x02 \<or> key ! 0 = 0x03) then Some (drop 1 key)
      else None)"

datatype SignerStatus = CURRENT | MIGRATABLE | DUE_NOW | EXPIRED | UNKNOWN_SIGNER

record SignerClassification =
  sc_status :: SignerStatus
  signerPubKey :: string
  cutoffDate :: "int option"
  secondsUntilCutoff :: "int option"

record SignerSet =
  active_signer :: string
  deprecated_signers :: "(string \<times> int) list"

text \<open>The two fields of \<open>ArkInfo\<close> that are read.\<close>

record signer_info =
  info_signerPubkey :: string
  info_deprecatedSigners :: "(string \<times> int) list"

datatype signer_err = SignerBadHex string | SignerBadLength nat | SignerNotCompressed

definition toXOnlySignerHex :: "hex_encode \<Rightarrow> hex_decode \<Rightarrow> string \<Rightarrow> signer_err + string" where
  "toXOnlySignerHex henc hdec pubkeyHex =
     (case hdec pubkeyHex of
        None \<Rightarrow> Inl (SignerBadHex pubkeyHex)
      | Some b \<Rightarrow>
          if length b = 32 \<or> length b = 33
          then (case toXOnly b of None \<Rightarrow> Inl SignerNotCompressed | Some k \<Rightarrow> Inr (henc k))
          else Inl (SignerBadLength (length b)))"

fun deprecated_loop ::
  "hex_encode \<Rightarrow> hex_decode \<Rightarrow> (string \<times> int) list \<Rightarrow> (string \<times> int) list \<Rightarrow> signer_err + (string \<times> int) list" where
  "deprecated_loop henc hdec [] m = Inr m"
| "deprecated_loop henc hdec ((pubkey, cutoff) # signers) m =
     (if pubkey = '''' then deprecated_loop henc hdec signers m
      else r_bind (toXOnlySignerHex henc hdec pubkey) (\<lambda>k. deprecated_loop henc hdec signers (js_set k cutoff m)))"

definition signerSetFromInfo :: "hex_encode \<Rightarrow> hex_decode \<Rightarrow> signer_info \<Rightarrow> signer_err + SignerSet" where
  "signerSetFromInfo henc hdec info =
     r_bind (toXOnlySignerHex henc hdec (info_signerPubkey info)) (\<lambda>active.
     r_bind (deprecated_loop henc hdec (info_deprecatedSigners info) []) (\<lambda>deprecated.
       Inr \<lparr>active_signer = active, deprecated_signers = deprecated\<rparr>))"

text \<open>\<open>Number(cutoffDate)\<close> is exact: a date is far below \<open>2 ^ 53\<close>.\<close>

definition classifyAgainstSignerSet ::
  "hex_encode \<Rightarrow> hex_decode \<Rightarrow> string \<Rightarrow> SignerSet \<Rightarrow> int \<Rightarrow> signer_err + SignerClassification" where
  "classifyAgainstSignerSet henc hdec contractServerPubKeyHex signerSet now =
     r_bind (toXOnlySignerHex henc hdec contractServerPubKeyHex) (\<lambda>k. Inr
       (if k = active_signer signerSet
        then \<lparr>sc_status = CURRENT, signerPubKey = k, cutoffDate = None, secondsUntilCutoff = None\<rparr>
        else case js_get (deprecated_signers signerSet) k of
          None \<Rightarrow> \<lparr>sc_status = UNKNOWN_SIGNER, signerPubKey = k, cutoffDate = None, secondsUntilCutoff = None\<rparr>
        | Some cutoff \<Rightarrow>
            if cutoff = 0 then \<lparr>sc_status = DUE_NOW, signerPubKey = k, cutoffDate = None, secondsUntilCutoff = None\<rparr>
            else let seconds = cutoff - now in
              \<lparr>sc_status = (if seconds \<le> 0 then EXPIRED else MIGRATABLE), signerPubKey = k,
               cutoffDate = Some cutoff, secondsUntilCutoff = Some seconds\<rparr>))"

definition classifyContractSigner ::
  "hex_encode \<Rightarrow> hex_decode \<Rightarrow> string \<Rightarrow> signer_info \<Rightarrow> int \<Rightarrow> signer_err + SignerClassification" where
  "classifyContractSigner henc hdec contractServerPubKeyHex info now =
     r_bind (signerSetFromInfo henc hdec info) (\<lambda>signers.
       classifyAgainstSignerSet henc hdec contractServerPubKeyHex signers now)"

definition isCooperativelyMigratable :: "SignerStatus \<Rightarrow> bool" where
  "isCooperativelyMigratable status \<longleftrightarrow> status = MIGRATABLE \<or> status = DUE_NOW"

definition sample_net :: Network where
  "sample_net = networks \<lparr>hrp = '''', bech32 = ''bc'', pubKeyHash = 0, scriptHash = 5, wif = 128, net_name = None\<rparr>
     \<lparr>hrp = '''', bech32 = ''tb'', pubKeyHash = 0x6f, scriptHash = 0xc4, wif = 239, net_name = None\<rparr> Regtest"

theorem server_timelocks_bounded_witness:
  "\<exists>s. CSVMultisigTapscript_encode std_lib \<lparr>tl_value = 5, tl_type = InBlocks\<rparr> (checksig_keys [sample_key 7]) = Inr (checksig_keys [sample_key 7], s) \<and>
     checkpoint_floor sample_net \<le> 5 * 600 \<and> batch_floor sample_net \<le> 10 * 600"
proof -
  let ?t = "\<lparr>tl_value = 5, tl_type = InBlocks\<rparr>" and ?m = "checksig_keys [sample_key 7]"
  obtain s where s: "CSVMultisigTapscript_encode std_lib ?t (keys_of [sample_key 7]) = Inr (?m, s)"
    using std_csv [of "[sample_key 7]" 5] by (auto simp: sample_key_def)
  have d: "CSVMultisigTapscript_decode std_lib s = Inr (?t, ?m)"
    using std.csv_roundtrip [OF s] by (simp add: countable_keys_def keys_of_def)
  have "assertValidServerUnrollScript std_lib (\<lambda>_. Some s) ''''
      (resolveCheckpointExitDelayPolicy sample_net (\<lambda>p. p\<lparr>advertisedForfeitPubkey := Some (sample_key 7)\<rparr>)) = Inr (?t, ?m, s)"
    using d by (simp add: assertValidServerUnrollScript_def resolveCheckpointExitDelayPolicy_def checksig_keys_def in_policy_iff
        default_floors sample_net_def networks_def withArkPrefix_def checkpoint_floor_def isRegtest_def toSeconds_def NOMINAL_BLOCK_SECONDS_def r_bind_eq_Inr)
  moreover have "assertValidBatchExpiry 10 (resolveBatchExpiryPolicy sample_net (\<lambda>p. p\<lparr>advertisedVtxoTreeExpiry := Some 10\<rparr>))
      = Inr \<lparr>tl_value = 10, tl_type = InBlocks\<rparr>"
    by (simp add: batch_expiry_iff resolveBatchExpiryPolicy_def default_floors sample_net_def networks_def withArkPrefix_def
        batch_floor_def isRegtest_def toSeconds_def NOMINAL_BLOCK_SECONDS_def toTimelock_def)
  ultimately show ?thesis
    using server_timelocks_bounded [of std_lib "\<lambda>_. Some s" "''''" sample_net "sample_key 7" ?t ?m s 10 "Some 10"]
    by (auto simp: toSeconds_def NOMINAL_BLOCK_SECONDS_def)
qed

text \<open>The specification of a classification: the cutoff advertised last for the key, in x-only form.\<close>

definition advertised_cutoff :: "hex_encode \<Rightarrow> hex_decode \<Rightarrow> (string \<times> int) list \<Rightarrow> string \<Rightarrow> int option" where
  "advertised_cutoff henc hdec ds =
     map_of (rev (map (\<lambda>(p, c). (sum.projr (toXOnlySignerHex henc hdec p), c)) (filter (\<lambda>(p, _). p \<noteq> '''') ds)))"

definition status_at :: "int option \<Rightarrow> int \<Rightarrow> SignerStatus" where
  "status_at cutoff now =
     (case cutoff of None \<Rightarrow> UNKNOWN_SIGNER
      | Some c \<Rightarrow> if c = 0 then DUE_NOW else if c \<le> now then EXPIRED else MIGRATABLE)"

definition readable_signers :: "hex_encode \<Rightarrow> hex_decode \<Rightarrow> (string \<times> int) list \<Rightarrow> bool" where
  "readable_signers henc hdec ds \<longleftrightarrow> list_all (\<lambda>(p, _). p = '''' \<or> (\<exists>k. toXOnlySignerHex henc hdec p = Inr k)) ds"

lemma advertised_simps [simp]:
  "advertised_cutoff henc hdec [] = Map.empty"
  "advertised_cutoff henc hdec ((p, c) # ds) = (if p = [] then Map.empty
     else [sum.projr (toXOnlySignerHex henc hdec p) \<mapsto> c]) ++ advertised_cutoff henc hdec ds"
  by (simp_all add: advertised_cutoff_def)

lemma deprecated_loop_advertised:
  "readable_signers henc hdec ds \<Longrightarrow>
    \<exists>m'. deprecated_loop henc hdec ds m = Inr m' \<and> js_get m' = js_get m ++ advertised_cutoff henc hdec ds"
proof (induction ds arbitrary: m)
  case (Cons d ds)
  obtain p c where d: "d = (p, c)" by force
  have upd: "js_get (js_set k c m) = js_get m ++ [k \<mapsto> c]" for k
    by auto
  show ?case
    using Cons.IH [of m] Cons.IH [of "js_set (sum.projr (toXOnlySignerHex henc hdec p)) c m"] Cons(2)
    by (auto simp: d readable_signers_def upd simp del: map_add_upd)
qed simp

text \<open>
  A contract's signer is classified by the x-only form of its key: it is current exactly when it is the
  server's key, whatever parity prefix either carries; otherwise the cutoff advertised last decides, none meaning an unknown
  signer and 0 no cutoff; and it may be migrated cooperatively exactly until the cutoff.
\<close>

lemma signer_status:
  assumes "toXOnlySignerHex henc hdec pk = Inr k" and "toXOnlySignerHex henc hdec (info_signerPubkey info) = Inr a"
    and "readable_signers henc hdec (info_deprecatedSigners info)"
  shows "\<exists>c. classifyContractSigner henc hdec pk info now = Inr c \<and> signerPubKey c = k \<and>
    sc_status c = (if k = a then CURRENT else status_at (advertised_cutoff henc hdec (info_deprecatedSigners info) k) now) \<and>
    (isCooperativelyMigratable (sc_status c) \<longleftrightarrow> k \<noteq> a \<and>
      (\<exists>t. advertised_cutoff henc hdec (info_deprecatedSigners info) k = Some t \<and> (t = 0 \<or> now < t)))"
proof -
  obtain m where "deprecated_loop henc hdec (info_deprecatedSigners info) [] = Inr m"
    "js_get m k = advertised_cutoff henc hdec (info_deprecatedSigners info) k"
    using deprecated_loop_advertised [OF assms(3), of "[]"] by (auto simp: map_add_def split: option.splits)
  then show ?thesis
    by (auto simp: classifyContractSigner_def signerSetFromInfo_def classifyAgainstSignerSet_def assms(1,2)
        status_at_def isCooperativelyMigratable_def Let_def split: option.splits)
qed

lemma signer_status_witness:
  "\<exists>c. classifyContractSigner hex_of_bytes bytes_of_hex (hex_of_bytes (sample_key 9))
      \<lparr>info_signerPubkey = hex_of_bytes (sample_key 8),
       info_deprecatedSigners = [(hex_of_bytes (sample_key 9), 5), (hex_of_bytes (0x02 # sample_key 9), 50)]\<rparr> 10 = Inr c \<and>
    sc_status c = MIGRATABLE"
proof -
  let ?h = "\<lambda>n. hex_of_bytes (sample_key n)" and ?c = "hex_of_bytes (0x02 # sample_key 9)"
  let ?ds = "[(?h 9, 5), (?c, 50)]"
  have dec: "bytes_of_hex (hex_of_bytes b) = Some b" and inj: "hex_of_bytes b = hex_of_bytes b' \<longleftrightarrow> b = b'" for b b'
    using hex_of_bytes_strings unfolding hex_strings_def hex_laws_def by (metis option.inject)+
  have x: "toXOnlySignerHex hex_of_bytes bytes_of_hex (?h n) = Inr (?h n)"
    "toXOnlySignerHex hex_of_bytes bytes_of_hex ?c = Inr (?h 9)" for n
    by (simp_all add: toXOnlySignerHex_def dec toXOnly_def sample_key_def del: hex_of_bytes.simps)
  have cons: "sample_key n = n # replicate 31 n" for n
    by (simp add: sample_key_def numeral_eq_Suc)
  have "?h 9 \<noteq> ?h 8"
    unfolding inj by (simp add: cons)
  moreover have "?h n \<noteq> []" "?c \<noteq> []" for n
    by (simp_all add: cons)
  ultimately have ne: "?h 9 \<noteq> ?h 8" "?h n \<noteq> []" "?c \<noteq> []" for n
    by blast+
  have "advertised_cutoff hex_of_bytes bytes_of_hex ?ds (?h 9) = Some 50"
    using x ne by (simp add: advertised_cutoff_def del: hex_of_bytes.simps)
  moreover have "readable_signers hex_of_bytes bytes_of_hex ?ds"
    using x by (simp add: readable_signers_def del: hex_of_bytes.simps)
  ultimately show ?thesis
    using signer_status [of hex_of_bytes bytes_of_hex "?h 9" "?h 9"
        "\<lparr>info_signerPubkey = ?h 8, info_deprecatedSigners = ?ds\<rparr>" "?h 8" 10] x ne(1)
    by (auto simp: status_at_def simp del: hex_of_bytes.simps)
qed

end
