(* ===== verification/Batch_Handler.thy ===== *)
theory Batch_Handler
  imports Batch Batch_Recipients Server_Policy Vtxo_Script
begin

text \<open>
  The handler \<open>Wallet.settle\<close> gives to \<open>Batch.join\<close> (\<open>wallet/wallet.ts\<close>, \<open>createBatchHandler\<close> and
  \<open>handleSettlementFinalizationEvent\<close>), with \<open>forfeit.ts\<close>: what the wallet checks before it hands over its signatures.

  The variables of the closure are the record \<open>handler_state\<close>, with the state \<open>'q\<close> of the musig2 session and the list
  of the requests sent to the server. \<open>handler_lib\<close> collects what the handler calls: the session, the signer, the
  PSBT coder over PSBTs \<open>'p\<close>, hashes, scripts and the server, each \<open>None\<close> or \<open>False\<close> when it throws. Every
  change made before a throw stays, as in the code. The provider is always configured.
\<close>

section \<open>Forfeit transactions\<close>

record forfeit_input =
  fi_txid :: string
  fi_index :: int
  fi_amount :: int
  fi_script :: bytes
  fi_leaf :: "TapLeafScript option"

record ForfeitTx =
  ff_inputs :: "forfeit_input list"
  ff_outputs :: "(bytes \<times> int) list"
  ff_locktime :: "int option"

definition ANCHOR_PKSCRIPT :: bytes where "ANCHOR_PKSCRIPT = [0x51, 0x02, 0x4e, 0x73]"
definition P2A :: "bytes \<times> int" where "P2A = (ANCHOR_PKSCRIPT, 0)"

definition buildForfeitTxWithOutput :: "forfeit_input list \<Rightarrow> bytes \<times> int \<Rightarrow> int option \<Rightarrow> ForfeitTx" where
  "buildForfeitTxWithOutput ins out locktime = \<lparr>ff_inputs = ins, ff_outputs = [out, P2A], ff_locktime = locktime\<rparr>"

text \<open>Every input carries its \<open>witnessUtxo\<close> by type.\<close>

definition buildForfeitTx :: "forfeit_input list \<Rightarrow> bytes \<Rightarrow> int option \<Rightarrow> ForfeitTx" where
  "buildForfeitTx ins forfeitPkScript locktime =
     buildForfeitTxWithOutput ins (forfeitPkScript, sum_list (map fi_amount ins)) locktime"

section \<open>The state of the handler\<close>

text \<open>An input of a settlement: a boarding coin has no script, a virtual one is a \<open>VirtualCoin\<close>.\<close>

record boarding_input =
  bi_txid :: string
  bi_vout :: int
  bi_leaf :: TapLeafScript

record vtxo_input =
  vi_coin :: VirtualCoin
  vi_leaf :: TapLeafScript
  vi_tapTree :: bytes

datatype settle_input = BoardingIn boarding_input | VtxoIn vtxo_input

type_synonym signed_forfeit = "ForfeitTx \<times> bytes"

datatype server_call =
    ConfirmRegistration string
  | SubmitTreeNonces string bytes "(string \<times> bytes) list"
  | SubmitTreeSignatures string bytes "(string \<times> bytes) list"
  | SubmitSignedForfeitTxs "signed_forfeit list" "string option"

record 'q handler_state =
  sweepTapTreeRoot :: "bytes option"
  validatedCommitmentTxid :: "string option"
  session_state :: 'q
  sent :: "server_call list"

datatype handler_err =
    PolicyErr policy_err | ClosureErr tap_err | SweepRootNotSet | BadCosignerKey | GraphErr graph_err
  | RecipientErr recipient_err | SharedOutputNotFound | SessionThrew | ServerThrew | InvalidCommitment
  | ForfeitScriptNotSet | IncompleteInput | MissingWitnessScript | SignerThrew | UnsignableBoardingInput string
  | ConnectorsNotReceived | NotEnoughConnectors | ConnectorOutputNotFound | InvalidConnectorOutput | TapTreeErr vscript_err

record ('q, 'p) handler_lib =
  hl_recipients :: recipient_lib
  hl_hdec :: hex_decode
  hl_sha256 :: "bytes \<Rightarrow> bytes"
  hl_utf8 :: "string \<Rightarrow> bytes"
  hl_tapLeafHash :: "bytes \<Rightarrow> bytes"
  hl_aggregate :: aggregate_keys
  hl_psbt :: "string \<Rightarrow> 'p option"
  hl_tx :: "'p \<Rightarrow> Tx"
  hl_witness_script :: "'p \<Rightarrow> nat \<Rightarrow> bytes option"
  hl_set_leaf :: "'p \<Rightarrow> nat \<Rightarrow> TapLeafScript \<Rightarrow> 'p"
  hl_sign :: "'p \<Rightarrow> nat \<Rightarrow> bytes \<Rightarrow> 'p option"
  hl_is_signed :: "'p \<Rightarrow> nat \<Rightarrow> bool"
  hl_base64 :: "'p \<Rightarrow> string"
  hl_sign_forfeit :: "ForfeitTx \<Rightarrow> bytes \<Rightarrow> bytes option"
  hl_leafVersion :: nat
  hl_p2tr :: p2tr_fun
  hl_coder :: taptree_coder
  hl_server :: "server_call list \<Rightarrow> server_call \<Rightarrow> bool"
  hl_pubkey :: "'q \<Rightarrow> bytes option"
  hl_init :: "TxTree \<Rightarrow> bytes \<Rightarrow> int \<Rightarrow> 'q \<Rightarrow> 'q option"
  hl_nonces :: "'q \<Rightarrow> ((string \<times> bytes) list \<times> 'q) option"
  hl_aggregated :: "string \<Rightarrow> (string \<times> bytes) list \<Rightarrow> 'q \<Rightarrow> (bool \<times> 'q) option"
  hl_signatures :: "'q \<Rightarrow> ((string \<times> bytes) list \<times> 'q) option"

text \<open>What the wallet knows when it settles.\<close>

record settlement =
  st_intentId :: string
  st_inputs :: "settle_input list"
  st_recipients :: "Recipient list"
  st_session :: bool
  st_network :: Network
  st_overrides :: "BatchExpiryPolicy \<Rightarrow> BatchExpiryPolicy"
  st_forfeitPubkey :: bytes
  st_forfeitOutputScript :: "bytes option"
  st_dust :: int
  st_now :: int

definition handler_start :: "'q \<Rightarrow> 'q handler_state" where
  "handler_start q = \<lparr>sweepTapTreeRoot = None, validatedCommitmentTxid = None, session_state = q, sent = []\<rparr>"

type_synonym 'q reply = "(handler_err + bool) \<times> 'q handler_state"

definition submit ::
  "('q, 'p) handler_lib \<Rightarrow> server_call \<Rightarrow> 'q handler_state \<Rightarrow> ('q handler_state \<Rightarrow> 'q reply) \<Rightarrow> 'q reply" where
  "submit E c s k =
     (let s' = s\<lparr>sent := sent s @ [c]\<rparr> in if hl_server E (sent s) c then k s' else (Inl ServerThrew, s'))"

definition fallible :: "handler_err \<Rightarrow> 'a option \<Rightarrow> 'q handler_state \<Rightarrow> ('a \<Rightarrow> 'q reply) \<Rightarrow> 'q reply" where
  "fallible e x s k = (case x of None \<Rightarrow> (Inl e, s) | Some y \<Rightarrow> k y)"

definition checked :: "('e \<Rightarrow> handler_err) \<Rightarrow> 'e + 'a \<Rightarrow> 'q handler_state \<Rightarrow> ('a \<Rightarrow> 'q reply) \<Rightarrow> 'q reply" where
  "checked f x s k = (case x of Inl e \<Rightarrow> (Inl (f e), s) | Inr y \<Rightarrow> k y)"

section \<open>Joining a batch and signing its tree\<close>

definition onBatchStarted ::
  "('q, 'p) handler_lib \<Rightarrow> settlement \<Rightarrow> string list \<Rightarrow> int \<Rightarrow> 'q handler_state \<Rightarrow> 'q reply" where
  "onBatchStarted E st hashes batch_expiry s =
     (if rl_henc (hl_recipients E) (hl_sha256 E (hl_utf8 E (st_intentId st))) \<notin> set hashes then (Inr True, s)
      else checked PolicyErr
             (assertValidBatchExpiry batch_expiry (resolveBatchExpiryPolicy (st_network st) (st_overrides st))) s (\<lambda>timelock.
           submit E (ConfirmRegistration (st_intentId st)) s (\<lambda>s.
           checked ClosureErr (CSVMultisigTapscript_encode (rl_script (hl_recipients E)) timelock
               \<lparr>pubkeys = [st_forfeitPubkey st], ms_type = None\<rparr>) s (\<lambda>(_, sweepTapscript).
             (Inr False, s\<lparr>sweepTapTreeRoot := Some (hl_tapLeafHash E sweepTapscript)\<rparr>)))))"

fun xonly_hex :: "('q, 'p) handler_lib \<Rightarrow> bytes \<Rightarrow> string option" where
  "xonly_hex E k = map_option (rl_henc (hl_recipients E)) (toXOnly k)"

fun cosigner_keys :: "('q, 'p) handler_lib \<Rightarrow> string list \<Rightarrow> string list option" where
  "cosigner_keys E [] = Some []"
| "cosigner_keys E (k # ks) =
     Option.bind (hl_hdec E k) (\<lambda>b. Option.bind (xonly_hex E b) (\<lambda>x. map_option ((#) x) (cosigner_keys E ks)))"

definition decode_commitment :: "('q, 'p) handler_lib \<Rightarrow> string \<Rightarrow> Tx option" where
  "decode_commitment E b64 = map_option (hl_tx E) (hl_psbt E b64)"

text \<open>\<open>sharedOutput?.amount\<close>: missing and zero amounts are refused.\<close>

definition shared_amount :: "Tx \<Rightarrow> int option" where
  "shared_amount tx =
     (case tx_outputs tx of [] \<Rightarrow> None
      | out # _ \<Rightarrow> (case TxOutput.out_amount out of Some n \<Rightarrow> if n = 0 then None else Some n | None \<Rightarrow> None))"

definition onTreeSigningStarted ::
  "('q, 'p) handler_lib \<Rightarrow> settlement \<Rightarrow> string \<Rightarrow> string list \<Rightarrow> string \<Rightarrow> TxTree \<Rightarrow> 'q handler_state \<Rightarrow> 'q reply" where
  "onTreeSigningStarted E st i cosigners unsignedTx tree s =
     (if \<not> st_session st then (Inr True, s)
      else fallible SweepRootNotSet (sweepTapTreeRoot s) s (\<lambda>sweep.
        fallible BadCosignerKey (cosigner_keys E cosigners) s (\<lambda>xOnlyPublicKeys.
        fallible SessionThrew (hl_pubkey E (session_state s)) s (\<lambda>signerPublicKey.
        fallible BadCosignerKey (xonly_hex E signerPublicKey) s (\<lambda>own.
        if own \<notin> set xOnlyPublicKeys then (Inr True, s)
        else fallible InvalidCommitment (decode_commitment E unsignedTx) s (\<lambda>commitmentTx.
          checked GraphErr (validateVtxoTxGraph (hl_aggregate E) tree commitmentTx sweep) s (\<lambda>_.
          checked RecipientErr (if st_recipients st = [] then Inr ()
              else validateBatchRecipients (hl_recipients E) commitmentTx (leaves tree) (st_recipients st)) s (\<lambda>_.
          fallible SharedOutputNotFound (shared_amount commitmentTx) s (\<lambda>amount.
          let s = s\<lparr>validatedCommitmentTxid := Some (tx_id commitmentTx)\<rparr> in
          fallible SessionThrew (hl_init E tree sweep amount (session_state s)) s (\<lambda>q.
          let s = s\<lparr>session_state := q\<rparr> in
          fallible SessionThrew (hl_pubkey E q) s (\<lambda>pubkey.
          fallible SessionThrew (hl_nonces E q) s (\<lambda>(nonces, q).
          submit E (SubmitTreeNonces i pubkey nonces) (s\<lparr>session_state := q\<rparr>) (\<lambda>s.
            (Inr False, s))))))))))))))"

definition onTreeNonces ::
  "('q, 'p) handler_lib \<Rightarrow> settlement \<Rightarrow> string \<Rightarrow> string \<Rightarrow> (string \<times> bytes) list \<Rightarrow> 'q handler_state \<Rightarrow> 'q reply" where
  "onTreeNonces E st i txid ns s =
     (if \<not> st_session st then (Inr True, s)
      else fallible SessionThrew (hl_aggregated E txid ns (session_state s)) s (\<lambda>(hasAllNonces, q).
        let s = s\<lparr>session_state := q\<rparr> in
        if \<not> hasAllNonces then (Inr False, s)
        else fallible SessionThrew (hl_signatures E q) s (\<lambda>(signatures, q).
          let s = s\<lparr>session_state := q\<rparr> in
          fallible SessionThrew (hl_pubkey E q) s (\<lambda>pubkey.
          submit E (SubmitTreeSignatures i pubkey signatures) s (\<lambda>s. (Inr True, s))))))"

section \<open>Handing over the forfeits\<close>

definition isSubdust :: "int \<Rightarrow> int \<Rightarrow> bool" where
  "isSubdust amount dust \<longleftrightarrow> amount < dust"

text \<open>The loop over the inputs of the commitment transaction that looks for a boarding input and signs it.\<close>

fun sign_boarding :: "('q, 'p) handler_lib \<Rightarrow> boarding_input \<Rightarrow> 'p \<Rightarrow> nat list \<Rightarrow> handler_err + 'p \<times> bool" where
  "sign_boarding E b p [] = Inr (p, False)"
| "sign_boarding E b p (i # is) =
     (let inp = tx_inputs (hl_tx E p) ! i in
      case (TxInput.in_txid inp, TxInput.in_index inp) of
        (Some txid, Some index) \<Rightarrow>
          if txid \<noteq> bi_txid b \<or> int index \<noteq> bi_vout b then sign_boarding E b p is
          else let p1 = hl_set_leaf E p i (bi_leaf b) in
            (case hl_witness_script E p1 i of
               None \<Rightarrow> Inl MissingWitnessScript
             | Some script \<Rightarrow>
                 (case hl_sign E p1 i script of
                    None \<Rightarrow> Inl SignerThrew
                  | Some p2 \<Rightarrow> if hl_is_signed E p2 i then Inr (p2, True) else Inl (UnsignableBoardingInput (bi_txid b))))
      | _ \<Rightarrow> Inl IncompleteInput)"

definition needs_forfeit :: "settlement \<Rightarrow> vtxo_input \<Rightarrow> bool" where
  "needs_forfeit st v \<longleftrightarrow> \<not> (canRecoverOnchain (vi_coin v) \<lparr>timestamp = st_now st, height = None\<rparr> \<or>
     isSubdust (coin_value (vi_coin v)) (st_dust st))"

definition connector_output :: "Tx \<Rightarrow> handler_err + int \<times> bytes" where
  "connector_output leaf =
     (case tx_outputs leaf of
        [] \<Rightarrow> Inl ConnectorOutputNotFound
      | out # _ \<Rightarrow>
          (case (TxOutput.out_amount out, out_script out) of
             (Some n, Some script) \<Rightarrow> if n = 0 then Inl InvalidConnectorOutput else Inr (n, script)
           | _ \<Rightarrow> Inl InvalidConnectorOutput))"

definition forfeit_of :: "('q, 'p) handler_lib \<Rightarrow> bytes \<Rightarrow> vtxo_input \<Rightarrow> Tx \<Rightarrow> handler_err + signed_forfeit" where
  "forfeit_of E forfeitOutputScript v connectorLeaf =
     r_bind (connector_output connectorLeaf) (\<lambda>(connectorAmount, connectorPkScript).
     case VtxoScript_decode (hl_leafVersion E) (hl_p2tr E) (hl_coder E) (vi_tapTree v) of
       Inl e \<Rightarrow> Inl (TapTreeErr e)
     | Inr script \<Rightarrow>
         (let forfeitTx = buildForfeitTx
              [\<lparr>fi_txid = coin_txid (vi_coin v), fi_index = coin_vout (vi_coin v), fi_amount = coin_value (vi_coin v),
                fi_script = vs_pkScript script, fi_leaf = Some (vi_leaf v)\<rparr>,
               \<lparr>fi_txid = tx_id connectorLeaf, fi_index = 0, fi_amount = connectorAmount,
                fi_script = connectorPkScript, fi_leaf = None\<rparr>] forfeitOutputScript None
          in case hl_sign_forfeit E forfeitTx (vs_pkScript script) of
               None \<Rightarrow> Inl SignerThrew
             | Some sig \<Rightarrow> Inr (forfeitTx, sig)))"

fun finalize_inputs ::
  "('q, 'p) handler_lib \<Rightarrow> settlement \<Rightarrow> bytes \<Rightarrow> Tx list \<Rightarrow> settle_input list \<Rightarrow> nat \<Rightarrow> 'p \<Rightarrow> bool
     \<Rightarrow> signed_forfeit list \<Rightarrow> handler_err + 'p \<times> bool \<times> signed_forfeit list" where
  "finalize_inputs E st outScript connectors [] connectorIndex p hasBoarding fs = Inr (p, hasBoarding, fs)"
| "finalize_inputs E st outScript connectors (BoardingIn b # ins) connectorIndex p hasBoarding fs =
     r_bind (sign_boarding E b p [0..<length (tx_inputs (hl_tx E p))]) (\<lambda>(p, found).
       finalize_inputs E st outScript connectors ins connectorIndex p (hasBoarding \<or> found) fs)"
| "finalize_inputs E st outScript connectors (VtxoIn v # ins) connectorIndex p hasBoarding fs =
     (if \<not> needs_forfeit st v then finalize_inputs E st outScript connectors ins connectorIndex p hasBoarding fs
      else if connectors = [] then Inl ConnectorsNotReceived
      else if connectorIndex \<ge> length connectors then Inl NotEnoughConnectors
      else r_bind (forfeit_of E outScript v (connectors ! connectorIndex)) (\<lambda>f.
        finalize_inputs E st outScript connectors ins (Suc connectorIndex) p hasBoarding (fs @ [f])))"

definition handleSettlementFinalizationEvent ::
  "('q, 'p) handler_lib \<Rightarrow> settlement \<Rightarrow> string \<Rightarrow> bytes \<Rightarrow> TxTree option \<Rightarrow> 'q handler_state \<Rightarrow> 'q reply" where
  "handleSettlementFinalizationEvent E st commitment forfeitOutputScript connectorsGraph s =
     fallible InvalidCommitment (hl_psbt E commitment) s (\<lambda>settlementPsbt.
     checked RecipientErr (assertFinalCommitmentMatchesValidated (hl_tx E settlementPsbt) (validatedCommitmentTxid s)) s (\<lambda>_.
     checked RecipientErr (if \<not> truthy_str (validatedCommitmentTxid s) \<and> st_recipients st \<noteq> []
         then validateBatchRecipientsWithoutTree (hl_recipients E) (hl_tx E settlementPsbt) (st_recipients st)
         else Inr ()) s (\<lambda>_.
     checked id (finalize_inputs E st forfeitOutputScript
         (case connectorsGraph of Some g \<Rightarrow> leaves g | None \<Rightarrow> []) (st_inputs st) 0 settlementPsbt False []) s
       (\<lambda>(p, hasBoarding, fs).
     if fs \<noteq> [] \<or> hasBoarding
     then submit E (SubmitSignedForfeitTxs fs (if hasBoarding then Some (hl_base64 E p) else None)) s (\<lambda>s. (Inr False, s))
     else (Inr False, s)))))"

definition onBatchFinalization ::
  "('q, 'p) handler_lib \<Rightarrow> settlement \<Rightarrow> string \<Rightarrow> TxTree option \<Rightarrow> 'q handler_state \<Rightarrow> 'q reply" where
  "onBatchFinalization E st commitment connectors s =
     fallible ForfeitScriptNotSet (st_forfeitOutputScript st) s (\<lambda>script.
     checked GraphErr (case connectors of None \<Rightarrow> Inr ()
         | Some t \<Rightarrow> validateConnectorsTxGraph (decode_commitment E) commitment t) s (\<lambda>_.
     handleSettlementFinalizationEvent E st commitment script connectors s))"

section \<open>The handler as a whole\<close>

text \<open>One call; the hooks the wallet does not define do nothing.\<close>

fun createBatchHandler :: "('q, 'p) handler_lib \<Rightarrow> settlement \<Rightarrow> HandlerCall \<Rightarrow> 'q handler_state \<Rightarrow> 'q reply" where
  "createBatchHandler E st (OnBatchStarted (BatchStarted i hashes n)) s = onBatchStarted E st hashes n s"
| "createBatchHandler E st (OnTreeSigningStarted (TreeSigningStarted i ks tx) tree) s = onTreeSigningStarted E st i ks tx tree s"
| "createBatchHandler E st (OnTreeNonces (TreeNonces i tp txid ns)) s = onTreeNonces E st i txid ns s"
| "createBatchHandler E st (OnBatchFinalization (BatchFinalization i tx) vtxos connectors) s =
     onBatchFinalization E st tx connectors s"
| "createBatchHandler E st _ s = (Inr False, s)"

definition wallet_hooks :: HandlerHooks where
  "wallet_hooks = \<lparr>has_onBatchFinalized = False, has_onBatchFailed = False, has_onTreeTxEvent = False,
     has_onTreeSignatureEvent = False\<rparr>"

definition after_calls :: "('q, 'p) handler_lib \<Rightarrow> settlement \<Rightarrow> 'q \<Rightarrow> HandlerCall list \<Rightarrow> 'q handler_state" where
  "after_calls E st q cs = fold (\<lambda>c s. snd (createBatchHandler E st c s)) cs (handler_start q)"

definition wallet_handler :: "('q, 'p) handler_lib \<Rightarrow> settlement \<Rightarrow> 'q \<Rightarrow> handler_err handler" where
  "wallet_handler E st q = (\<lambda>t c. fst (createBatchHandler E st c (after_calls E st q (map fst t))))"

text \<open>All calls of a session, the one that threw included.\<close>

definition calls_made :: "'e join_err + string \<Rightarrow> JoinState \<Rightarrow> HandlerCall list" where
  "calls_made r js = map fst (trace js) @ (case r of Inl (HandlerThrew c e) \<Rightarrow> [c] | _ \<Rightarrow> [])"

section \<open>What the wallet has checked when it hands over its forfeits\<close>

definition sweep_accepted :: "('q, 'p) handler_lib \<Rightarrow> settlement \<Rightarrow> bytes \<Rightarrow> bool" where
  "sweep_accepted E st h \<longleftrightarrow> (\<exists>n timelock m script.
     assertValidBatchExpiry n (resolveBatchExpiryPolicy (st_network st) (st_overrides st)) = Inr timelock \<and>
     CSVMultisigTapscript_encode (rl_script (hl_recipients E)) timelock \<lparr>pubkeys = [st_forfeitPubkey st], ms_type = None\<rparr>
       = Inr (m, script) \<and> h = hl_tapLeafHash E script)"

definition all_paid :: "('q, 'p) handler_lib \<Rightarrow> settlement \<Rightarrow> Tx \<Rightarrow> Tx list \<Rightarrow> bool" where
  "all_paid E st tx ls \<longleftrightarrow> (\<exists>locs. list_all2 (paid (hl_recipients E) tx ls) (st_recipients st) locs \<and> distinct locs)"

definition tree_validated :: "('q, 'p) handler_lib \<Rightarrow> settlement \<Rightarrow> string \<Rightarrow> bool" where
  "tree_validated E st txid \<longleftrightarrow> (\<exists>tree tx sweep. tx_id tx = txid \<and> sweep_accepted E st sweep \<and>
     validateVtxoTxGraph (hl_aggregate E) tree tx sweep = Inr () \<and> all_paid E st tx (leaves tree))"

definition spends_with :: "bytes \<Rightarrow> vtxo_input \<times> Tx \<Rightarrow> signed_forfeit \<Rightarrow> bool" where
  "spends_with outScript = (\<lambda>(v, c) (f, sig).
     map (\<lambda>i. (fi_txid i, fi_index i)) (ff_inputs f) = [(coin_txid (vi_coin v), coin_vout (vi_coin v)), (tx_id c, 0)] \<and>
     (\<exists>n out outs. n \<noteq> 0 \<and> tx_outputs c = out # outs \<and> TxOutput.out_amount out = Some n \<and>
       ff_outputs f = [(outScript, coin_value (vi_coin v) + n), P2A]))"

fun vtxo_inputs :: "settle_input list \<Rightarrow> vtxo_input list" where
  "vtxo_inputs [] = []"
| "vtxo_inputs (VtxoIn v # ins) = v # vtxo_inputs ins"
| "vtxo_inputs (BoardingIn b # ins) = vtxo_inputs ins"

definition connectors_of :: "('q, 'p) handler_lib \<Rightarrow> string \<Rightarrow> Tx list \<Rightarrow> bool" where
  "connectors_of E commitment cs \<longleftrightarrow>
     (\<exists>g. validateConnectorsTxGraph (decode_commitment E) commitment g = Inr () \<and> cs = leaves g)"

text \<open>
  \<open>fs\<close> may be handed over: for a final commitment transaction whose tree was validated against a sweep script with an accepted
  expiry or, when the wallet takes no part in signing a tree, one that pays all recipients onchain; one forfeit for each input that needs one, in order, each with a connector of
  its own from a validated connector tree of that commitment.
\<close>

definition may_release :: "('q, 'p) handler_lib \<Rightarrow> settlement \<Rightarrow> signed_forfeit list \<Rightarrow> bool" where
  "may_release E st fs \<longleftrightarrow> (\<exists>commitment final outScript cs.
     decode_commitment E commitment = Some final \<and>
     (if st_session st then tree_validated E st (tx_id final) else all_paid E st final []) \<and>
     st_forfeitOutputScript st = Some outScript \<and>
     length fs = length (filter (needs_forfeit st) (vtxo_inputs (st_inputs st))) \<and>
     length fs \<le> length cs \<and> (fs \<noteq> [] \<longrightarrow> connectors_of E commitment cs) \<and>
     list_all2 (spends_with outScript) (zip (filter (needs_forfeit st) (vtxo_inputs (st_inputs st))) cs) fs)"

definition ids_ok :: "('q, 'p) handler_lib \<Rightarrow> bool" where
  "ids_ok E \<longleftrightarrow> (\<forall>p. tx_id (hl_tx E p) \<noteq> [])"

definition vouched :: "('q, 'p) handler_lib \<Rightarrow> settlement \<Rightarrow> 'q handler_state \<Rightarrow> bool" where
  "vouched E st s \<longleftrightarrow> (\<forall>h. sweepTapTreeRoot s = Some h \<longrightarrow> sweep_accepted E st h) \<and>
     (\<forall>t. validatedCommitmentTxid s = Some t \<longrightarrow> st_session st \<and> t \<noteq> [] \<and> tree_validated E st t) \<and>
     (\<forall>fs b. SubmitSignedForfeitTxs fs b \<in> set (sent s) \<longrightarrow> may_release E st fs)"

text \<open>A reply of the handler keeps the invariant, whether it throws or not.\<close>

lemma vouched_fallible:
  "vouched E st s \<Longrightarrow> (\<And>y. x = Some y \<Longrightarrow> vouched E st (snd (k y))) \<Longrightarrow> vouched E st (snd (fallible e x s k))"
  by (simp add: fallible_def split: option.splits)

lemma vouched_checked:
  "vouched E st s \<Longrightarrow> (\<And>y. x = Inr y \<Longrightarrow> vouched E st (snd (k y))) \<Longrightarrow> vouched E st (snd (checked f x s k))"
  by (simp add: checked_def split: sum.splits)

lemma vouched_submit:
  assumes "vouched E st s" and "\<And>fs b. c = SubmitSignedForfeitTxs fs b \<Longrightarrow> may_release E st fs"
    and "\<And>s'. vouched E st s' \<Longrightarrow> sweepTapTreeRoot s' = sweepTapTreeRoot s \<Longrightarrow>
      validatedCommitmentTxid s' = validatedCommitmentTxid s \<Longrightarrow> vouched E st (snd (k s'))"
  shows "vouched E st (snd (submit E c s k))"
proof -
  have "vouched E st (s\<lparr>sent := sent s @ [c]\<rparr>)"
    using assms(1,2) by (auto simp: vouched_def)
  then show ?thesis
    using assms(3) by (simp add: submit_def Let_def)
qed

lemma vouched_session: "vouched E st (s\<lparr>session_state := q\<rparr>) = vouched E st s"
  by (simp add: vouched_def)

lemma vouched_batch_started:
  assumes "vouched E st s"
  shows "vouched E st (snd (onBatchStarted E st hashes n s))"
proof -
  have "vouched E st (snd (submit E (ConfirmRegistration (st_intentId st)) s (\<lambda>s.
      checked ClosureErr (CSVMultisigTapscript_encode (rl_script (hl_recipients E)) timelock
        \<lparr>pubkeys = [st_forfeitPubkey st], ms_type = None\<rparr>) s (\<lambda>(_, sweepTapscript).
      (Inr False, s\<lparr>sweepTapTreeRoot := Some (hl_tapLeafHash E sweepTapscript)\<rparr>)))))"
    if t: "assertValidBatchExpiry n (resolveBatchExpiryPolicy (st_network st) (st_overrides st)) = Inr timelock" for timelock
  proof (rule vouched_submit [OF assms], simp)
    fix s' :: "'a handler_state"
    assume "vouched E st s'"
    then show "vouched E st (snd (checked ClosureErr (CSVMultisigTapscript_encode (rl_script (hl_recipients E)) timelock
        \<lparr>pubkeys = [st_forfeitPubkey st], ms_type = None\<rparr>) s' (\<lambda>(_, sweepTapscript).
        (Inr False, s'\<lparr>sweepTapTreeRoot := Some (hl_tapLeafHash E sweepTapscript)\<rparr>))))"
    proof (rule vouched_checked)
      fix y
      assume "CSVMultisigTapscript_encode (rl_script (hl_recipients E)) timelock
          \<lparr>pubkeys = [st_forfeitPubkey st], ms_type = None\<rparr> = Inr y"
      with t have "sweep_accepted E st (hl_tapLeafHash E (snd y))"
        unfolding sweep_accepted_def by (metis prod.collapse)
      with \<open>vouched E st s'\<close> show "vouched E st (snd (case y of (_, sweepTapscript) \<Rightarrow>
          (Inr False, s'\<lparr>sweepTapTreeRoot := Some (hl_tapLeafHash E sweepTapscript)\<rparr>)))"
        by (auto simp: vouched_def split: prod.splits)
    qed
  qed
  then show ?thesis
    using assms by (auto simp: onBatchStarted_def intro!: vouched_checked)
qed

lemma vouched_tree_signing:
  assumes "vouched E st s" and "ids_ok E"
  shows "vouched E st (snd (onTreeSigningStarted E st i ks tx tree s))"
proof (cases "st_session st")
  case False
  then show ?thesis
    using assms by (simp add: onTreeSigningStarted_def)
next
  case True
  have set_id: "vouched E st (s\<lparr>validatedCommitmentTxid := Some (tx_id commitment)\<rparr>)"
    if "sweepTapTreeRoot s = Some h" "decode_commitment E tx = Some commitment" "validateVtxoTxGraph (hl_aggregate E) tree commitment h = Inr ()"
      "(if st_recipients st = [] then Inr ()
        else validateBatchRecipients (hl_recipients E) commitment (leaves tree) (st_recipients st)) = Inr ()"
    for h commitment
  proof -
    have "all_paid E st commitment (leaves tree)"
      using that(4) recipients_loop_paid [of "hl_recipients E" commitment "leaves tree" "st_recipients st" "[]" "[]"]
      by (fastforce simp: all_paid_def validateBatchRecipients_def split: if_splits)
    then have "tree_validated E st (tx_id commitment)"
      using that(1,3) assms(1) unfolding tree_validated_def vouched_def by blast
    moreover have "tx_id commitment \<noteq> []"
      using that(2) assms(2) by (auto simp: decode_commitment_def ids_ok_def)
    ultimately show ?thesis
      using assms(1) True by (simp add: vouched_def)
  qed
  show ?thesis
    unfolding onTreeSigningStarted_def Let_def
    using assms(1) by (auto intro!: vouched_fallible vouched_checked vouched_submit set_id
        simp: vouched_session split: prod.splits)
qed

lemma vouched_nonces: "vouched E st s \<Longrightarrow> vouched E st (snd (onTreeNonces E st i txid ns s))"
  by (auto simp: onTreeNonces_def Let_def vouched_session intro!: vouched_fallible vouched_submit split: prod.splits)

lemma forfeit_of_spends: "forfeit_of E outScript v c = Inr f \<Longrightarrow> spends_with outScript (v, c) f"
  by (auto simp: forfeit_of_def connector_output_def spends_with_def buildForfeitTx_def buildForfeitTxWithOutput_def
      Let_def r_bind_eq_Inr split: list.splits option.splits if_splits sum.splits)

lemma finalize_inputs_forfeits:
  "finalize_inputs E st outScript cs ins k p b fs = Inr (p', b', fs') \<Longrightarrow> k \<le> length cs \<Longrightarrow>
     \<exists>gs. fs' = fs @ gs \<and> k + length gs \<le> length cs \<and>
       length gs = length (filter (needs_forfeit st) (vtxo_inputs ins)) \<and>
       list_all2 (spends_with outScript) (zip (filter (needs_forfeit st) (vtxo_inputs ins)) (drop k cs)) gs"
proof (induction E st outScript cs ins k p b fs rule: finalize_inputs.induct)
  case (2 E st outScript cs b ins k p hb fs)
  then show ?case
    by (auto simp: r_bind_eq_Inr)
next
  case (3 E st outScript cs v ins k p hb fs)
  show ?case
  proof (cases "needs_forfeit st v")
    case True
    with 3(3) obtain f where f: "forfeit_of E outScript v (cs ! k) = Inr f" "k < length cs"
      "finalize_inputs E st outScript cs ins (Suc k) p hb (fs @ [f]) = Inr (p', b', fs')"
      by (auto simp: r_bind_eq_Inr split: if_splits)
    have ne: "cs \<noteq> []" "\<not> length cs \<le> k" "Suc k \<le> length cs"
      using f(2) by auto
    from 3(2) True ne f obtain gs where "fs' = (fs @ [f]) @ gs" "Suc k + length gs \<le> length cs"
      "length gs = length (filter (needs_forfeit st) (vtxo_inputs ins))"
      "list_all2 (spends_with outScript) (zip (filter (needs_forfeit st) (vtxo_inputs ins)) (drop (Suc k) cs)) gs"
      by blast
    then show ?thesis
      using forfeit_of_spends [OF f(1)] True f(2)
      by (intro exI [of _ "f # gs"]) (simp add: Cons_nth_drop_Suc [symmetric])
  qed (use 3 in simp)
qed simp

lemma final_commitment_checked:
  assumes "vouched E st s" and "st_session st \<longrightarrow> validatedCommitmentTxid s \<noteq> None"
    and "assertFinalCommitmentMatchesValidated final (validatedCommitmentTxid s) = Inr ()"
    and "(if \<not> truthy_str (validatedCommitmentTxid s) \<and> st_recipients st \<noteq> []
      then validateBatchRecipientsWithoutTree (hl_recipients E) final (st_recipients st) else Inr ()) = Inr ()"
  shows "if st_session st then tree_validated E st (tx_id final) else all_paid E st final []"
proof (cases "st_session st")
  case True
  then obtain t where "validatedCommitmentTxid s = Some t" "t \<noteq> []"
    using assms(1,2) by (auto simp: vouched_def)
  then have "validatedCommitmentTxid s = Some (tx_id final)"
    using assms(3) by (auto simp: assertFinalCommitmentMatchesValidated_def split: if_splits)
  then show ?thesis
    using assms(1) True by (simp add: vouched_def)
next
  case False
  then have none: "validatedCommitmentTxid s = None"
    using assms(1) by (cases "validatedCommitmentTxid s") (auto simp: vouched_def)
  show ?thesis
  proof (cases "st_recipients st = []")
    case True
    then show ?thesis
      using False by (simp add: all_paid_def)
  next
    case f: False
    then obtain ks where "list_all2 (paid (hl_recipients E) final []) (st_recipients st) (map InCommitment ks)" "distinct ks"
      using without_tree_paid assms(4) none by fastforce
    then have "all_paid E st final []"
      unfolding all_paid_def by (metis distinct_map inj_onI paid_at.inject(1))
    then show ?thesis
      using False by simp
  qed
qed

lemma vouched_finalization:
  assumes "vouched E st s" and "st_session st \<longrightarrow> validatedCommitmentTxid s \<noteq> None"
  shows "vouched E st (snd (onBatchFinalization E st commitment connectors s))"
proof -
  let ?cs = "case connectors of Some g \<Rightarrow> leaves g | None \<Rightarrow> []"
  have release: "may_release E st fs"
    if "st_forfeitOutputScript st = Some out"
      and c: "(case connectors of None \<Rightarrow> Inr ()
        | Some t \<Rightarrow> validateConnectorsTxGraph (decode_commitment E) commitment t) = Inr ()"
      and p: "hl_psbt E commitment = Some p"
      and "assertFinalCommitmentMatchesValidated (hl_tx E p) (validatedCommitmentTxid s) = Inr ()"
      and "(if \<not> truthy_str (validatedCommitmentTxid s) \<and> st_recipients st \<noteq> []
        then validateBatchRecipientsWithoutTree (hl_recipients E) (hl_tx E p) (st_recipients st) else Inr ()) = Inr ()"
      and f: "finalize_inputs E st out ?cs (st_inputs st) 0 p False [] = Inr (p', b, fs)"
    for out p p' b fs
  proof -
    have fs: "length fs \<le> length ?cs" "length fs = length (filter (needs_forfeit st) (vtxo_inputs (st_inputs st)))"
      "list_all2 (spends_with out) (zip (filter (needs_forfeit st) (vtxo_inputs (st_inputs st))) ?cs) fs"
      using finalize_inputs_forfeits [OF f] by auto
    have "fs \<noteq> [] \<Longrightarrow> connectors_of E commitment ?cs"
      using fs(1) c by (auto simp: connectors_of_def split: option.splits)
    moreover have "decode_commitment E commitment = Some (hl_tx E p)"
      using p by (simp add: decode_commitment_def)
    ultimately show ?thesis
      using that(1) fs final_commitment_checked [OF assms that(4,5)]
      unfolding may_release_def by blast
  qed
  show ?thesis
    unfolding onBatchFinalization_def handleSettlementFinalizationEvent_def
    by (intro vouched_fallible vouched_checked assms(1))
       (auto intro!: vouched_submit assms(1) dest: release split: prod.splits)
qed

text \<open>The validated id is never forgotten, and a tree that was signed has one.\<close>

lemmas reply_defs = fallible_def checked_def submit_def Let_def

lemma signed_stays:
  "validatedCommitmentTxid s \<noteq> None \<Longrightarrow> validatedCommitmentTxid (snd (createBatchHandler E st c s)) \<noteq> None"
  by (cases "(E, st, c, s)" rule: createBatchHandler.cases)
     (auto simp: onBatchStarted_def onTreeSigningStarted_def onTreeNonces_def onBatchFinalization_def
        handleSettlementFinalizationEvent_def reply_defs split: option.splits sum.splits prod.splits)

lemma tree_signing_signs:
  assumes "st_session st" and "fst (createBatchHandler E st (OnTreeSigningStarted ev tree) s) = Inr False"
    and "matches (OnTreeSigningStarted ev tree)"
  shows "validatedCommitmentTxid (snd (createBatchHandler E st (OnTreeSigningStarted ev tree) s)) \<noteq> None"
  using assms by (cases ev) (auto simp: onTreeSigningStarted_def reply_defs split: option.splits sum.splits prod.splits if_splits)

definition signed_by :: "settlement \<Rightarrow> Step \<Rightarrow> 'q handler_state \<Rightarrow> bool" where
  "signed_by st stp s \<longleftrightarrow> (st_session st \<longrightarrow>
     stp \<in> {StepTreeSigningStarted, StepTreeNoncesAggregated, StepBatchFinalization} \<longrightarrow> validatedCommitmentTxid s \<noteq> None)"

lemma vouched_step:
  assumes "vouched E st s" and "ids_ok E" and "signed_by st stp s" and "allowed stp c"
  shows "vouched E st (snd (createBatchHandler E st c s))"
  using assms
  by (cases "(E, st, c, s)" rule: createBatchHandler.cases)
     (auto simp: signed_by_def intro!: vouched_batch_started vouched_tree_signing vouched_nonces vouched_finalization)

lemma after_calls_snoc: "after_calls E st q (cs @ [c]) = snd (createBatchHandler E st c (after_calls E st q cs))"
  by (simp add: after_calls_def)

lemma signed_step:
  assumes "signed_by st stp s" and "allowed stp c" and "matches c" and "fst (createBatchHandler E st c s) = Inr b"
  shows "signed_by st (next_step (\<not> st_session st) stp (c, b)) (snd (createBatchHandler E st c s))"
proof (cases c)
  case (OnTreeSigningStarted ev tree)
  then show ?thesis
    using assms tree_signing_signs [of st E ev tree s] signed_stays [of s E st c]
    by (cases b) (auto simp: signed_by_def)
qed (use assms signed_stays [of s E st c] in \<open>auto simp: signed_by_def\<close>)

lemma vouched_session_calls:
  "legal (wallet_handler E st q) (\<not> st_session st) t \<Longrightarrow> ids_ok E \<Longrightarrow>
     vouched E st (after_calls E st q (map fst t)) \<and>
     signed_by st (step_of (\<not> st_session st) t) (after_calls E st q (map fst t))"
proof (induction rule: legal.induct)
  case Nil
  then show ?case
    by (simp add: after_calls_def vouched_def handler_start_def signed_by_def)
next
  case (Snoc t c b)
  then have "fst (createBatchHandler E st c (after_calls E st q (map fst t))) = Inr b"
    by (simp add: wallet_handler_def)
  moreover note v = conjunct1 [OF Snoc.IH [OF Snoc.prems]] and sg = conjunct2 [OF Snoc.IH [OF Snoc.prems]]
  ultimately show ?case
    using vouched_step [OF v Snoc.prems sg Snoc(2)] signed_step [OF sg Snoc(2,3)] by (simp add: after_calls_snoc)
qed

lemma vouched_session_end:
  assumes "join dtx hdec (wallet_handler E st q) hooks (\<not> st_session st) events join_start = Some (r, js)" and "ids_ok E"
  shows "vouched E st (after_calls E st q (calls_made r js))"
proof -
  have j: "legal (wallet_handler E st q) (\<not> st_session st) (trace js)"
    "\<And>e. r = Inl e \<Longrightarrow> throw_ok (wallet_handler E st q) (\<not> st_session st) e (trace js)"
    using join_ok [OF follows_start assms(1)] by auto
  note v = vouched_session_calls [OF j(1) assms(2)]
  show ?thesis
  proof (cases "\<exists>c e. r = Inl (HandlerThrew c e)")
    case True
    then obtain c e where r: "r = Inl (HandlerThrew c e)"
      by auto
    then have "allowed (step_of (\<not> st_session st) (trace js)) c"
      using j(2) by simp
    then show ?thesis
      using vouched_step [OF conjunct1 [OF v] assms(2) conjunct2 [OF v]] by (simp add: r calls_made_def after_calls_snoc)
  next
    case False
    then have "calls_made r js = map fst (trace js)"
      by (auto simp: calls_made_def split: sum.splits join_err.splits)
    then show ?thesis
      using v by simp
  qed
qed

text \<open>
  C1. Whatever the server sends, and in whatever order, a session of \<open>Batch.join\<close> with the wallet's handler hands over forfeit
  signatures only when it may: when the wallet takes part in signing the tree, the final commitment transaction is one whose tree the wallet
  validated, against a sweep script whose delay its policy accepts and whose only key is the forfeit key, and which pays every recipient
  by an output of its own; otherwise it is one that pays them all onchain. And it hands over exactly one forfeit per input that needs one, each
  with a connector of its own from a validated connector tree of that commitment, paying the whole value to the forfeit script.
\<close>

theorem forfeits_guarded:
  assumes "join dtx hdec (wallet_handler E st q) wallet_hooks (\<not> st_session st) events join_start = Some (r, js)"
    and "ids_ok E" and "SubmitSignedForfeitTxs fs b \<in> set (sent (after_calls E st q (calls_made r js)))"
  shows "may_release E st fs"
  using vouched_session_end [OF assms(1,2)] assms(3) unfolding vouched_def by blast

text \<open>A settlement of one coin to an onchain address, with one connector.\<close>

definition paying_commitment :: Tx where
  "paying_commitment = sample_tx ''c'' [sample_out 0x52 5, sample_out 0x51 9]"

definition sample_connector :: Tx where
  "sample_connector = \<lparr>tx_id = ''k'', tx_inputs = [\<lparr>TxInput.in_txid = Some ''c'', TxInput.in_index = Some 1\<rparr>],
     tx_outputs = [sample_out 0x53 9], tx_cosigners = [], tx_tapKeySig = None\<rparr>"

definition sample_handler :: "(unit, Tx) handler_lib" where
  "sample_handler = \<lparr>hl_recipients = sample_recipients\<lparr>rl_script := std_lib\<rparr>, hl_hdec = bytes_of_hex, hl_sha256 = id, hl_utf8 = (\<lambda>_. []),
     hl_tapLeafHash = id, hl_aggregate = (\<lambda>_ _. None), hl_psbt = (\<lambda>s. if s = ''C'' then Some paying_commitment else None),
     hl_tx = (\<lambda>tx. tx\<lparr>tx_id := (if tx_id tx = [] then ''x'' else tx_id tx)\<rparr>), hl_witness_script = (\<lambda>_ _. None), hl_set_leaf = (\<lambda>p _ _. p), hl_sign = (\<lambda>_ _ _. None),
     hl_is_signed = (\<lambda>_ _. False), hl_base64 = (\<lambda>_. []), hl_sign_forfeit = (\<lambda>_ _. Some [1]),
     hl_leafVersion = 0xc0, hl_p2tr = sample_p2tr,
     hl_coder = \<lparr>tt_encode = (\<lambda>_. []), tt_decode = (\<lambda>_. Some [\<lparr>te_depth = 1, te_version = 0xc0, te_script = [0x51]\<rparr>])\<rparr>,
     hl_server = (\<lambda>_ _. True), hl_pubkey = (\<lambda>_. None), hl_init = (\<lambda>_ _ _ _. None), hl_nonces = (\<lambda>_. None),
     hl_aggregated = (\<lambda>_ _ _. None), hl_signatures = (\<lambda>_. None)\<rparr>"

definition settled_coin :: VirtualCoin where
  "settled_coin = \<lparr>coin_txid = ''t'', coin_vout = 0, coin_value = 1000, coin_status = \<lparr>confirmed = True, isLeaf = None, block_time = None\<rparr>,
     coin_createdAt = 0, coin_script = ''51'', isUnrolled = False, isSpent = None, isSwept = None, isPreconfirmed = None,
     settledBy = None, spentBy = None, arkTxId = None, commitmentTxIds = None, expiry = no_expiry, virtualStatus = None,
     coin_assets = None\<rparr>"

definition sample_settlement :: settlement where
  "sample_settlement = \<lparr>st_intentId = ''i'', st_inputs = [VtxoIn \<lparr>vi_coin = settled_coin,
       vi_leaf = \<lparr>leaf_internalKey = [], leaf_merklePath = [], leaf_bytes = []\<rparr>, vi_tapTree = []\<rparr>],
     st_recipients = [\<lparr>rec_address = ''bc1'', rec_amount = Some 5, rec_assets = None\<rparr>], st_session = False,
     st_network = sample_net, st_overrides = id, st_forfeitPubkey = sample_key 7, st_forfeitOutputScript = Some [0x54],
     st_dust = 330, st_now = 0\<rparr>"

definition sample_events :: "SettlementEvent list" where
  "sample_events = [BatchStarted ''b'' [key_of_bytes []] 10,
     TreeTx ''b'' [] 1 \<lparr>node_txid = ''k'', node_tx = ''K'', node_children = []\<rparr>, BatchFinalization ''b'' ''C'']"

lemma sample_started:
  "\<exists>h. createBatchHandler sample_handler sample_settlement (OnBatchStarted (BatchStarted ''b'' [key_of_bytes []] 10)) (handler_start ()) =
     (Inr False, (handler_start ())\<lparr>sent := [ConfirmRegistration ''i''], sweepTapTreeRoot := Some h\<rparr>)"
proof -
  obtain s where "CSVMultisigTapscript_encode std_lib \<lparr>tl_value = 10, tl_type = InBlocks\<rparr> (keys_of [sample_key 7])
      = Inr (checksig_keys [sample_key 7], s)"
    using std_csv [of "[sample_key 7]" 10] by (auto simp: sample_key_def)
  moreover have "assertValidBatchExpiry 10 (resolveBatchExpiryPolicy sample_net id) = Inr \<lparr>tl_value = 10, tl_type = InBlocks\<rparr>"
    by (simp add: batch_expiry_iff resolveBatchExpiryPolicy_def default_floors sample_net_def networks_def withArkPrefix_def
        batch_floor_def isRegtest_def toSeconds_def NOMINAL_BLOCK_SECONDS_def toTimelock_def defaultBatchExpiryPolicy_def
        REGTEST_MIN_BATCH_EXPIRY_SECONDS_def)
  ultimately show ?thesis
    by (simp add: onBatchStarted_def sample_handler_def sample_settlement_def sample_recipients_def checked_def submit_def keys_of_def
        handler_start_def Let_def)
qed

lemma sample_vtxo_script:
  "\<exists>v. VtxoScript_decode 0xc0 sample_p2tr (hl_coder sample_handler) [] = Inr v"
  by (simp add: VtxoScript_decode_def sample_handler_def VtxoScript_new_def assembleBtcdTaprootTree_def sample_p2tr_def)

lemma sample_finalized:
  assumes "validatedCommitmentTxid s = None"
  shows "\<exists>f. createBatchHandler sample_handler sample_settlement
      (OnBatchFinalization (BatchFinalization ''b'' ''C'') None (Some (TxTree sample_connector []))) s =
     (Inr False, s\<lparr>sent := sent s @ [SubmitSignedForfeitTxs [f] None]\<rparr>)"
proof -
  have "needs_forfeit sample_settlement (hd (vtxo_inputs (st_inputs sample_settlement)))"
    by (simp add: needs_forfeit_def sample_settlement_def settled_coin_def canRecoverOnchain_def isSubdust_def normalizeVtxo_def
        no_expiry_def parseLegacyExpiry_def hasTerminalSpend_def isPastExpiry_def toVirtualStatus_def toBatchExpiry_def Let_def)
  moreover have "validateConnectorsTxGraph (decode_commitment sample_handler) ''C'' (TxTree sample_connector []) = Inr ()"
    by (simp add: validateConnectorsTxGraph_def decode_commitment_def sample_handler_def paying_commitment_def sample_connector_def
        lift_tree_def first_input_def BATCH_OUTPUT_CONNECTORS_INDEX_def sample_tx_def)
  moreover have "\<exists>f. forfeit_of sample_handler [0x54] (hd (vtxo_inputs (st_inputs sample_settlement))) sample_connector = Inr f"
    using sample_vtxo_script
    by (auto simp: forfeit_of_def connector_output_def sample_connector_def sample_out_def sample_settlement_def)
       (auto simp: sample_handler_def Let_def)
  moreover have "validateBatchRecipientsWithoutTree (hl_recipients sample_handler) (paying_commitment) (st_recipients sample_settlement) = Inr ()"
    by (simp add: validateBatchRecipientsWithoutTree_def sample_handler_def sample_recipients_def sample_settlement_def ArkAddress_decode_def
        validateOnchainRecipient_def no_amount_def paying_commitment_def sample_tx_def sample_out_def has_script_def)
  moreover have "hl_psbt sample_handler ''C'' = Some paying_commitment" "hl_tx sample_handler paying_commitment = paying_commitment"
    "hl_server sample_handler l c" for l c
    by (simp_all add: sample_handler_def paying_commitment_def sample_tx_def)
  moreover have "st_forfeitOutputScript sample_settlement = Some [0x54]" "st_recipients sample_settlement \<noteq> []"
    "\<exists>v. st_inputs sample_settlement = [VtxoIn v]"
    by (simp_all add: sample_settlement_def)
  ultimately obtain f v where "needs_forfeit sample_settlement v" "st_inputs sample_settlement = [VtxoIn v]"
    "forfeit_of sample_handler [0x54] v sample_connector = Inr f"
    "validateConnectorsTxGraph (decode_commitment sample_handler) ''C'' (TxTree sample_connector []) = Inr ()"
    "validateBatchRecipientsWithoutTree (hl_recipients sample_handler) paying_commitment (st_recipients sample_settlement) = Inr ()"
    "hl_psbt sample_handler ''C'' = Some paying_commitment" "hl_tx sample_handler paying_commitment = paying_commitment"
    "\<forall>l c. hl_server sample_handler l c" "st_forfeitOutputScript sample_settlement = Some [0x54]"
    by auto
  then show ?thesis
    using assms by (intro exI [of _ f]) (simp add: onBatchFinalization_def handleSettlementFinalizationEvent_def fallible_def checked_def submit_def Let_def
        assertFinalCommitmentMatchesValidated_def)
qed

theorem forfeits_guarded_witness:
  "\<exists>r js f. join (\<lambda>s. if s = ''K'' then Some sample_connector else None) bytes_of_hex
       (wallet_handler sample_handler sample_settlement ()) wallet_hooks (\<not> st_session sample_settlement)
       (map (Pair False) sample_events) join_start = Some (r, js) \<and>
     SubmitSignedForfeitTxs [f] None \<in> set (sent (after_calls sample_handler sample_settlement () (calls_made r js))) \<and>
     may_release sample_handler sample_settlement [f]"
proof -
  let ?b = "OnBatchStarted (BatchStarted ''b'' [key_of_bytes []] 10)"
  let ?c = "OnBatchFinalization (BatchFinalization ''b'' ''C'') None (Some (TxTree sample_connector []))"
  let ?join = "join (\<lambda>s. if s = ''K'' then Some sample_connector else None) bytes_of_hex
       (wallet_handler sample_handler sample_settlement ()) wallet_hooks (\<not> st_session sample_settlement)
       (map (Pair False) sample_events) join_start"
  obtain h where b: "createBatchHandler sample_handler sample_settlement ?b (handler_start ()) =
      (Inr False, (handler_start ())\<lparr>sent := [ConfirmRegistration ''i''], sweepTapTreeRoot := Some h\<rparr>)"
    using sample_started by blast
  let ?s = "(handler_start ())\<lparr>sent := [ConfirmRegistration ''i''], sweepTapTreeRoot := Some h\<rparr>"
  obtain f where f: "createBatchHandler sample_handler sample_settlement ?c ?s =
      (Inr False, ?s\<lparr>sent := sent ?s @ [SubmitSignedForfeitTxs [f] None]\<rparr>)"
    using sample_finalized [of ?s] by (auto simp: handler_start_def)
  have "TxTree_create (\<lambda>s. if s = ''K'' then Some sample_connector else None)
      [\<lparr>node_txid = ''k'', node_tx = ''K'', node_children = []\<rparr>] = Some (Inr (TxTree sample_connector []))"
    by (simp add: TxTree_create_def decodeNode_def root_txids_def hasChild_def)
  then obtain js where js: "?join = Some (Inl StreamClosed, js)" "trace js = [(?b, False), (?c, False)]"
    using b f by (auto simp: sample_events_def join_step_def call_def optional_call_def create_tree_def wallet_handler_def
        wallet_hooks_def after_calls_def join_start_def sample_settlement_def Let_def simp del: createBatchHandler.simps)
  have "SubmitSignedForfeitTxs [f] None \<in> set (sent (after_calls sample_handler sample_settlement () (calls_made (Inl StreamClosed) js)))"
    using b f by (simp add: calls_made_def js(2) after_calls_def del: createBatchHandler.simps)
  moreover have "ids_ok sample_handler"
    by (simp add: ids_ok_def sample_handler_def)
  ultimately show ?thesis
    using forfeits_guarded [OF js(1)] js(1) by blast
qed

end
