(* ===== verification/Settle_Session.thy ===== *)
theory Settle_Session
  imports Batch_Handler
begin

text \<open>
  A settlement as a whole: \<open>wrapHandlerWithIntentPersistence\<close> (\<open>wallet/intentPersistenceHandler.ts\<close>), which records the
  intent's state from the batch hooks, and the part of \<open>Wallet.settle\<close> (\<open>wallet/wallet.ts\<close>) from the first snapshot of the intent to the
  end, with \<open>persistIntentSnapshot\<close>, \<open>safeRegisterIntent\<close> and the set of pending spends.

  The wrapped handler is again a function of the calls made so far; what it does to the repository is \<open>persist_call\<close>, folded over
  the calls of the session. \<open>env n\<close> is what the rest of the wallet does to the repository before its \<open>n\<close>-th use, \<open>clock n\<close> the
  time of that use. The register and delete requests, the checks before the session and the database update after it are arguments.
\<close>

section \<open>The wrapped handler\<close>

datatype 'e wrap_err = BaseThrew 'e | FailedWith string

definition of_base :: "'e + bool \<Rightarrow> 'e wrap_err + bool" where
  "of_base r = (case r of Inl e \<Rightarrow> Inl (BaseThrew e) | Inr b \<Rightarrow> Inr b)"

definition wrapHandlerWithIntentPersistence :: "HandlerHooks \<Rightarrow> 'e handler \<Rightarrow> 'e wrap_err handler" where
  "wrapHandlerWithIntentPersistence hooks base t c =
     (case c of
        OnBatchFinalized ev \<Rightarrow> if has_onBatchFinalized hooks then of_base (base t c) else Inr False
      | OnBatchFailed ev \<Rightarrow> if has_onBatchFailed hooks then of_base (base t c) else Inl (FailedWith (reason ev))
      | _ \<Rightarrow> of_base (base t c))"

definition wrapped_hooks :: "HandlerHooks \<Rightarrow> HandlerHooks" where
  "wrapped_hooks hooks = hooks\<lparr>has_onBatchFinalized := True, has_onBatchFailed := True\<rparr>"

text \<open>
  What a call of the wrapped handler writes: a batch that is joined, and a finalization the base handled, are recorded after the
  base; a failure is recorded first.
\<close>

definition persist_call ::
  "('s \<Rightarrow> string \<Rightarrow> ArkIntent option) \<Rightarrow> (int \<Rightarrow> ArkIntent \<Rightarrow> 's \<Rightarrow> 'x + 's) \<Rightarrow> int \<Rightarrow> string \<Rightarrow>
   HandlerCall \<Rightarrow> 'e + bool \<Rightarrow> 's \<Rightarrow> 's" where
  "persist_call read save now k c r s =
     (case c of
        OnBatchStarted ev \<Rightarrow> (case r of Inr skip \<Rightarrow> if skip then s else persistTransition read save now k ev s | Inl _ \<Rightarrow> s)
      | OnBatchFinalized ev \<Rightarrow> (case r of Inr _ \<Rightarrow> persistTransition read save now k ev s | Inl _ \<Rightarrow> s)
      | OnBatchFailed ev \<Rightarrow> persistTransition read save now k ev s
      | _ \<Rightarrow> s)"

fun persist_calls ::
  "('s \<Rightarrow> string \<Rightarrow> ArkIntent option) \<Rightarrow> (int \<Rightarrow> ArkIntent \<Rightarrow> 's \<Rightarrow> 'x + 's) \<Rightarrow> (nat \<Rightarrow> 's \<Rightarrow> 's) \<Rightarrow> (nat \<Rightarrow> int) \<Rightarrow>
   string \<Rightarrow> nat \<Rightarrow> (HandlerCall \<times> ('e + bool)) list \<Rightarrow> 's \<Rightarrow> 's" where
  "persist_calls read save env clock k n [] s = s"
| "persist_calls read save env clock k n ((c, r) # cs) s =
     persist_calls read save env clock k (Suc n) cs (persist_call read save (clock n) k c r (env n s))"

text \<open>The calls of a session with their outcomes, the one that threw included.\<close>

definition call_outcomes :: "'e join_err + string \<Rightarrow> JoinState \<Rightarrow> (HandlerCall \<times> ('e + bool)) list" where
  "call_outcomes r js = map (\<lambda>(c, b). (c, Inr b)) (trace js) @ (case r of Inl (HandlerThrew c e) \<Rightarrow> [(c, Inl e)] | _ \<Rightarrow> [])"

section \<open>The snapshots of settle\<close>

record signed_intent =
  si_registerProof :: string
  si_registerMessage :: string
  si_deleteProof :: string
  si_deleteMessage :: string

definition blank_intent :: "string \<Rightarrow> int \<Rightarrow> ArkIntent" where
  "blank_intent k now = \<lparr>intentTxId = k, intentId = None, intent_state = WaitingToSubmit, validFrom = None, validUntil = None,
     intent_createdAt = now, updatedAt = now, registerProof = [], registerProofMessage = [], deleteProof = [],
     deleteProofMessage = [], batchId = None, commitmentTransactionId = None, cancellationReason = None, partialForfeits = [],
     signerDescriptor = None, intentVtxos = []\<rparr>"

definition snapshot_row ::
  "ArkIntent option \<Rightarrow> string \<Rightarrow> ArkIntentState \<Rightarrow> signed_intent \<Rightarrow> Outpoint list \<Rightarrow> (ArkIntent \<Rightarrow> ArkIntent) \<Rightarrow> int \<Rightarrow> ArkIntent" where
  "snapshot_row existing k st si inputs patch now =
     patch ((or_default existing (blank_intent k now))
       \<lparr>intentTxId := k, registerProof := si_registerProof si, registerProofMessage := si_registerMessage si,
        deleteProof := si_deleteProof si, deleteProofMessage := si_deleteMessage si, intentVtxos := inputs,
        updatedAt := now, intent_state := st\<rparr>)"

definition persistIntentSnapshot ::
  "('s \<Rightarrow> string \<Rightarrow> ArkIntent option) \<Rightarrow> (int \<Rightarrow> ArkIntent \<Rightarrow> 's \<Rightarrow> 'x + 's) \<Rightarrow> int \<Rightarrow> string \<Rightarrow> ArkIntentState \<Rightarrow>
   signed_intent \<Rightarrow> Outpoint list \<Rightarrow> (ArkIntent \<Rightarrow> ArkIntent) \<Rightarrow> 's \<Rightarrow> 's" where
  "persistIntentSnapshot read save now k st si inputs patch s =
     (let existing = read s k in
      if (case existing of Some i \<Rightarrow> isTerminalIntentState (intent_state i) | None \<Rightarrow> False) then s
      else case save now (snapshot_row existing k st si inputs patch now) s of Inr s' \<Rightarrow> s' | Inl _ \<Rightarrow> s)"

section \<open>Registration and pending spends\<close>

datatype provider_error = ArkErr int string | OtherErr string

text \<open>\<open>register n\<close> is the answer to the \<open>n\<close>-th registration.\<close>

definition safeRegisterIntent ::
  "(nat \<Rightarrow> provider_error + string) \<Rightarrow> provider_error + unit \<Rightarrow> provider_error + unit \<Rightarrow> provider_error + string" where
  "safeRegisterIntent register sign_delete delete =
     (case register 0 of
        Inr i \<Rightarrow> Inr i
      | Inl e \<Rightarrow>
          if (case e of ArkErr code msg \<Rightarrow> code = 0 \<and> str_includes msg ''duplicated input'' | OtherErr _ \<Rightarrow> False)
          then r_bind sign_delete (\<lambda>_. r_bind delete (\<lambda>_. register 1))
          else Inl e)"

fun input_outpoint :: "settle_input \<Rightarrow> Outpoint" where
  "input_outpoint (BoardingIn b) = \<lparr>op_txid = bi_txid b, op_vout = bi_vout b\<rparr>"
| "input_outpoint (VtxoIn v) = \<lparr>op_txid = coin_txid (vi_coin v), op_vout = coin_vout (vi_coin v)\<rparr>"

definition addPendingSpends :: "settle_input list \<Rightarrow> Outpoint list \<Rightarrow> Outpoint list" where
  "addPendingSpends ins pending = fold (\<lambda>v p. js_add (input_outpoint (VtxoIn v)) p) (vtxo_inputs ins) pending"

definition removePendingSpends :: "settle_input list \<Rightarrow> Outpoint list \<Rightarrow> Outpoint list" where
  "removePendingSpends ins pending = fold (\<lambda>v p. filter (\<lambda>out. out \<noteq> input_outpoint (VtxoIn v)) p) (vtxo_inputs ins) pending"

section \<open>The session\<close>

datatype ('e, 'f) settle_err = PreCheck 'f | Registration provider_error | SessionFailed "'e wrap_err join_err" | AfterCommit 'f

record ('e, 'f, 's) settle_io =
  io_env :: "nat \<Rightarrow> 's \<Rightarrow> 's"
  io_clock :: "nat \<Rightarrow> int"
  io_precheck :: "'f + unit"
  io_register :: "nat \<Rightarrow> provider_error + string"
  io_sign_delete :: "provider_error + unit"
  io_delete :: "provider_error + unit"
  io_decode_tx :: decode_tx
  io_hex :: hex_decode
  io_handler :: "string \<Rightarrow> 'e handler"
  io_hooks :: HandlerHooks
  io_events :: "(bool \<times> SettlementEvent) list"
  io_after :: "string \<Rightarrow> 'f + unit"
  io_message :: "('e, 'f) settle_err \<Rightarrow> string"

record 's settle_state =
  ss_store :: 's
  ss_pending :: "Outpoint list"

text \<open>
  \<open>settle_session\<close> is \<open>None\<close> when the session does not return. A failure before the batch is committed ends in the
  \<open>cancelled\<close> snapshot, whatever the delete request answers; a failure after it in the \<open>batch_succeeded\<close> one.
\<close>

definition settle_session ::
  "('s \<Rightarrow> string \<Rightarrow> ArkIntent option) \<Rightarrow> (int \<Rightarrow> ArkIntent \<Rightarrow> 's \<Rightarrow> 'x + 's) \<Rightarrow> ('e, 'f, 's) settle_io \<Rightarrow>
   string \<Rightarrow> signed_intent \<Rightarrow> settle_input list \<Rightarrow> bool \<Rightarrow> 's settle_state \<Rightarrow>
   ((('e, 'f) settle_err + string) \<times> 's settle_state) option" where
  "settle_session read save io k si inputs skipVtxoTreeSigning s0 =
     (let outs = map input_outpoint inputs;
          snap = (\<lambda>n st patch s. persistIntentSnapshot read save (io_clock io n) k st si outs patch (io_env io n s));
          store = snap 0 WaitingToSubmit id (ss_store s0);
          finish = (\<lambda>r store. Some (r, \<lparr>ss_store = store,
             ss_pending = removePendingSpends inputs (addPendingSpends inputs (ss_pending s0))\<rparr>));
          fail = (\<lambda>n e store. finish (Inl e)
             (snap n Cancelled (\<lambda>i. i\<lparr>cancellationReason := Some (io_message io e)\<rparr>) store))
      in case io_precheck io of
           Inl f \<Rightarrow> Some (Inl (PreCheck f), s0\<lparr>ss_store := store\<rparr>)
         | Inr _ \<Rightarrow>
             (case safeRegisterIntent (io_register io) (io_sign_delete io) (io_delete io) of
                Inl e \<Rightarrow> fail 1 (Registration e) store
              | Inr serverId \<Rightarrow>
                  (let store = snap 1 WaitingForBatch (\<lambda>i. i\<lparr>intentId := Some serverId\<rparr>) store in
                   case join (io_decode_tx io) (io_hex io)
                          (wrapHandlerWithIntentPersistence (io_hooks io) (io_handler io serverId))
                          (wrapped_hooks (io_hooks io)) skipVtxoTreeSigning (io_events io) join_start of
                     None \<Rightarrow> None
                   | Some (r, js) \<Rightarrow>
                       (let calls = call_outcomes r js;
                            store = persist_calls read save (io_env io) (io_clock io) k 2 calls store;
                            n = 2 + length calls
                        in case r of
                             Inl e \<Rightarrow> fail n (SessionFailed e) store
                           | Inr txid \<Rightarrow>
                               (case io_after io txid of
                                  Inr _ \<Rightarrow> finish (Inr txid) store
                                | Inl f \<Rightarrow> finish (Inl (AfterCommit f))
                                    (snap n BatchSucceeded (\<lambda>i. i\<lparr>commitmentTransactionId := Some txid\<rparr>) store))))))"

section \<open>The calls of a wrapped session\<close>

definition call_event :: "HandlerCall \<Rightarrow> 'e + bool \<Rightarrow> SettlementEvent option" where
  "call_event c r =
     (case c of
        OnBatchStarted ev \<Rightarrow> (case r of Inr skip \<Rightarrow> if skip then None else Some ev | Inl _ \<Rightarrow> None)
      | OnBatchFinalized ev \<Rightarrow> (case r of Inr _ \<Rightarrow> Some ev | Inl _ \<Rightarrow> None)
      | OnBatchFailed ev \<Rightarrow> Some ev
      | _ \<Rightarrow> None)"

lemma persist_call_event:
  "persist_call read save now k c r s =
     (case call_event c r of None \<Rightarrow> s | Some ev \<Rightarrow> persistTransition read save now k ev s)"
  by (auto simp: persist_call_def call_event_def split: HandlerCall.splits sum.splits)

lemma legal_answers: "legal h k t \<Longrightarrow> (c, b) \<in> set t \<Longrightarrow> matches c \<and> (\<exists>t0. h t0 c = Inr b)"
  by (induction rule: legal.induct) auto

definition unfinished :: "trace \<Rightarrow> bool" where
  "unfinished t \<longleftrightarrow> (\<forall>x \<in> set t. \<forall>ev. fst x \<noteq> OnBatchFinalized ev)"

fun outcome_finish :: "trace \<Rightarrow> 'e outcome \<Rightarrow> bool" where
  "outcome_finish t (Continue s) = unfinished (trace s)"
| "outcome_finish t (Throw e s) = unfinished (trace s)"
| "outcome_finish t (Return txid s) =
     (\<exists>t0 b x. trace s = t0 @ [(OnBatchFinalized (BatchFinalized b txid), x)] \<and> unfinished t0)"
| "outcome_finish t Diverge = True"

lemma join_step_finish:
  assumes "unfinished (trace s)" and "has_onBatchFinalized hooks"
  shows "outcome_finish (trace s) (join_step dtx hdec h hooks k ev s)"
  using assms
  by (cases ev)
     (auto simp: join_step_def call_def optional_call_def create_tree_def unfinished_def Let_def
        split: sum.splits option.splits)

lemma join_finish:
  "unfinished (trace s) \<Longrightarrow> has_onBatchFinalized hooks \<Longrightarrow> join dtx hdec h hooks k events s = Some (r, s') \<Longrightarrow>
     (case r of Inl e \<Rightarrow> unfinished (trace s')
      | Inr txid \<Rightarrow> \<exists>t0 b x. trace s' = t0 @ [(OnBatchFinalized (BatchFinalized b txid), x)] \<and> unfinished t0)"
proof (induction dtx hdec h hooks k events s rule: join.induct)
  case (2 dtx hdec h hooks k aborted ev events s)
  show ?case
  proof (cases aborted)
    case False
    then show ?thesis
      using join_step_finish [OF 2(2,3), of dtx hdec h k ev] 2
      by (cases "join_step dtx hdec h hooks k ev s") auto
  qed (use 2 in auto)
qed auto

text \<open>Before the last call of a wrapped session only joined batches are recorded.\<close>

definition only_starts :: "(HandlerCall \<times> ('e + bool)) list \<Rightarrow> bool" where
  "only_starts cs \<longleftrightarrow> (\<forall>(c, r) \<in> set cs. case call_event c r of None \<Rightarrow> True | Some ev \<Rightarrow> (\<exists>i hs n. ev = BatchStarted i hs n))"

lemma wrapped_no_failed:
  "\<not> has_onBatchFailed hooks \<Longrightarrow> wrapHandlerWithIntentPersistence hooks base t (OnBatchFailed ev) \<noteq> Inr b"
  by (simp add: wrapHandlerWithIntentPersistence_def)

lemma started_only:
  assumes "legal (wrapHandlerWithIntentPersistence hooks base) k (t @ t')" and "unfinished t" and "\<not> has_onBatchFailed hooks"
  shows "only_starts (map (\<lambda>(c, b). (c, Inr b)) t)"
proof -
  have "\<exists>i hs n. ev = BatchStarted i hs n" if "(c, b) \<in> set t" "call_event c (Inr b) = Some ev" for c b ev
  proof -
    have m: "matches c" "\<exists>t0. wrapHandlerWithIntentPersistence hooks base t0 c = Inr b"
      using legal_answers [OF assms(1), of c b] that(1) by auto
    have "\<And>e. c \<noteq> OnBatchFinalized e" "\<And>e. c \<noteq> OnBatchFailed e"
      using assms(2,3) that(1) m(2) wrapped_no_failed by (fastforce simp: unfinished_def)+
    then show ?thesis
      using that(2) m(1) by (cases c; cases ev) (auto simp: call_event_def split: if_splits)
  qed
  then show ?thesis
    by (fastforce simp: only_starts_def split: option.splits)
qed

section \<open>The row of the intent\<close>

lemma persist_row:
  assumes "store_ok s" and "js_get s k = Some i"
  shows "store_ok (persistTransition (mem_read lc) saveIntent now k e s) \<and>
    (\<exists>j. js_get (persistTransition (mem_read lc) saveIntent now k e s) k = Some j \<and>
       intent_state j = reduceIntentState (intent_state i) e \<and>
       (\<forall>b t. e = BatchFinalized b t \<and> \<not> isTerminalIntentState (intent_state i) \<longrightarrow> commitmentTransactionId j = Some t))"
proof -
  have ok: "store_ok (persistTransition (mem_read lc) saveIntent now k e s)"
    using mem.persist_inv [OF assms(1)] .
  show ?thesis
  proof (cases "applySettlementEventToIntent i e")
    case None
    then have "reduceIntentState (intent_state i) e = intent_state i"
      by (simp add: applySettlementEventToIntent_def Let_def split: if_splits)
    moreover have "persistTransition (mem_read lc) saveIntent now k e s = s"
      using assms None by (simp add: persistTransition_def mem_read_eq)
    ultimately show ?thesis
      using assms by (auto simp: reduceIntentState_def split: if_splits)
  next
    case (Some j)
    have "intent_state j = reduceIntentState (intent_state i) e"
      using mem.apply_key [OF Some] by simp
    moreover have "\<forall>b t. e = BatchFinalized b t \<longrightarrow> commitmentTransactionId j = Some t"
      using Some by (auto simp: applySettlementEventToIntent_def Let_def split: if_splits)
    ultimately show ?thesis
      using ok persist_existing [OF assms Some, of lc now] by simp
  qed
qed

definition live_row :: "string \<Rightarrow> intents \<Rightarrow> bool" where
  "live_row k s \<longleftrightarrow> store_ok s \<and> (\<exists>i. js_get s k = Some i \<and> \<not> isTerminalIntentState (intent_state i))"

definition quiet :: "(nat \<Rightarrow> intents \<Rightarrow> intents) \<Rightarrow> string \<Rightarrow> bool" where
  "quiet env k \<longleftrightarrow> (\<forall>n s. store_ok s \<longrightarrow> store_ok (env n s) \<and> js_get (env n s) k = js_get s k)"

lemma live_env: "quiet env k \<Longrightarrow> live_row k s \<Longrightarrow> live_row k (env n s)"
  by (auto simp: quiet_def live_row_def)

lemma live_started:
  assumes "live_row k s"
  shows "live_row k (persistTransition (mem_read lc) saveIntent now k (BatchStarted i hs n) s)"
proof -
  obtain row where r: "store_ok s" "js_get s k = Some row" "\<not> isTerminalIntentState (intent_state row)"
    using assms by (auto simp: live_row_def)
  then have "\<not> isTerminalIntentState (reduceIntentState (intent_state row) (BatchStarted i hs n))"
    by (simp add: reduceIntentState_def)
  then show ?thesis
    using persist_row [OF r(1,2), of lc now "BatchStarted i hs n"] by (metis live_row_def)
qed

lemma live_calls:
  "live_row k s \<Longrightarrow> only_starts cs \<Longrightarrow> quiet env k \<Longrightarrow>
     live_row k (persist_calls (mem_read lc) saveIntent env clock k n cs s)"
proof (induction cs arbitrary: n s)
  case (Cons x cs)
  obtain c r where x: "x = (c, r)" by force
  have "live_row k (persist_call (mem_read lc) saveIntent (clock n) k c r (env n s))"
    using live_env [OF Cons.prems(3,1), of n] Cons.prems(2)
    by (auto simp: persist_call_event x only_starts_def live_started split: option.splits)
  then show ?case
    using Cons by (simp add: x only_starts_def)
qed simp

lemma persist_calls_append:
  "persist_calls read save env clock k n (cs @ ds) s =
     persist_calls read save env clock k (n + length cs) ds (persist_calls read save env clock k n cs s)"
  by (induction cs arbitrary: n s) auto

definition row_in :: "string \<Rightarrow> (ArkIntent \<Rightarrow> bool) \<Rightarrow> intents \<Rightarrow> bool" where
  "row_in k P s \<longleftrightarrow> store_ok s \<and> (\<exists>i. js_get s k = Some i \<and> P i)"

lemma row_env: "quiet env k \<Longrightarrow> row_in k P s \<Longrightarrow> row_in k P (env n s)"
  by (auto simp: quiet_def row_in_def)

lemma terminal_snapshot:
  assumes "row_in k P s" and "\<And>i. P i \<Longrightarrow> isTerminalIntentState (intent_state i)"
  shows "persistIntentSnapshot (mem_read lc) saveIntent now k st si outs patch s = s"
  using assms by (auto simp: persistIntentSnapshot_def row_in_def mem_read_eq)

lemma snapshot_saved:
  assumes "store_ok s" and "\<And>i. js_get s k = Some i \<Longrightarrow> \<not> isTerminalIntentState (intent_state i)"
    and "\<And>i. intentTxId (patch i) = intentTxId i \<and> intentId (patch i) = intentId i \<and> intent_state (patch i) = intent_state i"
  shows "row_in k (\<lambda>j. intent_state j = st \<and> intentVtxos j = intentVtxos (snapshot_row (js_get s k) k st si outs patch now))
    (persistIntentSnapshot (mem_read lc) saveIntent now k st si outs patch s)"
proof -
  let ?row = "snapshot_row (js_get s k) k st si outs patch now"
  have row: "intentTxId ?row = k" "intent_state ?row = st"
    "intentId ?row = Option.bind (js_get s k) intentId"
    using assms(3) by (cases "js_get s k"; simp add: snapshot_row_def blank_intent_def)+
  have "saveIntent now ?row s = Inr (js_set k (?row\<lparr>updatedAt := now\<rparr>) s)"
  proof (cases "js_get s k")
    case None
    then show ?thesis
      using row by (simp add: saveIntent_def assertIntentIdUnique_def)
  next
    case (Some i)
    show ?thesis
      by (rule saveIntent_existing [OF assms(1) Some]) (use row Some in simp_all)
  qed
  moreover have "store_ok (js_set k (?row\<lparr>updatedAt := now\<rparr>) s)"
    using saveIntent_ok [OF assms(1) calculation] by simp
  moreover have "\<not> (case js_get s k of Some i \<Rightarrow> isTerminalIntentState (intent_state i) | None \<Rightarrow> False)"
    using assms(2) by (simp split: option.splits)
  ultimately show ?thesis
    using assms(1) row by (auto simp: persistIntentSnapshot_def mem_read_eq row_in_def Let_def)
qed

lemma row_live: "row_in k P s \<Longrightarrow> (\<And>i. P i \<Longrightarrow> \<not> isTerminalIntentState (intent_state i)) \<Longrightarrow> live_row k s"
  by (auto simp: row_in_def live_row_def)

lemma snapshot_live:
  assumes "live_row k s" and "\<not> isTerminalIntentState st"
    and "\<And>i. intentTxId (patch i) = intentTxId i \<and> intent_state (patch i) = intent_state i"
  shows "live_row k (persistIntentSnapshot (mem_read lc) saveIntent now k st si outs patch s)"
proof -
  let ?row = "snapshot_row (js_get s k) k st si outs patch now"
  have ok: "store_ok s"
    using assms(1) by (simp add: live_row_def)
  have row: "intentTxId ?row = k" "intent_state ?row = st"
    using assms(3) by (cases "js_get s k"; simp add: snapshot_row_def blank_intent_def)+
  show ?thesis
  proof (cases "saveIntent now ?row s")
    case (Inl e)
    then show ?thesis
      using assms(1) ok by (simp add: persistIntentSnapshot_def mem_read_eq Let_def)
  next
    case (Inr s')
    then have "store_ok s'" "js_get s' k = Some (?row\<lparr>updatedAt := now\<rparr>)"
      using saveIntent_ok [OF ok Inr] row by simp_all
    then show ?thesis
      using assms(1,2) ok row Inr by (auto simp: persistIntentSnapshot_def mem_read_eq Let_def live_row_def)
  qed
qed

lemma snapshot_ends:
  assumes "live_row k s"
    and "\<And>i. intentTxId (patch i) = intentTxId i \<and> intentId (patch i) = intentId i \<and> intent_state (patch i) = intent_state i"
  shows "row_in k (\<lambda>i. intent_state i = st) (persistIntentSnapshot (mem_read lc) saveIntent now k st si outs patch s)"
  using snapshot_saved [of s k patch, where st = st and lc = lc and now = now and si = si and outs = outs] assms by (auto simp: live_row_def row_in_def)

text \<open>The row after the calls of the session: live, or with the outcome the session ended with.\<close>

definition ended_as :: "('e wrap_err join_err + string) \<Rightarrow> ArkIntent \<Rightarrow> bool" where
  "ended_as r i \<longleftrightarrow> (case r of
      Inr txid \<Rightarrow> intent_state i = BatchSucceeded \<and> commitmentTransactionId i = Some txid
    | Inl _ \<Rightarrow> intent_state i = BatchFailedState)"

lemma session_row:
  fixes base :: "'e handler"
  assumes "join dtx hdec (wrapHandlerWithIntentPersistence hooks base) (wrapped_hooks hooks) skip events join_start = Some (r, js)"
    and "\<not> has_onBatchFailed hooks" and "live_row k s" and "quiet env k"
  shows "(let s' = persist_calls (mem_read lc) saveIntent env clock k n (call_outcomes r js) s in
    row_in k (ended_as r) s' \<or> ((\<exists>e. r = Inl e) \<and> live_row k s'))"
proof -
  let ?h = "wrapHandlerWithIntentPersistence hooks base"
  have legal: "legal ?h skip (trace js)"
    using join_ok [OF follows_start assms(1)] by simp
  have "unfinished (trace join_start)" "has_onBatchFinalized (wrapped_hooks hooks)"
    by (simp_all add: unfinished_def join_start_def wrapped_hooks_def)
  note fin = join_finish [OF this assms(1)]
  show ?thesis
  proof (cases r)
    case (Inr txid)
    then obtain t0 b x where t: "trace js = t0 @ [(OnBatchFinalized (BatchFinalized b txid), x)]" "unfinished t0"
      using fin by auto
    let ?t0 = "map (\<lambda>(c, b). (c, Inr b :: 'e wrap_err + bool)) t0" and ?m = "n + length t0"
    let ?s = "env ?m (persist_calls (mem_read lc) saveIntent env clock k n ?t0 s)"
    have "live_row k ?s"
      using live_env [OF assms(4)] live_calls [OF assms(3) _ assms(4)] started_only [of hooks base skip t0, OF _ t(2) assms(2)] legal t(1)
      by metis
    then obtain i where i: "store_ok ?s" "js_get ?s k = Some i" "\<not> isTerminalIntentState (intent_state i)"
      by (auto simp: live_row_def)
    have "row_in k (ended_as r) (persistTransition (mem_read lc) saveIntent (clock ?m) k (BatchFinalized b txid) ?s)"
      using persist_row [OF i(1,2), of lc "clock ?m" "BatchFinalized b txid"] i(3) Inr
      by (auto simp: row_in_def ended_as_def reduceIntentState_def)
    moreover have "call_outcomes r js = ?t0 @ [(OnBatchFinalized (BatchFinalized b txid), Inr x)]"
      using t(1) Inr by (simp add: call_outcomes_def)
    ultimately show ?thesis
      by (simp add: Let_def persist_calls_append persist_call_event call_event_def)
  next
    case (Inl e)
    let ?t = "map (\<lambda>(c, b). (c, Inr b :: 'e wrap_err + bool)) (trace js)" and ?m = "n + length (trace js)"
    have "only_starts ?t"
      using started_only [of hooks base skip "trace js" "[]"] legal fin Inl assms(2) by simp
    then have live: "live_row k (persist_calls (mem_read lc) saveIntent env clock k n ?t s)"
      by (rule live_calls [OF assms(3) _ assms(4)])
    show ?thesis
    proof (cases "\<exists>c x. e = HandlerThrew c x")
      case False
      then have "call_outcomes r js = ?t"
        using Inl by (cases e) (simp_all add: call_outcomes_def)
      then show ?thesis
        using live Inl by (simp add: Let_def)
    next
      case True
      then obtain c x where e: "e = HandlerThrew c x"
        by blast
      let ?s = "env ?m (persist_calls (mem_read lc) saveIntent env clock k n ?t s)"
      have m: "matches c"
        using join_ok [OF follows_start assms(1)] Inl e by simp
      have ls: "live_row k ?s"
        using live_env [OF assms(4) live] .
      then obtain i where i: "store_ok ?s" "js_get ?s k = Some i" "\<not> isTerminalIntentState (intent_state i)"
        by (auto simp: live_row_def)
      have "row_in k (ended_as r) (persist_call (mem_read lc) saveIntent (clock ?m) k c (Inl x :: 'e wrap_err + bool) ?s) \<or>
          live_row k (persist_call (mem_read lc) saveIntent (clock ?m) k c (Inl x :: 'e wrap_err + bool) ?s)"
      proof (cases "\<exists>b why. c = OnBatchFailed (BatchFailed b why)")
        case True
        then obtain b why where c: "c = OnBatchFailed (BatchFailed b why)"
          by blast
        show ?thesis
          using persist_row [OF i(1,2), of lc "clock ?m" "BatchFailed b why"] i(3) Inl
          by (auto simp: c persist_call_event call_event_def row_in_def ended_as_def reduceIntentState_def)
      next
        case False
        then have "call_event c (Inl x :: 'e wrap_err + bool) = None"
          using m by (cases c rule: matches.cases) (auto simp: call_event_def)
        then show ?thesis
          using ls by (simp add: persist_call_event)
      qed
      then show ?thesis
        using Inl e by (simp add: Let_def call_outcomes_def persist_calls_append)
    qed
  qed
qed

lemma set_removePending: "set (removePendingSpends ins p) = set p - (\<lambda>v. input_outpoint (VtxoIn v)) ` set (vtxo_inputs ins)"
proof -
  have "set (fold (\<lambda>v p. filter (\<lambda>out. out \<noteq> input_outpoint (VtxoIn v)) p) vs p) = set p - (\<lambda>v. input_outpoint (VtxoIn v)) ` set vs" for vs
    by (induction vs arbitrary: p) auto
  then show ?thesis
    by (simp add: removePendingSpends_def)
qed

lemma set_addPending: "set (addPendingSpends ins p) = set p \<union> (\<lambda>v. input_outpoint (VtxoIn v)) ` set (vtxo_inputs ins)"
proof -
  have "set (fold (\<lambda>v p. js_add (input_outpoint (VtxoIn v)) p) vs p) = set p \<union> (\<lambda>v. input_outpoint (VtxoIn v)) ` set vs" for vs
    by (induction vs arbitrary: p) auto
  then show ?thesis
    by (simp add: addPendingSpends_def)
qed

section \<open>The outcome of a settlement\<close>

lemma first_snapshot:
  assumes "store_ok s" and "quiet env k" and "\<forall>i. js_get s k = Some i \<longrightarrow> \<not> isTerminalIntentState (intent_state i)"
  shows "live_row k (persistIntentSnapshot (mem_read lc) saveIntent now k WaitingToSubmit si outs id (env n s))"
proof -
  have "store_ok (env n s)" "js_get (env n s) k = js_get s k"
    using assms(1,2) by (auto simp: quiet_def)
  then show ?thesis
    by (intro row_live [OF snapshot_saved]) (use assms(3) in \<open>auto simp: isTerminalIntentState_def INTENT_TERMINAL_STATES_def\<close>)
qed

definition failed_row :: "ArkIntent \<Rightarrow> bool" where
  "failed_row i \<longleftrightarrow> intent_state i \<in> {BatchFailedState, Cancelled}"

definition done_row :: "string \<Rightarrow> ArkIntent \<Rightarrow> bool" where
  "done_row txid i \<longleftrightarrow> intent_state i = BatchSucceeded \<and> commitmentTransactionId i = Some txid"

definition outcome_row :: "('e, 'f, 's) settle_io \<Rightarrow> ('e, 'f) settle_err + string \<Rightarrow> ArkIntent \<Rightarrow> bool" where
  "outcome_row io r i \<longleftrightarrow> (case r of
      Inr txid \<Rightarrow> done_row txid i
    | Inl (AfterCommit f) \<Rightarrow> \<exists>txid. io_after io txid = Inl f \<and> done_row txid i
    | Inl e \<Rightarrow> failed_row i)"

lemma outcome_rows:
  "outcome_row io (Inr txid) = done_row txid"
  "outcome_row io (Inl (Registration e)) = failed_row"
  "outcome_row io (Inl (SessionFailed x)) = failed_row"
  by (simp_all add: outcome_row_def fun_eq_iff)

lemma row_in_mono: "row_in k P s \<Longrightarrow> (\<And>i. P i \<Longrightarrow> Q i) \<Longrightarrow> row_in k Q s"
  by (auto simp: row_in_def)

lemma after_rows:
  "row_in k (done_row txid) s \<Longrightarrow> io_after io txid = Inl f \<Longrightarrow> row_in k (outcome_row io (Inl (AfterCommit f))) s"
  by (auto simp: row_in_def outcome_row_def)

lemma failed_snapshot:
  assumes "row_in k failed_row s \<or> live_row k s" and "quiet env k"
  shows "row_in k failed_row (persistIntentSnapshot (mem_read lc) saveIntent now k Cancelled si outs
    (\<lambda>i. i\<lparr>cancellationReason := Some why\<rparr>) (env n s))"
  using assms(1)
proof
  assume "row_in k failed_row s"
  then have "row_in k failed_row (env n s)"
    by (rule row_env [OF assms(2)])
  then show ?thesis
    by (subst terminal_snapshot [of k failed_row]) (auto simp: failed_row_def isTerminalIntentState_def INTENT_TERMINAL_STATES_def)
next
  assume "live_row k s"
  then have "live_row k (env n s)"
    by (rule live_env [OF assms(2)])
  then show ?thesis
    by (intro row_in_mono [OF snapshot_ends]) (simp_all add: failed_row_def)
qed

lemma done_snapshot:
  assumes "row_in k (done_row txid) s" and "quiet env k"
  shows "row_in k (done_row txid) (persistIntentSnapshot (mem_read lc) saveIntent now k st si outs patch (env n s))"
proof -
  have "row_in k (done_row txid) (env n s)"
    using row_env assms by blast
  then show ?thesis
    by (subst terminal_snapshot [of k "done_row txid"]) (auto simp: done_row_def isTerminalIntentState_def INTENT_TERMINAL_STATES_def)
qed

lemma settle_row:
  assumes "store_ok (ss_store s0)" and quiet: "quiet (io_env io) k"
    and "\<forall>i. js_get (ss_store s0) k = Some i \<longrightarrow> \<not> isTerminalIntentState (intent_state i)"
    and hooks: "\<not> has_onBatchFailed (io_hooks io)" and pre: "io_precheck io = Inr ()"
    and run: "settle_session (mem_read lc) saveIntent io k si inputs skip s0 = Some (r, s')"
  shows "row_in k (outcome_row io r) (ss_store s') \<and>
    ss_pending s' = removePendingSpends inputs (addPendingSpends inputs (ss_pending s0))"
proof -
  let ?outs = "map input_outpoint inputs"
  let ?snap = "\<lambda>n st patch s. persistIntentSnapshot (mem_read lc) saveIntent (io_clock io n) k st si ?outs patch (io_env io n s)"
  let ?s1 = "?snap 0 WaitingToSubmit id (ss_store s0)"
  have l1: "live_row k ?s1"
    by (rule first_snapshot [OF assms(1) quiet assms(3)])
  show ?thesis
  proof (cases "safeRegisterIntent (io_register io) (io_sign_delete io) (io_delete io)")
    case (Inl e)
    then show ?thesis
      using run failed_snapshot [OF disjI2 [OF l1] quiet] by (auto simp: settle_session_def pre Let_def outcome_rows)
  next
    case (Inr serverId)
    let ?s2 = "?snap 1 WaitingForBatch (\<lambda>i. i\<lparr>intentId := Some serverId\<rparr>) ?s1"
    let ?join = "join (io_decode_tx io) (io_hex io) (wrapHandlerWithIntentPersistence (io_hooks io) (io_handler io serverId))
      (wrapped_hooks (io_hooks io)) skip (io_events io) join_start"
    have l2: "live_row k ?s2"
      using live_env [OF quiet l1] by (intro snapshot_live) (simp_all add: isTerminalIntentState_def INTENT_TERMINAL_STATES_def)
    obtain x js where join: "?join = Some (x, js)"
      using run by (cases ?join) (auto simp: settle_session_def pre Inr Let_def)
    let ?s3 = "persist_calls (mem_read lc) saveIntent (io_env io) (io_clock io) k 2 (call_outcomes x js) ?s2"
    have row: "row_in k (ended_as x) ?s3 \<or> ((\<exists>e. x = Inl e) \<and> live_row k ?s3)"
      using session_row [OF join hooks l2 quiet, of lc "io_clock io" 2] by (simp add: Let_def)
    show ?thesis
    proof (cases x)
      case (Inl e)
      then have "row_in k failed_row ?s3 \<or> live_row k ?s3"
        using row row_in_mono [of k "ended_as x" ?s3 failed_row] by (auto simp: ended_as_def failed_row_def)
      from failed_snapshot [OF this quiet] show ?thesis
        using run by (auto simp: settle_session_def pre Inr join Inl Let_def outcome_rows)
    next
      case (Inr txid)
      then have ok: "row_in k (done_row txid) ?s3"
        using row by (auto simp: ended_as_def done_row_def row_in_def)
      note run' = run [simplified settle_session_def pre join Inr Let_def \<open>safeRegisterIntent _ _ _ = _\<close> sum.simps option.simps]
      show ?thesis
      proof (cases "io_after io txid")
        case after: (Inl f)
        show ?thesis
          using run' after_rows [OF done_snapshot [OF ok quiet] after] by (auto simp: after Inr)
      next
        case after: (Inr u)
        show ?thesis
          using run' ok by (auto simp: after Inr outcome_rows)
      qed
    qed
  qed
qed

text \<open>A check that fails before the session leaves the row live, with its inputs locked: nothing has cancelled it.\<close>

lemma precheck_keeps_inputs_locked:
  assumes "store_ok (ss_store s0)" and "quiet (io_env io) k" and "js_get (ss_store s0) k = None" and "io_precheck io = Inl f"
  shows "\<exists>s'. settle_session (mem_read lc) saveIntent io k si inputs skip s0 = Some (Inl (PreCheck f), s') \<and>
    set (map input_outpoint inputs) \<subseteq> set (getLockedVtxoOutpoints (ss_store s'))"
proof -
  let ?s = "io_env io 0 (ss_store s0)"
  have s: "store_ok ?s" "js_get ?s k = None"
    using assms(1-3) by (auto simp: quiet_def)
  let ?row = "\<lambda>j. intent_state j = WaitingToSubmit \<and> intentVtxos j = map input_outpoint inputs"
  have "row_in k ?row (persistIntentSnapshot (mem_read lc) saveIntent (io_clock io 0) k WaitingToSubmit si (map input_outpoint inputs) id ?s)"
    using snapshot_saved [OF s(1), where k = k and patch = id] s(2) by (simp add: snapshot_row_def)
  then show ?thesis
    using assms(4) by (auto simp: settle_session_def Let_def row_in_def locked_outpoints isTerminalIntentState_def INTENT_TERMINAL_STATES_def
        intro!: exI [of _ k])
qed


text \<open>A settlement of one coin without a tree to sign, beside the intents of \<open>sample_store\<close>.\<close>

definition sample_settle_io :: "(string, string, intents) settle_io" where
  "sample_settle_io = \<lparr>io_env = (\<lambda>n s. s), io_clock = (\<lambda>n. 9 + int n), io_precheck = Inr (),
     io_register = (\<lambda>n. if n = 0 then Inl (ArkErr 0 ''duplicated input'') else Inr ''i''), io_sign_delete = Inr (), io_delete = Inr (),
     io_decode_tx = (\<lambda>s. None), io_hex = bytes_of_hex, io_handler = (\<lambda>i t c. Inr False), io_hooks = wallet_hooks,
     io_events = map (Pair False) [BatchStarted ''b'' [] 10, BatchFinalization ''b'' ''C'', BatchFinalized ''b'' ''tx''],
     io_after = (\<lambda>t. Inr ()), io_message = (\<lambda>e. [])\<rparr>"

lemma includes_itself: "str_includes s s"
  by (auto simp: str_includes_def intro: bexI [of _ 0])

lemma sample_settle_run:
  "\<exists>s'. settle_session (mem_read (\<lambda>a b. 0)) saveIntent sample_settle_io ''k'' \<lparr>si_registerProof = [], si_registerMessage = [],
      si_deleteProof = [], si_deleteMessage = []\<rparr> [VtxoIn (hd (vtxo_inputs (st_inputs sample_settlement)))] True
     \<lparr>ss_store = sample_store, ss_pending = []\<rparr> = Some (Inr ''tx'', s')"
  by (simp add: settle_session_def sample_settle_io_def Let_def safeRegisterIntent_def includes_itself join_step_def call_def
      optional_call_def create_tree_def join_start_def wrapped_hooks_def wrapHandlerWithIntentPersistence_def of_base_def wallet_hooks_def)


end
