(* ===== verification/Psbt.thy ===== *)
theory Psbt
  imports Vtxo_Script
begin

text \<open>
  Transactions as the signer package holds them before they are final (PSBTs), and the Arkade fields of their inputs
  (\<open>utils/unknownFields.ts\<close>). The package itself is not under \<open>src/\<close>: a transaction is a record with the fields the code sets and
  reads, \<open>getInput\<close> and \<open>updateInput\<close> throw when there is no such input and otherwise read and replace the given fields, and the
  coders of witnesses and script numbers are the arguments \<open>W\<close> and \<open>N\<close>.
\<close>

section \<open>Transactions\<close>

record psbt_key =
  key_type :: nat
  key_bytes :: bytes

type_synonym unknown_field = "psbt_key \<times> bytes"

record tap_sig =
  ts_pubKey :: bytes
  ts_leafHash :: bytes
  ts_signature :: bytes

record psbt_input =
  pi_txid :: "string option"
  pi_index :: "nat option"
  pi_sequence :: "int option"
  pi_witnessUtxo :: "(bytes \<times> int) option"
  pi_tapLeafScript :: "TapLeafScript list option"
  pi_tapScriptSig :: "tap_sig list option"
  pi_unknown :: "unknown_field list"

record psbt_output =
  po_script :: "bytes option"
  po_amount :: "int option"

record psbt =
  ps_version :: nat
  ps_lockTime :: int
  ps_inputs :: "psbt_input list"
  ps_outputs :: "psbt_output list"

definition getInput :: "psbt \<Rightarrow> nat \<Rightarrow> psbt_input option" where
  "getInput tx i = (if i < length (ps_inputs tx) then Some (ps_inputs tx ! i) else None)"

definition updateInput :: "nat \<Rightarrow> (psbt_input \<Rightarrow> psbt_input) \<Rightarrow> psbt \<Rightarrow> psbt option" where
  "updateInput i f tx = (if i < length (ps_inputs tx) then Some (tx\<lparr>ps_inputs := (ps_inputs tx)[i := f (ps_inputs tx ! i)]\<rparr>) else None)"

lemma updateInput_get:
  "updateInput i f tx = Some tx' \<Longrightarrow> getInput tx' j = (if j = i then map_option f (getInput tx j) else getInput tx j)"
  by (auto simp: updateInput_def getInput_def split: if_splits)

section \<open>The fields\<close>

datatype ArkPsbtFieldKey = VtxoTaprootTree | VtxoTreeExpiry | Cosigner | ConditionWitness | PrevArkTx | PrevoutTx

fun field_name :: "ArkPsbtFieldKey \<Rightarrow> string" where
  "field_name VtxoTaprootTree = ''taptree''"
| "field_name VtxoTreeExpiry = ''expiry''"
| "field_name Cosigner = ''cosigner''"
| "field_name ConditionWitness = ''condition''"
| "field_name PrevArkTx = ''prevarktx''"
| "field_name PrevoutTx = ''prevouttx''"

definition ArkPsbtFieldKeyType :: nat where "ArkPsbtFieldKeyType = 222"

text \<open>The names are ASCII, so their UTF-8 form is one byte per character.\<close>

definition encodedPsbtFieldKey :: "ArkPsbtFieldKey \<Rightarrow> bytes" where
  "encodedPsbtFieldKey k = map of_char (field_name k)"

definition checkKeyMatch :: "psbt_key \<Rightarrow> ArkPsbtFieldKey \<Rightarrow> bool \<Rightarrow> bool" where
  "checkKeyMatch key k prefixOnly =
     (key_type key = ArkPsbtFieldKeyType \<and>
      (let expected = encodedPsbtFieldKey k in
        length expected \<le> length (key_bytes key) \<and> (prefixOnly \<or> length (key_bytes key) = length expected) \<and>
        take (length expected) (key_bytes key) = expected))"

record witness_coder =
  rw_encode :: "bytes list \<Rightarrow> bytes"
  rw_decode :: "bytes \<Rightarrow> bytes list option"

record num_coder =
  sn_encode :: "int \<Rightarrow> bytes option"
  sn_decode :: "bytes \<Rightarrow> int option"

definition ark_field :: "ArkPsbtFieldKey \<Rightarrow> bytes \<Rightarrow> unknown_field" where
  "ark_field k v = (\<lparr>key_type = ArkPsbtFieldKeyType, key_bytes = encodedPsbtFieldKey k\<rparr>, v)"

text \<open>\<open>VtxoTaprootTree\<close>, \<open>PrevArkTxField\<close> and \<open>PrevoutTxField\<close> carry their bytes as they are.\<close>

definition bytes_field_decode :: "ArkPsbtFieldKey \<Rightarrow> unknown_field \<Rightarrow> bytes option" where
  "bytes_field_decode k u = (if checkKeyMatch (fst u) k False then Some (snd u) else None)"

definition VtxoTaprootTree_encode :: "bytes \<Rightarrow> unknown_field" where
  "VtxoTaprootTree_encode v = ark_field VtxoTaprootTree v"

definition VtxoTaprootTree_decode :: "unknown_field \<Rightarrow> bytes option" where
  "VtxoTaprootTree_decode u = bytes_field_decode VtxoTaprootTree u"

definition PrevArkTxField_encode :: "bytes \<Rightarrow> unknown_field" where
  "PrevArkTxField_encode v = ark_field PrevArkTx v"

definition PrevArkTxField_decode :: "unknown_field \<Rightarrow> bytes option" where
  "PrevArkTxField_decode u = bytes_field_decode PrevArkTx u"

definition PrevoutTxField_encode :: "bytes \<Rightarrow> unknown_field" where
  "PrevoutTxField_encode v = ark_field PrevoutTx v"

definition PrevoutTxField_decode :: "unknown_field \<Rightarrow> bytes option" where
  "PrevoutTxField_decode u = bytes_field_decode PrevoutTx u"

definition ConditionWitness_encode :: "witness_coder \<Rightarrow> bytes list \<Rightarrow> unknown_field" where
  "ConditionWitness_encode W v = ark_field ConditionWitness (rw_encode W v)"

definition ConditionWitness_decode :: "witness_coder \<Rightarrow> unknown_field \<Rightarrow> bytes list option" where
  "ConditionWitness_decode W u = (if checkKeyMatch (fst u) ConditionWitness False then rw_decode W (snd u) else None)"

text \<open>The index of a cosigner is one byte at the end of the key; \<open>Uint8Array\<close> takes it modulo 256.\<close>

definition CosignerPublicKey_encode :: "nat \<times> bytes \<Rightarrow> unknown_field" where
  "CosignerPublicKey_encode v =
     (\<lparr>key_type = ArkPsbtFieldKeyType, key_bytes = encodedPsbtFieldKey Cosigner @ [of_nat (fst v)]\<rparr>, snd v)"

definition CosignerPublicKey_decode :: "unknown_field \<Rightarrow> (nat \<times> bytes) option" where
  "CosignerPublicKey_decode u =
     (if checkKeyMatch (fst u) Cosigner True then Some (unat (last (key_bytes (fst u))), snd u) else None)"

definition VtxoTreeExpiry_encode :: "num_coder \<Rightarrow> RelativeTimelock \<Rightarrow> unknown_field option" where
  "VtxoTreeExpiry_encode N v = map_option (ark_field VtxoTreeExpiry) (sn_encode N (tl_value v))"

definition VtxoTreeExpiry_decode :: "script_lib \<Rightarrow> num_coder \<Rightarrow> unknown_field \<Rightarrow> RelativeTimelock option" where
  "VtxoTreeExpiry_decode L N u =
     (if checkKeyMatch (fst u) VtxoTreeExpiry False
      then (case sn_decode N (snd u) of
          None \<Rightarrow> None
        | Some v \<Rightarrow> if v = 0 then None else (case sequenceToTimelock L v of Inr t \<Rightarrow> Some t | Inl _ \<Rightarrow> None))
      else None)"

definition setArkPsbtField :: "psbt \<Rightarrow> nat \<Rightarrow> ('a \<Rightarrow> unknown_field) \<Rightarrow> 'a \<Rightarrow> psbt option" where
  "setArkPsbtField tx inputIndex encode v =
     (case getInput tx inputIndex of
        None \<Rightarrow> None
      | Some inp \<Rightarrow> updateInput inputIndex (\<lambda>i. i\<lparr>pi_unknown := pi_unknown inp @ [encode v]\<rparr>) tx)"

definition getArkPsbtFields :: "psbt \<Rightarrow> nat \<Rightarrow> (unknown_field \<Rightarrow> 'a option) \<Rightarrow> 'a list option" where
  "getArkPsbtFields tx inputIndex decode = map_option (\<lambda>inp. List.map_filter decode (pi_unknown inp)) (getInput tx inputIndex)"

section \<open>Reading back what was set\<close>

datatype field_value =
    TapTreeValue bytes | PrevArkValue bytes | PrevoutValue bytes | ConditionValue "bytes list" | CosignerValue nat bytes
  | ExpiryValue RelativeTimelock

fun value_key :: "field_value \<Rightarrow> ArkPsbtFieldKey" where
  "value_key (TapTreeValue _) = VtxoTaprootTree"
| "value_key (PrevArkValue _) = PrevArkTx"
| "value_key (PrevoutValue _) = PrevoutTx"
| "value_key (ConditionValue _) = ConditionWitness"
| "value_key (CosignerValue _ _) = Cosigner"
| "value_key (ExpiryValue _) = VtxoTreeExpiry"

fun encode_value :: "num_coder \<Rightarrow> witness_coder \<Rightarrow> field_value \<Rightarrow> unknown_field option" where
  "encode_value N W (TapTreeValue b) = Some (VtxoTaprootTree_encode b)"
| "encode_value N W (PrevArkValue b) = Some (PrevArkTxField_encode b)"
| "encode_value N W (PrevoutValue b) = Some (PrevoutTxField_encode b)"
| "encode_value N W (ConditionValue w) = Some (ConditionWitness_encode W w)"
| "encode_value N W (CosignerValue n b) = Some (CosignerPublicKey_encode (n, b))"
| "encode_value N W (ExpiryValue t) = VtxoTreeExpiry_encode N t"

fun decode_value :: "script_lib \<Rightarrow> num_coder \<Rightarrow> witness_coder \<Rightarrow> ArkPsbtFieldKey \<Rightarrow> unknown_field \<Rightarrow> field_value option" where
  "decode_value L N W VtxoTaprootTree u = map_option TapTreeValue (VtxoTaprootTree_decode u)"
| "decode_value L N W PrevArkTx u = map_option PrevArkValue (PrevArkTxField_decode u)"
| "decode_value L N W PrevoutTx u = map_option PrevoutValue (PrevoutTxField_decode u)"
| "decode_value L N W ConditionWitness u = map_option ConditionValue (ConditionWitness_decode W u)"
| "decode_value L N W Cosigner u = map_option (case_prod CosignerValue) (CosignerPublicKey_decode u)"
| "decode_value L N W VtxoTreeExpiry u = map_option ExpiryValue (VtxoTreeExpiry_decode L N u)"

text \<open>
  What a value reads back as. A cosigner's index is kept modulo 256. An expiry is written as its bare value and read as a BIP-68 sequence,
  so it comes back as whatever timelock that number encodes.
\<close>

fun read_back :: "script_lib \<Rightarrow> field_value \<Rightarrow> field_value list" where
  "read_back L (CosignerValue n b) = [CosignerValue (n mod 256) b]"
| "read_back L (ExpiryValue t) =
     (if tl_value t = 0 then []
      else case sequenceToTimelock L (tl_value t) of Inr u \<Rightarrow> [ExpiryValue u] | Inl _ \<Rightarrow> [])"
| "read_back L v = [v]"

definition coder_laws :: "num_coder \<Rightarrow> witness_coder \<Rightarrow> bool" where
  "coder_laws N W \<longleftrightarrow> (\<forall>w. rw_decode W (rw_encode W w) = Some w) \<and> (\<forall>n b. sn_encode N n = Some b \<longrightarrow> sn_decode N b = Some n)"

lemma match_other:
  "k \<noteq> k' \<Longrightarrow> \<not> checkKeyMatch \<lparr>key_type = ArkPsbtFieldKeyType, key_bytes = encodedPsbtFieldKey k'\<rparr> k p"
  by (cases k; cases k') (simp_all add: checkKeyMatch_def encodedPsbtFieldKey_def)

lemma match_own: "checkKeyMatch \<lparr>key_type = ArkPsbtFieldKeyType, key_bytes = encodedPsbtFieldKey k @ suf\<rparr> k p \<longleftrightarrow> p \<or> suf = []"
  by (simp add: checkKeyMatch_def Let_def)

lemma match_cosigner:
  "k \<noteq> Cosigner \<Longrightarrow> \<not> checkKeyMatch \<lparr>key_type = ArkPsbtFieldKeyType, key_bytes = encodedPsbtFieldKey Cosigner @ [x]\<rparr> k p"
  by (cases k) (simp_all add: checkKeyMatch_def encodedPsbtFieldKey_def)

lemmas field_matches = match_other match_own match_own [where suf = "[]", simplified] match_cosigner

lemmas field_coders = VtxoTaprootTree_decode_def PrevArkTxField_decode_def PrevoutTxField_decode_def bytes_field_decode_def
  ConditionWitness_decode_def CosignerPublicKey_decode_def VtxoTreeExpiry_decode_def VtxoTaprootTree_encode_def
  PrevArkTxField_encode_def PrevoutTxField_encode_def ConditionWitness_encode_def CosignerPublicKey_encode_def
  VtxoTreeExpiry_encode_def ark_field_def

lemma decode_encoded:
  assumes "coder_laws N W" and "encode_value N W v = Some u"
  shows "decode_value L N W k u = (if k = value_key v then (case read_back L v of [] \<Rightarrow> None | x # _ \<Rightarrow> Some x) else None)"
proof (cases "k = value_key v")
  case True
  then show ?thesis
    using assms by (cases v) (auto simp: coder_laws_def field_coders field_matches unat_of_nat split: sum.splits)
next
  case False
  then show ?thesis
    using assms(2) by (cases v; cases k) (auto simp: field_coders field_matches)
qed

lemma read_back_at_most_one: "read_back L v = (case read_back L v of [] \<Rightarrow> [] | x # _ \<Rightarrow> [x])"
  by (cases v) (auto split: sum.splits)


text \<open>Coders with these laws: a number in one byte, and witness items whose bytes are escaped.\<close>

definition byte_num :: num_coder where
  "byte_num = \<lparr>sn_encode = (\<lambda>n. if 0 \<le> n \<and> n < 256 then Some [word_of_int n] else None),
     sn_decode = (\<lambda>b. case b of [x] \<Rightarrow> Some (uint x) | _ \<Rightarrow> None)\<rparr>"

fun escape_items :: "bytes list \<Rightarrow> bytes" where
  "escape_items [] = []"
| "escape_items (item # items) = concat (map (\<lambda>b. [1, b]) item) @ 0 # escape_items items"

fun unescape_items :: "bytes \<Rightarrow> bytes \<Rightarrow> bytes list option" where
  "unescape_items item [] = (if item = [] then Some [] else None)"
| "unescape_items item [x] = (if x = 0 then Some [item] else None)"
| "unescape_items item (x # b # bs) =
     (if x = 0 then map_option ((#) item) (unescape_items [] (b # bs)) else unescape_items (item @ [b]) bs)"

lemma unescape_end: "unescape_items item (0 # bs) = map_option ((#) item) (unescape_items [] bs)"
  by (cases bs) simp_all

lemma unescape_item: "unescape_items pre (concat (map (\<lambda>b. [1, b]) item) @ 0 # bs) = map_option ((#) (pre @ item)) (unescape_items [] bs)"
  by (induction item arbitrary: pre) (simp_all add: unescape_end)

definition escaped :: witness_coder where
  "escaped = \<lparr>rw_encode = escape_items, rw_decode = unescape_items []\<rparr>"

lemma sample_coders: "coder_laws byte_num escaped"
proof -
  have "unescape_items [] (escape_items w) = Some w" for w
    by (induction w) (simp_all add: unescape_item)
  then show ?thesis
    by (auto simp: coder_laws_def byte_num_def escaped_def uint_word_of_int split: if_splits)
qed

definition sample_input :: psbt_input where
  "sample_input = \<lparr>pi_txid = Some ''t'', pi_index = Some 0, pi_sequence = None, pi_witnessUtxo = None, pi_tapLeafScript = None,
     pi_tapScriptSig = None, pi_unknown = [ark_field VtxoTaprootTree [7]]\<rparr>"


end
