(* ===== verification/Offchain_Tx.thy ===== *)
theory Offchain_Tx
  imports Psbt Batch_Handler
begin

text \<open>
  Offchain transactions (\<open>utils/arkTransaction.ts\<close>): how the virtual transaction and its checkpoints are built, what is checked of a
  server's answer and of the signatures it carries, and the exchange that submits, signs and finalizes them.

  The transaction id, the coders of transactions, \<open>tapLeafHash\<close>, the message of a signature and its verification are third-party code, the
  fields of \<open>offchain_lib\<close>; \<open>ol_accepts\<close> says whether the package lets the inputs and outputs be added. The signer and the server are the
  fields of \<open>submit_io\<close>, and every call to them is logged in order.
\<close>

record offchain_lib =
  ol_script :: script_lib
  ol_hex :: hex_encode
  ol_sdec :: script_decode
  ol_leafVersion :: nat
  ol_p2tr :: p2tr_fun
  ol_coder :: taptree_coder
  ol_txid :: "psbt \<Rightarrow> string"
  ol_accepts :: "psbt \<Rightarrow> bool"
  ol_toPSBT :: "psbt \<Rightarrow> string"
  ol_fromPSBT :: "string \<Rightarrow> psbt option"
  ol_tapLeafHash :: "bytes \<Rightarrow> byte option \<Rightarrow> bytes"
  ol_preimage :: "psbt \<Rightarrow> nat \<Rightarrow> bytes list \<Rightarrow> nat \<Rightarrow> int list \<Rightarrow> bytes \<Rightarrow> byte \<Rightarrow> bytes option"
  ol_verify :: "bytes \<Rightarrow> bytes \<Rightarrow> bytes \<Rightarrow> bool"

record ArkTxInput =
  ai_txid :: string
  ai_vout :: nat
  ai_value :: int
  ai_leaf :: TapLeafScript
  ai_tapTree :: bytes

record OffchainTx =
  arkTx :: psbt
  checkpoints :: "psbt list"

datatype sig_err =
    NoSuchInputIndex nat | MissingWitnessUtxo nat | MissingTapScriptSig nat | WrongLeaf nat string | UnallowedSighash nat
  | NoTapLeafScript | NoMatchingLeaf nat | PreimageThrew | InvalidSignature nat string | MissingSigners "string list"

datatype offchain_err =
    MissingOutputScript nat | UndecodableScript | MultipleExtensionOutputs | TooManyOpReturns nat
  | TapscriptErr tap_err | ScriptErr vscript_err | MixedLocktimes | RefusedByLibrary
  | CheckpointCount nat nat | UndecodablePsbt | UnknownCheckpoint nat string | WrongArkTxid string | WrongFinalArkTx string
  | NoSpendLeaf nat | NotSignedByServer nat sig_err | NoFinalArkTx | BadServerKey
  | CombineCount nat nat | NoOriginalSig nat | NoSignedSig nat | SignerCount nat nat
  | CheckpointInputs nat | NoInputOutpoint nat | UnknownOutpoint nat | NotRebuilt nat

definition of_tap :: "tap_err + 'a \<Rightarrow> offchain_err + 'a" where
  "of_tap r = (case r of Inl e \<Rightarrow> Inl (TapscriptErr e) | Inr x \<Rightarrow> Inr x)"

definition of_script :: "vscript_err + 'a \<Rightarrow> offchain_err + 'a" where
  "of_script r = (case r of Inl e \<Rightarrow> Inl (ScriptErr e) | Inr x \<Rightarrow> Inr x)"

lemma of_tap_Inr [simp]: "of_tap r = Inr x \<longleftrightarrow> r = Inr x"
  by (simp add: of_tap_def split: sum.splits)

lemma of_script_Inr [simp]: "of_script r = Inr x \<longleftrightarrow> r = Inr x"
  by (simp add: of_script_def split: sum.splits)

section \<open>Building\<close>

definition nLocktimeMinSeconds :: int where "nLocktimeMinSeconds = 500000000"

definition isSeconds :: "int \<Rightarrow> bool" where
  "isSeconds locktime \<longleftrightarrow> nLocktimeMinSeconds \<le> locktime"

fun lock_loop :: "script_lib \<Rightarrow> int \<Rightarrow> ArkTxInput list \<Rightarrow> offchain_err + int" where
  "lock_loop L lockTime [] = Inr lockTime"
| "lock_loop L lockTime (i # ins) =
     r_bind (of_tap (decodeTapscript L (scriptFromTapLeafScript (ai_leaf i)))) (\<lambda>tapscript.
       case tap_params tapscript of
         CLTVMultisig absoluteTimelock _ \<Rightarrow>
           if lockTime \<noteq> 0 \<and> isSeconds lockTime \<noteq> isSeconds absoluteTimelock then Inl MixedLocktimes
           else lock_loop L (if absoluteTimelock > lockTime then absoluteTimelock else lockTime) ins
       | _ \<Rightarrow> lock_loop L lockTime ins)"

definition DEFAULT_SEQUENCE :: int where "DEFAULT_SEQUENCE = 4294967295"

definition P2A_output :: psbt_output where
  "P2A_output = \<lparr>po_script = Some (fst P2A), po_amount = Some (snd P2A)\<rparr>"

definition virtual_input :: "offchain_lib \<Rightarrow> int \<Rightarrow> ArkTxInput \<Rightarrow> offchain_err + psbt_input" where
  "virtual_input E lockTime i =
     r_bind (of_script (VtxoScript_decode (ol_leafVersion E) (ol_p2tr E) (ol_coder E) (ai_tapTree i))) (\<lambda>v.
     Inr \<lparr>pi_txid = Some (ai_txid i), pi_index = Some (ai_vout i),
       pi_sequence = (if lockTime \<noteq> 0 then Some (DEFAULT_SEQUENCE - 1) else None),
       pi_witnessUtxo = Some (vs_pkScript v, ai_value i), pi_tapLeafScript = Some [ai_leaf i], pi_tapScriptSig = None,
       pi_unknown = [VtxoTaprootTree_encode (ai_tapTree i)]\<rparr>)"

definition buildVirtualTx :: "offchain_lib \<Rightarrow> ArkTxInput list \<Rightarrow> psbt_output list \<Rightarrow> offchain_err + psbt" where
  "buildVirtualTx E ins outs =
     r_bind (lock_loop (ol_script E) 0 ins) (\<lambda>lockTime.
     r_bind (r_map (virtual_input E lockTime) ins) (\<lambda>pis.
       let tx = \<lparr>ps_version = 3, ps_lockTime = lockTime, ps_inputs = pis, ps_outputs = outs @ [P2A_output]\<rparr>
       in r_bind (r_require (ol_accepts E tx) RefusedByLibrary) (\<lambda>_. Inr tx)))"

definition buildCheckpointTx :: "offchain_lib \<Rightarrow> ArkTxInput \<Rightarrow> ArkTapscript \<Rightarrow> offchain_err + (psbt \<times> ArkTxInput)" where
  "buildCheckpointTx E vtxo serverUnrollScript =
     r_bind (of_tap (decodeTapscript (ol_script E) (scriptFromTapLeafScript (ai_leaf vtxo)))) (\<lambda>collaborativeClosure.
     r_bind (of_script (VtxoScript_new (ol_leafVersion E) (ol_p2tr E)
         [tap_script serverUnrollScript, tap_script collaborativeClosure])) (\<lambda>checkpointVtxoScript.
     r_bind (buildVirtualTx E [vtxo] [\<lparr>po_script = Some (vs_pkScript checkpointVtxoScript), po_amount = Some (ai_value vtxo)\<rparr>])
       (\<lambda>checkpointTx.
     r_bind (of_script (findLeaf (ol_hex E) checkpointVtxoScript (ol_hex E (tap_script collaborativeClosure)))) (\<lambda>proof_leaf.
     Inr (checkpointTx, \<lparr>ai_txid = ol_txid E checkpointTx, ai_vout = 0, ai_value = ai_value vtxo, ai_leaf = proof_leaf,
       ai_tapTree = VtxoScript_encode (ol_leafVersion E) (ol_coder E) checkpointVtxoScript\<rparr>)))))"

text \<open>The walk over the outputs: how many \<open>OP_RETURN\<close>s there are, and that at most one of them is an extension.\<close>

fun output_check :: "script_decode \<Rightarrow> nat \<Rightarrow> nat \<Rightarrow> bool \<Rightarrow> psbt_output list \<Rightarrow> offchain_err + nat" where
  "output_check sdec index countOpReturn hasExtensionOutput [] = Inr countOpReturn"
| "output_check sdec index countOpReturn hasExtensionOutput (out # outs) =
     (case po_script out of
        None \<Rightarrow> Inl (MissingOutputScript index)
      | Some script \<Rightarrow>
          (let ext = isExtension sdec script in
           r_bind (if ext then Inr True
                   else case sdec script of
                     None \<Rightarrow> Inl UndecodableScript
                   | Some ops \<Rightarrow> Inr (ops \<noteq> [] \<and> hd ops = OpName ''RETURN'')) (\<lambda>isOpReturn.
             if ext \<and> hasExtensionOutput then Inl MultipleExtensionOutputs
             else output_check sdec (Suc index) (if isOpReturn then Suc countOpReturn else countOpReturn)
                    (hasExtensionOutput \<or> ext) outs)))"

definition MAX_OP_RETURN :: nat where "MAX_OP_RETURN = 2"

definition buildOffchainTx :: "offchain_lib \<Rightarrow> ArkTxInput list \<Rightarrow> psbt_output list \<Rightarrow> ArkTapscript \<Rightarrow> offchain_err + OffchainTx" where
  "buildOffchainTx E ins outs serverUnrollScript =
     r_bind (output_check (ol_sdec E) 0 0 False outs) (\<lambda>countOpReturn.
     r_bind (r_require (countOpReturn \<le> MAX_OP_RETURN) (TooManyOpReturns countOpReturn)) (\<lambda>_.
     r_bind (r_map (\<lambda>i. buildCheckpointTx E i serverUnrollScript) ins) (\<lambda>cps.
     r_bind (buildVirtualTx E (map snd cps) outs) (\<lambda>tx.
     Inr \<lparr>arkTx = tx, checkpoints = map fst cps\<rparr>))))"

text \<open>\<open>status.block_height\<close> is the argument \<open>blockHeight\<close>; a missing time or height reads as a zero one.\<close>

definition hasBoardingTxExpired :: "Status \<Rightarrow> int option \<Rightarrow> RelativeTimelock \<Rightarrow> int option \<Rightarrow> int \<Rightarrow> bool" where
  "hasBoardingTxExpired status blockHeight boardingTimelock chainTipHeight nowSeconds =
     (let blockTime = or_default (block_time status) 0 in
      if blockTime = 0 then False
      else if tl_value boardingTimelock = 0 then True
      else if tl_type boardingTimelock = InBlocks
      then (case chainTipHeight of
          None \<Rightarrow> False
        | Some tip \<Rightarrow> or_default blockHeight 0 \<noteq> 0 \<and> tl_value boardingTimelock \<le> tip - or_default blockHeight 0)
      else blockTime + tl_value boardingTimelock \<le> nowSeconds)"

section \<open>Signatures\<close>

definition leaf_version :: "TapLeafScript \<Rightarrow> byte option" where
  "leaf_version l = (if leaf_bytes l = [] then None else Some (last (leaf_bytes l)))"

definition signature_sighash :: "bytes \<Rightarrow> nat" where
  "signature_sighash sigBytes = (if length sigBytes = 65 then unat (sigBytes ! 64) else 0)"

text \<open>One signature: \<open>None\<close> is one that is skipped.\<close>

definition verify_one ::
  "offchain_lib \<Rightarrow> psbt \<Rightarrow> nat \<Rightarrow> psbt_input \<Rightarrow> bytes list \<Rightarrow> int list \<Rightarrow> string list \<Rightarrow> nat list \<Rightarrow> string option \<Rightarrow> tap_sig \<Rightarrow> sig_err + unit" where
  "verify_one E tx inputIndex inp prevoutScripts prevoutAmounts excludePubkeys allowedSighashTypes expectedLeafHashHex s =
     (let pubKeyHex = ol_hex E (ts_pubKey s); leafHashHex = ol_hex E (ts_leafHash s);
          sighashType = signature_sighash (ts_signature s) in
      if pubKeyHex \<in> set excludePubkeys then Inr ()
      else if (case expectedLeafHashHex of Some h \<Rightarrow> leafHashHex \<noteq> h | None \<Rightarrow> False) then Inl (WrongLeaf inputIndex pubKeyHex)
      else if sighashType \<notin> set allowedSighashTypes then Inl (UnallowedSighash sighashType)
      else if pi_tapLeafScript inp = None \<or> pi_tapLeafScript inp = Some [] then Inl NoTapLeafScript
      else (case List.find (\<lambda>l. ol_hex E (ol_tapLeafHash E (scriptFromTapLeafScript l) (leaf_version l)) = leafHashHex)
                   (or_default (pi_tapLeafScript inp) []) of
          None \<Rightarrow> Inl (NoMatchingLeaf inputIndex)
        | Some l \<Rightarrow>
            (case leaf_version l of
               None \<Rightarrow> Inl (NoMatchingLeaf inputIndex)
             | Some v \<Rightarrow>
                 (case ol_preimage E tx inputIndex prevoutScripts sighashType prevoutAmounts (scriptFromTapLeafScript l) v of
                    None \<Rightarrow> Inl PreimageThrew
                  | Some message \<Rightarrow>
                      r_require (ol_verify E (take 64 (ts_signature s)) message (ts_pubKey s)) (InvalidSignature inputIndex pubKeyHex)))))"

definition prevout :: "nat \<times> psbt_input \<Rightarrow> sig_err + (bytes \<times> int)" where
  "prevout x = (case pi_witnessUtxo (snd x) of None \<Rightarrow> Inl (MissingWitnessUtxo (fst x)) | Some u \<Rightarrow> Inr u)"

definition verifyTapscriptSignatures ::
  "offchain_lib \<Rightarrow> psbt \<Rightarrow> nat \<Rightarrow> string list \<Rightarrow> string list \<Rightarrow> nat list \<Rightarrow> bytes option \<Rightarrow> sig_err + unit" where
  "verifyTapscriptSignatures E tx inputIndex requiredSigners excludePubkeys allowedSighashTypes expectedLeafHash =
     (case getInput tx inputIndex of
        None \<Rightarrow> Inl (NoSuchInputIndex inputIndex)
      | Some inp \<Rightarrow>
          r_bind (r_map prevout (enumerate 0 (ps_inputs tx))) (\<lambda>prevouts.
          let sigs = or_default (pi_tapScriptSig inp) [] in
          r_bind (r_require (sigs \<noteq> []) (MissingTapScriptSig inputIndex)) (\<lambda>_.
          r_bind (r_each (verify_one E tx inputIndex inp (map fst prevouts) (map snd prevouts) excludePubkeys allowedSighashTypes
              (map_option (ol_hex E) expectedLeafHash)) sigs) (\<lambda>_.
          let signedPubkeys = map (\<lambda>s. ol_hex E (ts_pubKey s)) sigs;
              requiredNotExcluded = filter (\<lambda>pk. pk \<notin> set excludePubkeys) requiredSigners;
              missingSigners = filter (\<lambda>pk. pk \<notin> set signedPubkeys) requiredNotExcluded
          in r_require (missingSigners = []) (MissingSigners missingSigners)))))"

fun combine_loop :: "nat \<Rightarrow> psbt_input list \<Rightarrow> psbt_input list \<Rightarrow> offchain_err + psbt_input list" where
  "combine_loop i (s # ss) (inp # ins) =
     (case pi_tapScriptSig inp of
        None \<Rightarrow> Inl (NoOriginalSig i)
      | Some own \<Rightarrow>
          (case pi_tapScriptSig s of
             None \<Rightarrow> Inl (NoSignedSig i)
           | Some theirs \<Rightarrow>
               r_bind (combine_loop (Suc i) ss ins) (\<lambda>rs. Inr (inp\<lparr>pi_tapScriptSig := Some (own @ theirs)\<rparr> # rs))))"
| "combine_loop i _ ins = Inr ins"

definition combineTapscriptSigs :: "psbt \<Rightarrow> psbt \<Rightarrow> offchain_err + psbt" where
  "combineTapscriptSigs signedTx originalTx =
     (if length (ps_inputs signedTx) \<noteq> length (ps_inputs originalTx)
      then Inl (CombineCount (length (ps_inputs signedTx)) (length (ps_inputs originalTx)))
      else r_bind (combine_loop 0 (ps_inputs signedTx) (ps_inputs originalTx)) (\<lambda>ins. Inr (originalTx\<lparr>ps_inputs := ins\<rparr>)))"

definition isValidArkAddress :: "(string \<Rightarrow> (string \<times> bytes) option) \<Rightarrow> string \<Rightarrow> bool" where
  "isValidArkAddress b32dec address = (case ArkAddress_decode b32dec address of Inr _ \<Rightarrow> True | Inl _ \<Rightarrow> False)"

section \<open>The server's answer\<close>

fun match_loop :: "offchain_lib \<Rightarrow> nat \<Rightarrow> (string \<times> psbt) list \<Rightarrow> string list \<Rightarrow> offchain_err + (psbt \<times> psbt) list" where
  "match_loop E index byTxid [] = Inr []"
| "match_loop E index byTxid (encoded # es) =
     (case ol_fromPSBT E encoded of
        None \<Rightarrow> Inl UndecodablePsbt
      | Some server \<Rightarrow>
          (case js_get byTxid (ol_txid E server) of
             None \<Rightarrow> Inl (UnknownCheckpoint index (ol_txid E server))
           | Some local \<Rightarrow>
               r_bind (match_loop E (Suc index) (js_delete (ol_txid E server) byTxid) es) (\<lambda>ps. Inr ((server, local) # ps))))"

definition matchServerCheckpoints :: "offchain_lib \<Rightarrow> string list \<Rightarrow> psbt list \<Rightarrow> offchain_err + (psbt \<times> psbt) list" where
  "matchServerCheckpoints E serverCheckpointTxs expectedCheckpoints =
     (if length serverCheckpointTxs \<noteq> length expectedCheckpoints
      then Inl (CheckpointCount (length serverCheckpointTxs) (length expectedCheckpoints))
      else match_loop E 0 (fold (\<lambda>c m. js_set (ol_txid E c) c m) expectedCheckpoints []) serverCheckpointTxs)"

record submit_response =
  sr_arkTxid :: string
  sr_finalArkTx :: "string option"
  sr_signedCheckpointTxs :: "string list"

definition assertSubmittedArkTxid :: "offchain_lib \<Rightarrow> submit_response \<Rightarrow> psbt \<Rightarrow> offchain_err + unit" where
  "assertSubmittedArkTxid E response signedArkTx =
     (if sr_arkTxid response \<noteq> ol_txid E signedArkTx then Inl (WrongArkTxid (sr_arkTxid response))
      else case sr_finalArkTx response of
        None \<Rightarrow> Inr ()
      | Some f \<Rightarrow>
          (case ol_fromPSBT E f of
             None \<Rightarrow> Inl UndecodablePsbt
           | Some tx \<Rightarrow> r_require (ol_txid E tx = ol_txid E signedArkTx) (WrongFinalArkTx (ol_txid E tx))))"

definition assertServerSignedLeaf :: "offchain_lib \<Rightarrow> psbt \<Rightarrow> psbt \<Rightarrow> nat \<Rightarrow> string \<Rightarrow> offchain_err + unit" where
  "assertServerSignedLeaf E serverTx localTx inputIndex serverPubkeyHex =
     (case Option.bind (getInput localTx inputIndex) pi_tapLeafScript of
        Some (leaf # _) \<Rightarrow>
          (case verifyTapscriptSignatures E serverTx inputIndex [serverPubkeyHex] [] [0]
                  (Some (ol_tapLeafHash E (scriptFromTapLeafScript leaf) None)) of
             Inl e \<Rightarrow> Inl (NotSignedByServer inputIndex e)
           | Inr _ \<Rightarrow> Inr ())
      | _ \<Rightarrow> Inl (NoSpendLeaf inputIndex))"

fun rebuilt_as :: "offchain_lib \<Rightarrow> ArkTxInput \<Rightarrow> psbt \<Rightarrow> ArkTapscript list \<Rightarrow> offchain_err + bool" where
  "rebuilt_as E inp checkpoint [] = Inr False"
| "rebuilt_as E inp checkpoint (unroll # us) =
     r_bind (buildCheckpointTx E inp unroll) (\<lambda>(tx, _).
       if ol_txid E tx = ol_txid E checkpoint then Inr True else rebuilt_as E inp checkpoint us)"

definition check_checkpoint ::
  "offchain_lib \<Rightarrow> ((string \<times> nat) \<times> ArkTxInput) list \<Rightarrow> ArkTapscript list \<Rightarrow> nat \<times> psbt \<Rightarrow> offchain_err + unit" where
  "check_checkpoint E byOutpoint unrollCandidates x =
     (case ps_inputs (snd x) of
        [spent] \<Rightarrow>
          (case (pi_txid spent, pi_index spent) of
             (Some txid, Some index) \<Rightarrow>
               (case js_get byOutpoint (txid, index) of
                  None \<Rightarrow> Inl (UnknownOutpoint (fst x))
                | Some inp \<Rightarrow> r_bind (rebuilt_as E inp (snd x) unrollCandidates) (\<lambda>rebuilt. r_require rebuilt (NotRebuilt (fst x))))
           | _ \<Rightarrow> Inl (NoInputOutpoint (fst x)))
      | _ \<Rightarrow> Inl (CheckpointInputs (fst x)))"

definition assertCheckpointsMatchInputs ::
  "offchain_lib \<Rightarrow> psbt list \<Rightarrow> ArkTxInput list \<Rightarrow> ArkTapscript list \<Rightarrow> offchain_err + unit" where
  "assertCheckpointsMatchInputs E cps ins unrollCandidates =
     r_each (check_checkpoint E (fold (\<lambda>i m. js_set (ai_txid i, ai_vout i) i m) ins []) unrollCandidates) (enumerate 0 cps)"

section \<open>Submitting\<close>

datatype offchain_call =
    SignArk psbt "psbt list" | SubmitTx string "string list" | SignCheckpoint psbt | FinalizeTx string "string list"

datatype 'x submit_err = Refused offchain_err | Outside 'x

record 'x submit_io =
  sp_signArkTx :: "psbt \<Rightarrow> psbt list \<Rightarrow> 'x + (psbt \<times> psbt list option)"
  sp_beforeSubmit :: "'x + unit"
  sp_submitTx :: "string \<Rightarrow> string list \<Rightarrow> 'x + submit_response"
  sp_signCheckpoint :: "nat \<Rightarrow> psbt \<Rightarrow> 'x + psbt"
  sp_finalizeTx :: "string \<Rightarrow> string list \<Rightarrow> 'x + unit"
  sp_afterFinalize :: "'x + unit"

text \<open>A computation with the calls it has made so far: a call to the outside, a hook that is not logged, and a check.\<close>

type_synonym ('x, 'a) exchange = "('x submit_err + 'a) \<times> offchain_call list"

definition asks :: "offchain_call \<Rightarrow> 'x + 'a \<Rightarrow> ('a \<Rightarrow> ('x, 'b) exchange) \<Rightarrow> ('x, 'b) exchange" where
  "asks c r k = (case r of Inl e \<Rightarrow> (Inl (Outside e), [c]) | Inr x \<Rightarrow> (fst (k x), c # snd (k x)))"

definition hook :: "'x + unit \<Rightarrow> ('x, 'b) exchange \<Rightarrow> ('x, 'b) exchange" where
  "hook r k = (case r of Inl e \<Rightarrow> (Inl (Outside e), []) | Inr _ \<Rightarrow> k)"

definition checks :: "offchain_err + 'a \<Rightarrow> ('a \<Rightarrow> ('x, 'b) exchange) \<Rightarrow> ('x, 'b) exchange" where
  "checks r k = (case r of Inl e \<Rightarrow> (Inl (Refused e), []) | Inr x \<Rightarrow> k x)"

text \<open>\<open>verifyServerSignatures\<close>: the key of the server, when the check is asked for.\<close>

definition verify_response ::
  "offchain_lib \<Rightarrow> bytes option \<Rightarrow> OffchainTx \<Rightarrow> submit_response \<Rightarrow> (psbt \<times> psbt) list \<Rightarrow> offchain_err + unit" where
  "verify_response E verify off response matched =
     (case verify of
        None \<Rightarrow> Inr ()
      | Some serverPubkey \<Rightarrow>
          (case sr_finalArkTx response of
             None \<Rightarrow> Inl NoFinalArkTx
           | Some f \<Rightarrow>
               (case ol_fromPSBT E f of
                  None \<Rightarrow> Inl UndecodablePsbt
                | Some finalArkTx \<Rightarrow>
                    (case toXOnly serverPubkey of
                       None \<Rightarrow> Inl BadServerKey
                     | Some key \<Rightarrow>
                         r_bind (r_each (\<lambda>i. assertServerSignedLeaf E finalArkTx (arkTx off) i (ol_hex E key))
                             [0..<length (ps_inputs (arkTx off))]) (\<lambda>_.
                         r_each (\<lambda>(server, local). assertServerSignedLeaf E server local 0 (ol_hex E key)) matched)))))"

text \<open>The checkpoints the user signed are looked up by the id of the local one they stand for.\<close>

definition merge_user_sigs :: "offchain_lib \<Rightarrow> psbt list \<Rightarrow> psbt list \<Rightarrow> (psbt \<times> psbt) list \<Rightarrow> offchain_err + string list" where
  "merge_user_sigs E cps userSignedCheckpoints matched =
     (let userByTxid = fold (\<lambda>(l, c) m. js_set (ol_txid E l) c m) (zip cps userSignedCheckpoints) [] in
      r_map (\<lambda>(server, local).
        r_bind (combineTapscriptSigs (the (js_get userByTxid (ol_txid E local))) server) (\<lambda>s. Inr (ol_toPSBT E s))) matched)"

text \<open>Every server checkpoint is handed to the signer before the answers are awaited.\<close>

definition sign_checkpoints :: "offchain_lib \<Rightarrow> 'x submit_io \<Rightarrow> (psbt \<times> psbt) list \<Rightarrow> ('x, string list) exchange" where
  "sign_checkpoints E io matched =
     ((case r_map (\<lambda>(i, server, local). sp_signCheckpoint io i server) (enumerate 0 matched) of
         Inl e \<Rightarrow> Inl (Outside e)
       | Inr ss \<Rightarrow> Inr (map (ol_toPSBT E) ss)),
      map (SignCheckpoint \<circ> fst) matched)"

definition after_exchange :: "('x, 'a) exchange \<Rightarrow> ('a \<Rightarrow> ('x, 'b) exchange) \<Rightarrow> ('x, 'b) exchange" where
  "after_exchange m k =
     (case fst m of Inl e \<Rightarrow> (Inl e, snd m) | Inr x \<Rightarrow> (fst (k x), snd m @ snd (k x)))"

definition submitOffchainTx ::
  "offchain_lib \<Rightarrow> 'x submit_io \<Rightarrow> OffchainTx \<Rightarrow> bytes option \<Rightarrow> ('x, string \<times> string list) exchange" where
  "submitOffchainTx E io off verify =
     asks (SignArk (arkTx off) (checkpoints off)) (sp_signArkTx io (arkTx off) (checkpoints off)) (\<lambda>(signedArkTx, user).
     checks (case user of
         Some us \<Rightarrow> r_require (length us = length (checkpoints off)) (SignerCount (length us) (length (checkpoints off)))
       | None \<Rightarrow> Inr ()) (\<lambda>_.
     hook (sp_beforeSubmit io) (
     let encoded = ol_toPSBT E signedArkTx; encodedCheckpoints = map (ol_toPSBT E) (checkpoints off) in
     asks (SubmitTx encoded encodedCheckpoints) (sp_submitTx io encoded encodedCheckpoints) (\<lambda>response.
     checks (assertSubmittedArkTxid E response signedArkTx) (\<lambda>_.
     checks (matchServerCheckpoints E (sr_signedCheckpointTxs response) (checkpoints off)) (\<lambda>matched.
     checks (verify_response E verify off response matched) (\<lambda>_.
     after_exchange (case user of
         Some us \<Rightarrow> checks (merge_user_sigs E (checkpoints off) us matched) (\<lambda>finals. (Inr finals, []))
       | None \<Rightarrow> sign_checkpoints E io matched) (\<lambda>finalCheckpoints.
     asks (FinalizeTx (sr_arkTxid response) finalCheckpoints) (sp_finalizeTx io (sr_arkTxid response) finalCheckpoints) (\<lambda>_.
     hook (sp_afterFinalize io) (Inr (sr_arkTxid response, sr_signedCheckpointTxs response), []))))))))))"

definition signAndSubmitOffchainTx ::
  "offchain_lib \<Rightarrow> 'x submit_io \<Rightarrow> (psbt \<Rightarrow> 'x + psbt) \<Rightarrow> ArkTxInput list \<Rightarrow> psbt_output list \<Rightarrow> ArkTapscript \<Rightarrow> bytes option \<Rightarrow>
   ('x, string) exchange" where
  "signAndSubmitOffchainTx E provider sign ins outs serverUnrollScript verify =
     checks (buildOffchainTx E ins outs serverUnrollScript) (\<lambda>off.
     after_exchange (submitOffchainTx E (provider\<lparr>sp_signArkTx := (\<lambda>tx _. r_bind (sign tx) (\<lambda>s. Inr (s, None))),
         sp_signCheckpoint := (\<lambda>_. sign), sp_beforeSubmit := Inr (), sp_afterFinalize := Inr ()\<rparr>) off verify)
       (\<lambda>(arkTxid, _). (Inr arkTxid, [])))"

text \<open>\<open>claimWithPreimageIdentity\<close>: the signed transaction, read back, with the preimage set on the inputs that were signed.\<close>

definition claimWithPreimageIdentity ::
  "offchain_lib \<Rightarrow> witness_coder \<Rightarrow> (psbt \<Rightarrow> nat list option \<Rightarrow> 'x + psbt) \<Rightarrow> bytes \<Rightarrow> psbt \<Rightarrow> nat list option \<Rightarrow> 'x submit_err + psbt" where
  "claimWithPreimageIdentity E W sign preimage tx inputIndexes =
     (case sign tx inputIndexes of
        Inl e \<Rightarrow> Inl (Outside e)
      | Inr s \<Rightarrow>
          (case ol_fromPSBT E (ol_toPSBT E s) of
             None \<Rightarrow> Inl (Refused UndecodablePsbt)
           | Some readBack \<Rightarrow>
               (case fold (\<lambda>index t. Option.bind t (\<lambda>t. setArkPsbtField t index (ConditionWitness_encode W) [preimage]))
                       (or_default inputIndexes [0..<length (ps_inputs readBack)]) (Some readBack) of
                  None \<Rightarrow> Inl (Refused RefusedByLibrary)
                | Some t \<Rightarrow> Inr t)))"

section \<open>What is finalized\<close>

lemma asks_mem: "x \<in> set (snd (asks c r k)) \<longleftrightarrow> x = c \<or> (\<exists>y. r = Inr y \<and> x \<in> set (snd (k y)))"
  by (cases r) (auto simp: asks_def)

lemma checks_mem: "x \<in> set (snd (checks r k)) \<longleftrightarrow> (\<exists>y. r = Inr y \<and> x \<in> set (snd (k y)))"
  by (cases r) (auto simp: checks_def)

lemma hook_mem: "x \<in> set (snd (hook r k)) \<longleftrightarrow> r = Inr () \<and> x \<in> set (snd k)"
  by (cases r) (auto simp: hook_def)

lemma after_mem: "x \<in> set (snd (after_exchange m k)) \<longleftrightarrow> x \<in> set (snd m) \<or> (\<exists>y. fst m = Inr y \<and> x \<in> set (snd (k y)))"
  by (cases "fst m") (auto simp: after_exchange_def)

lemmas exchange_mem = asks_mem checks_mem hook_mem after_mem

lemma asks_Inr: "fst (asks c r k) = Inr y \<longleftrightarrow> (\<exists>x. r = Inr x \<and> fst (k x) = Inr y)"
  by (cases r) (auto simp: asks_def)

lemma checks_Inr: "fst (checks r k) = Inr y \<longleftrightarrow> (\<exists>x. r = Inr x \<and> fst (k x) = Inr y)"
  by (cases r) (auto simp: checks_def)

lemma hook_Inr: "fst (hook r k) = Inr y \<longleftrightarrow> r = Inr () \<and> fst k = Inr y"
  by (cases r) (auto simp: hook_def)

lemma after_Inr: "fst (after_exchange m k) = Inr y \<longleftrightarrow> (\<exists>x. fst m = Inr x \<and> fst (k x) = Inr y)"
  by (cases "fst m") (auto simp: after_exchange_def)

lemmas exchange_Inr = asks_Inr checks_Inr hook_Inr after_Inr

lemma match_loop_ok:
  "match_loop E n m es = Inr ps \<Longrightarrow> distinct (map fst m) \<Longrightarrow> \<forall>(k, c) \<in> set m. ol_txid E c = k \<Longrightarrow>
   map (ol_fromPSBT E) es = map (Some \<circ> fst) ps \<and> (\<forall>(s, l) \<in> set ps. ol_txid E s = ol_txid E l \<and> (ol_txid E l, l) \<in> set m) \<and>
   distinct (map (\<lambda>p. ol_txid E (snd p)) ps)"
proof (induction E n m es arbitrary: ps rule: match_loop.induct)
  case (2 E n m e es)
  obtain s l ps' where s: "ol_fromPSBT E e = Some s" "js_get m (ol_txid E s) = Some l" "ps = (s, l) # ps'"
      "match_loop E (Suc n) (js_delete (ol_txid E s) m) es = Inr ps'"
    using 2(2) by (auto split: option.splits)
  have l: "(ol_txid E s, l) \<in> set m" "ol_txid E l = ol_txid E s"
    using 2(3,4) s(2) by (auto simp: js_get_in)
  have sub: "set (js_delete (ol_txid E s) m) \<subseteq> set m"
    by (auto simp: js_delete_def)
  have IH: "map (ol_fromPSBT E) es = map (Some \<circ> fst) ps' \<and>
      (\<forall>(s', l') \<in> set ps'. ol_txid E s' = ol_txid E l' \<and> (ol_txid E l', l') \<in> set (js_delete (ol_txid E s) m)) \<and>
      distinct (map (\<lambda>p. ol_txid E (snd p)) ps')"
    using 2(1) [OF s(1,2,4)] distinct_js_delete [OF 2(3)] sub 2(4) by fast
  then have "ol_txid E l \<notin> ol_txid E ` snd ` set ps'"
    using l(2) by (fastforce simp: js_delete_def)
  then show ?case
    using IH l s sub by (auto simp: image_image)
qed simp

lemma matched_checkpoints:
  assumes "matchServerCheckpoints E es cps = Inr ps"
  shows "distinct (map (ol_txid E) cps) \<and> mset (map snd ps) = mset cps \<and> map (ol_fromPSBT E) es = map (Some \<circ> fst) ps \<and>
    (\<forall>(s, l) \<in> set ps. ol_txid E s = ol_txid E l)"
proof -
  have len: "length es = length cps" and loop: "match_loop E 0 (keyed_by (ol_txid E) cps) es = Inr ps"
    using assms by (auto simp: matchServerCheckpoints_def keyed_by_def split: if_splits)
  note key = keyed_by_ok [where key = "ol_txid E" and xs = cps]
  have m: "map (ol_fromPSBT E) es = map (Some \<circ> fst) ps" "distinct (map (\<lambda>p. ol_txid E (snd p)) ps)"
      "\<forall>(s, l) \<in> set ps. ol_txid E s = ol_txid E l \<and> (ol_txid E l, l) \<in> set (keyed_by (ol_txid E) cps)"
    using match_loop_ok [OF loop key(1)] key(3) by blast+
  have n: "length ps = length cps"
    using len m(1) by (metis length_map)
  have sub: "set (map snd ps) \<subseteq> set cps"
    using m(3) by (auto dest!: bspec [of "set ps"] key(3))
  have "distinct (map (ol_txid E) (map snd ps))"
    using m(2) by (simp add: comp_def)
  then have inj: "inj_on (ol_txid E) (set (map snd ps))" and d: "distinct (map snd ps)"
    by (simp_all only: distinct_map)
  have c: "card (set (map snd ps)) = length cps"
    using distinct_card [OF d] n by simp
  then have eq: "set (map snd ps) = set cps"
    using card_seteq [OF _ sub] card_length [of cps] by simp
  then have dc: "distinct cps"
    using c card_distinct [of cps] by simp
  have "mset (map snd ps) = mset cps"
    using set_eq_iff_mset_eq_distinct [OF d dc] eq by blast
  moreover have "distinct (map (ol_txid E) cps)"
    using inj eq dc by (simp add: distinct_map)
  ultimately show ?thesis
    using m by auto
qed

definition finalized_checkpoint :: "offchain_lib \<Rightarrow> 'x submit_io \<Rightarrow> OffchainTx \<Rightarrow> psbt list option \<Rightarrow> psbt \<times> psbt \<Rightarrow> string \<Rightarrow> bool" where
  "finalized_checkpoint E io off user pair f \<longleftrightarrow> (\<exists>x. f = ol_toPSBT E x \<and>
     (case user of
        Some us \<Rightarrow> \<exists>i < length us. checkpoints off ! i = snd pair \<and> combineTapscriptSigs (us ! i) (fst pair) = Inr x
      | None \<Rightarrow> \<exists>n. sp_signCheckpoint io n (fst pair) = Inr x))"

lemma user_by_txid:
  assumes "distinct (map (ol_txid E) cps)" and "length us = length cps" and "l \<in> set cps"
  shows "\<exists>i < length us. cps ! i = l \<and> js_get (fold (\<lambda>(l, c) m. js_set (ol_txid E l) c m) (zip cps us) []) (ol_txid E l) = Some (us ! i)"
proof -
  have "length us = length cps \<Longrightarrow> distinct (map (ol_txid E) cps) \<Longrightarrow> ol_txid E l \<notin> ol_txid E ` set cps \<Longrightarrow>
      js_get (fold (\<lambda>(l, c) m. js_set (ol_txid E l) c m) (zip cps us) m) (ol_txid E l) = js_get m (ol_txid E l)" for l m cps us
    by (induction cps us arbitrary: m rule: list_induct2') auto
  note other = this
  have "length us = length cps \<Longrightarrow> distinct (map (ol_txid E) cps) \<Longrightarrow> l \<in> set cps \<Longrightarrow>
      \<exists>i < length us. cps ! i = l \<and> js_get (fold (\<lambda>(l, c) m. js_set (ol_txid E l) c m) (zip cps us) m) (ol_txid E l) = Some (us ! i)" for m
  proof (induction cps us arbitrary: m rule: list_induct2')
    case (4 c cps u us)
    show ?case
    proof (cases "l = c")
      case True
      then show ?thesis
        using 4(2,3) other [of us cps c] by (intro exI [of _ 0]) simp
    next
      case False
      then obtain i where "i < length us" "cps ! i = l"
          "js_get (fold (\<lambda>(l, c) m. js_set (ol_txid E l) c m) (zip cps us) (js_set (ol_txid E c) u m)) (ol_txid E l) = Some (us ! i)"
        using 4 by fastforce
      then show ?thesis
        by (intro exI [of _ "Suc i"]) simp
    qed
  qed simp_all
  then show ?thesis
    using assms by blast
qed

lemma merged_checkpoints:
  assumes "merge_user_sigs E cps us pairs = Inr finals" and "distinct (map (ol_txid E) cps)" and "length us = length cps"
    and "snd ` set pairs \<subseteq> set cps" and "cps = checkpoints off"
  shows "list_all2 (finalized_checkpoint E io off (Some us)) pairs finals"
proof -
  have "finalized_checkpoint E io off (Some us) p f"
    if p: "p \<in> set pairs" and
      f: "(\<lambda>(server, local). r_bind (combineTapscriptSigs
          (the (js_get (fold (\<lambda>(l, c) m. js_set (ol_txid E l) c m) (zip cps us) []) (ol_txid E local))) server)
          (\<lambda>s. Inr (ol_toPSBT E s))) p = Inr f" for p f
  proof -
    obtain i where "i < length us" "cps ! i = snd p"
        "js_get (fold (\<lambda>(l, c) m. js_set (ol_txid E l) c m) (zip cps us) []) (ol_txid E (snd p)) = Some (us ! i)"
      using user_by_txid [OF assms(2,3), of "snd p"] p assms(4) by blast
    then show ?thesis
      using f assms(5) by (auto simp: finalized_checkpoint_def case_prod_beta)
  qed
  then show ?thesis
    using r_map_all2 [OF assms(1) [unfolded merge_user_sigs_def Let_def]] by (auto elim!: list.rel_mono_strong)
qed

lemma signed_checkpoints:
  assumes "fst (sign_checkpoints E io pairs) = Inr finals"
  shows "list_all2 (finalized_checkpoint E io off None) pairs finals"
proof -
  obtain ss where ss: "r_map (\<lambda>(i, server, local). sp_signCheckpoint io i server) (enumerate 0 pairs) = Inr ss" "finals = map (ol_toPSBT E) ss"
    using assms by (auto simp: sign_checkpoints_def split: sum.splits)
  show ?thesis
    using r_map_all2 [OF ss(1)] unfolding ss(2)
    by (auto simp: list_all2_conv_all_nth nth_enumerate_eq finalized_checkpoint_def case_prod_beta) blast
qed

lemma signed_only_local:
  assumes "SignCheckpoint c \<in> set (snd (submitOffchainTx E io off verify))"
  shows "ol_txid E c \<in> ol_txid E ` set (checkpoints off)"
proof -
  obtain es pairs where "matchServerCheckpoints E es (checkpoints off) = Inr pairs" "c \<in> fst ` set pairs"
    using assms unfolding submitOffchainTx_def
    by (auto simp: exchange_mem Let_def sign_checkpoints_def split: option.splits)
  then obtain l where "l \<in> set (map snd pairs)" "ol_txid E c = ol_txid E l" "mset (map snd pairs) = mset (checkpoints off)"
    using matched_checkpoints by fastforce
  then show ?thesis
    using mset_eq_setD by fastforce
qed

lemma finalized_run:
  assumes "FinalizeTx t finals \<in> set (snd (submitOffchainTx E io off verify))"
  shows "\<exists>signedArkTx user response pairs.
    sp_signArkTx io (arkTx off) (checkpoints off) = Inr (signedArkTx, user) \<and>
    (\<forall>us. user = Some us \<longrightarrow> length us = length (checkpoints off)) \<and>
    sp_submitTx io (ol_toPSBT E signedArkTx) (map (ol_toPSBT E) (checkpoints off)) = Inr response \<and>
    assertSubmittedArkTxid E response signedArkTx = Inr () \<and> t = sr_arkTxid response \<and>
    matchServerCheckpoints E (sr_signedCheckpointTxs response) (checkpoints off) = Inr pairs \<and>
    (user = None \<longrightarrow> fst (sign_checkpoints E io pairs) = Inr finals) \<and>
    (\<forall>us. user = Some us \<longrightarrow> merge_user_sigs E (checkpoints off) us pairs = Inr finals)"
  using assms unfolding submitOffchainTx_def
  by (auto simp: exchange_mem exchange_Inr Let_def sign_checkpoints_def split: option.splits)

lemma finalized_only_local:
  assumes "FinalizeTx t finals \<in> set (snd (submitOffchainTx E io off verify))"
  shows "\<exists>signedArkTx user response pairs.
      sp_signArkTx io (arkTx off) (checkpoints off) = Inr (signedArkTx, user) \<and>
      sp_submitTx io (ol_toPSBT E signedArkTx) (map (ol_toPSBT E) (checkpoints off)) = Inr response \<and>
      t = ol_txid E signedArkTx \<and> distinct (map (ol_txid E) (checkpoints off)) \<and>
      mset (map snd pairs) = mset (checkpoints off) \<and>
      map (ol_fromPSBT E) (sr_signedCheckpointTxs response) = map (Some \<circ> fst) pairs \<and>
      (\<forall>(server, local) \<in> set pairs. ol_txid E server = ol_txid E local) \<and>
      list_all2 (finalized_checkpoint E io off user) pairs finals"
proof -
  obtain signedArkTx user response pairs where run:
    "sp_signArkTx io (arkTx off) (checkpoints off) = Inr (signedArkTx, user)"
    "\<forall>us. user = Some us \<longrightarrow> length us = length (checkpoints off)"
    "sp_submitTx io (ol_toPSBT E signedArkTx) (map (ol_toPSBT E) (checkpoints off)) = Inr response"
    "assertSubmittedArkTxid E response signedArkTx = Inr ()" "t = sr_arkTxid response"
    "matchServerCheckpoints E (sr_signedCheckpointTxs response) (checkpoints off) = Inr pairs"
    "user = None \<longrightarrow> fst (sign_checkpoints E io pairs) = Inr finals"
    "\<forall>us. user = Some us \<longrightarrow> merge_user_sigs E (checkpoints off) us pairs = Inr finals"
    using finalized_run [OF assms] by blast
  note m = matched_checkpoints [OF run(6)]
  have "snd ` set pairs \<subseteq> set (checkpoints off)"
    using m mset_eq_setD [of "map snd pairs" "checkpoints off"] by simp
  then have "list_all2 (finalized_checkpoint E io off user) pairs finals"
    using run(2,7,8) m merged_checkpoints [of E "checkpoints off" _ pairs finals off io] signed_checkpoints [of E io pairs finals off]
    by (cases user) auto
  moreover have "t = ol_txid E signedArkTx"
    using run(4,5) by (auto simp: assertSubmittedArkTxid_def split: if_splits)
  ultimately show ?thesis
    using run(1,3) m by blast
qed

text \<open>
  C35. Nothing is signed or finalized for the server but the checkpoints that were built. Every checkpoint handed to the signer has the
  id of a local one; and when a transaction is finalized, it is the signed one under its own id, the local checkpoints have distinct ids,
  the answer pairs off with all of them one to one by id, and each finalized checkpoint is the server's copy of one with the user's
  signature added, the one made for that very checkpoint where the signer made them in advance.
\<close>

theorem offchain_finalize_guarded:
  "(SignCheckpoint c \<in> set (snd (submitOffchainTx E io off verify)) \<longrightarrow> ol_txid E c \<in> ol_txid E ` set (checkpoints off)) \<and>
   (FinalizeTx t finals \<in> set (snd (submitOffchainTx E io off verify)) \<longrightarrow> (\<exists>signedArkTx user response pairs.
      sp_signArkTx io (arkTx off) (checkpoints off) = Inr (signedArkTx, user) \<and>
      sp_submitTx io (ol_toPSBT E signedArkTx) (map (ol_toPSBT E) (checkpoints off)) = Inr response \<and>
      t = ol_txid E signedArkTx \<and> distinct (map (ol_txid E) (checkpoints off)) \<and>
      mset (map snd pairs) = mset (checkpoints off) \<and>
      map (ol_fromPSBT E) (sr_signedCheckpointTxs response) = map (Some \<circ> fst) pairs \<and>
      (\<forall>(server, local) \<in> set pairs. ol_txid E server = ol_txid E local) \<and>
      list_all2 (finalized_checkpoint E io off user) pairs finals))"
  using signed_only_local finalized_only_local by blast

section \<open>What a verified answer shows\<close>

text \<open>
  \<open>signs\<close>: a signature of \<open>key\<close> on input \<open>i\<close>, with the default sighash, that commits to the hash \<open>leafHash\<close> and is valid for the
  message of a leaf the input carries with that hash, over the scripts and amounts of all inputs.
\<close>

definition signs :: "offchain_lib \<Rightarrow> psbt \<Rightarrow> nat \<Rightarrow> bytes \<Rightarrow> bytes \<Rightarrow> bool" where
  "signs E tx i key leafHash \<longleftrightarrow> (\<exists>inp sigs s leafs l v utxos message.
     getInput tx i = Some inp \<and> pi_tapScriptSig inp = Some sigs \<and> s \<in> set sigs \<and> ts_pubKey s = key \<and> ts_leafHash s = leafHash \<and>
     pi_tapLeafScript inp = Some leafs \<and> l \<in> set leafs \<and> leaf_version l = Some v \<and>
     ol_tapLeafHash E (scriptFromTapLeafScript l) (Some v) = leafHash \<and>
     map pi_witnessUtxo (ps_inputs tx) = map Some utxos \<and> signature_sighash (ts_signature s) = 0 \<and>
     ol_preimage E tx i (map fst utxos) 0 (map snd utxos) (scriptFromTapLeafScript l) v = Some message \<and>
     ol_verify E (take 64 (ts_signature s)) message key)"

lemma r_map_prevout: "r_map prevout (enumerate n ins) = Inr utxos \<Longrightarrow> map pi_witnessUtxo ins = map Some utxos"
  by (induction ins arbitrary: n utxos) (auto simp: prevout_def split: option.splits)

lemma verify_one_ok:
  assumes "verify_one E tx i inp scripts amounts [] [0] (Some h) s = Inr ()"
  shows "ol_hex E (ts_leafHash s) = h \<and> signature_sighash (ts_signature s) = 0 \<and>
    (\<exists>leafs l v message. pi_tapLeafScript inp = Some leafs \<and> l \<in> set leafs \<and> leaf_version l = Some v \<and>
       ol_hex E (ol_tapLeafHash E (scriptFromTapLeafScript l) (Some v)) = h \<and>
       ol_preimage E tx i scripts 0 amounts (scriptFromTapLeafScript l) v = Some message \<and>
       ol_verify E (take 64 (ts_signature s)) message (ts_pubKey s))"
  using assms by (fastforce simp: verify_one_def Let_def split: if_splits option.splits dest!: find_Some)

lemma verified_signs:
  assumes "verifyTapscriptSignatures E tx i [ol_hex E key] [] [0] (Some h) = Inr ()" and "hex_laws (ol_hex E) hdec"
  shows "signs E tx i key h"
proof -
  have inj: "a = b" if "ol_hex E a = ol_hex E b" for a b
    using that assms(2) by (metis hex_laws_def option.inject)
  obtain inp utxos where run: "getInput tx i = Some inp" "r_map prevout (enumerate 0 (ps_inputs tx)) = Inr utxos"
      "\<forall>s \<in> set (or_default (pi_tapScriptSig inp) []). verify_one E tx i inp (map fst utxos) (map snd utxos) [] [0] (Some (ol_hex E h)) s = Inr ()"
      "ol_hex E key \<in> (\<lambda>s. ol_hex E (ts_pubKey s)) ` set (or_default (pi_tapScriptSig inp) [])"
    using assms(1) by (auto simp: verifyTapscriptSignatures_def Let_def r_require_def split: option.splits if_splits)
  then obtain sigs s where s: "pi_tapScriptSig inp = Some sigs" "s \<in> set sigs" "ts_pubKey s = key"
      "verify_one E tx i inp (map fst utxos) (map snd utxos) [] [0] (Some (ol_hex E h)) s = Inr ()"
    using inj by (cases "pi_tapScriptSig inp") auto
  then show ?thesis
    using verify_one_ok [OF s(4)] run(1) r_map_prevout [OF run(2)] inj unfolding signs_def by blast
qed

text \<open>The server's signature on the leaf the local transaction spends.\<close>

definition server_signed :: "offchain_lib \<Rightarrow> psbt \<Rightarrow> psbt \<Rightarrow> nat \<Rightarrow> bytes \<Rightarrow> bool" where
  "server_signed E server local i key \<longleftrightarrow> (\<exists>inp leaf ls. getInput local i = Some inp \<and> pi_tapLeafScript inp = Some (leaf # ls) \<and>
     signs E server i key (ol_tapLeafHash E (scriptFromTapLeafScript leaf) None))"

lemma leaf_signed:
  assumes "assertServerSignedLeaf E server local i (ol_hex E key) = Inr ()" and "hex_laws (ol_hex E) hdec"
  shows "server_signed E server local i key"
  using assms(1) verified_signs [OF _ assms(2), of server i key]
  by (auto simp: assertServerSignedLeaf_def server_signed_def bind_eq_Some_conv split: option.splits list.splits sum.splits)

text \<open>
  C36. With \<open>verifyServerSignatures\<close>, a submission that returns has been signed by the server throughout: the answer carried a final
  transaction with the id of the signed one, and the server's key signed every input of it, and of its copy of every local
  checkpoint, on the very leaf the local transaction spends.
\<close>

theorem server_signatures_checked:
  assumes "fst (submitOffchainTx E io off (Some serverPubkey)) = Inr (arkTxid, signedCheckpoints)" and "hex_laws (ol_hex E) hdec"
  shows "\<exists>key final pairs. toXOnly serverPubkey = Some key \<and> ol_txid E final = arkTxid \<and>
    mset (map snd pairs) = mset (checkpoints off) \<and> map (ol_fromPSBT E) signedCheckpoints = map (Some \<circ> fst) pairs \<and>
    (\<forall>i < length (ps_inputs (arkTx off)). server_signed E final (arkTx off) i key) \<and>
    (\<forall>(server, local) \<in> set pairs. server_signed E server local 0 key)"
proof -
  obtain signedArkTx response pairs where run:
    "assertSubmittedArkTxid E response signedArkTx = Inr ()"
    "matchServerCheckpoints E (sr_signedCheckpointTxs response) (checkpoints off) = Inr pairs"
    "verify_response E (Some serverPubkey) off response pairs = Inr ()"
    "arkTxid = sr_arkTxid response" "signedCheckpoints = sr_signedCheckpointTxs response"
    using assms(1) unfolding submitOffchainTx_def by (auto simp: exchange_Inr Let_def)
  obtain f final key where v: "sr_finalArkTx response = Some f" "ol_fromPSBT E f = Some final" "toXOnly serverPubkey = Some key"
      "\<forall>i < length (ps_inputs (arkTx off)). assertServerSignedLeaf E final (arkTx off) i (ol_hex E key) = Inr ()"
      "\<forall>p \<in> set pairs. assertServerSignedLeaf E (fst p) (snd p) 0 (ol_hex E key) = Inr ()"
    using run(3) by (auto simp: verify_response_def case_prod_beta split: option.splits)
  have "ol_txid E final = arkTxid"
    using run(1,4) v(1,2) by (auto simp: assertSubmittedArkTxid_def split: if_splits)
  moreover have "\<forall>i < length (ps_inputs (arkTx off)). server_signed E final (arkTx off) i key"
    "\<forall>(server, local) \<in> set pairs. server_signed E server local 0 key"
    using v(4,5) leaf_signed [OF _ assms(2)] by (simp_all add: case_prod_beta)
  ultimately show ?thesis
    using v(3) matched_checkpoints [OF run(2)] run(5) by metis
qed

section \<open>What is built\<close>

definition tt_laws :: "taptree_coder \<Rightarrow> bool" where
  "tt_laws coder \<longleftrightarrow> (\<forall>es. tt_decode coder (tt_encode coder es) = Some es)"

text \<open>A lock that is late enough, in the same unit, for an input whose closure has one.\<close>

definition lock_covers :: "int \<Rightarrow> ArkTapscript \<Rightarrow> bool" where
  "lock_covers l tapscript \<longleftrightarrow> (\<forall>n m. tap_params tapscript = CLTVMultisig n m \<longrightarrow> n \<le> l \<and> (0 < n \<longrightarrow> isSeconds n = isSeconds l))"

lemma lock_loop_ok:
  "lock_loop L l0 ins = Inr l \<Longrightarrow> 0 \<le> l0 \<Longrightarrow> l0 \<le> l \<and> (l0 \<noteq> 0 \<longrightarrow> isSeconds l0 = isSeconds l) \<and>
     (\<forall>i \<in> set ins. \<exists>tapscript. decodeTapscript L (scriptFromTapLeafScript (ai_leaf i)) = Inr tapscript \<and> lock_covers l tapscript)"
proof (induction L l0 ins rule: lock_loop.induct)
  case (2 L l0 i ins)
  obtain tapscript where t: "decodeTapscript L (scriptFromTapLeafScript (ai_leaf i)) = Inr tapscript"
    using "2.prems"(1) by auto
  show ?case
  proof (cases "tap_params tapscript")
    case (CLTVMultisig n m)
    have ok: "l0 \<noteq> 0 \<Longrightarrow> isSeconds l0 = isSeconds n"
      using "2.prems"(1) t by (auto simp: CLTVMultisig split: if_splits)
    have IH: "max l0 n \<le> l \<and> (max l0 n \<noteq> 0 \<longrightarrow> isSeconds (max l0 n) = isSeconds l) \<and>
        (\<forall>i \<in> set ins. \<exists>tapscript. decodeTapscript L (scriptFromTapLeafScript (ai_leaf i)) = Inr tapscript \<and> lock_covers l tapscript)"
      using "2.IH"(5) [of tapscript n m] "2.prems" t CLTVMultisig ok by (auto simp: max_def split: if_splits)
    have "lock_covers l tapscript"
      using IH ok CLTVMultisig "2.prems"(2) by (auto simp: lock_covers_def max_def split: if_splits)
    then show ?thesis
      using IH ok t "2.prems"(2) by (auto simp: max_def split: if_splits)
  qed (use 2 t in \<open>auto simp: lock_covers_def\<close>)
qed auto

lemma virtual_built:
  assumes "buildVirtualTx E ins outs = Inr tx"
  shows "ps_outputs tx = outs @ [P2A_output] \<and> 0 \<le> ps_lockTime tx \<and>
    list_all2 (\<lambda>i p. pi_txid p = Some (ai_txid i) \<and> pi_index p = Some (ai_vout i) \<and> pi_tapLeafScript p = Some [ai_leaf i] \<and>
      (ps_lockTime tx \<noteq> 0 \<longrightarrow> pi_sequence p = Some (DEFAULT_SEQUENCE - 1)) \<and>
      (\<exists>v. VtxoScript_decode (ol_leafVersion E) (ol_p2tr E) (ol_coder E) (ai_tapTree i) = Inr v \<and>
        pi_witnessUtxo p = Some (vs_pkScript v, ai_value i)) \<and>
      (\<exists>tapscript. decodeTapscript (ol_script E) (scriptFromTapLeafScript (ai_leaf i)) = Inr tapscript \<and>
        lock_covers (ps_lockTime tx) tapscript)) ins (ps_inputs tx)"
proof -
  obtain l pis where l: "lock_loop (ol_script E) 0 ins = Inr l" "r_map (virtual_input E l) ins = Inr pis"
      "tx = \<lparr>ps_version = 3, ps_lockTime = l, ps_inputs = pis, ps_outputs = outs @ [P2A_output]\<rparr>"
    using assms by (auto simp: buildVirtualTx_def Let_def)
  note lock = lock_loop_ok [OF l(1), simplified]
  have "list_all2 (\<lambda>i p. pi_txid p = Some (ai_txid i) \<and> pi_index p = Some (ai_vout i) \<and> pi_tapLeafScript p = Some [ai_leaf i] \<and>
      (l \<noteq> 0 \<longrightarrow> pi_sequence p = Some (DEFAULT_SEQUENCE - 1)) \<and>
      (\<exists>v. VtxoScript_decode (ol_leafVersion E) (ol_p2tr E) (ol_coder E) (ai_tapTree i) = Inr v \<and>
        pi_witnessUtxo p = Some (vs_pkScript v, ai_value i)) \<and>
      (\<exists>tapscript. decodeTapscript (ol_script E) (scriptFromTapLeafScript (ai_leaf i)) = Inr tapscript \<and>
        lock_covers l tapscript)) ins pis"
    by (rule list.rel_mono_strong [OF r_map_all2 [OF l(2)]]) (use lock in \<open>auto simp: virtual_input_def\<close>)
  then show ?thesis
    using lock l(3) by simp
qed

lemma decoded_script: "decodeTapscript L s = Inr t \<Longrightarrow> tap_script t = s"
  by (auto simp: decodeTapscript_def split: sum.splits)

text \<open>
  The checkpoint of an input: it spends exactly that output, to the tree of the server's unroll script and the input's own closure, and
  the input it gives to the virtual transaction spends it by that closure.
\<close>

definition checkpoint_of :: "offchain_lib \<Rightarrow> ArkTapscript \<Rightarrow> ArkTxInput \<Rightarrow> psbt \<Rightarrow> psbt_input \<Rightarrow> int \<Rightarrow> bool" where
  "checkpoint_of E unroll i c p lockTime \<longleftrightarrow> (\<exists>tapscript v spent leaf.
     decodeTapscript (ol_script E) (scriptFromTapLeafScript (ai_leaf i)) = Inr tapscript \<and>
     VtxoScript_new (ol_leafVersion E) (ol_p2tr E) [tap_script unroll, tap_script tapscript] = Inr v \<and>
     ps_inputs c = [spent] \<and> pi_txid spent = Some (ai_txid i) \<and> pi_index spent = Some (ai_vout i) \<and>
     pi_tapLeafScript spent = Some [ai_leaf i] \<and> lock_covers (ps_lockTime c) tapscript \<and>
     ps_outputs c = [\<lparr>po_script = Some (vs_pkScript v), po_amount = Some (ai_value i)\<rparr>, P2A_output] \<and>
     pi_txid p = Some (ol_txid E c) \<and> pi_index p = Some 0 \<and> pi_witnessUtxo p = Some (vs_pkScript v, ai_value i) \<and>
     pi_tapLeafScript p = Some [leaf] \<and> leaf \<in> set (vs_leaves v) \<and> scriptFromTapLeafScript leaf = tap_script tapscript \<and>
     lock_covers lockTime tapscript \<and> (lockTime \<noteq> 0 \<longrightarrow> pi_sequence p = Some (DEFAULT_SEQUENCE - 1)))"

lemma checkpoint_built:
  assumes "buildCheckpointTx E i unroll = Inr (c, j)" and "hex_laws (ol_hex E) hdec"
  shows "\<exists>tapscript v spent.
     decodeTapscript (ol_script E) (scriptFromTapLeafScript (ai_leaf i)) = Inr tapscript \<and>
     VtxoScript_new (ol_leafVersion E) (ol_p2tr E) [tap_script unroll, tap_script tapscript] = Inr v \<and>
     ps_inputs c = [spent] \<and> pi_txid spent = Some (ai_txid i) \<and> pi_index spent = Some (ai_vout i) \<and>
     pi_tapLeafScript spent = Some [ai_leaf i] \<and> lock_covers (ps_lockTime c) tapscript \<and>
     ps_outputs c = [\<lparr>po_script = Some (vs_pkScript v), po_amount = Some (ai_value i)\<rparr>, P2A_output] \<and>
     ai_txid j = ol_txid E c \<and> ai_vout j = 0 \<and> ai_value j = ai_value i \<and> ai_leaf j \<in> set (vs_leaves v) \<and>
     scriptFromTapLeafScript (ai_leaf j) = tap_script tapscript \<and>
     ai_tapTree j = VtxoScript_encode (ol_leafVersion E) (ol_coder E) v"
proof -
  obtain tapscript v leaf where b: "decodeTapscript (ol_script E) (scriptFromTapLeafScript (ai_leaf i)) = Inr tapscript"
      "VtxoScript_new (ol_leafVersion E) (ol_p2tr E) [tap_script unroll, tap_script tapscript] = Inr v"
      "buildVirtualTx E [i] [\<lparr>po_script = Some (vs_pkScript v), po_amount = Some (ai_value i)\<rparr>] = Inr c"
      "findLeaf (ol_hex E) v (ol_hex E (tap_script tapscript)) = Inr leaf"
      "j = \<lparr>ai_txid = ol_txid E c, ai_vout = 0, ai_value = ai_value i, ai_leaf = leaf,
         ai_tapTree = VtxoScript_encode (ol_leafVersion E) (ol_coder E) v\<rparr>"
    using assms(1) by (auto simp: buildCheckpointTx_def)
  have "leaf \<in> set (vs_leaves v)" "ol_hex E (scriptFromTapLeafScript leaf) = ol_hex E (tap_script tapscript)"
    using b(4) find_Some by (fastforce simp: findLeaf_def split: option.splits)+
  then have "leaf \<in> set (vs_leaves v)" "scriptFromTapLeafScript leaf = tap_script tapscript"
    using assms(2) by (metis hex_laws_def option.inject)+
  then show ?thesis
    using b virtual_built [OF b(3)] by (auto simp: list_all2_Cons1)
qed

definition is_extension :: "script_decode \<Rightarrow> psbt_output \<Rightarrow> bool" where
  "is_extension sdec out \<longleftrightarrow> (case po_script out of Some s \<Rightarrow> isExtension sdec s | None \<Rightarrow> False)"

definition is_op_return :: "script_decode \<Rightarrow> psbt_output \<Rightarrow> bool" where
  "is_op_return sdec out \<longleftrightarrow> (\<exists>s ops. po_script out = Some s \<and> sdec s = Some (OpName ''RETURN'' # ops))"

lemma extension_script:
  assumes "isExtension sdec s"
  shows "\<exists>ops. sdec s = Some (OpName ''RETURN'' # ops)"
proof -
  obtain ops where ops: "sdec s = Some ops"
    using assms by (cases "sdec s") (simp_all add: isExtension_def)
  then obtain x xs where x: "ops = x # xs"
    using assms by (cases ops) (simp_all add: isExtension_def)
  then obtain n where n: "x = OpName n"
    using assms ops by (cases x) (simp_all add: isExtension_def)
  then obtain y ys where y: "xs = y # ys"
    using assms ops x by (cases xs) (simp_all add: isExtension_def)
  show ?thesis
    using assms ops x n y by (cases y) (simp_all add: isExtension_def)
qed

lemma output_check_ok:
  "output_check sdec i n e outs = Inr m \<Longrightarrow>
     m = n + length (filter (is_op_return sdec) outs) \<and> length (filter (is_extension sdec) outs) \<le> (if e then 0 else 1)"
proof (induction sdec i n e outs rule: output_check.induct)
  case (2 sdec i n e out outs)
  obtain s where s: "po_script out = Some s"
    using 2(2) by (auto split: option.splits)
  have ext: "is_extension sdec out = isExtension sdec s"
    using s by (simp add: is_extension_def)
  let ?ret = "if isExtension sdec s then Inr True else case sdec s of None \<Rightarrow> Inl UndecodableScript
    | Some ops \<Rightarrow> Inr (ops \<noteq> [] \<and> hd ops = OpName ''RETURN'')"
  obtain ret where ret: "?ret = Inr ret" "\<not> (isExtension sdec s \<and> e)"
      "output_check sdec (Suc i) (if ret then Suc n else n) (e \<or> isExtension sdec s) outs = Inr m"
    using 2(2) s by (auto simp: Let_def split: if_splits)
  have "ret = is_op_return sdec out"
    using ret(1) extension_script [of sdec s] s by (auto simp: is_op_return_def neq_Nil_conv split: if_splits option.splits)
  moreover have "m = (if ret then Suc n else n) + length (filter (is_op_return sdec) outs) \<and>
      length (filter (is_extension sdec) outs) \<le> (if e \<or> isExtension sdec s then 0 else 1)"
    using 2(1) [OF s refl ret(1)] ret(2,3) by blast
  ultimately show ?case
    using ret(2) ext by (auto split: if_splits)
qed simp

lemma encoded_tree:
  assumes "VtxoScript_new lv p2tr scripts = Inr v" and "tt_laws coder"
  shows "VtxoScript_decode lv p2tr coder (VtxoScript_encode lv coder v) = Inr v"
proof -
  have "vs_scripts v = scripts"
    using assms(1) by (auto simp: VtxoScript_new_def split: sum.splits option.splits if_splits)
  then show ?thesis
    using assms by (simp add: VtxoScript_decode_def VtxoScript_encode_def tt_laws_def comp_def)
qed

lemma checkpoint_links:
  assumes b: "buildCheckpointTx E i unroll = Inr (c, j)" and hex: "hex_laws (ol_hex E) hdec" and tt: "tt_laws (ol_coder E)"
    and "pi_txid p = Some (ai_txid j)" "pi_index p = Some (ai_vout j)" "pi_tapLeafScript p = Some [ai_leaf j]"
      "lockTime \<noteq> 0 \<longrightarrow> pi_sequence p = Some (DEFAULT_SEQUENCE - 1)"
      "VtxoScript_decode (ol_leafVersion E) (ol_p2tr E) (ol_coder E) (ai_tapTree j) = Inr w" "pi_witnessUtxo p = Some (vs_pkScript w, ai_value j)"
      "decodeTapscript (ol_script E) (scriptFromTapLeafScript (ai_leaf j)) = Inr u" "lock_covers lockTime u"
  shows "checkpoint_of E unroll i c p lockTime"
proof -
  obtain tapscript v spent where c: "decodeTapscript (ol_script E) (scriptFromTapLeafScript (ai_leaf i)) = Inr tapscript"
     "VtxoScript_new (ol_leafVersion E) (ol_p2tr E) [tap_script unroll, tap_script tapscript] = Inr v"
     "ps_inputs c = [spent]" "pi_txid spent = Some (ai_txid i)" "pi_index spent = Some (ai_vout i)"
     "pi_tapLeafScript spent = Some [ai_leaf i]" "lock_covers (ps_lockTime c) tapscript"
     "ps_outputs c = [\<lparr>po_script = Some (vs_pkScript v), po_amount = Some (ai_value i)\<rparr>, P2A_output]"
     "ai_txid j = ol_txid E c" "ai_vout j = 0" "ai_value j = ai_value i" "ai_leaf j \<in> set (vs_leaves v)"
     "scriptFromTapLeafScript (ai_leaf j) = tap_script tapscript"
     "ai_tapTree j = VtxoScript_encode (ol_leafVersion E) (ol_coder E) v"
    using checkpoint_built [OF b hex] by blast
  have "w = v"
    using encoded_tree [OF c(2) tt] c(14) assms(8) by simp
  moreover have "u = tapscript"
    using c(1,13) decoded_script [OF c(1)] assms(10) by simp
  ultimately show ?thesis
    using c assms(4-) unfolding checkpoint_of_def by (intro exI [of _ tapscript] exI [of _ v] exI [of _ spent] exI [of _ "ai_leaf j"]) simp
qed

text \<open>
  C37. The transactions that are built are the ones an offchain payment consists of. There is one checkpoint per input: it spends exactly that
  output by the leaf it came with and pays its whole value to the tree of the server's unroll script and the input's own closure. The
  virtual transaction spends the checkpoints in order, each by that closure, commits to their scripts and values, and has the outputs asked
  for followed by the anchor. Wherever a closure has a block or time lock, the transactions that use it wait at least as long, in the same
  unit and with a sequence that lets the lock count. At most two of the outputs are \<open>OP_RETURN\<close>s, and
  at most one is an extension.
\<close>

theorem offchain_tx_built:
  assumes "buildOffchainTx E ins outs unroll = Inr off" and "hex_laws (ol_hex E) hdec" and "tt_laws (ol_coder E)"
  shows "ps_outputs (arkTx off) = outs @ [P2A_output] \<and>
    length (filter (is_op_return (ol_sdec E)) outs) \<le> 2 \<and> length (filter (is_extension (ol_sdec E)) outs) \<le> 1 \<and>
    length (checkpoints off) = length ins \<and> length (ps_inputs (arkTx off)) = length ins \<and>
    (\<forall>k < length ins. checkpoint_of E unroll (ins ! k) (checkpoints off ! k) (ps_inputs (arkTx off) ! k) (ps_lockTime (arkTx off)))"
proof -
  obtain cps n where cps: "r_map (\<lambda>i. buildCheckpointTx E i unroll) ins = Inr cps" "buildVirtualTx E (map snd cps) outs = Inr (arkTx off)"
      "checkpoints off = map fst cps" "output_check (ol_sdec E) 0 0 False outs = Inr n" "n \<le> MAX_OP_RETURN"
    using assms(1) by (auto simp: buildOffchainTx_def)
  note v = virtual_built [OF cps(2)]
  note c = r_map_all2 [OF cps(1)]
  have "checkpoint_of E unroll (ins ! k) (checkpoints off ! k) (ps_inputs (arkTx off) ! k) (ps_lockTime (arkTx off))"
    if k: "k < length ins" for k
  proof -
    have "buildCheckpointTx E (ins ! k) unroll = Inr (checkpoints off ! k, snd (cps ! k))"
      using c cps(3) k by (auto simp: list_all2_conv_all_nth)
    from checkpoint_links [OF this assms(2,3)] show ?thesis
      using v c k by (fastforce simp: list_all2_conv_all_nth)
  qed
  moreover have "length ins = length cps" "length cps = length (ps_inputs (arkTx off))"
    using list_all2_lengthD [OF c] list_all2_lengthD [OF conjunct2 [OF conjunct2 [OF v]]] by simp_all
  ultimately show ?thesis
    using v cps(3) output_check_ok [OF cps(4)] cps(5) by (simp add: MAX_OP_RETURN_def)
qed

text \<open>
  A resumed transaction is finalized only with checkpoints of this wallet: each has the id of the checkpoint built for one of the given
  inputs, the one it spends, under one of the server's unroll scripts.
\<close>

lemma resumed_checkpoints_rebuilt:
  assumes "assertCheckpointsMatchInputs E cps ins unrollCandidates = Inr ()" and "c \<in> set cps"
  shows "\<exists>i \<in> set ins. \<exists>unroll \<in> set unrollCandidates. \<exists>tx j spent.
    ps_inputs c = [spent] \<and> pi_txid spent = Some (ai_txid i) \<and> pi_index spent = Some (ai_vout i) \<and>
    buildCheckpointTx E i unroll = Inr (tx, j) \<and> ol_txid E tx = ol_txid E c"
proof -
  obtain n where "check_checkpoint E (keyed_by (\<lambda>i. (ai_txid i, ai_vout i)) ins) unrollCandidates (n, c) = Inr ()"
    using assms by (auto simp: assertCheckpointsMatchInputs_def keyed_by_def in_set_conv_nth enumerate_eq_zip set_zip)
  then obtain spent t v i where i: "ps_inputs c = [spent]" "pi_txid spent = Some t" "pi_index spent = Some v"
      "js_get (keyed_by (\<lambda>i. (ai_txid i, ai_vout i)) ins) (t, v) = Some i" "rebuilt_as E i c unrollCandidates = Inr True"
    by (auto simp: check_checkpoint_def r_require_def split: list.split_asm option.split_asm if_split_asm)
  have key: "i \<in> set ins" "(ai_txid i, ai_vout i) = (t, v)"
    using keyed_by_ok(3) [OF iffD1 [OF js_get_in [OF keyed_by_ok(1)] i(4)]] by simp_all
  have "\<exists>unroll \<in> set unrollCandidates. \<exists>tx j. buildCheckpointTx E i unroll = Inr (tx, j) \<and> ol_txid E tx = ol_txid E c"
    using i(5) by (induction unrollCandidates) (auto split: if_splits prod.splits)
  then show ?thesis
    using i(1-3) key by blast
qed

section \<open>Samples\<close>

definition tt_items :: "tap_entry list \<Rightarrow> bytes list" where
  "tt_items es = concat (map (\<lambda>e. [replicate (te_depth e) 1, replicate (te_version e) 1, te_script e]) es)"

fun items_tt :: "bytes list \<Rightarrow> tap_entry list option" where
  "items_tt [] = Some []"
| "items_tt (d # v # s # r) = map_option ((#) \<lparr>te_depth = length d, te_version = length v, te_script = s\<rparr>) (items_tt r)"
| "items_tt _ = None"

definition sample_coder :: taptree_coder where
  "sample_coder = \<lparr>tt_encode = (\<lambda>es. escape_items (tt_items es)), tt_decode = (\<lambda>b. Option.bind (unescape_items [] b) items_tt)\<rparr>"

lemma sample_coder_laws: "tt_laws sample_coder"
proof -
  have "unescape_items [] (escape_items w) = Some w" for w
    using sample_coders by (simp add: coder_laws_def escaped_def)
  moreover have "items_tt (tt_items es) = Some es" for es
    by (induction es) (simp_all add: tt_items_def)
  ultimately show ?thesis
    by (simp add: tt_laws_def sample_coder_def)
qed

definition sample_offchain :: offchain_lib where
  "sample_offchain = \<lparr>ol_script = std_lib, ol_hex = hex_of_bytes, ol_sdec = op_return_decoder, ol_leafVersion = 0xc0, ol_p2tr = sample_p2tr,
     ol_coder = sample_coder, ol_txid = (\<lambda>tx. ''id''), ol_accepts = (\<lambda>tx. True), ol_toPSBT = (\<lambda>tx. ''psbt''),
     ol_fromPSBT = (\<lambda>s. None), ol_tapLeafHash = (\<lambda>s v. s), ol_preimage = (\<lambda>_ _ _ _ _ _ _. Some []), ol_verify = (\<lambda>_ _ _. True)\<rparr>"

definition sample_ark_input :: "bytes \<Rightarrow> ArkTxInput" where
  "sample_ark_input s = \<lparr>ai_txid = ''t'', ai_vout = 0, ai_value = 1000,
     ai_leaf = \<lparr>leaf_internalKey = [], leaf_merklePath = [], leaf_bytes = s @ [0xc0]\<rparr>,
     ai_tapTree = tt_encode sample_coder [\<lparr>te_depth = 1, te_version = 0xc0, te_script = s\<rparr>]\<rparr>"

definition sample_unroll :: ArkTapscript where
  "sample_unroll = \<lparr>tap_params = Multisig \<lparr>pubkeys = [], ms_type = None\<rparr>, tap_script = [0x51]\<rparr>"

lemma sample_closure: "\<exists>s m. decodeTapscript std_lib s = Inr \<lparr>tap_params = Multisig m, tap_script = s\<rparr>"
proof -
  obtain s where "MultisigTapscript_encode std_lib (keys_of [sample_key 7]) = Inr (checksig_keys [sample_key 7], s)"
    using std_multisig [of "[sample_key 7]"] by (auto simp: sample_key_def)
  then have "MultisigTapscript_decode std_lib s = Inr (checksig_keys [sample_key 7])"
    by (rule std.multisig_roundtrip) (simp add: countable_keys_def keys_of_def)
  then show ?thesis
    by (intro exI [of _ s] exI [of _ "checksig_keys [sample_key 7]"]) (simp add: decodeTapscript_def)
qed

lemma sample_built:
  assumes "decodeTapscript std_lib s = Inr \<lparr>tap_params = Multisig m, tap_script = s\<rparr>"
  shows "\<exists>c j off. buildCheckpointTx sample_offchain (sample_ark_input s) sample_unroll = Inr (c, j) \<and>
    buildOffchainTx sample_offchain [sample_ark_input s] [] sample_unroll = Inr off"
proof -
  have new: "\<exists>v. VtxoScript_new 0xc0 sample_p2tr scripts = Inr v \<and> vs_leaves v = map (\<lambda>s. \<lparr>leaf_internalKey = [], leaf_merklePath = [], leaf_bytes = s @ [0xc0]\<rparr>) scripts"
    if "scripts \<in> {[s], [[0x51], s]}" for scripts
    using that by (auto simp: VtxoScript_new_def assembleBtcdTaprootTree_def sample_p2tr_def)
  obtain v1 where v1: "VtxoScript_new 0xc0 sample_p2tr [s] = Inr v1"
    using new by blast
  obtain v2 where v2: "VtxoScript_new 0xc0 sample_p2tr [[0x51], s] = Inr v2"
      "vs_leaves v2 = map (\<lambda>s. \<lparr>leaf_internalKey = [], leaf_merklePath = [], leaf_bytes = s @ [0xc0]\<rparr>) [[0x51], s]"
    using new by blast
  have dec: "VtxoScript_decode 0xc0 sample_p2tr sample_coder (tt_encode sample_coder [\<lparr>te_depth = 1, te_version = 0xc0, te_script = s\<rparr>]) = Inr v1"
    using sample_coder_laws v1 by (simp add: VtxoScript_decode_def tt_laws_def)
  have enc: "VtxoScript_decode 0xc0 sample_p2tr sample_coder (VtxoScript_encode 0xc0 sample_coder v2) = Inr v2"
    by (rule encoded_tree [OF v2(1) sample_coder_laws])
  have "\<exists>leaf. findLeaf hex_of_bytes v2 (hex_of_bytes s) = Inr leaf \<and> scriptFromTapLeafScript leaf = s"
  proof (cases "List.find (\<lambda>l. hex_of_bytes (scriptFromTapLeafScript l) = hex_of_bytes s) (vs_leaves v2)")
    case None
    have "\<lparr>leaf_internalKey = [], leaf_merklePath = [], leaf_bytes = s @ [0xc0]\<rparr> \<in> set (vs_leaves v2)"
      by (simp add: v2(2))
    then have "hex_of_bytes (scriptFromTapLeafScript \<lparr>leaf_internalKey = [], leaf_merklePath = [], leaf_bytes = s @ [0xc0]\<rparr>) \<noteq> hex_of_bytes s"
      using None unfolding find_None_iff by blast
    then show ?thesis
      by (simp add: scriptFromTapLeafScript_def)
  next
    case (Some l)
    then show ?thesis
      using find_Some [OF Some] hex_of_bytes_strings by (auto simp: findLeaf_def hex_strings_def hex_laws_def) (metis option.inject)
  qed
  then obtain leaf where leaf: "findLeaf hex_of_bytes v2 (hex_of_bytes s) = Inr leaf" "scriptFromTapLeafScript leaf = s"
    by blast
  show ?thesis
    using assms dec enc v2(1) leaf
    by (simp add: buildOffchainTx_def buildCheckpointTx_def buildVirtualTx_def virtual_input_def sample_offchain_def sample_ark_input_def
        sample_unroll_def scriptFromTapLeafScript_def of_tap_def of_script_def MAX_OP_RETURN_def Let_def)
qed

theorem offchain_tx_built_witness:
  "\<exists>s off. buildOffchainTx sample_offchain [sample_ark_input s] [] sample_unroll = Inr off \<and>
     checkpoint_of sample_offchain sample_unroll (sample_ark_input s) (checkpoints off ! 0) (ps_inputs (arkTx off) ! 0) (ps_lockTime (arkTx off))"
proof -
  obtain s m where s: "decodeTapscript std_lib s = Inr \<lparr>tap_params = Multisig m, tap_script = s\<rparr>"
    using sample_closure by blast
  obtain off where off: "buildOffchainTx sample_offchain [sample_ark_input s] [] sample_unroll = Inr off"
    using sample_built [OF s] by blast
  have "hex_laws (ol_hex sample_offchain) bytes_of_hex" "tt_laws (ol_coder sample_offchain)"
    using hex_of_bytes_strings sample_coder_laws by (simp_all add: sample_offchain_def hex_strings_def)
  then show ?thesis
    using offchain_tx_built [OF off] off by fastforce
qed

lemma resumed_checkpoints_rebuilt_witness:
  "\<exists>s c. assertCheckpointsMatchInputs sample_offchain [c] [sample_ark_input s] [sample_unroll] = Inr () \<and>
     (\<exists>tx j. buildCheckpointTx sample_offchain (sample_ark_input s) sample_unroll = Inr (tx, j) \<and> ol_txid sample_offchain tx = ol_txid sample_offchain c)"
proof -
  obtain s m where s: "decodeTapscript std_lib s = Inr \<lparr>tap_params = Multisig m, tap_script = s\<rparr>"
    using sample_closure by blast
  obtain c j where c: "buildCheckpointTx sample_offchain (sample_ark_input s) sample_unroll = Inr (c, j)"
    using sample_built [OF s] by blast
  have hex: "hex_laws (ol_hex sample_offchain) bytes_of_hex"
    using hex_of_bytes_strings by (simp add: sample_offchain_def hex_strings_def)
  obtain spent where "ps_inputs c = [spent]" "pi_txid spent = Some ''t''" "pi_index spent = Some 0"
    using checkpoint_built [OF c hex] by (auto simp: sample_ark_input_def)
  then have "assertCheckpointsMatchInputs sample_offchain [c] [sample_ark_input s] [sample_unroll] = Inr ()"
    using c by (simp add: assertCheckpointsMatchInputs_def check_checkpoint_def r_require_def sample_ark_input_def)
  then show ?thesis
    using resumed_checkpoints_rebuilt [of sample_offchain "[c]" "[sample_ark_input s]" "[sample_unroll]" c] by fastforce
qed

text \<open>A submission whose answer the server signed throughout.\<close>

definition sample_leaf :: TapLeafScript where
  "sample_leaf = \<lparr>leaf_internalKey = [], leaf_merklePath = [], leaf_bytes = [0x51, 0xc0]\<rparr>"

definition unsigned_psbt :: psbt where
  "unsigned_psbt = \<lparr>ps_version = 3, ps_lockTime = 0, ps_inputs = [\<lparr>pi_txid = Some ''t'', pi_index = Some 0, pi_sequence = None,
     pi_witnessUtxo = Some ([0x51], 9), pi_tapLeafScript = Some [sample_leaf], pi_tapScriptSig = None, pi_unknown = []\<rparr>], ps_outputs = []\<rparr>"

definition signed_psbt :: psbt where
  "signed_psbt = unsigned_psbt\<lparr>ps_inputs := map (\<lambda>i. i\<lparr>pi_tapScriptSig := Some [\<lparr>ts_pubKey = sample_key 9, ts_leafHash = [0x51],
     ts_signature = replicate 64 0\<rparr>]\<rparr>) (ps_inputs unsigned_psbt)\<rparr>"

definition signing_lib :: offchain_lib where
  "signing_lib = sample_offchain\<lparr>ol_fromPSBT := (\<lambda>s. Some signed_psbt)\<rparr>"

definition sample_submit :: "string submit_io" where
  "sample_submit = \<lparr>sp_signArkTx = (\<lambda>tx cps. Inr (tx, None)), sp_beforeSubmit = Inr (),
     sp_submitTx = (\<lambda>tx cps. Inr \<lparr>sr_arkTxid = ''id'', sr_finalArkTx = Some ''F'', sr_signedCheckpointTxs = [''C'']\<rparr>),
     sp_signCheckpoint = (\<lambda>n. Inr), sp_finalizeTx = (\<lambda>t cps. Inr ()), sp_afterFinalize = Inr ()\<rparr>"

lemma sample_leaf_signed: "assertServerSignedLeaf signing_lib signed_psbt unsigned_psbt 0 (hex_of_bytes (sample_key 9)) = Inr ()"
  by (simp add: assertServerSignedLeaf_def verifyTapscriptSignatures_def verify_one_def signing_lib_def sample_offchain_def getInput_def
      signed_psbt_def unsigned_psbt_def prevout_def sample_leaf_def scriptFromTapLeafScript_def leaf_version_def signature_sighash_def
      r_require_def Let_def del: hex_of_bytes.simps)

lemma sample_submitted:
  "submitOffchainTx signing_lib sample_submit \<lparr>arkTx = unsigned_psbt, checkpoints = [unsigned_psbt]\<rparr> (Some (sample_key 9)) =
     (Inr (''id'', [''C'']), [SignArk unsigned_psbt [unsigned_psbt], SubmitTx ''psbt'' [''psbt''], SignCheckpoint signed_psbt,
       FinalizeTx ''id'' [''psbt'']])"
proof -
  have "toXOnly (sample_key 9) = Some (sample_key 9)"
    by (simp add: toXOnly_def sample_key_def)
  moreover have "length (ps_inputs unsigned_psbt) = 1"
    by (simp add: unsigned_psbt_def)
  ultimately show ?thesis
    using sample_leaf_signed
    by (simp add: submitOffchainTx_def asks_def checks_def hook_def after_exchange_def sample_submit_def verify_response_def
        assertSubmittedArkTxid_def matchServerCheckpoints_def sign_checkpoints_def signing_lib_def sample_offchain_def Let_def
        del: hex_of_bytes.simps)
qed

theorem server_signatures_checked_witness:
  "server_signed signing_lib signed_psbt unsigned_psbt 0 (sample_key 9)"
proof -
  have "hex_laws (ol_hex signing_lib) bytes_of_hex"
    using hex_of_bytes_strings by (simp add: signing_lib_def sample_offchain_def hex_strings_def)
  moreover have "toXOnly (sample_key 9) = Some (sample_key 9)" "ol_fromPSBT signing_lib s = Some signed_psbt" for s
    by (simp_all add: toXOnly_def sample_key_def signing_lib_def)
  ultimately show ?thesis
    using server_signatures_checked [of signing_lib sample_submit "\<lparr>arkTx = unsigned_psbt, checkpoints = [unsigned_psbt]\<rparr>" "sample_key 9"
        "''id''" "[''C'']" bytes_of_hex] sample_submitted by auto
qed

theorem offchain_finalize_guarded_witness:
  "FinalizeTx ''id'' [''psbt''] \<in> set (snd (submitOffchainTx signing_lib sample_submit
      \<lparr>arkTx = unsigned_psbt, checkpoints = [unsigned_psbt]\<rparr> (Some (sample_key 9)))) \<and>
   ol_txid signing_lib signed_psbt \<in> ol_txid signing_lib ` {unsigned_psbt} \<and>
   list_all2 (finalized_checkpoint signing_lib sample_submit \<lparr>arkTx = unsigned_psbt, checkpoints = [unsigned_psbt]\<rparr> None)
     [(signed_psbt, unsigned_psbt)] [''psbt'']"
  using offchain_finalize_guarded [of signed_psbt signing_lib sample_submit "\<lparr>arkTx = unsigned_psbt, checkpoints = [unsigned_psbt]\<rparr>"
      "Some (sample_key 9)" "''id''" "[''psbt'']"] sample_submitted
  by (auto simp: sample_submit_def signing_lib_def list_all2_Cons1 list_all2_Cons2)

end
