(* ===== verification/Repositories.thy ===== *)
theory Repositories
  imports Contract_Paths Vtxo_Query
begin

text \<open>
  The wallet's repositories in memory: \<open>InMemoryWalletRepository\<close>, \<open>InMemoryContractRepository\<close> and \<open>InMemoryVirtualTxRepository\<close>
  (\<open>repositories/inMemory\<close>), the ownership helpers that gate them (\<open>contracts/vtxoOwnership.ts\<close>), the merge rule of
  \<open>repositories/virtualTxRepository.ts\<close> and the sync cursor kept in the wallet state (\<open>utils/syncCursors.ts\<close>).

  \<open>bucket_store\<close> is the contract of a repository whose rows are merged by key in buckets; the three kinds of rows of the wallet
  repository interpret it. The abstract repositories are maps; \<open>wallet_repository_refines\<close> and \<open>virtual_tx_repository_refines\<close> show
  that every operation acts on them as its description says.
\<close>

section \<open>Ownership\<close>

definition vtxoOutpoint :: "VirtualCoin \<Rightarrow> string" where
  "vtxoOutpoint v = coin_txid v @ '':'' @ int_str (coin_vout v)"

definition isVtxoForScript :: "VirtualCoin \<Rightarrow> string \<Rightarrow> bool" where
  "isVtxoForScript v script \<longleftrightarrow> coin_script v \<noteq> [] \<and> coin_script v = script"

definition filterVtxosForScript :: "VirtualCoin list \<Rightarrow> string \<Rightarrow> VirtualCoin list" where
  "filterVtxosForScript vtxos script = filter (\<lambda>v. isVtxoForScript v script) vtxos"

text \<open>The second component is what the warning lists.\<close>

fun warnAndFilterVtxosForScript :: "VirtualCoin list \<Rightarrow> string \<Rightarrow> VirtualCoin list \<times> string list" where
  "warnAndFilterVtxosForScript [] script = ([], [])"
| "warnAndFilterVtxosForScript (v # vs) script =
     (let (kept, rejected) = warnAndFilterVtxosForScript vs script in
      if isVtxoForScript v script then (v # kept, rejected)
      else (kept, (vtxoOutpoint v @ ''(script='' @ coin_script v @ '')'') # rejected))"

datatype repo_err = ScriptMismatch "string list" | AddressRequired

definition validateVtxosForScript :: "VirtualCoin list \<Rightarrow> string \<Rightarrow> repo_err + unit" where
  "validateVtxosForScript vtxos script =
     (let mismatches = filter (\<lambda>v. \<not> isVtxoForScript v script) vtxos in
      r_require (mismatches = []) (ScriptMismatch (map (\<lambda>v. vtxoOutpoint v @ ''(script='' @ coin_script v @ '')'') mismatches)))"

section \<open>The wallet repository\<close>

datatype TxType = TxSent | TxReceived

record TxKey =
  boardingTxid :: string
  commitmentTxid :: string
  arkTxid :: string

record ArkTransaction =
  tx_key :: TxKey
  tx_type :: TxType
  tx_amount :: int
  tx_settled :: bool
  tx_createdAt :: int
  tx_assets :: "Asset list option"
  tx_tag :: "string option"

text \<open>A setting is a flag or anything else.\<close>

datatype setting = Flag bool | OtherSetting string

record WalletState =
  ws_settings :: "(string \<times> setting) list option"
  ws_lastSyncTime :: "int option"

record 'u wallet_repo =
  vtxosByAddress :: "(string \<times> VirtualCoin list) list"
  utxosByAddress :: "(string \<times> 'u list) list"
  txsByAddress :: "(string \<times> ArkTransaction list) list"
  walletState :: "WalletState option"

definition mergeByKey :: "'a list \<Rightarrow> 'a list \<Rightarrow> ('a \<Rightarrow> 'k) \<Rightarrow> 'a list" where
  "mergeByKey existing incoming toKey = map snd (fold (\<lambda>c m. js_set (toKey c) c m) incoming (keyed_by toKey existing))"

definition serializeTxKey :: "ArkTransaction \<Rightarrow> string" where
  "serializeTxKey tx = boardingTxid (tx_key tx) @ '':'' @ commitmentTxid (tx_key tx) @ '':'' @ arkTxid (tx_key tx)"

definition stored_rows :: "(string \<times> 'a list) list \<Rightarrow> string \<Rightarrow> 'a list" where
  "stored_rows m address = or_default (js_get m address) []"

definition getVtxos :: "'u wallet_repo \<Rightarrow> string \<Rightarrow> VirtualCoin list" where
  "getVtxos r address = stored_rows (vtxosByAddress r) address"

definition saveVtxos :: "string \<Rightarrow> VirtualCoin list \<Rightarrow> 'u wallet_repo \<Rightarrow> 'u wallet_repo" where
  "saveVtxos address vtxos r =
     r\<lparr>vtxosByAddress := js_set address (mergeByKey (getVtxos r address) vtxos vtxoOutpoint) (vtxosByAddress r)\<rparr>"

definition deleteVtxos :: "string \<Rightarrow> 'u wallet_repo \<Rightarrow> 'u wallet_repo" where
  "deleteVtxos address r = r\<lparr>vtxosByAddress := js_delete address (vtxosByAddress r)\<rparr>"

definition getVtxosForScript :: "'u wallet_repo \<Rightarrow> string \<Rightarrow> VirtualCoin list" where
  "getVtxosForScript r script =
     mergeByKey [] (concat (map (\<lambda>(_, b). filter (\<lambda>v. isVtxoForScript v script) b) (vtxosByAddress r))) vtxoOutpoint"

definition saveVtxosForScript ::
  "string \<Rightarrow> string option \<Rightarrow> VirtualCoin list \<Rightarrow> 'u wallet_repo \<Rightarrow> repo_err + 'u wallet_repo" where
  "saveVtxosForScript script address vtxos r =
     (if \<not> truthy_str address then Inl AddressRequired
      else r_bind (r_each (\<lambda>v. r_require (isVtxoForScript v script) (ScriptMismatch [vtxoOutpoint v])) vtxos) (\<lambda>_.
        Inr (saveVtxos (or_default address []) vtxos r)))"

definition deleteVtxosForScript :: "string \<Rightarrow> 'u wallet_repo \<Rightarrow> 'u wallet_repo" where
  "deleteVtxosForScript script r = r\<lparr>vtxosByAddress :=
     fold (\<lambda>(address, b) m. let keep = filter (\<lambda>v. \<not> isVtxoForScript v script) b in
         if keep = [] then js_delete address m else js_set address keep m) (vtxosByAddress r) (vtxosByAddress r)\<rparr>"

definition getUtxos :: "'u wallet_repo \<Rightarrow> string \<Rightarrow> 'u list" where
  "getUtxos r address = stored_rows (utxosByAddress r) address"

definition saveUtxos :: "('u \<Rightarrow> string) \<Rightarrow> string \<Rightarrow> 'u list \<Rightarrow> 'u wallet_repo \<Rightarrow> 'u wallet_repo" where
  "saveUtxos outpoint address utxos r =
     r\<lparr>utxosByAddress := js_set address (mergeByKey (getUtxos r address) utxos outpoint) (utxosByAddress r)\<rparr>"

definition deleteUtxos :: "string \<Rightarrow> 'u wallet_repo \<Rightarrow> 'u wallet_repo" where
  "deleteUtxos address r = r\<lparr>utxosByAddress := js_delete address (utxosByAddress r)\<rparr>"

definition getTransactionHistory :: "'u wallet_repo \<Rightarrow> string \<Rightarrow> ArkTransaction list" where
  "getTransactionHistory r address = stored_rows (txsByAddress r) address"

definition saveTransactions :: "string \<Rightarrow> ArkTransaction list \<Rightarrow> 'u wallet_repo \<Rightarrow> 'u wallet_repo" where
  "saveTransactions address txs r =
     r\<lparr>txsByAddress := js_set address (mergeByKey (getTransactionHistory r address) txs serializeTxKey) (txsByAddress r)\<rparr>"

definition deleteTransactions :: "string \<Rightarrow> 'u wallet_repo \<Rightarrow> 'u wallet_repo" where
  "deleteTransactions address r = r\<lparr>txsByAddress := js_delete address (txsByAddress r)\<rparr>"

definition saveWalletState :: "WalletState \<Rightarrow> 'u wallet_repo \<Rightarrow> 'u wallet_repo" where
  "saveWalletState s r = r\<lparr>walletState := Some s\<rparr>"

definition clear_wallet :: "'u wallet_repo" where
  "clear_wallet = \<lparr>vtxosByAddress = [], utxosByAddress = [], txsByAddress = [], walletState = None\<rparr>"

text \<open>\<open>getVtxosForContract\<close> and \<open>saveVtxosForContract\<close> on a repository with the script-scoped methods and on one without.\<close>

definition getVtxosForContract :: "bool \<Rightarrow> 'u wallet_repo \<Rightarrow> Contract \<Rightarrow> VirtualCoin list" where
  "getVtxosForContract scoped r contract =
     map normalizeVtxo (if scoped then getVtxosForScript r (c_script contract)
       else filterVtxosForScript (getVtxos r (c_address contract)) (c_script contract))"

definition saveVtxosForContract :: "bool \<Rightarrow> Contract \<Rightarrow> VirtualCoin list \<Rightarrow> 'u wallet_repo \<Rightarrow> repo_err + 'u wallet_repo" where
  "saveVtxosForContract scoped contract vtxos r =
     (if scoped then saveVtxosForScript (c_script contract) (Some (c_address contract)) vtxos r
      else r_bind (validateVtxosForScript vtxos (c_script contract)) (\<lambda>_. Inr (saveVtxos (c_address contract) vtxos r)))"

section \<open>The contract repository\<close>

datatype 'a criterion = One 'a | Many "'a list"

record ContractFilter =
  f_script :: "string criterion option"
  f_state :: "ContractState criterion option"
  f_type :: "string criterion option"
  f_watch :: "ContractWatchState criterion option"

definition criterion_matches :: "'a \<Rightarrow> 'a criterion option \<Rightarrow> bool" where
  "criterion_matches v c = (case c of None \<Rightarrow> True | Some (One x) \<Rightarrow> v = x | Some (Many xs) \<Rightarrow> v \<in> set xs)"

definition getContracts :: "(string \<times> Contract) list \<Rightarrow> ContractFilter option \<Rightarrow> Contract list" where
  "getContracts contractsByScript filt =
     (case filt of
        None \<Rightarrow> map snd contractsByScript
      | Some f \<Rightarrow> filter (\<lambda>c. criterion_matches (c_script c) (f_script f) \<and> criterion_matches (c_state c) (f_state f) \<and>
          criterion_matches (c_type c) (f_type f) \<and> criterion_matches (watchStateOf c) (f_watch f)) (map snd contractsByScript))"

definition saveContract :: "Contract \<Rightarrow> (string \<times> Contract) list \<Rightarrow> (string \<times> Contract) list" where
  "saveContract c m = js_set (c_script c) c m"

definition deleteContract :: "string \<Rightarrow> (string \<times> Contract) list \<Rightarrow> (string \<times> Contract) list" where
  "deleteContract script m = js_delete script m"

section \<open>The repository of virtual transactions\<close>

datatype ChainedTxType = UnspecifiedTx | CommitmentTx | ArkTx | TreeTxType | CheckpointTx

record VirtualTx =
  vt_txid :: string
  vt_psbt :: "string option"
  vt_expiresAt :: "int option"
  vt_type :: ChainedTxType

record VtxoBranch =
  vb_virtualTxid :: string
  vb_position :: int

record virtual_tx_repo =
  vr_txs :: "(string \<times> VirtualTx) list"
  vr_branches :: "(string \<times> VtxoBranch list) list"

definition mergeChainedTxType :: "ChainedTxType \<Rightarrow> ChainedTxType option \<Rightarrow> ChainedTxType" where
  "mergeChainedTxType incoming prev = (if incoming \<noteq> UnspecifiedTx then incoming else or_default prev UnspecifiedTx)"

definition first_some :: "'a option \<Rightarrow> 'a option \<Rightarrow> 'a option" where
  "first_some a b = (case a of Some x \<Rightarrow> Some x | None \<Rightarrow> b)"

definition merge_virtual_tx :: "VirtualTx \<Rightarrow> VirtualTx option \<Rightarrow> VirtualTx" where
  "merge_virtual_tx t prev =
     (case prev of
        None \<Rightarrow> t
      | Some p \<Rightarrow> \<lparr>vt_txid = vt_txid t, vt_psbt = first_some (vt_psbt t) (vt_psbt p), vt_expiresAt = first_some (vt_expiresAt t) (vt_expiresAt p),
          vt_type = mergeChainedTxType (vt_type t) (Some (vt_type p))\<rparr>)"

definition upsertVirtualTxs :: "VirtualTx list \<Rightarrow> virtual_tx_repo \<Rightarrow> virtual_tx_repo" where
  "upsertVirtualTxs ts r =
     r\<lparr>vr_txs := fold (\<lambda>t m. js_set (vt_txid t) (merge_virtual_tx t (js_get m (vt_txid t))) m) ts (vr_txs r)\<rparr>"

definition getVirtualTx :: "virtual_tx_repo \<Rightarrow> string \<Rightarrow> VirtualTx option" where
  "getVirtualTx r txid = js_get (vr_txs r) txid"

definition setBranch :: "string \<Rightarrow> VtxoBranch list \<Rightarrow> virtual_tx_repo \<Rightarrow> virtual_tx_repo" where
  "setBranch vtxo branch r = r\<lparr>vr_branches := js_set vtxo (sort_key vb_position branch) (vr_branches r)\<rparr>"

definition getBranch :: "virtual_tx_repo \<Rightarrow> string \<Rightarrow> VirtualTx list" where
  "getBranch r vtxo = List.map_filter (\<lambda>x. js_get (vr_txs r) (vb_virtualTxid x)) (stored_rows (vr_branches r) vtxo)"

definition hasBranch :: "virtual_tx_repo \<Rightarrow> string \<Rightarrow> bool" where
  "hasBranch r vtxo \<longleftrightarrow> stored_rows (vr_branches r) vtxo \<noteq> []"

definition pruneForSpentVtxo :: "string \<Rightarrow> virtual_tx_repo \<Rightarrow> virtual_tx_repo" where
  "pruneForSpentVtxo vtxo r =
     (let removed = stored_rows (vr_branches r) vtxo;
          branches = js_delete vtxo (vr_branches r);
          stillReferenced = concat (map (\<lambda>(_, b). map vb_virtualTxid b) branches)
      in r\<lparr>vr_branches := branches,
           vr_txs := fold (\<lambda>e m. if vb_virtualTxid e \<notin> set stillReferenced then js_delete (vb_virtualTxid e) m else m)
             removed (vr_txs r)\<rparr>)"

section \<open>The sync cursor\<close>

definition CURSOR_MIGRATED_KEY :: string where "CURSOR_MIGRATED_KEY = ''vtxoCursorMigrated''"
definition SAFETY_LAG_MS :: int where "SAFETY_LAG_MS = 30000"
definition OVERLAP_MS :: int where "OVERLAP_MS = 24 * 60 * 60 * 1000"

definition no_state :: WalletState where "no_state = \<lparr>ws_settings = None, ws_lastSyncTime = None\<rparr>"

definition updateWalletState :: "(WalletState \<Rightarrow> WalletState) \<Rightarrow> 'u wallet_repo \<Rightarrow> 'u wallet_repo" where
  "updateWalletState updater r = saveWalletState (updater (or_default (walletState r) no_state)) r"

definition hasMigrationMarker :: "WalletState option \<Rightarrow> bool" where
  "hasMigrationMarker state =
     (case state of None \<Rightarrow> False | Some s \<Rightarrow> js_get (or_default (ws_settings s) []) CURSOR_MIGRATED_KEY = Some (Flag True))"

definition getSyncCursor :: "'u wallet_repo \<Rightarrow> int" where
  "getSyncCursor r =
     (if hasMigrationMarker (walletState r) then or_default (Option.bind (walletState r) ws_lastSyncTime) 0 else 0)"

definition advanceSyncCursor :: "int \<Rightarrow> 'u wallet_repo \<Rightarrow> 'u wallet_repo" where
  "advanceSyncCursor lastUpdatedAt = updateWalletState (\<lambda>state.
     let current = (if hasMigrationMarker (Some state) then or_default (ws_lastSyncTime state) 0 else 0) in
     state\<lparr>ws_lastSyncTime := Some (max current lastUpdatedAt),
       ws_settings := Some (js_set CURSOR_MIGRATED_KEY (Flag True) (or_default (ws_settings state) []))\<rparr>)"

definition clearSyncCursor :: "'u wallet_repo \<Rightarrow> 'u wallet_repo" where
  "clearSyncCursor = updateWalletState (\<lambda>state.
     state\<lparr>ws_lastSyncTime := None, ws_settings := Some (js_delete CURSOR_MIGRATED_KEY (or_default (ws_settings state) []))\<rparr>)"

definition computeSyncWindow :: "int \<Rightarrow> int" where
  "computeSyncWindow cursor = max 0 (cursor - OVERLAP_MS)"

definition cursorCutoff :: "int option \<Rightarrow> int \<Rightarrow> int" where
  "cursorCutoff requestStartedAt now = or_default requestStartedAt now - SAFETY_LAG_MS"

section \<open>Buckets merged by key\<close>

definition lookup_row :: "('a \<Rightarrow> 'k) \<Rightarrow> 'a list \<Rightarrow> 'k \<Rightarrow> 'a option" where
  "lookup_row key b k = List.find (\<lambda>v. key v = k) b"

definition overlay :: "('a \<Rightarrow> 'k) \<Rightarrow> 'a list \<Rightarrow> ('k \<Rightarrow> 'a option) \<Rightarrow> 'k \<Rightarrow> 'a option" where
  "overlay key vs f = fold (\<lambda>v f. f(key v := Some v)) vs f"

lemma keyed_merge: "fold (\<lambda>c m. js_set (key c) c m) ys (keyed_by key xs) = keyed_by key (xs @ ys)"
  by (simp add: keyed_by_append)

lemma lookup_keyed:
  assumes "distinct (map fst m)" and "\<forall>(k, c) \<in> set m. key c = k"
  shows "lookup_row key (map snd m) k = js_get m k"
  using assms by (induction m) (auto simp: lookup_row_def)

lemma overlay_fold: "overlay key vs (js_get m) k = js_get (fold (\<lambda>c m. js_set (key c) c m) vs m) k"
proof (induction vs arbitrary: m)
  case (Cons v vs)
  have "(js_get m)(key v := Some v) = js_get (js_set (key v) v m)"
    by auto
  then show ?case
    using Cons by (simp add: overlay_def)
qed (simp add: overlay_def)

lemma merged_rows: "distinct (map key (mergeByKey xs ys key))"
proof -
  have "map key (mergeByKey xs ys key) = map fst (keyed_by key (xs @ ys))"
    using keyed_by_ok(3) [where key = key and xs = "xs @ ys"] by (auto simp: mergeByKey_def keyed_merge)
  then show ?thesis
    using keyed_by_ok(1) [where key = key and xs = "xs @ ys"] by simp
qed

lemma lookup_distinct: "distinct (map key xs) \<Longrightarrow> lookup_row key xs k = Some v \<longleftrightarrow> v \<in> set xs \<and> key v = k"
  by (induction xs) (auto simp: lookup_row_def)

lemma keyed_lookup:
  assumes "distinct (map key xs)"
  shows "js_get (keyed_by key xs) = lookup_row key xs"
proof -
  have "distinct (map key (rev xs))"
    using assms by (simp add: rev_map [symmetric])
  then have "js_get (keyed_by key xs) k = Some v \<longleftrightarrow> lookup_row key xs k = Some v" for k v
    using lookup_distinct [OF assms, of k v] lookup_distinct [of key "rev xs" k v] by (simp add: js_get_keyed_by lookup_row_def)
  then show ?thesis
    by (metis not_Some_eq ext)
qed

lemma merged_lookup:
  assumes "distinct (map key xs)"
  shows "lookup_row key (mergeByKey xs ys key) = overlay key ys (lookup_row key xs)"
proof
  fix k
  have m: "distinct (map fst (keyed_by key zs))" "\<forall>(k, c) \<in> set (keyed_by key zs). key c = k" for zs
    using keyed_by_ok [where key = key and xs = zs] by blast+
  have "js_get (keyed_by key xs) = lookup_row key xs"
    by (rule keyed_lookup [OF assms])
  then have "overlay key ys (lookup_row key xs) k = js_get (fold (\<lambda>c m. js_set (key c) c m) ys (keyed_by key xs)) k"
    using overlay_fold [of key ys "keyed_by key xs" k] by simp
  also have "\<dots> = lookup_row key (mergeByKey xs ys key) k"
    using lookup_keyed [OF m, of "xs @ ys" k] by (simp add: mergeByKey_def keyed_merge)
  finally show "lookup_row key (mergeByKey xs ys key) k = overlay key ys (lookup_row key xs) k"
    by simp
qed

locale bucket_store =
  fixes get :: "'s \<Rightarrow> string \<Rightarrow> 'v list"
    and save :: "string \<Rightarrow> 'v list \<Rightarrow> 's \<Rightarrow> 's"
    and delete :: "string \<Rightarrow> 's \<Rightarrow> 's"
    and key :: "'v \<Rightarrow> 'k"
  assumes get_save: "get (save a vs s) a' = (if a' = a then mergeByKey (get s a) vs key else get s a')"
    and get_delete: "get (delete a s) a' = (if a' = a then [] else get s a')"
begin

lemma rows_distinct:
  assumes "\<forall>a. distinct (map key (get s a))"
  shows "distinct (map key (get (save a vs s) a'))" and "distinct (map key (get (delete a s) a'))"
  using assms by (simp_all add: get_save get_delete merged_rows)

lemma rows_save:
  assumes "\<forall>a. distinct (map key (get s a))"
  shows "(\<lambda>a. lookup_row key (get (save a' vs s) a)) =
    (\<lambda>a. lookup_row key (get s a))(a' := overlay key vs (lookup_row key (get s a')))"
  using assms by (auto simp: get_save merged_lookup fun_eq_iff)

lemma rows_delete: "(\<lambda>a. lookup_row key (get (delete a' s) a)) = (\<lambda>a. lookup_row key (get s a))(a' := \<lambda>k. None)"
  by (auto simp: get_delete fun_eq_iff lookup_row_def)

end

lemma bucket_set: "stored_rows (js_set a b m) a' = (if a' = a then b else stored_rows m a')"
  by (simp add: stored_rows_def)

lemma bucket_delete: "stored_rows (js_delete a m) a' = (if a' = a then [] else stored_rows m a')"
  by (simp add: stored_rows_def)

interpretation vtxo_rows: bucket_store getVtxos saveVtxos deleteVtxos vtxoOutpoint
  by unfold_locales (simp_all add: getVtxos_def saveVtxos_def deleteVtxos_def bucket_set bucket_delete)

interpretation utxo_rows: bucket_store getUtxos "saveUtxos outpoint" deleteUtxos outpoint for outpoint :: "'u \<Rightarrow> string"
  by unfold_locales (simp_all add: getUtxos_def saveUtxos_def deleteUtxos_def bucket_set bucket_delete)

interpretation tx_rows: bucket_store getTransactionHistory saveTransactions deleteTransactions serializeTxKey
  by unfold_locales (simp_all add: getTransactionHistory_def saveTransactions_def deleteTransactions_def bucket_set bucket_delete)

section \<open>What the wallet repository implements\<close>

text \<open>A map from keys to rows per address and kind, and the wallet state.\<close>

record 'u wallet_maps =
  m_vtxos :: "string \<Rightarrow> string \<Rightarrow> VirtualCoin option"
  m_utxos :: "string \<Rightarrow> string \<Rightarrow> 'u option"
  m_txs :: "string \<Rightarrow> string \<Rightarrow> ArkTransaction option"
  m_state :: "WalletState option"

definition wallet_maps_of :: "('u \<Rightarrow> string) \<Rightarrow> 'u wallet_repo \<Rightarrow> 'u wallet_maps" where
  "wallet_maps_of outpoint r = \<lparr>m_vtxos = (\<lambda>a. lookup_row vtxoOutpoint (getVtxos r a)), m_utxos = (\<lambda>a. lookup_row outpoint (getUtxos r a)),
     m_txs = (\<lambda>a. lookup_row serializeTxKey (getTransactionHistory r a)), m_state = walletState r\<rparr>"

definition wallet_ok :: "('u \<Rightarrow> string) \<Rightarrow> 'u wallet_repo \<Rightarrow> bool" where
  "wallet_ok outpoint r \<longleftrightarrow> (\<forall>a. distinct (map vtxoOutpoint (getVtxos r a)) \<and> distinct (map outpoint (getUtxos r a)) \<and>
     distinct (map serializeTxKey (getTransactionHistory r a)))"

lemma other_rows:
  "getUtxos (saveVtxos a vs r) = getUtxos r" "getTransactionHistory (saveVtxos a vs r) = getTransactionHistory r"
  "getUtxos (deleteVtxos a r) = getUtxos r" "getTransactionHistory (deleteVtxos a r) = getTransactionHistory r"
  "getVtxos (saveUtxos k a us r) = getVtxos r" "getTransactionHistory (saveUtxos k a us r) = getTransactionHistory r"
  "getVtxos (deleteUtxos a r) = getVtxos r" "getTransactionHistory (deleteUtxos a r) = getTransactionHistory r"
  "getVtxos (saveTransactions a ts r) = getVtxos r" "getUtxos (saveTransactions a ts r) = getUtxos r"
  "getVtxos (deleteTransactions a r) = getVtxos r" "getUtxos (deleteTransactions a r) = getUtxos r"
  "getVtxos (saveWalletState w r) = getVtxos r" "getUtxos (saveWalletState w r) = getUtxos r"
  "getTransactionHistory (saveWalletState w r) = getTransactionHistory r"
  "walletState (saveVtxos a vs r) = walletState r" "walletState (deleteVtxos a r) = walletState r"
  "walletState (saveUtxos k a us r) = walletState r" "walletState (deleteUtxos a r) = walletState r"
  "walletState (saveTransactions a ts r) = walletState r" "walletState (deleteTransactions a r) = walletState r"
  "walletState (saveWalletState w r) = Some w"
  by (auto simp: getVtxos_def getUtxos_def getTransactionHistory_def saveVtxos_def deleteVtxos_def saveUtxos_def deleteUtxos_def
      saveTransactions_def deleteTransactions_def saveWalletState_def fun_eq_iff)

text \<open>The operations a client can ask for, and what each means for the maps.\<close>

datatype 'u wallet_op =
    SaveVtxos string "VirtualCoin list" | DeleteVtxos string | SaveUtxos string "'u list" | DeleteUtxos string
  | SaveTransactions string "ArkTransaction list" | DeleteTransactions string | SaveState WalletState | ClearWallet

fun run_op :: "('u \<Rightarrow> string) \<Rightarrow> 'u wallet_op \<Rightarrow> 'u wallet_repo \<Rightarrow> 'u wallet_repo" where
  "run_op outpoint (SaveVtxos a vs) r = saveVtxos a vs r"
| "run_op outpoint (DeleteVtxos a) r = deleteVtxos a r"
| "run_op outpoint (SaveUtxos a us) r = saveUtxos outpoint a us r"
| "run_op outpoint (DeleteUtxos a) r = deleteUtxos a r"
| "run_op outpoint (SaveTransactions a ts) r = saveTransactions a ts r"
| "run_op outpoint (DeleteTransactions a) r = deleteTransactions a r"
| "run_op outpoint (SaveState w) r = saveWalletState w r"
| "run_op outpoint ClearWallet r = clear_wallet"

fun spec_op :: "('u \<Rightarrow> string) \<Rightarrow> 'u wallet_op \<Rightarrow> 'u wallet_maps \<Rightarrow> 'u wallet_maps" where
  "spec_op outpoint (SaveVtxos a vs) m = m\<lparr>m_vtxos := (m_vtxos m)(a := overlay vtxoOutpoint vs (m_vtxos m a))\<rparr>"
| "spec_op outpoint (DeleteVtxos a) m = m\<lparr>m_vtxos := (m_vtxos m)(a := \<lambda>k. None)\<rparr>"
| "spec_op outpoint (SaveUtxos a us) m = m\<lparr>m_utxos := (m_utxos m)(a := overlay outpoint us (m_utxos m a))\<rparr>"
| "spec_op outpoint (DeleteUtxos a) m = m\<lparr>m_utxos := (m_utxos m)(a := \<lambda>k. None)\<rparr>"
| "spec_op outpoint (SaveTransactions a ts) m = m\<lparr>m_txs := (m_txs m)(a := overlay serializeTxKey ts (m_txs m a))\<rparr>"
| "spec_op outpoint (DeleteTransactions a) m = m\<lparr>m_txs := (m_txs m)(a := \<lambda>k. None)\<rparr>"
| "spec_op outpoint (SaveState w) m = m\<lparr>m_state := Some w\<rparr>"
| "spec_op outpoint ClearWallet m = \<lparr>m_vtxos = (\<lambda>a k. None), m_utxos = (\<lambda>a k. None), m_txs = (\<lambda>a k. None), m_state = None\<rparr>"

lemma run_op_refines:
  assumes "wallet_ok outpoint r"
  shows "wallet_ok outpoint (run_op outpoint x r) \<and> wallet_maps_of outpoint (run_op outpoint x r) = spec_op outpoint x (wallet_maps_of outpoint r)"
proof -
  have v: "\<forall>a. distinct (map vtxoOutpoint (getVtxos r a))" and u: "\<forall>a. distinct (map outpoint (getUtxos r a))"
    and t: "\<forall>a. distinct (map serializeTxKey (getTransactionHistory r a))"
    using assms by (auto simp: wallet_ok_def)
  note ok = vtxo_rows.rows_distinct [OF v] utxo_rows.rows_distinct [OF u] tx_rows.rows_distinct [OF t]
  note save = vtxo_rows.rows_save [OF v] utxo_rows.rows_save [OF u] tx_rows.rows_save [OF t]
    vtxo_rows.rows_delete utxo_rows.rows_delete tx_rows.rows_delete
  show ?thesis
  proof (cases x)
    case ClearWallet
    then show ?thesis
      by (simp add: wallet_ok_def wallet_maps_of_def clear_wallet_def getVtxos_def getUtxos_def getTransactionHistory_def stored_rows_def lookup_row_def
          fun_eq_iff)
  qed (use ok save v u t in \<open>simp_all add: wallet_ok_def wallet_maps_of_def other_rows\<close>)
qed

definition empty_maps :: "'u wallet_maps" where
  "empty_maps = \<lparr>m_vtxos = (\<lambda>a k. None), m_utxos = (\<lambda>a k. None), m_txs = (\<lambda>a k. None), m_state = None\<rparr>"

lemma runs_refine:
  "wallet_ok outpoint r \<Longrightarrow> wallet_ok outpoint (fold (run_op outpoint) ops r) \<and>
     wallet_maps_of outpoint (fold (run_op outpoint) ops r) = fold (spec_op outpoint) ops (wallet_maps_of outpoint r)"
  by (induction ops arbitrary: r) (simp_all add: run_op_refines)

lemma clear_wallet_ok: "wallet_ok outpoint clear_wallet" "wallet_maps_of outpoint clear_wallet = empty_maps"
  by (simp_all add: wallet_ok_def wallet_maps_of_def clear_wallet_def empty_maps_def getVtxos_def getUtxos_def getTransactionHistory_def
      stored_rows_def lookup_row_def fun_eq_iff)

text \<open>
  C8. The wallet repository is a map from keys to rows for every address and kind of row, and a wallet state. After any sequence of operations its
  content is what the same operations give on the maps, where saving overwrites key by key in the order of the rows, deleting clears an
  address, and nothing else changes; and reading an address lists exactly the rows of its map, each key once.
\<close>

theorem wallet_repository_refines:
  fixes ops :: "'u wallet_op list" and outpoint :: "'u \<Rightarrow> string"
  shows "let r = fold (run_op outpoint) ops clear_wallet; m = fold (spec_op outpoint) ops empty_maps in
    wallet_maps_of outpoint r = m \<and>
    (\<forall>a. distinct (map vtxoOutpoint (getVtxos r a)) \<and> distinct (map outpoint (getUtxos r a)) \<and>
       distinct (map serializeTxKey (getTransactionHistory r a))) \<and>
    (\<forall>a v. v \<in> set (getVtxos r a) \<longleftrightarrow> m_vtxos m a (vtxoOutpoint v) = Some v) \<and>
    (\<forall>a u. u \<in> set (getUtxos r a) \<longleftrightarrow> m_utxos m a (outpoint u) = Some u) \<and>
    (\<forall>a t. t \<in> set (getTransactionHistory r a) \<longleftrightarrow> m_txs m a (serializeTxKey t) = Some t) \<and>
    walletState r = m_state m"
proof -
  let ?r = "fold (run_op outpoint) ops clear_wallet" and ?m = "fold (spec_op outpoint) ops (empty_maps :: 'u wallet_maps)"
  have ok: "wallet_ok outpoint ?r" and maps: "wallet_maps_of outpoint ?r = ?m"
    using runs_refine [OF clear_wallet_ok(1), of outpoint ops] clear_wallet_ok(2) [of outpoint] by simp_all
  have rows: "m_vtxos ?m a k = lookup_row vtxoOutpoint (getVtxos ?r a) k" "m_utxos ?m a k = lookup_row outpoint (getUtxos ?r a) k"
      "m_txs ?m a k = lookup_row serializeTxKey (getTransactionHistory ?r a) k" "m_state ?m = walletState ?r" for a k
    unfolding maps [symmetric] by (simp_all add: wallet_maps_of_def)
  show ?thesis
    using ok unfolding Let_def rows wallet_ok_def by (simp add: maps lookup_distinct)
qed

section \<open>Rows by script\<close>

lemma warned_rows: "fst (warnAndFilterVtxosForScript vs script) = filterVtxosForScript vs script"
  by (induction vs) (auto simp: filterVtxosForScript_def split: prod.splits)

lemma merged_from_nil: "mergeByKey [] xs key = map snd (keyed_by key xs)"
  by (simp add: mergeByKey_def keyed_by_def)

lemma script_read:
  "v \<in> set (getVtxosForScript r script) \<Longrightarrow> isVtxoForScript v script \<and> (\<exists>(a, b) \<in> set (vtxosByAddress r). v \<in> set b)"
  "distinct (map vtxoOutpoint (getVtxosForScript r script))"
  "(a, b) \<in> set (vtxosByAddress r) \<Longrightarrow> w \<in> set b \<Longrightarrow> isVtxoForScript w script \<Longrightarrow>
     vtxoOutpoint w \<in> vtxoOutpoint ` set (getVtxosForScript r script)"
proof -
  let ?rows = "concat (map (\<lambda>(_, b). filter (\<lambda>v. isVtxoForScript v script) b) (vtxosByAddress r))"
  note k = keyed_by_ok [where key = vtxoOutpoint and xs = ?rows]
  show "isVtxoForScript v script \<and> (\<exists>(a, b) \<in> set (vtxosByAddress r). v \<in> set b)" if "v \<in> set (getVtxosForScript r script)"
    using that k(3) by (fastforce simp: getVtxosForScript_def merged_from_nil)
  show "distinct (map vtxoOutpoint (getVtxosForScript r script))"
    by (simp add: getVtxosForScript_def merged_rows)
  show "vtxoOutpoint w \<in> vtxoOutpoint ` set (getVtxosForScript r script)"
    if "(a, b) \<in> set (vtxosByAddress r)" "w \<in> set b" "isVtxoForScript w script"
  proof -
    have "w \<in> set ?rows"
      using that by auto
    then have "vtxoOutpoint w \<in> set (map fst (keyed_by vtxoOutpoint ?rows))"
      using k(2) by simp
    then show ?thesis
      using k(3) by (auto simp: getVtxosForScript_def merged_from_nil image_image) (metis image_eqI snd_conv)
  qed
qed

lemma deleted_bucket:
  assumes "distinct (map fst m)"
  shows "stored_rows (fold (\<lambda>(address, b) m. let keep = filter P b in if keep = [] then js_delete address m else js_set address keep m) m m') a =
    (case js_get m a of None \<Rightarrow> stored_rows m' a | Some b \<Rightarrow> filter P b)"
  using assms
proof (induction m arbitrary: m')
  case (Cons x m)
  obtain address b where x: "x = (address, b)" by force
  have "js_get m address = None"
    using Cons.prems by (simp add: js_get_None x)
  then show ?case
    using Cons by (auto simp: x Let_def bucket_set bucket_delete split: option.splits)
qed simp

text \<open>
  C38. Reads and writes by script never mix scripts. A write for a contract is refused unless every row carries that contract's script, and
  otherwise is the write of its address; a read by script lists rows of that script only, each outpoint once, and every outpoint some
  address holds for it; deleting a script removes exactly its rows from every address.
\<close>

theorem script_rows_owned:
  assumes "distinct (map fst (vtxosByAddress r))"
  shows "(\<forall>scoped c vs r'. saveVtxosForContract scoped c vs r = Inr r' \<longrightarrow>
      (\<forall>v \<in> set vs. coin_script v = c_script c \<and> c_script c \<noteq> []) \<and> r' = saveVtxos (c_address c) vs r) \<and>
    (\<forall>v \<in> set (getVtxosForScript r script). coin_script v = script) \<and>
    distinct (map vtxoOutpoint (getVtxosForScript r script)) \<and>
    (\<forall>a. \<forall>v \<in> set (getVtxos r a). isVtxoForScript v script \<longrightarrow> vtxoOutpoint v \<in> vtxoOutpoint ` set (getVtxosForScript r script)) \<and>
    (\<forall>a. getVtxos (deleteVtxosForScript script r) a = filter (\<lambda>v. \<not> isVtxoForScript v script) (getVtxos r a))"
proof -
  have owned: "(\<forall>v \<in> set vs. coin_script v = c_script c \<and> c_script c \<noteq> []) \<and> r' = saveVtxos (c_address c) vs r"
    if "saveVtxosForContract scoped c vs r = Inr r'" for scoped c vs r'
    using that by (auto simp: saveVtxosForContract_def saveVtxosForScript_def validateVtxosForScript_def r_require_def isVtxoForScript_def
        filter_empty_conv Let_def split: if_splits)
  have rows: "\<exists>b. (a, b) \<in> set (vtxosByAddress r) \<and> v \<in> set b" if "v \<in> set (getVtxos r a)" for a v
    using that assms by (cases "js_get (vtxosByAddress r) a") (auto simp: getVtxos_def stored_rows_def js_get_in)
  have delete: "getVtxos (deleteVtxosForScript script r) a = filter (\<lambda>v. \<not> isVtxoForScript v script) (getVtxos r a)" for a
    using deleted_bucket [OF assms, of "\<lambda>v. \<not> isVtxoForScript v script" "vtxosByAddress r" a]
    by (auto simp: getVtxos_def deleteVtxosForScript_def stored_rows_def split: option.splits)
  show ?thesis
    using owned delete script_read(2) [of r script]
    by (intro conjI) (blast, fastforce dest!: script_read(1) simp: isVtxoForScript_def, simp, metis rows script_read(3), simp)
qed

section \<open>What the repository of virtual transactions implements\<close>

record virtual_maps =
  vm_txs :: "string \<Rightarrow> VirtualTx option"
  vm_branches :: "string \<Rightarrow> VtxoBranch list"

definition virtual_maps_of :: "virtual_tx_repo \<Rightarrow> virtual_maps" where
  "virtual_maps_of r = \<lparr>vm_txs = js_get (vr_txs r), vm_branches = stored_rows (vr_branches r)\<rparr>"

definition branch_txs :: "VtxoBranch list \<Rightarrow> string set" where
  "branch_txs b = vb_virtualTxid ` set b"

datatype virtual_op = UpsertTxs "VirtualTx list" | SetBranch string "VtxoBranch list" | PruneVtxo string

fun run_virtual :: "virtual_op \<Rightarrow> virtual_tx_repo \<Rightarrow> virtual_tx_repo" where
  "run_virtual (UpsertTxs ts) r = upsertVirtualTxs ts r"
| "run_virtual (SetBranch o' b) r = setBranch o' b r"
| "run_virtual (PruneVtxo o') r = pruneForSpentVtxo o' r"

text \<open>Pruning forgets the branch of the output, and the transactions that no other branch uses.\<close>

fun spec_virtual :: "virtual_op \<Rightarrow> virtual_maps \<Rightarrow> virtual_maps" where
  "spec_virtual (UpsertTxs ts) m = m\<lparr>vm_txs := fold (\<lambda>t f. f(vt_txid t \<mapsto> merge_virtual_tx t (f (vt_txid t)))) ts (vm_txs m)\<rparr>"
| "spec_virtual (SetBranch o' b) m = m\<lparr>vm_branches := (vm_branches m)(o' := sort_key vb_position b)\<rparr>"
| "spec_virtual (PruneVtxo o') m = m\<lparr>vm_branches := (vm_branches m)(o' := []),
     vm_txs := (\<lambda>t. if t \<in> branch_txs (vm_branches m o') \<and> (\<forall>p. p \<noteq> o' \<longrightarrow> t \<notin> branch_txs (vm_branches m p)) then None
                    else vm_txs m t)\<rparr>"

definition virtual_ok :: "virtual_tx_repo \<Rightarrow> bool" where
  "virtual_ok r \<longleftrightarrow> distinct (map fst (vr_txs r)) \<and> distinct (map fst (vr_branches r))"

lemma upsert_maps:
  "distinct (map fst m) \<Longrightarrow> distinct (map fst (fold (\<lambda>t m. js_set (vt_txid t) (merge_virtual_tx t (js_get m (vt_txid t))) m) ts m))"
  "js_get (fold (\<lambda>t m. js_set (vt_txid t) (merge_virtual_tx t (js_get m (vt_txid t))) m) ts m) =
     fold (\<lambda>t f. f(vt_txid t \<mapsto> merge_virtual_tx t (f (vt_txid t)))) ts (js_get m)"
proof (induction ts arbitrary: m)
  case (Cons t ts)
  {
    case 1
    then show ?case
      using Cons.IH(1) [OF distinct_js_set [OF 1]] by simp
  next
    case 2
    have "js_get (js_set (vt_txid t) v m) = (js_get m)(vt_txid t \<mapsto> v)" for v
      by auto
    then show ?case
      using Cons.IH(2) by simp
  }
qed simp_all

lemma prune_loop:
  "distinct (map fst m) \<Longrightarrow> distinct (map fst (fold (\<lambda>e m. if vb_virtualTxid e \<notin> S then js_delete (vb_virtualTxid e) m else m) es m))"
  "js_get (fold (\<lambda>e m. if vb_virtualTxid e \<notin> S then js_delete (vb_virtualTxid e) m else m) es m) t =
     (if t \<in> branch_txs es \<and> t \<notin> S then None else js_get m t)"
  by (induction es arbitrary: m) (auto simp: branch_txs_def distinct_js_delete)

lemma referenced:
  assumes "distinct (map fst m)"
  shows "set (concat (map (\<lambda>(_, b). map vb_virtualTxid b) m)) = (\<Union>p. branch_txs (stored_rows m p))"
proof -
  have "b = stored_rows m p" if "(p, b) \<in> set m" for p b
    using that assms js_get_in [OF assms, of p b] by (simp add: stored_rows_def)
  moreover have "(p, stored_rows m p) \<in> set m \<or> stored_rows m p = []" for p
    using js_get_in [OF assms, of p] by (cases "js_get m p") (auto simp: stored_rows_def)
  ultimately show ?thesis
    by (fastforce simp: branch_txs_def)
qed

lemma run_virtual_refines:
  assumes "virtual_ok r"
  shows "virtual_ok (run_virtual x r) \<and> virtual_maps_of (run_virtual x r) = spec_virtual x (virtual_maps_of r)"
proof (cases x)
  case (UpsertTxs ts)
  then show ?thesis
    using assms upsert_maps by (simp add: virtual_ok_def virtual_maps_of_def upsertVirtualTxs_def)
next
  case (SetBranch p b)
  have "stored_rows (js_set p c m) = (stored_rows m)(p := c)" for c :: "VtxoBranch list" and m
    by (auto simp: bucket_set)
  then show ?thesis
    using assms SetBranch by (simp add: virtual_ok_def virtual_maps_of_def setBranch_def distinct_js_set)
next
  case (PruneVtxo p)
  have d: "distinct (map fst (js_delete p (vr_branches r)))"
    using assms by (simp add: virtual_ok_def distinct_js_delete)
  have b: "stored_rows (js_delete p (vr_branches r)) = (stored_rows (vr_branches r))(p := [])"
    by (auto simp: bucket_delete)
  define S where "S = set (concat (map (\<lambda>(_, b). map vb_virtualTxid b) (js_delete p (vr_branches r))))"
  have mem: "t \<notin> S \<longleftrightarrow> (\<forall>q. q \<noteq> p \<longrightarrow> t \<notin> branch_txs (stored_rows (vr_branches r) q))" for t
    unfolding S_def referenced [OF d] b by (auto simp: branch_txs_def)
  have txs: "vr_txs (pruneForSpentVtxo p r) =
      fold (\<lambda>e m. if vb_virtualTxid e \<notin> S then js_delete (vb_virtualTxid e) m else m) (stored_rows (vr_branches r) p) (vr_txs r)"
    and branches: "vr_branches (pruneForSpentVtxo p r) = js_delete p (vr_branches r)"
    by (simp_all add: pruneForSpentVtxo_def S_def Let_def)
  have got: "js_get (vr_txs (pruneForSpentVtxo p r)) = (\<lambda>t. if t \<in> branch_txs (stored_rows (vr_branches r) p) \<and>
      (\<forall>q. q \<noteq> p \<longrightarrow> t \<notin> branch_txs (stored_rows (vr_branches r) q)) then None else js_get (vr_txs r) t)"
    unfolding txs mem [symmetric] by (simp add: fun_eq_iff prune_loop(2))
  have "distinct (map fst (vr_txs (pruneForSpentVtxo p r)))"
    unfolding txs using assms prune_loop(1) [of "vr_txs r" S] by (simp add: virtual_ok_def)
  then show ?thesis
    using d PruneVtxo by (simp add: virtual_ok_def virtual_maps_of_def got branches b cong: if_cong)
qed

definition empty_virtual :: virtual_tx_repo where
  "empty_virtual = \<lparr>vr_txs = [], vr_branches = []\<rparr>"

lemma virtual_runs_refine:
  "virtual_ok r \<Longrightarrow> virtual_ok (fold run_virtual ops r) \<and>
     virtual_maps_of (fold run_virtual ops r) = fold spec_virtual ops (virtual_maps_of r)"
  by (induction ops arbitrary: r) (simp_all add: run_virtual_refines)

lemma map_filter_agree: "(\<And>x. x \<in> set xs \<Longrightarrow> f x = g x) \<Longrightarrow> List.map_filter f xs = List.map_filter g xs"
  by (induction xs) (auto simp: List.map_filter_simps split: option.splits)

text \<open>The transactions of another output's branch survive the pruning of a spent one.\<close>

lemma prune_keeps_branch:
  assumes "virtual_ok r"
  shows "getBranch (pruneForSpentVtxo p r) q = (if q = p then [] else getBranch r q)"
proof -
  have maps: "virtual_maps_of (pruneForSpentVtxo p r) = spec_virtual (PruneVtxo p) (virtual_maps_of r)"
    using run_virtual_refines [OF assms, of "PruneVtxo p"] by simp
  have txs: "js_get (vr_txs (pruneForSpentVtxo p r)) = vm_txs (spec_virtual (PruneVtxo p) (virtual_maps_of r))"
    and branches: "stored_rows (vr_branches (pruneForSpentVtxo p r)) = (stored_rows (vr_branches r))(p := [])"
    using arg_cong [OF maps, of vm_txs] arg_cong [OF maps, of vm_branches] by (simp_all add: virtual_maps_of_def)
  have "js_get (vr_txs (pruneForSpentVtxo p r)) (vb_virtualTxid x) = js_get (vr_txs r) (vb_virtualTxid x)"
    if "x \<in> set (stored_rows (vr_branches r) q)" "q \<noteq> p" for x
  proof -
    have "vb_virtualTxid x \<in> branch_txs (stored_rows (vr_branches r) q)"
      using that by (simp add: branch_txs_def)
    then show ?thesis
      using that by (auto simp: txs virtual_maps_of_def)
  qed
  then show ?thesis
    by (auto simp: getBranch_def branches intro!: map_filter_agree)
qed


section \<open>The sync cursor\<close>

definition setting_of :: "'u wallet_repo \<Rightarrow> string \<Rightarrow> setting option" where
  "setting_of r k = (case walletState r of None \<Rightarrow> None | Some s \<Rightarrow> js_get (or_default (ws_settings s) []) k)"

lemma cursor_advanced:
  "getSyncCursor (advanceSyncCursor t r) = max (getSyncCursor r) t"
  "setting_of (advanceSyncCursor t r) k = (if k = CURSOR_MIGRATED_KEY then Some (Flag True) else setting_of r k)"
  "wallet_maps_of outpoint (advanceSyncCursor t r) = (wallet_maps_of outpoint r)\<lparr>m_state := walletState (advanceSyncCursor t r)\<rparr>"
  by (auto simp: getSyncCursor_def advanceSyncCursor_def updateWalletState_def saveWalletState_def hasMigrationMarker_def no_state_def
      setting_of_def Let_def wallet_maps_of_def getVtxos_def getUtxos_def getTransactionHistory_def split: option.splits)

lemma cursor_cleared:
  "getSyncCursor (clearSyncCursor r) = 0"
  "setting_of (clearSyncCursor r) k = (if k = CURSOR_MIGRATED_KEY then None else setting_of r k)"
  by (auto simp: getSyncCursor_def clearSyncCursor_def updateWalletState_def saveWalletState_def hasMigrationMarker_def no_state_def
      setting_of_def Let_def split: option.splits)

lemma cursor_never_rewinds:
  "getSyncCursor (fold advanceSyncCursor ts r) = fold max ts (getSyncCursor r)"
  by (induction ts arbitrary: r) (simp_all add: cursor_advanced(1) max.commute)

definition sample_rows :: "unit wallet_repo" where
  "sample_rows = \<lparr>vtxosByAddress = [(''ark1'', [sample_coin ''aa'' 0, sample_coin ''bb'' 0]), (''ark2'', [sample_coin ''aa'' 1])],
     utxosByAddress = [], txsByAddress = [], walletState = None\<rparr>"

lemma sample_rows_script: "isVtxoForScript (sample_coin tx n) s \<longleftrightarrow> tx \<noteq> [] \<and> tx = s"
  by (simp add: isVtxoForScript_def sample_coin_def convertVtxo_def Let_def)

theorem script_rows_owned_witness:
  "getVtxos (deleteVtxosForScript ''aa'' sample_rows) ''ark1'' = [sample_coin ''bb'' 0] \<and>
   getVtxos (deleteVtxosForScript ''aa'' sample_rows) ''ark2'' = [] \<and>
   vtxoOutpoint (sample_coin ''aa'' 1) \<in> vtxoOutpoint ` set (getVtxosForScript sample_rows ''aa'')"
proof -
  have "distinct (map fst (vtxosByAddress sample_rows))"
    by (simp add: sample_rows_def)
  note rows = script_rows_owned [OF this, of "''aa''"]
  have stored: "getVtxos sample_rows ''ark1'' = [sample_coin ''aa'' 0, sample_coin ''bb'' 0]" "getVtxos sample_rows ''ark2'' = [sample_coin ''aa'' 1]"
    by (simp_all add: getVtxos_def sample_rows_def stored_rows_def)
  have deleted: "getVtxos (deleteVtxosForScript ''aa'' sample_rows) a = filter (\<lambda>v. \<not> isVtxoForScript v ''aa'') (getVtxos sample_rows a)" for a
    using rows by blast
  have "\<forall>v \<in> set (getVtxos sample_rows ''ark2''). isVtxoForScript v ''aa'' \<longrightarrow> vtxoOutpoint v \<in> vtxoOutpoint ` set (getVtxosForScript sample_rows ''aa'')"
    using rows by blast
  then show ?thesis
    by (simp add: deleted stored sample_rows_script)
qed

end
