(* ===== verification/Exit_Chain.thy ===== *)
theory Exit_Chain
  imports Repositories Js_Number
begin

text \<open>
  The order of a unilateral exit: \<open>wallet/exit/chain.ts\<close>. \<open>buildExitDag\<close> merges the ancestor chains of the virtual outputs
  into one graph and sorts it by Kahn's algorithm; \<open>topoSortByDeps\<close> sorts the finalized transactions by their real inputs.

  Both are measured against one specification: \<open>deps_first\<close> says that in a list every dependency of an item that the list
  produces is produced before the item. Each sort is shown to keep its items, to establish \<open>deps_first\<close>, and to fail exactly when the
  dependencies have a cycle. \<open>localeCompare\<close> and the default order of \<open>sort\<close> are the order of code units, which is what they
  are on transaction ids (lower case hexadecimal) and outpoints.
\<close>

section \<open>Dependencies before dependents\<close>

definition deps_first :: "('a \<Rightarrow> string) \<Rightarrow> ('a \<Rightarrow> string list) \<Rightarrow> string set \<Rightarrow> 'a list \<Rightarrow> bool" where
  "deps_first idOf depsOf P xs \<longleftrightarrow> (\<forall>i < length xs. set (depsOf (xs ! i)) \<inter> P \<subseteq> idOf ` set (take i xs))"

text \<open>The edges from a produced dependency to the item that has it.\<close>

definition dep_edges :: "('a \<Rightarrow> string) \<Rightarrow> ('a \<Rightarrow> string list) \<Rightarrow> 'a list \<Rightarrow> (string \<times> string) set" where
  "dep_edges idOf depsOf xs = {(d, idOf x) | d x. x \<in> set xs \<and> d \<in> set (depsOf x) \<and> d \<in> idOf ` set xs}"

lemma deps_first_Nil [simp]: "deps_first idOf depsOf P []"
  by (simp add: deps_first_def)

lemma deps_first_snoc [simp]:
  "deps_first idOf depsOf P (xs @ [x]) \<longleftrightarrow> deps_first idOf depsOf P xs \<and> set (depsOf x) \<inter> P \<subseteq> idOf ` set xs"
  by (auto simp: deps_first_def less_Suc_eq nth_append)

lemma deps_first_acyclic:
  assumes "deps_first idOf depsOf (idOf ` set xs) xs" and "distinct (map idOf xs)"
  shows "acyclic (dep_edges idOf depsOf xs)"
proof -
  define rank where "rank = (\<lambda>k. THE i. i < length xs \<and> idOf (xs ! i) = k)"
  have rank: "rank (idOf (xs ! i)) = i" if "i < length xs" for i
    unfolding rank_def using that assms(2) by (intro the_equality) (auto simp: distinct_conv_nth)
  have "rank d < rank e" if "(d, e) \<in> dep_edges idOf depsOf xs" for d e
  proof -
    obtain x where x: "x \<in> set xs" "e = idOf x" "d \<in> set (depsOf x)" "d \<in> idOf ` set xs"
      using \<open>(d, e) \<in> dep_edges idOf depsOf xs\<close> by (auto simp: dep_edges_def)
    then obtain i where i: "i < length xs" "x = xs ! i"
      by (auto simp: in_set_conv_nth)
    then have "d \<in> idOf ` set (take i xs)"
      using assms(1) x unfolding deps_first_def by blast
    then obtain j where "j < i" "d = idOf (xs ! j)"
      by (auto simp: in_set_conv_nth)
    then show ?thesis
      using i x rank [of j] rank [of i] by simp
  qed
  then have "dep_edges idOf depsOf xs \<subseteq> measure rank"
    by auto
  then show ?thesis
    using wf_subset [OF wf_measure] wf_acyclic by blast
qed

lemma finite_dep_edges: "finite (dep_edges idOf depsOf xs)"
proof -
  have "dep_edges idOf depsOf xs \<subseteq> (idOf ` set xs) \<times> (idOf ` set xs)"
    by (auto simp: dep_edges_def)
  then show ?thesis
    by (rule finite_subset) simp
qed

text \<open>In a graph without cycles every non-empty set of ids has one all of whose dependencies lie outside it.\<close>

lemma minimal_id:
  assumes "acyclic (dep_edges idOf depsOf xs)" and "k \<in> K" and "K \<subseteq> idOf ` set xs"
  obtains k where "k \<in> K" and "\<And>x d. x \<in> set xs \<Longrightarrow> idOf x = k \<Longrightarrow> d \<in> set (depsOf x) \<Longrightarrow> d \<in> idOf ` set xs \<Longrightarrow> d \<notin> K"
proof -
  have "wf (dep_edges idOf depsOf xs)"
    using assms(1) finite_dep_edges by (rule finite_acyclic_wf [rotated])
  then obtain m where "m \<in> K" "\<forall>d. (d, m) \<in> dep_edges idOf depsOf xs \<longrightarrow> d \<notin> K"
    using assms(2) by (metis wfE_min)
  then show ?thesis
    by (intro that [of m]) (auto simp: dep_edges_def)
qed

section \<open>Sorting by real inputs\<close>

datatype 'e exit_err = SourceErr 'e | NoSource | CycleDetected

fun topo_pass :: "('a \<Rightarrow> string) \<Rightarrow> ('a \<Rightarrow> string list) \<Rightarrow> string set \<Rightarrow> 'a list \<Rightarrow> 'a list \<times> string set \<times> 'a list \<times> bool
     \<Rightarrow> 'a list \<times> string set \<times> 'a list \<times> bool" where
  "topo_pass idOf depsOf produced [] s = s"
| "topo_pass idOf depsOf produced (item # items) (ordered, emitted, nxt, progress) =
     topo_pass idOf depsOf produced items
       (if \<forall>d \<in> set (depsOf item). d \<notin> produced \<or> d \<in> emitted
        then (ordered @ [item], insert (idOf item) emitted, nxt, True)
        else (ordered, emitted, nxt @ [item], progress))"

lemma topo_pass_length:
  "topo_pass idOf depsOf produced items (ordered, emitted, nxt, progress) = (ordered', emitted', nxt', progress') \<Longrightarrow>
     length nxt' \<le> length nxt + length items \<and> (progress' \<longrightarrow> progress \<or> length nxt' < length nxt + length items)"
proof (induction items arbitrary: ordered emitted nxt progress)
  case (Cons item items)
  then show ?case
    by (simp split: if_splits) (drule Cons.IH, force)+
qed simp

function topo_loop :: "('a \<Rightarrow> string) \<Rightarrow> ('a \<Rightarrow> string list) \<Rightarrow> string set \<Rightarrow> 'a list \<Rightarrow> 'a list \<Rightarrow> string set \<Rightarrow> 'e exit_err + 'a list" where
  "topo_loop idOf depsOf produced left ordered emitted =
     (if left = [] then Inr ordered
      else let (ordered', emitted', nxt, progress) = topo_pass idOf depsOf produced left (ordered, emitted, [], False) in
        if \<not> progress then Inl CycleDetected else topo_loop idOf depsOf produced nxt ordered' emitted')"
  by pat_completeness auto
termination
  by (relation "measure (\<lambda>(_, _, _, left, _, _). length left)") (auto dest!: topo_pass_length [OF sym])

declare topo_loop.simps [simp del]

definition topoSortByDeps :: "'a list \<Rightarrow> ('a \<Rightarrow> string) \<Rightarrow> ('a \<Rightarrow> string list) \<Rightarrow> 'e exit_err + 'a list" where
  "topoSortByDeps items idOf depsOf = topo_loop idOf depsOf (idOf ` set items) items [] {}"

text \<open>What a pass keeps: the items, the emitted ids and the order; what it makes progress on.\<close>

lemma topo_pass_ok:
  assumes "topo_pass idOf depsOf produced items (ordered, emitted, nxt, progress) = (ordered', emitted', nxt', progress')"
    and "emitted = idOf ` set ordered" and "deps_first idOf depsOf produced ordered"
  shows "emitted' = idOf ` set ordered' \<and> deps_first idOf depsOf produced ordered' \<and>
    mset ordered' + mset nxt' = mset ordered + mset items + mset nxt"
  using assms
proof (induction items arbitrary: ordered emitted nxt progress)
  case (Cons item items)
  show ?case
  proof (cases "\<forall>d \<in> set (depsOf item). d \<notin> produced \<or> d \<in> emitted")
    case True
    then have run: "topo_pass idOf depsOf produced items (ordered @ [item], insert (idOf item) emitted, nxt, True) =
        (ordered', emitted', nxt', progress')"
      using Cons.prems(1) by simp
    have ids: "insert (idOf item) emitted = idOf ` set (ordered @ [item])"
      using Cons.prems(2) by simp
    have first: "deps_first idOf depsOf produced (ordered @ [item])"
      using Cons.prems(2,3) True by auto
    show ?thesis
      using Cons.IH [OF run ids first] by (simp add: ac_simps)
  next
    case False
    have run: "topo_pass idOf depsOf produced items (ordered, emitted, nxt @ [item], progress) = (ordered', emitted', nxt', progress')"
      using Cons.prems(1) unfolding topo_pass.simps if_not_P [OF False] .
    show ?thesis
      using Cons.IH [OF run Cons.prems(2,3)] by (simp add: ac_simps)
  qed
qed simp

lemma topo_pass_stuck:
  "topo_pass idOf depsOf produced items (ordered, emitted, nxt, progress) = (ordered', emitted', nxt', False) \<Longrightarrow>
     \<not> progress \<and> (\<forall>x \<in> set items. \<exists>d \<in> set (depsOf x). d \<in> produced \<and> d \<notin> emitted)"
proof (induction items arbitrary: ordered emitted nxt progress)
  case (Cons item items)
  then show ?case
    by (fastforce split: if_splits)
qed simp

lemma topo_loop_sound:
  assumes "topo_loop idOf depsOf produced left ordered emitted = (Inr result :: 'e exit_err + 'a list)"
    and "emitted = idOf ` set ordered" and "deps_first idOf depsOf produced ordered"
  shows "deps_first idOf depsOf produced result \<and> mset result = mset ordered + mset left"
  using assms
proof (induction idOf depsOf produced left ordered emitted rule: topo_loop.induct)
  case (1 idOf depsOf produced left ordered emitted)
  show ?case
  proof (cases "left = []")
    case False
    obtain ordered' emitted' nxt progress
      where p: "topo_pass idOf depsOf produced left (ordered, emitted, [], False) = (ordered', emitted', nxt, progress)"
      by (metis prod_cases4)
    have "progress" and r: "topo_loop idOf depsOf produced nxt ordered' emitted' = (Inr result :: 'e exit_err + 'a list)"
      using "1.prems"(1) False p by (auto simp: topo_loop.simps [of idOf depsOf produced left] split: if_splits)
    show ?thesis
      using "1.IH" [OF False p [symmetric] refl refl refl _ r] \<open>progress\<close> topo_pass_ok [OF p "1.prems"(2,3)] by (simp add: ac_simps)
  qed (use 1 in \<open>simp add: topo_loop.simps\<close>)
qed

text \<open>The loop only stops where a cycle keeps it.\<close>

lemma topo_loop_stuck:
  assumes "topo_loop idOf depsOf (idOf ` set items) left ordered emitted = (Inl e :: 'e exit_err + 'a list)"
    and "emitted = idOf ` set ordered" and "deps_first idOf depsOf (idOf ` set items) ordered" and "mset ordered + mset left = mset items"
  shows "e = CycleDetected \<and> \<not> acyclic (dep_edges idOf depsOf items)"
  using assms
proof (induction idOf depsOf "idOf ` set items" left ordered emitted rule: topo_loop.induct)
  case (1 idOf depsOf left ordered emitted)
  have nonempty: "left \<noteq> []"
    using "1.prems"(1) by (auto simp: topo_loop.simps)
  obtain ordered' emitted' nxt progress
    where p: "topo_pass idOf depsOf (idOf ` set items) left (ordered, emitted, [], False) = (ordered', emitted', nxt, progress)"
    by (metis prod_cases4)
  note ok = topo_pass_ok [OF p "1.prems"(2,3)]
  show ?case
  proof (cases progress)
    case True
    then have r: "topo_loop idOf depsOf (idOf ` set items) nxt ordered' emitted' = (Inl e :: 'e exit_err + 'a list)"
      using "1.prems"(1) nonempty p by (simp add: topo_loop.simps [of idOf depsOf _ left])
    show ?thesis
      using "1.hyps" [OF nonempty p [symmetric] refl refl refl _ r] True ok "1.prems"(4) by (simp add: ac_simps)
  next
    case False
    then have stuck: "\<forall>x \<in> set left. \<exists>d \<in> set (depsOf x). d \<in> idOf ` set items \<and> d \<notin> emitted"
      using topo_pass_stuck [of idOf depsOf _ left ordered emitted "[]" False] p by simp
    have sets: "set items = set ordered \<union> set left"
      using "1.prems"(4) by (metis set_mset_mset set_mset_union)
    have "\<not> acyclic (dep_edges idOf depsOf items)"
    proof
      assume acyclic: "acyclic (dep_edges idOf depsOf items)"
      obtain x where "x \<in> set left"
        using nonempty by (cases left) auto
      then obtain d where "d \<in> idOf ` set items - emitted"
        using stuck by blast
      then obtain k where k: "k \<in> idOf ` set items - emitted" and
        min: "\<And>x d. x \<in> set items \<Longrightarrow> idOf x = k \<Longrightarrow> d \<in> set (depsOf x) \<Longrightarrow> d \<in> idOf ` set items \<Longrightarrow> d \<notin> idOf ` set items - emitted"
        using minimal_id [OF acyclic] by (metis Diff_subset)
      then obtain y where "y \<in> set left" "idOf y = k"
        using "1.prems"(2) sets by auto
      then show False
        using stuck min sets by blast
    qed
    then show ?thesis
      using "1.prems"(1) nonempty p False by (simp add: topo_loop.simps [of idOf depsOf _ left])
  qed
qed

lemma topo_sort:
  "topoSortByDeps items idOf depsOf = (Inr result :: 'e exit_err + 'a list) \<Longrightarrow> deps_first idOf depsOf (idOf ` set items) result \<and> mset result = mset items"
  "topoSortByDeps items idOf depsOf = (Inl e :: 'e exit_err + 'a list) \<Longrightarrow> e = CycleDetected \<and> \<not> acyclic (dep_edges idOf depsOf items)"
  using topo_loop_sound [of idOf depsOf _ items "[]" "{}" result] topo_loop_stuck [of idOf depsOf items items "[]" "{}" e]
  by (simp_all add: topoSortByDeps_def)

lemma topo_sort_fails_iff:
  assumes "distinct (map idOf items)"
  shows "topoSortByDeps items idOf depsOf = (Inl CycleDetected :: 'e exit_err + 'a list) \<longleftrightarrow> \<not> acyclic (dep_edges idOf depsOf items)"
proof (cases "topoSortByDeps items idOf depsOf :: 'e exit_err + 'a list")
  case (Inr result)
  then have ok: "deps_first idOf depsOf (idOf ` set items) result" "mset result = mset items"
    using topo_sort(1) by blast+
  then have "set result = set items" and "distinct (map idOf result)"
    using assms mset_eq_setD by (blast, metis mset_eq_imp_distinct_iff mset_map)
  then show ?thesis
    using deps_first_acyclic [of idOf depsOf result] ok Inr by (simp add: dep_edges_def)
qed (use topo_sort(2) in auto)

section \<open>The graph of the chains\<close>

datatype ChainTxType = UNSPECIFIED | COMMITMENT | ARK | TREE | CHECKPOINT

record ChainTx =
  ct_txid :: string
  ct_expiresAt :: string
  ct_type :: ChainTxType
  ct_spends :: "string list"

record dag_entry =
  de_tx :: ChainTx
  de_forVtxos :: "string list"

record DagNode =
  dn_txid :: string
  dn_type :: ChainTxType
  dn_expiresAt :: "int option"
  dn_forVtxos :: "string list"
  dn_confirmed :: bool

definition isCommitment :: "ChainTxType \<Rightarrow> bool" where
  "isCommitment t \<longleftrightarrow> t = COMMITMENT \<or> t = UNSPECIFIED"

fun localeCompare :: "string \<Rightarrow> string \<Rightarrow> int" where
  "localeCompare [] [] = 0"
| "localeCompare [] (d # t) = - 1"
| "localeCompare (c # s) [] = 1"
| "localeCompare (c # s) (d # t) =
     (if (of_char c :: nat) < of_char d then - 1 else if (of_char d :: nat) < of_char c then 1 else localeCompare s t)"

definition outpoint_str :: "Outpoint \<Rightarrow> string" where
  "outpoint_str p = op_txid p @ '':'' @ int_str (op_vout p)"

abbreviation de_txid :: "dag_entry \<Rightarrow> string" where "de_txid d \<equiv> ct_txid (de_tx d)"
abbreviation de_spends :: "dag_entry \<Rightarrow> string list" where "de_spends d \<equiv> ct_spends (de_tx d)"

text \<open>Merging: a transaction met again only gains the output it serves.\<close>

definition merge_entry :: "string \<Rightarrow> ChainTx \<Rightarrow> (string \<times> dag_entry) list \<Rightarrow> (string \<times> dag_entry) list" where
  "merge_entry outpoint chainTx byTxid =
     (case js_get byTxid (ct_txid chainTx) of
        Some existing \<Rightarrow> js_set (ct_txid chainTx) (existing\<lparr>de_forVtxos := js_add outpoint (de_forVtxos existing)\<rparr>) byTxid
      | None \<Rightarrow> js_set (ct_txid chainTx) \<lparr>de_tx = chainTx, de_forVtxos = [outpoint]\<rparr> byTxid)"

fun merge_chains :: "(Outpoint \<Rightarrow> 'e exit_err + ChainTx list) \<Rightarrow> Outpoint list \<Rightarrow> (string \<times> dag_entry) list
     \<Rightarrow> 'e exit_err + (string \<times> dag_entry) list" where
  "merge_chains getVtxoChain [] byTxid = Inr byTxid"
| "merge_chains getVtxoChain (vtxo # vtxos) byTxid =
     r_bind (getVtxoChain vtxo) (\<lambda>chain.
       merge_chains getVtxoChain vtxos (fold (merge_entry (outpoint_str vtxo)) chain byTxid))"

definition pending_of :: "(string \<times> dag_entry) list \<Rightarrow> (string \<times> dag_entry) list" where
  "pending_of byTxid = keyed_by de_txid (filter (\<lambda>d. \<not> isCommitment (ct_type (de_tx d))) (map snd byTxid))"

definition parents_of :: "(string \<times> dag_entry) list \<Rightarrow> dag_entry \<Rightarrow> string list" where
  "parents_of pending d = filter (\<lambda>p. p \<in> fst ` set pending) (de_spends d)"

definition in_degrees :: "(string \<times> dag_entry) list \<Rightarrow> (string \<times> int) list" where
  "in_degrees pending = fold (\<lambda>d m. js_set (de_txid d) (int (length (parents_of pending d))) m) (map snd pending) []"

definition by_txid :: "dag_entry list \<Rightarrow> dag_entry list" where
  "by_txid = sort_by (\<lambda>a b. localeCompare (de_txid a) (de_txid b))"

fun relax :: "dag_entry list \<Rightarrow> (string \<times> int) list \<times> dag_entry list \<Rightarrow> (string \<times> int) list \<times> dag_entry list" where
  "relax [] s = s"
| "relax (child # children) (inDegree, queue) =
     (case js_get inDegree (de_txid child) of
        None \<Rightarrow> relax children (inDegree, queue)
      | Some n \<Rightarrow> let deg = n - 1 in
          relax children (js_set (de_txid child) deg inDegree, if deg = 0 then queue @ [child] else queue))"

definition children_of :: "(string \<times> dag_entry) list \<Rightarrow> dag_entry \<Rightarrow> dag_entry list" where
  "children_of pending d = by_txid (filter (\<lambda>c. de_txid d \<in> set (de_spends c)) (map snd pending))"

text \<open>A round of the loop takes one transaction from the queue, and each transaction enters it at most when its in-degree falls to zero.\<close>

definition open_ids :: "(string \<times> int) list \<Rightarrow> string set" where
  "open_ids inDegree = {k. \<exists>n. js_get inDegree k = Some n \<and> 0 < n}"

lemma finite_open_ids: "finite (open_ids m)"
proof -
  have "open_ids m \<subseteq> fst ` set m"
    by (auto simp: open_ids_def js_get_def dest!: map_of_SomeD) force
  then show ?thesis
    by (rule finite_subset) simp
qed

lemma relax_measure:
  "relax children (inDegree, queue) = (inDegree', queue') \<Longrightarrow>
     length queue' + card (open_ids inDegree') \<le> length queue + card (open_ids inDegree)"
proof (induction children arbitrary: inDegree queue)
  case (Cons c cs)
  show ?case
  proof (cases "js_get inDegree (de_txid c)")
    case (Some n)
    let ?m = "js_set (de_txid c) (n - 1) inDegree"
    have run: "relax cs (?m, if n - 1 = 0 then queue @ [c] else queue) = (inDegree', queue')"
      using Cons.prems Some by (simp add: Let_def)
    have "length (if n - 1 = 0 then queue @ [c] else queue) + card (open_ids ?m) \<le> length queue + card (open_ids inDegree)"
    proof (cases "n = 1")
      case True
      have "open_ids ?m = open_ids inDegree - {de_txid c}" and "de_txid c \<in> open_ids inDegree"
        using Some True by (auto simp: open_ids_def)
      then show ?thesis
        using True card_Suc_Diff1 [OF finite_open_ids, of "de_txid c" inDegree] by simp
    next
      case False
      have "open_ids ?m \<subseteq> open_ids inDegree"
        using Some by (auto simp: open_ids_def split: if_splits)
      then show ?thesis
        using False card_mono [OF finite_open_ids] by simp
    qed
    then show ?thesis
      using Cons.IH [OF run] by linarith
  qed (use Cons in auto)
qed simp

function kahn :: "(string \<times> dag_entry) list \<Rightarrow> dag_entry list \<Rightarrow> (string \<times> int) list \<Rightarrow> dag_entry list \<Rightarrow> dag_entry list" where
  "kahn pending [] inDegree order = order"
| "kahn pending (tx # queue) inDegree order =
     (let (inDegree', queue') = relax (children_of pending tx) (inDegree, queue) in
      kahn pending queue' inDegree' (order @ [tx]))"
  by pat_completeness auto
termination
proof (relation "measure (\<lambda>(_, queue, inDegree, _). length queue + card (open_ids inDegree))")
  fix pending tx queue inDegree and order :: "dag_entry list" and x inDegree' queue'
  assume "x = relax (children_of pending tx) (inDegree, queue)" and "(inDegree', queue') = x"
  then show "((pending, queue', inDegree', order @ [tx]), pending, tx # queue, inDegree, order)
      \<in> measure (\<lambda>(_, queue, inDegree, _). length queue + card (open_ids inDegree))"
    using relax_measure [of "children_of pending tx" inDegree queue inDegree' queue'] by simp
qed simp

definition node_expiry :: "string \<Rightarrow> int option" where
  "node_expiry s = (case js_Number s of JsInt n \<Rightarrow> if n > 0 then Some n else None | NaN \<Rightarrow> None)"

definition to_node :: "(string \<Rightarrow> 'p + bool) \<Rightarrow> dag_entry \<Rightarrow> DagNode" where
  "to_node getTxStatus d = \<lparr>dn_txid = de_txid d, dn_type = ct_type (de_tx d), dn_expiresAt = node_expiry (ct_expiresAt (de_tx d)),
     dn_forVtxos = sort_by localeCompare (de_forVtxos d),
     dn_confirmed = (case getTxStatus (de_txid d) of Inl _ \<Rightarrow> False | Inr c \<Rightarrow> c)\<rparr>"

definition exit_order :: "(string \<times> dag_entry) list \<Rightarrow> dag_entry list" where
  "exit_order byTxid =
     (let pending = pending_of byTxid; inDegree = in_degrees pending;
          queue = by_txid (filter (\<lambda>d. js_get inDegree (de_txid d) = Some 0) (map snd pending))
      in kahn pending queue inDegree [])"

definition buildExitDag :: "Outpoint list \<Rightarrow> (Outpoint \<Rightarrow> 'e exit_err + ChainTx list) \<Rightarrow> (string \<Rightarrow> 'p + bool)
     \<Rightarrow> 'e exit_err + DagNode list" where
  "buildExitDag vtxos getVtxoChain getTxStatus =
     r_bind (merge_chains getVtxoChain vtxos []) (\<lambda>byTxid.
       let order = exit_order byTxid in
       if length order \<noteq> length (pending_of byTxid) then Inl CycleDetected else Inr (map (to_node getTxStatus) order))"

section \<open>Kahn's algorithm\<close>

lemma mset_insert_by: "mset (insert_by cmp x xs) = add_mset x (mset xs)"
  by (induction xs) auto

lemma mset_sort_by: "mset (sort_by cmp xs) = mset xs"
  by (induction xs) (simp_all add: mset_insert_by)

lemma by_txid_ok: "set (by_txid xs) = set xs" "distinct (map de_txid (by_txid xs)) \<longleftrightarrow> distinct (map de_txid xs)"
  unfolding by_txid_def by (simp, metis mset_eq_imp_distinct_iff mset_map mset_sort_by)

text \<open>A map of entries under their own ids.\<close>

definition entries_ok :: "(string \<times> dag_entry) list \<Rightarrow> bool" where
  "entries_ok P \<longleftrightarrow> distinct (map fst P) \<and> (\<forall>(k, d) \<in> set P. de_txid d = k)"

lemma entries_ids: "entries_ok P \<Longrightarrow> map de_txid (map snd P) = map fst P"
  by (auto simp: entries_ok_def)

lemma entry_key: "entries_ok P \<Longrightarrow> d \<in> set (map snd P) \<Longrightarrow> de_txid d \<in> fst ` set P"
  by (auto simp: entries_ok_def image_iff) force

lemma entries_inj:
  "entries_ok P \<Longrightarrow> d \<in> set (map snd P) \<Longrightarrow> e \<in> set (map snd P) \<Longrightarrow> de_txid d = de_txid e \<Longrightarrow> d = e"
  by (metis entries_ids entries_ok_def distinct_map inj_onD)

lemma entries_distinct: "entries_ok P \<Longrightarrow> distinct (map de_txid (map snd P))"
  by (simp only: entries_ids) (simp add: entries_ok_def)

lemma js_get_fold_set:
  "distinct (map key xs) \<Longrightarrow> x \<in> set xs \<Longrightarrow> js_get (fold (\<lambda>c m. js_set (key c) (val c) m) xs m) (key x) = Some (val x)"
proof (induction xs arbitrary: m)
  case (Cons c xs)
  have "js_get (fold (\<lambda>c m. js_set (key c) (val c) m) ys m) k = js_get m k" if "k \<notin> key ` set ys" for ys k m
    using that by (induction ys arbitrary: m) auto
  then show ?case
    using Cons by auto
qed simp

lemma in_degree:
  assumes "entries_ok P" and "d \<in> set (map snd P)"
  shows "js_get (in_degrees P) (de_txid d) = Some (int (length (parents_of P d)))"
  unfolding in_degrees_def by (rule js_get_fold_set [OF entries_distinct [OF assms(1)] assms(2)])

lemma relax_ok:
  assumes "relax cs (inDegree, queue) = (inDegree', queue')" and "distinct (map de_txid cs)"
  shows "js_get inDegree' k = (if k \<in> de_txid ` set cs then map_option (\<lambda>n. n - 1) (js_get inDegree k) else js_get inDegree k) \<and>
    queue' = queue @ filter (\<lambda>c. js_get inDegree (de_txid c) = Some 1) cs"
  using assms
proof (induction cs arbitrary: inDegree queue)
  case (Cons c cs)
  have fresh: "de_txid c \<notin> de_txid ` set cs" "distinct (map de_txid cs)"
    using Cons.prems(2) by auto
  show ?case
  proof (cases "js_get inDegree (de_txid c)")
    case None
    then have "relax cs (inDegree, queue) = (inDegree', queue')"
      using Cons.prems(1) by simp
    then show ?thesis
      using Cons.IH fresh None by auto
  next
    case (Some n)
    let ?m = "js_set (de_txid c) (n - 1) inDegree"
    have "relax cs (?m, if n = 1 then queue @ [c] else queue) = (inDegree', queue')"
      using Cons.prems(1) Some by (simp add: Let_def)
    note ih = Cons.IH [OF this fresh(2)]
    have "filter (\<lambda>d. js_get ?m (de_txid d) = Some 1) cs = filter (\<lambda>d. js_get inDegree (de_txid d) = Some 1) cs"
      using fresh(1) by (intro filter_cong refl) (metis image_eqI js_get_set)
    then show ?thesis
      using ih fresh(1) Some by auto
  qed
qed simp

definition served :: "dag_entry list \<Rightarrow> dag_entry \<Rightarrow> nat" where
  "served order d = card (de_txid ` set order \<inter> set (de_spends d))"

lemma served_parents:
  assumes "set order \<subseteq> set (map snd P)" and "entries_ok P"
  shows "de_txid ` set order \<inter> set (de_spends d) \<subseteq> set (parents_of P d)" and "served order d \<le> length (parents_of P d)"
proof -
  show sub: "de_txid ` set order \<inter> set (de_spends d) \<subseteq> set (parents_of P d)"
    using subsetD [OF assms(1)] entry_key [OF assms(2)] by (fastforce simp: parents_of_def simp del: set_map)
  then have "served order d \<le> card (set (parents_of P d))"
    unfolding served_def by (intro card_mono) auto
  also have "\<dots> \<le> length (parents_of P d)"
    by (rule card_length)
  finally show "served order d \<le> length (parents_of P d)" .
qed

lemma served_all:
  assumes "set order \<subseteq> set (map snd P)" and "entries_ok P" and "served order d = length (parents_of P d)"
  shows "set (de_spends d) \<inter> fst ` set P \<subseteq> de_txid ` set order"
proof -
  have "card (set (parents_of P d)) \<le> card (de_txid ` set order \<inter> set (de_spends d))"
    using assms(3) card_length [of "parents_of P d"] by (simp add: served_def)
  then have "de_txid ` set order \<inter> set (de_spends d) = set (parents_of P d)"
    using served_parents(1) [OF assms(1,2), of d] by (intro card_seteq) auto
  then show ?thesis
    by (auto simp: parents_of_def)
qed

lemma served_snoc:
  assumes "de_txid tx \<notin> de_txid ` set order"
  shows "served (order @ [tx]) d = served order d + (if de_txid tx \<in> set (de_spends d) then 1 else 0)"
  using assms by (simp add: served_def Int_insert_left)

definition kahn_inv :: "(string \<times> dag_entry) list \<Rightarrow> dag_entry list \<Rightarrow> (string \<times> int) list \<Rightarrow> dag_entry list \<Rightarrow> bool" where
  "kahn_inv P queue inDegree order \<longleftrightarrow>
     distinct (map de_txid (order @ queue)) \<and> set (order @ queue) \<subseteq> set (map snd P) \<and>
     (\<forall>d \<in> set (map snd P). js_get inDegree (de_txid d) = Some (int (length (parents_of P d)) - int (served order d))) \<and>
     (\<forall>d \<in> set (map snd P). d \<in> set (order @ queue) \<longleftrightarrow> served order d = length (parents_of P d)) \<and>
     deps_first de_txid de_spends (fst ` set P) order"

lemma kahn_start:
  assumes "entries_ok P"
  shows "kahn_inv P (by_txid (filter (\<lambda>d. js_get (in_degrees P) (de_txid d) = Some 0) (map snd P))) (in_degrees P) []"
proof -
  have "distinct (map de_txid (filter Q (map snd P)))" for Q
    using entries_distinct [OF assms] distinct_map_filter by blast
  then show ?thesis
    using in_degree [OF assms] by (auto simp: kahn_inv_def by_txid_ok served_def)
qed

lemma kahn_step:
  assumes inv: "kahn_inv P (tx # queue) inDegree order" and ok: "entries_ok P"
    and relaxed: "relax (children_of P tx) (inDegree, queue) = (inDegree', queue')"
  shows "kahn_inv P queue' inDegree' (order @ [tx])"
proof -
  let ?V = "set (map snd P)"
  have cs: "set (children_of P tx) = {c \<in> ?V. de_txid tx \<in> set (de_spends c)}"
    by (auto simp: children_of_def by_txid_ok)
  have dist: "distinct (map de_txid (children_of P tx))"
    using distinct_map_filter [OF entries_distinct [OF ok]] by (simp add: children_of_def by_txid_ok)
  note relaxed = relax_ok [OF relaxed dist]
  have dis: "distinct (map de_txid (order @ tx # queue))" and sub: "set (order @ tx # queue) \<subseteq> ?V"
    and deg: "\<And>d. d \<in> ?V \<Longrightarrow> js_get inDegree (de_txid d) = Some (int (length (parents_of P d)) - int (served order d))"
    and mem: "\<And>d. d \<in> ?V \<Longrightarrow> d \<in> set (order @ tx # queue) \<longleftrightarrow> served order d = length (parents_of P d)"
    and first: "deps_first de_txid de_spends (fst ` set P) order"
    using inv unfolding kahn_inv_def by blast+
  have fresh: "de_txid tx \<notin> de_txid ` set order" and tx: "tx \<in> ?V"
    using dis sub by auto
  note served = served_snoc [OF fresh]
  have one: "js_get inDegree (de_txid c) = Some 1 \<longleftrightarrow> length (parents_of P c) = served order c + 1" if "c \<in> ?V" for c
    unfolding deg [OF that] by auto
  have queue': "set queue' = set queue \<union> {c \<in> ?V. de_txid tx \<in> set (de_spends c) \<and> length (parents_of P c) = served order c + 1}"
    using relaxed one by (auto simp: cs)
  have new: "c \<notin> set (order @ tx # queue)" if "c \<in> ?V" "length (parents_of P c) = served order c + 1" for c
    using mem [OF that(1)] that(2) by simp
  have key: "de_txid tx \<in> fst ` set P"
    by (rule entry_key [OF ok tx])
  have parents: "set (de_spends d) \<inter> fst ` set P \<subseteq> de_txid ` set order" if "d \<in> set (order @ tx # queue)" for d
    using served_all [of order P d] mem [of d] that sub ok by auto
  have "distinct (map de_txid ((order @ [tx]) @ queue'))"
  proof -
    have "de_txid c \<notin> de_txid ` set (order @ tx # queue)" if "c \<in> ?V" "length (parents_of P c) = served order c + 1" for c
    proof
      assume "de_txid c \<in> de_txid ` set (order @ tx # queue)"
      then obtain e where "e \<in> set (order @ tx # queue)" "de_txid c = de_txid e"
        by (rule imageE)
      then show False
        using new [OF that] entries_inj [OF ok that(1), of e] subsetD [OF sub] by blast
    qed
    moreover have "set (filter (\<lambda>c. js_get inDegree (de_txid c) = Some 1) (children_of P tx)) \<subseteq>
        {c \<in> ?V. length (parents_of P c) = served order c + 1}"
      unfolding set_filter cs using one by blast
    ultimately have "de_txid ` set (filter (\<lambda>c. js_get inDegree (de_txid c) = Some 1) (children_of P tx)) \<inter>
        de_txid ` set (order @ tx # queue) = {}"
      by blast
    moreover have "distinct (map de_txid (filter (\<lambda>c. js_get inDegree (de_txid c) = Some 1) (children_of P tx)))"
      by (rule distinct_map_filter [OF dist])
    ultimately show ?thesis
      using dis relaxed by auto
  qed
  moreover have "set ((order @ [tx]) @ queue') \<subseteq> ?V"
    using sub queue' by auto
  moreover have "js_get inDegree' (de_txid d) = Some (int (length (parents_of P d)) - int (served (order @ [tx]) d))" if d: "d \<in> ?V" for d
  proof -
    have "de_txid d \<in> de_txid ` set (children_of P tx) \<longleftrightarrow> de_txid tx \<in> set (de_spends d)"
      using inj_on_image_mem_iff [OF inj_onI d, of de_txid "set (children_of P tx)"] entries_inj [OF ok] d by (auto simp: cs simp del: set_map)
    then show ?thesis
      using relaxed deg [OF d] served by simp
  qed
  moreover have "d \<in> set ((order @ [tx]) @ queue') \<longleftrightarrow> served (order @ [tx]) d = length (parents_of P d)" if d: "d \<in> ?V" for d
  proof (cases "d \<in> set (order @ tx # queue)")
    case True
    then have "de_txid tx \<notin> set (de_spends d)"
      using parents key fresh by auto
    then show ?thesis
      using True mem [OF d] queue' served by auto
  next
    case False
    then show ?thesis
      using mem [OF d] queue' served d by auto
  qed
  moreover have "deps_first de_txid de_spends (fst ` set P) (order @ [tx])"
    using first parents [of tx] by simp
  ultimately show ?thesis
    unfolding kahn_inv_def by blast
qed

lemma kahn_run:
  "kahn_inv P queue inDegree order \<Longrightarrow> entries_ok P \<Longrightarrow> \<exists>inDegree'. kahn_inv P [] inDegree' (kahn P queue inDegree order)"
proof (induction P queue inDegree order rule: kahn.induct)
  case (2 P tx queue inDegree order)
  obtain inDegree' queue' where r: "relax (children_of P tx) (inDegree, queue) = (inDegree', queue')"
    by force
  show ?case
    using "2.IH" [OF r [symmetric] refl kahn_step [OF "2.prems" r] "2.prems"(2)] r by simp
qed auto

text \<open>The order that comes out holds every transaction whose parents are all in it, each after its parents.\<close>

lemma exit_order_ok:
  assumes "entries_ok byTxid"
  shows "entries_ok (pending_of byTxid)" and "distinct (map de_txid (exit_order byTxid))"
    and "set (exit_order byTxid) \<subseteq> set (map snd (pending_of byTxid))"
    and "deps_first de_txid de_spends (fst ` set (pending_of byTxid)) (exit_order byTxid)"
    and "d \<in> set (map snd (pending_of byTxid)) \<Longrightarrow>
      d \<in> set (exit_order byTxid) \<longleftrightarrow> served (exit_order byTxid) d = length (parents_of (pending_of byTxid) d)"
proof -
  let ?P = "pending_of byTxid"
  show ok: "entries_ok ?P"
    using keyed_by_ok [where key = de_txid] by (fastforce simp: entries_ok_def pending_of_def)
  obtain inDegree' where "kahn_inv ?P [] inDegree' (exit_order byTxid)"
    using kahn_run [OF kahn_start [OF ok] ok] by (auto simp: exit_order_def Let_def)
  note inv = this [unfolded kahn_inv_def append_Nil2]
  show "distinct (map de_txid (exit_order byTxid))" "set (exit_order byTxid) \<subseteq> set (map snd ?P)"
    "deps_first de_txid de_spends (fst ` set ?P) (exit_order byTxid)"
    "d \<in> set (map snd ?P) \<Longrightarrow> d \<in> set (exit_order byTxid) \<longleftrightarrow> served (exit_order byTxid) d = length (parents_of ?P d)"
    using inv by blast+
qed

lemma entries_length: "entries_ok P \<Longrightarrow> length P = card (set (map snd P))"
  using entries_distinct [of P] distinct_card [of "map snd P"] by (metis distinct_map length_map)

lemma exit_order_full:
  assumes "entries_ok byTxid"
  shows "length (exit_order byTxid) = length (pending_of byTxid) \<longleftrightarrow> set (exit_order byTxid) = set (map snd (pending_of byTxid))"
proof -
  note o = exit_order_ok [OF assms]
  have "length (exit_order byTxid) = card (set (exit_order byTxid))"
    using o(2) distinct_card distinct_map by metis
  then show ?thesis
    using entries_length [OF o(1)] o(3) card_subset_eq [of "set (map snd (pending_of byTxid))" "set (exit_order byTxid)"] by auto
qed

text \<open>Nothing is left over exactly when the graph has no cycle and no transaction lists a parent of the graph twice.\<close>

lemma exit_order_complete:
  assumes "entries_ok byTxid" and "\<forall>d \<in> set (map snd (pending_of byTxid)). distinct (parents_of (pending_of byTxid) d)"
    and "acyclic (dep_edges de_txid de_spends (map snd (pending_of byTxid)))"
  shows "set (exit_order byTxid) = set (map snd (pending_of byTxid))"
proof (rule ccontr)
  let ?P = "pending_of byTxid" and ?O = "exit_order byTxid"
  note o = exit_order_ok [OF assms(1)]
  have keys: "de_txid ` set (map snd ?P) = fst ` set ?P"
    using entries_ids [OF o(1)] by (metis set_map)
  assume "set ?O \<noteq> set (map snd ?P)"
  then obtain e where "e \<in> set (map snd ?P)" "e \<notin> set ?O"
    using o(3) by blast
  then have "de_txid e \<in> de_txid ` (set (map snd ?P) - set ?O)"
    by blast
  then obtain k where k: "k \<in> de_txid ` (set (map snd ?P) - set ?O)" and
    min: "\<And>x d. x \<in> set (map snd ?P) \<Longrightarrow> de_txid x = k \<Longrightarrow> d \<in> set (de_spends x) \<Longrightarrow> d \<in> de_txid ` set (map snd ?P) \<Longrightarrow>
      d \<notin> de_txid ` (set (map snd ?P) - set ?O)"
    using minimal_id [OF assms(3), of "de_txid e" "de_txid ` (set (map snd ?P) - set ?O)"] by blast
  then obtain x where x: "x \<in> set (map snd ?P)" "x \<notin> set ?O" "de_txid x = k"
    by blast
  have "set (parents_of ?P x) \<subseteq> de_txid ` set ?O \<inter> set (de_spends x)"
    using min [OF x(1,3)] by (auto simp: parents_of_def simp flip: keys)
  then have "card (set (parents_of ?P x)) \<le> served ?O x"
    unfolding served_def by (intro card_mono) auto
  moreover have "distinct (parents_of ?P x)"
    by (rule bspec [OF assms(2) x(1)])
  ultimately have "served ?O x = length (parents_of ?P x)"
    using served_parents(2) [OF o(3,1), of x] by (simp add: distinct_card)
  then show False
    using o(5) [OF x(1)] x(2) by simp
qed

lemma exit_order_full_iff:
  assumes "entries_ok byTxid"
  shows "length (exit_order byTxid) = length (pending_of byTxid) \<longleftrightarrow>
    acyclic (dep_edges de_txid de_spends (map snd (pending_of byTxid))) \<and>
    (\<forall>d \<in> set (map snd (pending_of byTxid)). distinct (parents_of (pending_of byTxid) d))"
proof
  let ?P = "pending_of byTxid" and ?O = "exit_order byTxid"
  note o = exit_order_ok [OF assms(1)]
  assume "length ?O = length ?P"
  then have all: "set ?O = set (map snd ?P)"
    using exit_order_full [OF assms(1)] by simp
  have "fst ` set ?P = de_txid ` set ?O"
    using entries_ids [OF o(1)] unfolding all by (metis set_map)
  then have "acyclic (dep_edges de_txid de_spends ?O)"
    using o(2,4) by (intro deps_first_acyclic) simp_all
  moreover have "distinct (parents_of ?P d)" if "d \<in> set (map snd ?P)" for d
  proof (rule card_distinct, rule antisym [OF card_length])
    have "served ?O d = length (parents_of ?P d)"
      using o(5) [OF that] that unfolding all by blast
    then show "length (parents_of ?P d) \<le> card (set (parents_of ?P d))"
      using card_mono [OF _ served_parents(1) [OF o(3,1), of d]] by (simp add: served_def)
  qed
  ultimately show "acyclic (dep_edges de_txid de_spends (map snd ?P)) \<and> (\<forall>d \<in> set (map snd ?P). distinct (parents_of ?P d))"
    unfolding dep_edges_def all by blast
next
  assume "acyclic (dep_edges de_txid de_spends (map snd (pending_of byTxid))) \<and>
    (\<forall>d \<in> set (map snd (pending_of byTxid)). distinct (parents_of (pending_of byTxid) d))"
  then show "length (exit_order byTxid) = length (pending_of byTxid)"
    using exit_order_complete [OF assms] exit_order_full [OF assms(1)] by blast
qed

section \<open>What is merged\<close>

text \<open>The chain entries in the order they are read, each with the output it is read for.\<close>

definition chain_entries :: "(Outpoint \<times> ChainTx list) list \<Rightarrow> (string \<times> ChainTx) list" where
  "chain_entries cs = concat (map (\<lambda>(v, chain). map (Pair (outpoint_str v)) chain) cs)"

definition first_tx :: "(string \<times> ChainTx) list \<Rightarrow> string \<Rightarrow> ChainTx option" where
  "first_tx es k = map_option snd (List.find (\<lambda>(p, t). ct_txid t = k) es)"

definition serves :: "(string \<times> ChainTx) list \<Rightarrow> string \<Rightarrow> string list" where
  "serves es k = fold js_add (map fst (filter (\<lambda>(p, t). ct_txid t = k) es)) []"

definition merged :: "(string \<times> ChainTx) list \<Rightarrow> (string \<times> dag_entry) list" where
  "merged es = fold (\<lambda>(p, t). merge_entry p t) es []"

lemma first_tx_snoc: "first_tx (es @ [(p, t)]) k = (case first_tx es k of Some u \<Rightarrow> Some u | None \<Rightarrow> if ct_txid t = k then Some t else None)"
  by (induction es) (auto simp: first_tx_def)

lemma first_tx_id: "first_tx es k = Some t \<Longrightarrow> ct_txid t = k"
  by (auto simp: first_tx_def dest!: find_Some)

lemma serves_None: "first_tx es k = None \<longleftrightarrow> filter (\<lambda>(p, t). ct_txid t = k) es = []"
  by (induction es) (auto simp: first_tx_def)

lemma merged_get:
  "js_get (merged es) k = (case first_tx es k of None \<Rightarrow> None | Some t \<Rightarrow> Some \<lparr>de_tx = t, de_forVtxos = serves es k\<rparr>)"
proof (induction es arbitrary: k rule: rev_induct)
  case (snoc e es)
  obtain p t where e: "e = (p, t)" by force
  have "merged (es @ [e]) = merge_entry p t (merged es)"
    by (simp add: merged_def e)
  then show ?case
    using snoc.IH serves_None [of es "ct_txid t"]
    by (auto simp: merge_entry_def e first_tx_snoc serves_def js_add_def split: option.splits)
qed (simp add: merged_def first_tx_def)

lemma merged_ok: "entries_ok (merged es)"
proof -
  have keys: "distinct (map fst (merged es))"
  proof (induction es rule: rev_induct)
    case (snoc e es)
    then show ?case
      by (auto simp: merged_def merge_entry_def distinct_js_set split: prod.splits option.splits)
  qed (simp add: merged_def)
  moreover have "de_txid d = k" if "(k, d) \<in> set (merged es)" for k d
    using js_get_in [OF keys, of k d] that merged_get [of es k] by (auto dest: first_tx_id split: option.splits)
  ultimately show ?thesis
    by (auto simp: entries_ok_def)
qed

lemma merge_chains_ok:
  "merge_chains getVtxoChain vtxos m = Inr byTxid \<Longrightarrow>
     \<exists>chains. r_map getVtxoChain vtxos = Inr chains \<and> byTxid = fold (\<lambda>(p, t). merge_entry p t) (chain_entries (zip vtxos chains)) m"
proof (induction vtxos arbitrary: m)
  case (Cons v vs)
  have "fold (merge_entry p) c m = fold (\<lambda>(p, t). merge_entry p t) (map (Pair p) c) m" for p c m
    by (induction c arbitrary: m) simp_all
  then show ?case
    using Cons by (fastforce simp: r_bind_eq_Inr chain_entries_def)
qed (simp add: chain_entries_def)

lemma merge_chains_Inl: "merge_chains getVtxoChain vtxos m = Inl e \<longleftrightarrow> r_map getVtxoChain vtxos = Inl e"
  by (induction vtxos arbitrary: m) (auto simp: r_bind_def split: sum.splits)

lemma merge_chains_Inr:
  "r_map getVtxoChain vtxos = Inr css \<Longrightarrow> merge_chains getVtxoChain vtxos [] = Inr (merged (chain_entries (zip vtxos css)))"
  using merge_chains_Inl [of getVtxoChain vtxos "[]"] merge_chains_ok [of getVtxoChain vtxos "[]"]
  by (cases "merge_chains getVtxoChain vtxos []") (fastforce, force simp: merged_def)

text \<open>The transactions that are sorted.\<close>

lemma pending_entries:
  "set (map snd (pending_of byTxid)) \<subseteq> {d \<in> set (map snd byTxid). \<not> isCommitment (ct_type (de_tx d))}"
  "entries_ok byTxid \<Longrightarrow> d \<in> set (map snd byTxid) \<Longrightarrow> \<not> isCommitment (ct_type (de_tx d)) \<Longrightarrow> d \<in> set (map snd (pending_of byTxid))"
proof -
  let ?F = "filter (\<lambda>d. \<not> isCommitment (ct_type (de_tx d))) (map snd byTxid)"
  note k = keyed_by_ok [where key = de_txid and xs = ?F]
  have mem: "d \<in> set ?F" if "(i, d) \<in> set (pending_of byTxid)" for i d
    using k(3) that unfolding pending_of_def by blast
  then show "set (map snd (pending_of byTxid)) \<subseteq> {d \<in> set (map snd byTxid). \<not> isCommitment (ct_type (de_tx d))}"
    by auto
  assume ok: "entries_ok byTxid" and d: "d \<in> set (map snd byTxid)" "\<not> isCommitment (ct_type (de_tx d))"
  then have "de_txid d \<in> set (map fst (pending_of byTxid))"
    unfolding pending_of_def k(2) by auto
  then obtain e where e: "(de_txid d, e) \<in> set (pending_of byTxid)"
    by auto
  have "de_txid e = de_txid d" and "e \<in> set (map snd byTxid)"
    using k(3) [OF e [unfolded pending_of_def]] mem [OF e] by simp_all
  then have "e = d"
    using entries_inj [OF ok] d by metis
  then show "d \<in> set (map snd (pending_of byTxid))"
    using e by force
qed

section \<open>The exit graph\<close>

text \<open>The transactions an exit may have to broadcast, and the edges between them.\<close>

definition unrolled :: "(string \<times> ChainTx) list \<Rightarrow> string set" where
  "unrolled es = {k. \<exists>t. first_tx es k = Some t \<and> \<not> isCommitment (ct_type t)}"

definition chain_edges :: "(string \<times> ChainTx) list \<Rightarrow> (string \<times> string) set" where
  "chain_edges es = {(p, k) | p k t. first_tx es k = Some t \<and> k \<in> unrolled es \<and> p \<in> set (ct_spends t) \<and> p \<in> unrolled es}"

lemma pending_merged:
  "d \<in> set (map snd (pending_of (merged es))) \<longleftrightarrow>
     (\<exists>t. first_tx es (de_txid d) = Some t \<and> \<not> isCommitment (ct_type t) \<and> d = \<lparr>de_tx = t, de_forVtxos = serves es (de_txid d)\<rparr>)"
proof -
  have distinct: "distinct (map fst (merged es))"
    using merged_ok [of es] by (simp add: entries_ok_def)
  have "d \<in> set (map snd (merged es)) \<longleftrightarrow> (de_txid d, d) \<in> set (merged es)"
    using merged_ok [of es] by (auto simp: entries_ok_def image_iff) force+
  also have "\<dots> \<longleftrightarrow> (\<exists>t. first_tx es (de_txid d) = Some t \<and> d = \<lparr>de_tx = t, de_forVtxos = serves es (de_txid d)\<rparr>)"
    unfolding js_get_in [OF distinct, symmetric] merged_get by (auto split: option.splits)
  finally have "d \<in> set (map snd (merged es)) \<longleftrightarrow>
      (\<exists>t. first_tx es (de_txid d) = Some t \<and> d = \<lparr>de_tx = t, de_forVtxos = serves es (de_txid d)\<rparr>)" .
  then show ?thesis
    using pending_entries(1) [of "merged es"] pending_entries(2) [OF merged_ok [of es], of d]
    by (metis (mono_tags, lifting) dag_entry.select_convs(1) mem_Collect_eq subsetD)
qed

lemma pending_ids: "fst ` set (pending_of (merged es)) = unrolled es"
proof -
  have "fst ` set (pending_of (merged es)) = de_txid ` set (map snd (pending_of (merged es)))"
    using entries_ids [OF exit_order_ok(1) [OF merged_ok]] by (metis set_map)
  also have "\<dots> = unrolled es"
  proof (intro set_eqI iffI)
    fix k assume "k \<in> unrolled es"
    then obtain t where t: "first_tx es k = Some t" "\<not> isCommitment (ct_type t)"
      by (auto simp: unrolled_def)
    then have "\<lparr>de_tx = t, de_forVtxos = serves es k\<rparr> \<in> set (map snd (pending_of (merged es)))"
      using first_tx_id [OF t(1)] unfolding pending_merged by simp
    then show "k \<in> de_txid ` set (map snd (pending_of (merged es)))"
      using first_tx_id [OF t(1)] by force
  qed (auto simp: unrolled_def pending_merged simp del: set_map)
  finally show ?thesis .
qed

lemma pending_edges: "dep_edges de_txid de_spends (map snd (pending_of (merged es))) = chain_edges es"
proof -
  let ?V = "set (map snd (pending_of (merged es)))"
  have ids: "de_txid ` ?V = unrolled es"
    using entries_ids [OF exit_order_ok(1) [OF merged_ok]] pending_ids [of es] by (metis set_map)
  have spends: "first_tx es (de_txid d) = Some (de_tx d) \<and> de_txid d \<in> unrolled es" if d: "d \<in> ?V" for d
  proof -
    obtain t where t: "first_tx es (de_txid d) = Some t" "\<not> isCommitment (ct_type t)"
      "d = \<lparr>de_tx = t, de_forVtxos = serves es (de_txid d)\<rparr>"
      using iffD1 [OF pending_merged d] by blast
    then have "de_tx d = t"
      by (metis dag_entry.select_convs(1))
    then show ?thesis
      using t by (auto simp: unrolled_def)
  qed
  have entry: "\<exists>d \<in> ?V. de_txid d = k \<and> de_tx d = t" if "first_tx es k = Some t" "k \<in> unrolled es" for k t
  proof -
    note k = that
    obtain d where d: "d \<in> ?V" "de_txid d = k"
      using k(2) unfolding ids [symmetric] by blast
    then show ?thesis
      using spends [OF d(1)] k(1) by auto
  qed
  show ?thesis
  proof (intro set_eqI iffI)
    fix e assume "e \<in> dep_edges de_txid de_spends (map snd (pending_of (merged es)))"
    then show "e \<in> chain_edges es"
      using spends unfolding dep_edges_def chain_edges_def ids by blast
  next
    fix e assume "e \<in> chain_edges es"
    then obtain p k t where e: "e = (p, k)" "first_tx es k = Some t" "k \<in> unrolled es" "p \<in> set (ct_spends t)" "p \<in> unrolled es"
      unfolding chain_edges_def by blast
    then show "e \<in> dep_edges de_txid de_spends (map snd (pending_of (merged es)))"
      using entry [OF e(2,3)] unfolding dep_edges_def ids by blast
  qed
qed


lemma serves_set: "set (serves es k) = {p. \<exists>u. (p, u) \<in> set es \<and> ct_txid u = k}"
proof -
  have "set (fold js_add xs ys) = set xs \<union> set ys" for xs ys :: "string list"
    by (induction xs arbitrary: ys) auto
  then show ?thesis
    by (auto simp: serves_def) force
qed



text \<open>
  C17. Once the chains are read, the exit graph is built exactly when no transaction to unroll is an ancestor of itself and none lists a parent
  to unroll twice; otherwise, and only then, the chain is refused as cyclic.
\<close>

theorem exit_dag_returns_iff:
  assumes "r_map getVtxoChain vtxos = Inr css"
  shows "let es = chain_entries (zip vtxos css);
      orderable = acyclic (chain_edges es) \<and>
        (\<forall>k \<in> unrolled es. distinct (filter (\<lambda>p. p \<in> unrolled es) (ct_spends (the (first_tx es k)))))
    in ((\<exists>nodes. buildExitDag vtxos getVtxoChain getTxStatus = Inr nodes) \<longleftrightarrow> orderable) \<and>
       (buildExitDag vtxos getVtxoChain getTxStatus = Inl CycleDetected \<longleftrightarrow> \<not> orderable)"
proof -
  let ?es = "chain_entries (zip vtxos css)"
  let ?P = "pending_of (merged ?es)"
  have parents: "parents_of ?P d = filter (\<lambda>p. p \<in> unrolled ?es) (ct_spends (the (first_tx ?es (de_txid d))))"
    if "d \<in> set (map snd ?P)" for d
    using iffD1 [OF pending_merged that] unfolding parents_of_def pending_ids by (metis dag_entry.select_convs(1) option.sel)
  have ids: "unrolled ?es = de_txid ` set (map snd ?P)"
    using entries_ids [OF exit_order_ok(1) [OF merged_ok]] pending_ids [of ?es] by (metis set_map)
  have "(\<forall>d \<in> set (map snd ?P). distinct (parents_of ?P d)) \<longleftrightarrow>
      (\<forall>k \<in> unrolled ?es. distinct (filter (\<lambda>p. p \<in> unrolled ?es) (ct_spends (the (first_tx ?es k)))))"
    using parents unfolding ids ball_simps(9) by simp
  then show ?thesis
    using exit_order_full_iff [OF merged_ok [of ?es]]
    by (simp add: Let_def buildExitDag_def merge_chains_Inr [OF assms] pending_edges)
qed



text \<open>Two outputs of one batch: the second is spent from the first's parent and from the first.\<close>

definition sample_chain_tx :: "string \<Rightarrow> ChainTxType \<Rightarrow> string list \<Rightarrow> ChainTx" where
  "sample_chain_tx k ty sp = \<lparr>ct_txid = k, ct_expiresAt = ''1700'', ct_type = ty, ct_spends = sp\<rparr>"

definition sample_chain :: "Outpoint \<Rightarrow> unit exit_err + ChainTx list" where
  "sample_chain v = Inr (if op_txid v = ''a1''
     then [sample_chain_tx ''a1'' ARK [''b1''], sample_chain_tx ''b1'' TREE [''c0''], sample_chain_tx ''c0'' COMMITMENT []]
     else [sample_chain_tx ''a2'' ARK [''a1'', ''b1''], sample_chain_tx ''a1'' ARK [''b1''], sample_chain_tx ''b1'' TREE [''c0''], sample_chain_tx ''c0'' COMMITMENT []])"

definition sample_status :: "string \<Rightarrow> unit + bool" where
  "sample_status k = (if k = ''b1'' then Inr True else Inl ())"

definition sample_outputs :: "Outpoint list" where
  "sample_outputs = [\<lparr>op_txid = ''a1'', op_vout = 0\<rparr>, \<lparr>op_txid = ''a2'', op_vout = 1\<rparr>]"

definition sample_nodes :: "DagNode list" where
  "sample_nodes =
    [\<lparr>dn_txid = ''b1'', dn_type = TREE, dn_expiresAt = Some 1700, dn_forVtxos = [''a1:0'', ''a2:1''], dn_confirmed = True\<rparr>,
     \<lparr>dn_txid = ''a1'', dn_type = ARK, dn_expiresAt = Some 1700, dn_forVtxos = [''a1:0'', ''a2:1''], dn_confirmed = False\<rparr>,
     \<lparr>dn_txid = ''a2'', dn_type = ARK, dn_expiresAt = Some 1700, dn_forVtxos = [''a2:1''], dn_confirmed = False\<rparr>]"

lemma sample_dag: "buildExitDag sample_outputs sample_chain sample_status = Inr sample_nodes"
  by code_simp



lemma sample_chains: "r_map sample_chain sample_outputs = Inr (map (\<lambda>v. case sample_chain v of Inr c \<Rightarrow> c | Inl _ \<Rightarrow> []) sample_outputs)"
  by (simp add: sample_outputs_def sample_chain_def)

theorem exit_dag_returns_iff_witness:
  "acyclic (chain_edges (chain_entries (zip sample_outputs (map (\<lambda>v. case sample_chain v of Inr c \<Rightarrow> c | Inl _ \<Rightarrow> []) sample_outputs))))"
  using exit_dag_returns_iff [OF sample_chains, of sample_status] sample_dag by (simp add: Let_def)

text \<open>A transaction that spends two outputs of one parent and lists that parent for each is refused as a cycle.\<close>

lemma two_outputs_of_one_parent:
  "buildExitDag [\<lparr>op_txid = ''a2'', op_vout = 0\<rparr>]
     (\<lambda>v. Inr [sample_chain_tx ''a2'' ARK [''b1'', ''b1''], sample_chain_tx ''b1'' TREE [''c0''], sample_chain_tx ''c0'' COMMITMENT []] :: unit exit_err + ChainTx list)
     sample_status = Inl CycleDetected"
  by code_simp

end
