(* ===== verification/Exit_Executor.thy ===== *)
theory Exit_Executor
  imports Exit_Chain
begin

text \<open>
  Executing a pre-signed exit: \<open>wallet/exit/executor.ts\<close> over the packages of \<open>wallet/exit/types.ts\<close>. The provider, the fee wallet and the
  abort signal are an argument: functions on a world of any type that every call may change. The executor's state is that world, the
  sets the code keeps, and the log of its provider calls and yielded events, in order; the log is what the theorems speak about.

  The two polling loops may run forever. They take the number of polls as fuel: when it is used up the run stops as
  \<open>StillPolling\<close> with the log so far, so that a statement about every log is a statement about every moment of an endless run.
  What a thrown provider error does is written out: \<open>status\<close> turns it into "not found", a failed broadcast marks outputs as
  dead, and an error of \<open>getChainTip\<close> ends the iteration.
\<close>

section \<open>Packages\<close>

datatype ExitDelay = DelayBlocks int | DelaySeconds int

datatype ExitStep =
    BroadcastStep string string
  | PackageStep string string string string "string list"
  | BumpStep string string "string list"
  | SweepStep string string string string ExitDelay

datatype ExitMode = Funded | Graph

record ExitTotals =
  txCount :: int
  totalFeeSats :: int
  fundingRequiredSats :: int
  recoveredSats :: int

record ExitVtxoInfo =
  vi_outpoint :: string
  vi_value :: "int option"
  vi_sweepFee :: "int option"
  vi_path :: "string option"
  vi_delay :: "ExitDelay option"
  vi_skipped :: "string option"

record ExitPackage =
  pkg_mode :: "ExitMode option"
  pkg_network :: string
  pkg_createdAt :: int
  pkg_validUntil :: "int option"
  pkg_feeRate :: int
  pkg_sweepAddress :: string
  pkg_totals :: ExitTotals
  pkg_vtxos :: "ExitVtxoInfo list"
  pkg_steps :: "ExitStep list"

fun is_sweep :: "ExitStep \<Rightarrow> bool" where
  "is_sweep (SweepStep v t h d w) = True"
| "is_sweep _ = False"

fun step_forVtxos :: "ExitStep \<Rightarrow> string list option" where
  "step_forVtxos (PackageStep p ph c ch fv) = Some fv"
| "step_forVtxos (BumpStep p ph fv) = Some fv"
| "step_forVtxos _ = None"

fun anchorTxid :: "ExitStep \<Rightarrow> string" where
  "anchorTxid (PackageStep p ph c ch fv) = p"
| "anchorTxid (BumpStep p ph fv) = p"
| "anchorTxid (BroadcastStep t h) = t"
| "anchorTxid (SweepStep v t h d w) = t"

section \<open>The executor's world\<close>

record TxStatus =
  ts_confirmed :: bool
  ts_blockHeight :: "int option"
  ts_blockTime :: "int option"

record 'w exit_io =
  io_status :: "string \<Rightarrow> 'w \<Rightarrow> (string + TxStatus) \<times> 'w"
  io_broadcast :: "string list \<Rightarrow> 'w \<Rightarrow> (string + unit) \<times> 'w"
  io_tip :: "'w \<Rightarrow> (string + int \<times> int) \<times> 'w"
  io_bump :: "(string \<Rightarrow> int \<Rightarrow> 'w \<Rightarrow> (string + string \<times> string) \<times> 'w) option"
  io_aborted :: "'w \<Rightarrow> bool"
  io_sleep :: "'w \<Rightarrow> 'w"
  io_now :: "'w \<Rightarrow> int"

datatype step_kind = KBroadcast | KPackage | KBump | KSweep

fun kind_of :: "ExitStep \<Rightarrow> step_kind" where
  "kind_of (PackageStep p ph c ch fv) = KPackage"
| "kind_of (BumpStep p ph fv) = KBump"
| "kind_of (BroadcastStep t h) = KBroadcast"
| "kind_of (SweepStep v t h d w) = KSweep"

datatype event_status = EvSkipped | EvBroadcast | EvConfirmed | EvWaitingCsv | EvFailed | EvWarning

record ExecutorEvent =
  ev_stepIndex :: int
  ev_kind :: step_kind
  ev_status :: event_status
  ev_forVtxos :: "string list option"
  ev_txid :: "string option"
  ev_reason :: "string option"
  ev_maturesAtHeight :: "int option"
  ev_maturesAtTime :: "int option"

datatype action = ReadStatus string "TxStatus option" | ReadTip int int | SentTx nat "string list" "string option" | Yielded ExecutorEvent

record 'w exit_run =
  ex_world :: 'w
  ex_dead :: "string list"
  ex_waiting :: "nat list"
  ex_done :: "nat list"
  ex_log :: "action list"

datatype stop = StillPolling | Aborted | TipFailed string

definition note_action :: "action \<Rightarrow> 'w exit_run \<Rightarrow> 'w exit_run" where
  "note_action a s = s\<lparr>ex_log := ex_log s @ [a]\<rparr>"

definition yield_event :: "nat \<Rightarrow> ExitStep \<Rightarrow> event_status \<Rightarrow> string option \<Rightarrow> string list option \<Rightarrow> string option \<Rightarrow> 'w exit_run \<Rightarrow> 'w exit_run" where
  "yield_event i stp status txid forVtxos reason =
     note_action (Yielded \<lparr>ev_stepIndex = int i, ev_kind = kind_of stp, ev_status = status, ev_forVtxos = forVtxos, ev_txid = txid,
       ev_reason = reason, ev_maturesAtHeight = None, ev_maturesAtTime = None\<rparr>)"

definition exit_status :: "'w exit_io \<Rightarrow> string \<Rightarrow> 'w exit_run \<Rightarrow> TxStatus option \<times> 'w exit_run" where
  "exit_status io txid s =
     (let (r, w) = io_status io txid (ex_world s); st = (case r of Inl _ \<Rightarrow> None | Inr t \<Rightarrow> Some t)
      in (st, note_action (ReadStatus txid st) (s\<lparr>ex_world := w\<rparr>)))"

definition confirmed_status :: "TxStatus option \<Rightarrow> bool" where
  "confirmed_status st = (case st of Some t \<Rightarrow> ts_confirmed t | None \<Rightarrow> False)"

text \<open>The first component says whether the sleep was rejected by an abort.\<close>

definition exit_sleep :: "'w exit_io \<Rightarrow> 'w exit_run \<Rightarrow> bool \<times> 'w exit_run" where
  "exit_sleep io s =
     (if io_aborted io (ex_world s) then (True, s)
      else let w = io_sleep io (ex_world s) in (io_aborted io w, s\<lparr>ex_world := w\<rparr>))"

definition poll_confirmed :: "'w exit_io \<Rightarrow> string \<Rightarrow> nat \<Rightarrow> ('w exit_run \<Rightarrow> (stop + nat) \<times> 'w exit_run) \<Rightarrow> 'w exit_run
     \<Rightarrow> (stop + nat) \<times> 'w exit_run" where
  "poll_confirmed io txid polls again s =
     (let (st, s1) = exit_status io txid s in
      if confirmed_status st then (Inr polls, s1)
      else if io_aborted io (ex_world s1) then (Inl Aborted, s1)
      else again s1)"

fun waitConfirmed :: "'w exit_io \<Rightarrow> nat \<Rightarrow> string \<Rightarrow> 'w exit_run \<Rightarrow> (stop + nat) \<times> 'w exit_run" where
  "waitConfirmed io 0 txid s = poll_confirmed io txid 0 (\<lambda>s1. (Inl StillPolling, s1)) s"
| "waitConfirmed io (Suc polls) txid s =
     poll_confirmed io txid (Suc polls) (\<lambda>s1.
       let (rejected, s2) = exit_sleep io s1 in if rejected then (Inl Aborted, s2) else waitConfirmed io polls txid s2) s"

section \<open>The unrolling steps\<close>

definition send_txs :: "'w exit_io \<Rightarrow> nat \<Rightarrow> string list \<Rightarrow> 'w exit_run \<Rightarrow> string option \<times> 'w exit_run" where
  "send_txs io i hexes s =
     (let (r, w) = io_broadcast io hexes (ex_world s); err = (case r of Inl e \<Rightarrow> Some e | Inr _ \<Rightarrow> None)
      in (err, note_action (SentTx i hexes err) (s\<lparr>ex_world := w\<rparr>)))"

fun broadcast_step :: "'w exit_io \<Rightarrow> ExitPackage \<Rightarrow> nat \<Rightarrow> ExitStep \<Rightarrow> 'w exit_run \<Rightarrow> string option \<times> 'w exit_run" where
  "broadcast_step io pkg i (PackageStep p ph c ch fv) s = send_txs io i [ph, ch] s"
| "broadcast_step io pkg i (BumpStep p ph fv) s =
     (case io_bump io of
        None \<Rightarrow> (Some ''graph package requires a fee wallet (opts.feeWallet) to fund CPFP bumps'', s)
      | Some bumpAnchor \<Rightarrow>
          (case bumpAnchor ph (pkg_feeRate pkg) (ex_world s) of
             (Inl e, w) \<Rightarrow> (Some e, s\<lparr>ex_world := w\<rparr>)
           | (Inr (parentHex, childHex), w) \<Rightarrow> send_txs io i [parentHex, childHex] (s\<lparr>ex_world := w\<rparr>)))"
| "broadcast_step io pkg i (BroadcastStep t h) s = send_txs io i [h] s"
| "broadcast_step io pkg i (SweepStep v t h d w) s = send_txs io i [h] s"

text \<open>The outputs a failed step gives up.\<close>

fun kills :: "ExitPackage \<Rightarrow> ExitStep \<Rightarrow> string list" where
  "kills pkg (BroadcastStep t h) = concat (map (\<lambda>s. case s of PackageStep p ph c ch fv \<Rightarrow> fv | _ \<Rightarrow> []) (pkg_steps pkg))"
| "kills pkg (PackageStep p ph c ch fv) = fv"
| "kills pkg (BumpStep p ph fv) = fv"
| "kills pkg (SweepStep v t h d w) = []"

definition branch_dead :: "ExitStep \<Rightarrow> string list \<Rightarrow> bool" where
  "branch_dead stp dead = (case step_forVtxos stp of None \<Rightarrow> False | Some fv \<Rightarrow> \<forall>v \<in> set fv. v \<in> set dead)"

definition await_step :: "'w exit_io \<Rightarrow> nat \<Rightarrow> nat \<Rightarrow> ExitStep \<Rightarrow> 'w exit_run \<Rightarrow> (stop + nat) \<times> 'w exit_run" where
  "await_step io polls i stp s =
     (case waitConfirmed io polls (anchorTxid stp) s of
        (Inl e, s1) \<Rightarrow> (Inl e, s1)
      | (Inr left, s1) \<Rightarrow> (Inr left, yield_event i stp EvConfirmed (Some (anchorTxid stp)) (step_forVtxos stp) None s1))"

definition run_step :: "'w exit_io \<Rightarrow> ExitPackage \<Rightarrow> nat \<Rightarrow> nat \<Rightarrow> ExitStep \<Rightarrow> 'w exit_run \<Rightarrow> (stop + nat) \<times> 'w exit_run" where
  "run_step io pkg polls i stp s =
     (if branch_dead stp (ex_dead s)
      then (Inr polls, yield_event i stp EvSkipped None (step_forVtxos stp) (Some ''branch failed earlier'') s)
      else let (existing, s1) = exit_status io (anchorTxid stp) s in
        if confirmed_status existing
        then (Inr polls, yield_event i stp EvSkipped (Some (anchorTxid stp)) (step_forVtxos stp) None s1)
        else if existing \<noteq> None then await_step io polls i stp s1
        else case broadcast_step io pkg i stp s1 of
          (Some reason, s2) \<Rightarrow>
            (Inr polls, yield_event i stp EvFailed (Some (anchorTxid stp)) (step_forVtxos stp) (Some reason)
               (s2\<lparr>ex_dead := fold js_add (kills pkg stp) (ex_dead s2)\<rparr>))
        | (None, s2) \<Rightarrow>
            await_step io polls i stp (yield_event i stp EvBroadcast (Some (anchorTxid stp)) (step_forVtxos stp) None s2))"

fun run_steps :: "'w exit_io \<Rightarrow> ExitPackage \<Rightarrow> nat \<Rightarrow> (nat \<times> ExitStep) list \<Rightarrow> 'w exit_run \<Rightarrow> (stop + nat) \<times> 'w exit_run" where
  "run_steps io pkg polls [] s = (Inr polls, s)"
| "run_steps io pkg polls ((i, stp) # todo) s =
     (if is_sweep stp then run_steps io pkg polls todo s
      else case run_step io pkg polls i stp s of
        (Inl e, s1) \<Rightarrow> (Inl e, s1)
      | (Inr left, s1) \<Rightarrow> run_steps io pkg left todo s1)"

section \<open>The sweeps\<close>

definition mature :: "ExitDelay \<Rightarrow> TxStatus \<Rightarrow> int \<Rightarrow> int \<Rightarrow> bool" where
  "mature delay dep tipHeight tipTime =
     (case delay of
        DelayBlocks n \<Rightarrow> or_default (ts_blockHeight dep) 0 + n \<le> tipHeight
      | DelaySeconds n \<Rightarrow> or_default (ts_blockTime dep) 0 + n \<le> tipTime)"

definition waiting_event :: "nat \<Rightarrow> string \<Rightarrow> string \<Rightarrow> ExitDelay \<Rightarrow> TxStatus \<Rightarrow> ExecutorEvent" where
  "waiting_event i vtxo txid delay dep =
     \<lparr>ev_stepIndex = int i, ev_kind = KSweep, ev_status = EvWaitingCsv, ev_forVtxos = Some [vtxo], ev_txid = Some txid, ev_reason = None,
      ev_maturesAtHeight = (case delay of DelayBlocks n \<Rightarrow> Some (or_default (ts_blockHeight dep) 0 + n) | _ \<Rightarrow> None),
      ev_maturesAtTime = (case delay of DelaySeconds n \<Rightarrow> Some (or_default (ts_blockTime dep) 0 + n) | _ \<Rightarrow> None)\<rparr>"

text \<open>The expression \<open>/non-?bip68|non-?final|premature/i\<close>.\<close>

definition not_yet_final :: "string \<Rightarrow> bool" where
  "not_yet_final reason =
     list_ex (str_includes (map lower_char reason)) [''nonbip68'', ''non-bip68'', ''nonfinal'', ''non-final'', ''premature'']"

fun sweep_one :: "'w exit_io \<Rightarrow> nat \<Rightarrow> ExitStep \<Rightarrow> 'w exit_run \<Rightarrow> (stop + unit) \<times> 'w exit_run" where
  "sweep_one io i (SweepStep vtxo txid hex dependsOn delay) s =
     (let yields = (\<lambda>status reason. yield_event i (SweepStep vtxo txid hex dependsOn delay) status (Some txid) (Some [vtxo]) reason) in
      if i \<in> set (ex_done s) then (Inr (), s)
      else if io_aborted io (ex_world s) then (Inl Aborted, s)
      else let (swept, s1) = exit_status io txid s in
        if confirmed_status swept then (Inr (), yields EvConfirmed None (s1\<lparr>ex_done := js_add i (ex_done s1)\<rparr>))
        else if swept \<noteq> None then (Inr (), s1)
        else let (dep, s2) = exit_status io dependsOn s1 in
          case dep of
            None \<Rightarrow> (Inr (), s2)
          | Some d \<Rightarrow>
              if \<not> ts_confirmed d then (Inr (), s2)
              else case io_tip io (ex_world s2) of
                (Inl e, w) \<Rightarrow> (Inl (TipFailed e), s2\<lparr>ex_world := w\<rparr>)
              | (Inr (tipHeight, tipTime), w) \<Rightarrow>
                  let s3 = note_action (ReadTip tipHeight tipTime) (s2\<lparr>ex_world := w\<rparr>) in
                  if \<not> mature delay d tipHeight tipTime then
                    (Inr (), if i \<in> set (ex_waiting s3) then s3
                       else note_action (Yielded (waiting_event i vtxo txid delay d)) (s3\<lparr>ex_waiting := js_add i (ex_waiting s3)\<rparr>))
                  else case send_txs io i [hex] s3 of
                    (None, s4) \<Rightarrow> (Inr (), yields EvBroadcast None s4)
                  | (Some reason, s4) \<Rightarrow>
                      if not_yet_final reason then (Inr (), s4)
                      else (Inr (), yields EvFailed (Some reason) (s4\<lparr>ex_done := js_add i (ex_done s4)\<rparr>)))"
| "sweep_one io i _ s = (Inr (), s)"

fun sweep_round :: "'w exit_io \<Rightarrow> (nat \<times> ExitStep) list \<Rightarrow> 'w exit_run \<Rightarrow> (stop + unit) \<times> 'w exit_run" where
  "sweep_round io [] s = (Inr (), s)"
| "sweep_round io ((i, stp) # todo) s =
     (case sweep_one io i stp s of
        (Inl e, s1) \<Rightarrow> (Inl e, s1)
      | (Inr _, s1) \<Rightarrow> sweep_round io todo s1)"

fun sweep_loop :: "'w exit_io \<Rightarrow> nat \<Rightarrow> (nat \<times> ExitStep) list \<Rightarrow> 'w exit_run \<Rightarrow> (stop + unit) \<times> 'w exit_run" where
  "sweep_loop io polls pending s =
     (if length pending \<le> length (ex_done s) then (Inr (), s)
      else case sweep_round io pending s of
        (Inl e, s1) \<Rightarrow> (Inl e, s1)
      | (Inr _, s1) \<Rightarrow>
          if length pending \<le> length (ex_done s1) then (Inr (), s1)
          else case polls of
            0 \<Rightarrow> (Inl StillPolling, s1)
          | Suc left \<Rightarrow> let (rejected, s2) = exit_sleep io s1 in if rejected then (Inl Aborted, s2) else sweep_loop io left pending s2)"

declare sweep_loop.simps [simp del]

definition sweep_vtxo :: "ExitStep \<Rightarrow> string" where
  "sweep_vtxo stp = (case stp of SweepStep v t h d w \<Rightarrow> v | _ \<Rightarrow> [])"

definition run_sweeps :: "'w exit_io \<Rightarrow> ExitPackage \<Rightarrow> nat \<Rightarrow> 'w exit_run \<Rightarrow> (stop + unit) \<times> 'w exit_run" where
  "run_sweeps io pkg polls s =
     (let sweeps = filter (\<lambda>(i, stp). is_sweep stp) (List.enumerate 0 (pkg_steps pkg));
          s1 = fold (\<lambda>(i, stp) s. if sweep_vtxo stp \<in> set (ex_dead s)
                 then yield_event i stp EvFailed (Some (anchorTxid stp)) (Some [sweep_vtxo stp]) (Some ''branch failed earlier'') s else s) sweeps s;
          pending = filter (\<lambda>(i, stp). sweep_vtxo stp \<notin> set (ex_dead s1)) sweeps
      in sweep_loop io polls pending s1)"

definition late_warning :: "ExecutorEvent" where
  "late_warning = \<lparr>ev_stepIndex = - 1, ev_kind = KBroadcast, ev_status = EvWarning, ev_forVtxos = None, ev_txid = None,
     ev_reason = Some ''package validUntil has passed; the operator may have swept - attempting anyway'',
     ev_maturesAtHeight = None, ev_maturesAtTime = None\<rparr>"

definition no_run :: "'w \<Rightarrow> 'w exit_run" where
  "no_run w = \<lparr>ex_world = w, ex_dead = [], ex_waiting = [], ex_done = [], ex_log = []\<rparr>"

definition start_run :: "'w exit_io \<Rightarrow> ExitPackage \<Rightarrow> 'w \<Rightarrow> 'w exit_run" where
  "start_run io pkg w =
     (if case pkg_validUntil pkg of None \<Rightarrow> False | Some t \<Rightarrow> t \<noteq> 0 \<and> 1000 * t < io_now io w
      then note_action (Yielded late_warning) (no_run w) else no_run w)"

definition execute :: "'w exit_io \<Rightarrow> ExitPackage \<Rightarrow> nat \<Rightarrow> 'w \<Rightarrow> (stop + unit) \<times> 'w exit_run" where
  "execute io pkg polls w =
     (if io_aborted io w then (Inl Aborted, no_run w)
      else case run_steps io pkg polls (List.enumerate 0 (pkg_steps pkg)) (start_run io pkg w) of
             (Inl e, s) \<Rightarrow> (Inl e, s)
           | (Inr left, s) \<Rightarrow> run_sweeps io pkg left s)"

section \<open>What the log must look like\<close>

definition failed_at :: "action list \<Rightarrow> nat \<Rightarrow> bool" where
  "failed_at acts j \<longleftrightarrow> (\<exists>e. Yielded e \<in> set acts \<and> ev_stepIndex e = int j \<and> ev_status e = EvFailed)"

definition dead_in :: "ExitPackage \<Rightarrow> action list \<Rightarrow> string set" where
  "dead_in pkg acts = (\<Union>j \<in> {j. j < length (pkg_steps pkg) \<and> failed_at acts j}. set (kills pkg (pkg_steps pkg ! j)))"

definition seen_confirmed :: "string \<Rightarrow> action list \<Rightarrow> bool" where
  "seen_confirmed txid acts \<longleftrightarrow> (\<exists>st. ReadStatus txid (Some st) \<in> set acts \<and> ts_confirmed st)"

text \<open>A step is settled when its transaction was seen confirmed or all it serves is given up.\<close>

definition settled :: "ExitPackage \<Rightarrow> action list \<Rightarrow> nat \<Rightarrow> bool" where
  "settled pkg acts j \<longleftrightarrow>
     seen_confirmed (anchorTxid (pkg_steps pkg ! j)) acts \<or> set (kills pkg (pkg_steps pkg ! j)) \<subseteq> dead_in pkg acts"

definition settled_before :: "ExitPackage \<Rightarrow> action list \<Rightarrow> nat \<Rightarrow> bool" where
  "settled_before pkg acts i \<longleftrightarrow> (\<forall>j < i. \<not> is_sweep (pkg_steps pkg ! j) \<longrightarrow> settled pkg acts j)"

definition unroll_ok :: "ExitPackage \<Rightarrow> action list \<Rightarrow> nat \<Rightarrow> bool" where
  "unroll_ok pkg acts i \<longleftrightarrow>
     (case step_forVtxos (pkg_steps pkg ! i) of None \<Rightarrow> True | Some fv \<Rightarrow> \<not> set fv \<subseteq> dead_in pkg acts) \<and>
     (\<exists>l. acts = l @ [ReadStatus (anchorTxid (pkg_steps pkg ! i)) None]) \<and> settled_before pkg acts i"

text \<open>When a transaction may be sent, after the given log.\<close>

definition send_ok :: "ExitPackage \<Rightarrow> action list \<Rightarrow> nat \<Rightarrow> string list \<Rightarrow> bool" where
  "send_ok pkg acts i hexes \<longleftrightarrow> i < length (pkg_steps pkg) \<and>
     (case pkg_steps pkg ! i of
        BroadcastStep t h \<Rightarrow> hexes = [h] \<and> unroll_ok pkg acts i
      | PackageStep p ph c ch fv \<Rightarrow> hexes = [ph, ch] \<and> unroll_ok pkg acts i
      | BumpStep p ph fv \<Rightarrow> length hexes = 2 \<and> unroll_ok pkg acts i
      | SweepStep v t h d w \<Rightarrow> hexes = [h] \<and> v \<notin> dead_in pkg acts \<and> settled_before pkg acts (length (pkg_steps pkg)) \<and>
          (\<exists>l st tipHeight tipTime. acts = l @ [ReadStatus t None, ReadStatus d (Some st), ReadTip tipHeight tipTime] \<and>
             ts_confirmed st \<and> mature w st tipHeight tipTime))"

definition guarded :: "ExitPackage \<Rightarrow> action list \<Rightarrow> bool" where
  "guarded pkg acts \<longleftrightarrow> (\<forall>pre i hexes r post. acts = pre @ SentTx i hexes r # post \<longrightarrow> send_ok pkg pre i hexes)"

lemma guarded_Nil [simp]: "guarded pkg []"
  by (simp add: guarded_def)

lemma snoc_split:
  "l @ [a] = pre @ b # post \<longleftrightarrow> (post = [] \<and> pre = l \<and> a = b) \<or> (\<exists>post'. post = post' @ [a] \<and> l = pre @ b # post')"
  by (cases post rule: rev_cases) auto

lemma guarded_snoc: "guarded pkg (l @ [a]) \<longleftrightarrow> guarded pkg l \<and> (\<forall>i hexes r. a = SentTx i hexes r \<longrightarrow> send_ok pkg l i hexes)"
proof
  assume all: "guarded pkg (l @ [a])"
  have "send_ok pkg pre i hexes" if "l = pre @ SentTx i hexes r # post" for pre i hexes r post
    using all [unfolded guarded_def, rule_format, of pre i hexes r "post @ [a]"] that by simp
  moreover have "send_ok pkg l i hexes" if "a = SentTx i hexes r" for i hexes r
    using all [unfolded guarded_def, rule_format, of l i hexes r "[]"] that by simp
  ultimately show "guarded pkg l \<and> (\<forall>i hexes r. a = SentTx i hexes r \<longrightarrow> send_ok pkg l i hexes)"
    unfolding guarded_def by blast
next
  assume "guarded pkg l \<and> (\<forall>i hexes r. a = SentTx i hexes r \<longrightarrow> send_ok pkg l i hexes)"
  then show "guarded pkg (l @ [a])"
    unfolding guarded_def snoc_split by metis
qed

text \<open>An action that neither sends nor gives anything up.\<close>

definition silent :: "action \<Rightarrow> bool" where
  "silent a \<longleftrightarrow> (case a of SentTx i h r \<Rightarrow> False | Yielded e \<Rightarrow> ev_status e \<noteq> EvFailed | _ \<Rightarrow> True)"

lemma failed_at_quiet: "list_all silent extra \<Longrightarrow> failed_at (l @ extra) = failed_at l"
  by (auto simp: failed_at_def fun_eq_iff list_all_iff silent_def)

lemma guarded_quiet: "list_all silent extra \<Longrightarrow> guarded pkg (l @ extra) \<longleftrightarrow> guarded pkg l"
proof (induction extra rule: rev_induct)
  case (snoc a extra)
  have "guarded pkg ((l @ extra) @ [a]) \<longleftrightarrow> guarded pkg (l @ extra)"
    using snoc.prems unfolding guarded_snoc by (auto simp: silent_def)
  then show ?case
    using snoc by simp
qed simp

lemma dead_mono: "dead_in pkg l \<subseteq> dead_in pkg (l @ extra)"
  by (auto simp: dead_in_def failed_at_def)

lemma settled_mono: "settled pkg l j \<Longrightarrow> settled pkg (l @ extra) j"
  using dead_mono [of pkg l extra] by (auto simp: settled_def seen_confirmed_def)

lemma settled_before_mono: "settled_before pkg l j \<Longrightarrow> settled_before pkg (l @ extra) j"
  using settled_mono by (auto simp: settled_before_def)

definition run_ok :: "ExitPackage \<Rightarrow> 'w exit_run \<Rightarrow> bool" where
  "run_ok pkg s \<longleftrightarrow> guarded pkg (ex_log s) \<and> set (ex_dead s) = dead_in pkg (ex_log s)"

text \<open>What happens between two states, and what happens quietly.\<close>

definition later :: "'w exit_run \<Rightarrow> 'w exit_run \<Rightarrow> bool" where
  "later s s' \<longleftrightarrow> (\<exists>extra. ex_log s' = ex_log s @ extra)"

definition quietly :: "'w exit_run \<Rightarrow> 'w exit_run \<Rightarrow> bool" where
  "quietly s s' \<longleftrightarrow> ex_dead s' = ex_dead s \<and> (\<exists>extra. ex_log s' = ex_log s @ extra \<and> list_all silent extra)"

lemma later_refl [simp]: "later s s"
  by (simp add: later_def)

lemma later_trans: "later s s1 \<Longrightarrow> later s1 s2 \<Longrightarrow> later s s2"
  by (auto simp: later_def)

lemma quietly_refl [simp]: "quietly s s"
  by (simp add: quietly_def)

lemma quietly_trans: "quietly s s1 \<Longrightarrow> quietly s1 s2 \<Longrightarrow> quietly s s2"
  by (auto simp: quietly_def) 

lemma quietly_later: "quietly s s' \<Longrightarrow> later s s'"
  by (auto simp: quietly_def later_def)

lemma quietly_ok: "quietly s s' \<Longrightarrow> run_ok pkg s \<Longrightarrow> run_ok pkg s'"
  by (auto simp: quietly_def run_ok_def guarded_quiet dead_in_def failed_at_quiet)

lemma quietly_dead: "quietly s s' \<Longrightarrow> dead_in pkg (ex_log s') = dead_in pkg (ex_log s)"
  by (auto simp: quietly_def dead_in_def failed_at_quiet)

lemma later_settled:
  "later s s' \<Longrightarrow> settled pkg (ex_log s) j \<Longrightarrow> settled pkg (ex_log s') j"
  "later s s' \<Longrightarrow> settled_before pkg (ex_log s) j \<Longrightarrow> settled_before pkg (ex_log s') j"
  by (auto simp: later_def settled_mono settled_before_mono)

lemma note_log [simp]: "ex_log (note_action a s) = ex_log s @ [a]" "ex_dead (note_action a s) = ex_dead s"
  "ex_world (note_action a s) = ex_world s" "ex_done (note_action a s) = ex_done s" "ex_waiting (note_action a s) = ex_waiting s"
  by (simp_all add: note_action_def)

lemma yield_quiet: "status \<noteq> EvFailed \<Longrightarrow> quietly s (yield_event i stp status t fv r s)"
  by (simp add: quietly_def yield_event_def silent_def)

lemma exit_status_ok:
  assumes "exit_status io txid s = (st, s1)"
  shows "quietly s s1" and "ex_log s1 = ex_log s @ [ReadStatus txid st]"
  using assms by (auto simp: exit_status_def Let_def quietly_def silent_def split: prod.splits)

lemma exit_sleep_ok: "exit_sleep io s = (rejected, s1) \<Longrightarrow> quietly s s1"
  by (auto simp: exit_sleep_def Let_def quietly_def split: if_splits)

lemma waitConfirmed_ok:
  "waitConfirmed io polls txid s = (r, s') \<Longrightarrow> quietly s s' \<and> (\<forall>left. r = Inr left \<longrightarrow> seen_confirmed txid (ex_log s'))"
proof (induction io polls txid s rule: waitConfirmed.induct)
  case (1 io txid s)
  obtain st s1 where st: "exit_status io txid s = (st, s1)"
    by force
  show ?case
    using 1 exit_status_ok [OF st] by (auto simp: poll_confirmed_def st seen_confirmed_def confirmed_status_def split: if_splits option.splits)
next
  case (2 io polls txid s)
  obtain st s1 where st: "exit_status io txid s = (st, s1)"
    by force
  obtain rejected s2 where sl: "exit_sleep io s1 = (rejected, s2)"
    by force
  note silent = exit_status_ok [OF st] exit_sleep_ok [OF sl]
  show ?case
  proof (cases "confirmed_status st \<or> io_aborted io (ex_world s1) \<or> rejected")
    case True
    then show ?thesis
      using "2.prems" silent quietly_trans [OF silent(1,3)]
      by (auto simp: poll_confirmed_def st sl seen_confirmed_def confirmed_status_def split: if_splits option.splits)
  next
    case False
    then have "waitConfirmed io polls txid s2 = (r, s')"
      using "2.prems" by (simp add: poll_confirmed_def st sl)
    then show ?thesis
      using "2.IH" [OF sl [symmetric] refl] False quietly_trans [OF quietly_trans [OF silent(1,3)]] by auto
  qed
qed

lemma await_step_ok:
  assumes "await_step io polls i stp s = (r, s')"
  shows "quietly s s' \<and> (\<forall>left. r = Inr left \<longrightarrow> seen_confirmed (anchorTxid stp) (ex_log s'))"
proof -
  obtain q s1 where w: "waitConfirmed io polls (anchorTxid stp) s = (q, s1)"
    by force
  note ok = waitConfirmed_ok [OF w]
  show ?thesis
    using assms ok quietly_trans [OF _ yield_quiet, of s s1 EvConfirmed]
    by (auto simp: await_step_def w yield_event_def seen_confirmed_def split: sum.splits)
qed

section \<open>Every run keeps to it\<close>

lemma dead_fail:
  assumes "i < length (pkg_steps pkg)"
  shows "dead_in pkg (ex_log (yield_event i stp EvFailed t fv r s)) = dead_in pkg (ex_log s) \<union> set (kills pkg (pkg_steps pkg ! i))"
proof -
  have "failed_at (ex_log (yield_event i stp EvFailed t fv r s)) j \<longleftrightarrow> failed_at (ex_log s) j \<or> j = i" for j
  proof -
    define e where "e = \<lparr>ev_stepIndex = int i, ev_kind = kind_of stp, ev_status = EvFailed, ev_forVtxos = fv, ev_txid = t,
      ev_reason = r, ev_maturesAtHeight = None, ev_maturesAtTime = None\<rparr>"
    have "ex_log (yield_event i stp EvFailed t fv r s) = ex_log s @ [Yielded e]" "ev_stepIndex e = int i" "ev_status e = EvFailed"
      by (simp_all add: yield_event_def e_def)
    then show ?thesis
      unfolding failed_at_def by (auto simp del: note_log)
  qed
  then show ?thesis
    using assms by (auto simp: dead_in_def)
qed

lemma yield_guarded: "guarded pkg (ex_log (yield_event i stp st t fv r s)) \<longleftrightarrow> guarded pkg (ex_log s)"
  by (simp add: yield_event_def guarded_snoc)

lemma yield_later: "later s (yield_event i stp st t fv r s)"
  by (simp add: yield_event_def later_def)

lemma send_txs_ok:
  assumes "send_txs io i hexes s = (e, s')" and "run_ok pkg s" and "send_ok pkg (ex_log s) i hexes"
  shows "run_ok pkg s'" and "later s s'" and "ex_dead s' = ex_dead s" and "dead_in pkg (ex_log s') = dead_in pkg (ex_log s)"
proof -
  have run: "ex_log s' = ex_log s @ [SentTx i hexes e]" "ex_dead s' = ex_dead s"
    using assms(1) by (auto simp: send_txs_def Let_def split: prod.splits)
  then show dead: "dead_in pkg (ex_log s') = dead_in pkg (ex_log s)"
    by (simp add: dead_in_def failed_at_def)
  show "run_ok pkg s'" "later s s'" "ex_dead s' = ex_dead s"
    using assms(2,3) run dead by (auto simp: run_ok_def guarded_snoc later_def)
qed

lemma broadcast_step_ok:
  assumes "broadcast_step io pkg i (pkg_steps pkg ! i) s = (e, s')" and "run_ok pkg s" and "i < length (pkg_steps pkg)"
    and "unroll_ok pkg (ex_log s) i" and "\<not> is_sweep (pkg_steps pkg ! i)"
  shows "run_ok pkg s' \<and> later s s'"
proof (cases "pkg_steps pkg ! i")
  case (BroadcastStep t h)
  then show ?thesis
    using assms send_txs_ok [of io i "[h]" s e s' pkg] by (simp add: send_ok_def)
next
  case (PackageStep p ph c ch fv)
  then show ?thesis
    using assms send_txs_ok [of io i "[ph, ch]" s e s' pkg] by (simp add: send_ok_def)
next
  case (BumpStep p ph fv)
  show ?thesis
  proof (cases "io_bump io")
    case None
    then show ?thesis
      using assms BumpStep by simp
  next
    case (Some bump)
    obtain r w where b: "bump ph (pkg_feeRate pkg) (ex_world s) = (r, w)"
      by force
    let ?s = "s\<lparr>ex_world := w\<rparr>"
    have ok: "run_ok pkg ?s" "later s ?s" "ex_log ?s = ex_log s"
      using assms(2) by (simp_all add: run_ok_def later_def)
    show ?thesis
    proof (cases r)
      case (Inl err)
      then show ?thesis
        using assms(1) BumpStep Some b ok by simp
    next
      case (Inr hexes)
      obtain x y where h: "hexes = (x, y)" by force
      have sent: "send_txs io i [x, y] ?s = (e, s')"
        using assms(1) BumpStep Some b Inr h by simp
      have "send_ok pkg (ex_log ?s) i [x, y]"
        using assms(3,4) BumpStep ok(3) by (simp add: send_ok_def)
      then show ?thesis
        using send_txs_ok(1,2) [OF sent ok(1)] later_trans [OF ok(2)] by blast
    qed
  qed
next
  case SweepStep
  then show ?thesis
    using assms(5) by simp
qed

lemma branch_dead_iff:
  "branch_dead stp dead \<longleftrightarrow> (case step_forVtxos stp of None \<Rightarrow> False | Some fv \<Rightarrow> set fv \<subseteq> set dead)"
  by (auto simp: branch_dead_def split: option.splits)

lemma kills_forVtxos: "step_forVtxos stp = Some fv \<Longrightarrow> kills pkg stp = fv"
  by (cases stp) auto

lemma settled_confirmed: "seen_confirmed (anchorTxid (pkg_steps pkg ! i)) acts \<Longrightarrow> settled pkg acts i"
  by (simp add: settled_def)

lemma await_settles:
  assumes "await_step io polls i (pkg_steps pkg ! i) s = (r, s')" and "run_ok pkg s"
  shows "run_ok pkg s' \<and> later s s' \<and> (\<forall>left. r = Inr left \<longrightarrow> settled pkg (ex_log s') i)"
  using await_step_ok [OF assms(1)] assms(2) by (auto intro: quietly_ok quietly_later settled_confirmed)

lemma set_kills [simp]: "set (fold js_add xs ys) = set xs \<union> set ys"
  by (induction xs arbitrary: ys) auto

lemma run_step_ok:
  assumes run: "run_step io pkg polls i (pkg_steps pkg ! i) s = (r, s')" and ok: "run_ok pkg s" and i: "i < length (pkg_steps pkg)"
    and before: "settled_before pkg (ex_log s) i" and nosweep: "\<not> is_sweep (pkg_steps pkg ! i)"
  shows "run_ok pkg s' \<and> later s s' \<and> (\<forall>left. r = Inr left \<longrightarrow> settled pkg (ex_log s') i)"
proof -
  let ?stp = "pkg_steps pkg ! i"
  obtain ex s1 where st: "exit_status io (anchorTxid ?stp) s = (ex, s1)"
    by force
  note s1 = exit_status_ok [OF st]
  have ok1: "run_ok pkg s1" and l1: "later s s1"
    using quietly_ok [OF s1(1) ok] quietly_later [OF s1(1)] by auto
  consider (dead) "branch_dead ?stp (ex_dead s)" | (confirmed) "\<not> branch_dead ?stp (ex_dead s)" "confirmed_status ex"
    | (seen) "\<not> branch_dead ?stp (ex_dead s)" "\<not> confirmed_status ex" "ex \<noteq> None"
    | (absent) "\<not> branch_dead ?stp (ex_dead s)" "ex = None"
    by blast
  then show ?thesis
  proof cases
    case dead
    let ?y = "yield_event i ?stp EvSkipped None (step_forVtxos ?stp) (Some ''branch failed earlier'') s"
    have y: "quietly s ?y"
      by (rule yield_quiet) simp
    have "set (kills pkg ?stp) \<subseteq> dead_in pkg (ex_log s)"
      using dead ok kills_forVtxos [of ?stp _ pkg] by (auto simp: branch_dead_iff run_ok_def split: option.splits)
    then have "settled pkg (ex_log ?y) i"
      unfolding settled_def quietly_dead [OF y] by blast
    then show ?thesis
      using run dead quietly_ok [OF y ok] quietly_later [OF y] by (simp add: run_step_def)
  next
    case confirmed
    let ?y = "yield_event i ?stp EvSkipped (Some (anchorTxid ?stp)) (step_forVtxos ?stp) None s1"
    have y: "quietly s1 ?y"
      by (rule yield_quiet) simp
    have "seen_confirmed (anchorTxid ?stp) (ex_log ?y)"
      using confirmed s1(2) by (auto simp: seen_confirmed_def yield_event_def confirmed_status_def split: option.splits)
    then show ?thesis
      using run confirmed st quietly_ok [OF y ok1] later_trans [OF l1 quietly_later [OF y]] settled_confirmed
      by (auto simp: run_step_def)
  next
    case seen
    then have "await_step io polls i ?stp s1 = (r, s')"
      using run st by (simp add: run_step_def)
    then show ?thesis
      using await_settles [OF _ ok1] later_trans [OF l1] by blast
  next
    case absent
    obtain e s2 where b: "broadcast_step io pkg i ?stp s1 = (e, s2)"
      by force
    have "unroll_ok pkg (ex_log s1) i"
      using absent(1) ok later_settled(2) [OF l1 before] s1(2) quietly_dead [OF s1(1), of pkg] absent(2)
      by (auto simp: unroll_ok_def branch_dead_iff run_ok_def split: option.splits)
    then have s2: "run_ok pkg s2" "later s s2"
      using broadcast_step_ok [OF b ok1 i _ nosweep] later_trans [OF l1] by auto
    show ?thesis
    proof (cases e)
      case None
      let ?y = "yield_event i ?stp EvBroadcast (Some (anchorTxid ?stp)) (step_forVtxos ?stp) None s2"
      have y: "quietly s2 ?y"
        by (rule yield_quiet) simp
      have "await_step io polls i ?stp ?y = (r, s')"
        using run absent st b None by (simp add: run_step_def confirmed_status_def)
      then show ?thesis
        using await_settles [OF _ quietly_ok [OF y s2(1)]] later_trans [OF later_trans [OF s2(2) quietly_later [OF y]]] by blast
    next
      case (Some reason)
      let ?d = "s2\<lparr>ex_dead := fold js_add (kills pkg ?stp) (ex_dead s2)\<rparr>"
      let ?y = "yield_event i ?stp EvFailed (Some (anchorTxid ?stp)) (step_forVtxos ?stp) (Some reason) ?d"
      have y: "s' = ?y" and r: "r = Inr polls"
        using run absent st b Some by (simp_all add: run_step_def confirmed_status_def)
      have dead: "dead_in pkg (ex_log ?y) = dead_in pkg (ex_log s2) \<union> set (kills pkg ?stp)"
        using dead_fail [OF i, of ?stp _ _ _ ?d] by simp
      have "ex_dead ?y = fold js_add (kills pkg ?stp) (ex_dead s2)"
        by (simp add: yield_event_def)
      then have "run_ok pkg ?y"
        using s2(1) dead yield_guarded [of pkg i ?stp EvFailed _ _ _ ?d] by (auto simp: run_ok_def)
      moreover have "later s2 ?d"
        by (simp add: later_def)
      then have "later s ?y"
        by (rule later_trans [OF later_trans [OF s2(2)] yield_later])
      ultimately show ?thesis
        using dead unfolding y settled_def by blast
    qed
  qed
qed

lemma run_steps_ok:
  "run_steps io pkg polls xs s = (r, s') \<Longrightarrow> xs = drop k (List.enumerate 0 (pkg_steps pkg)) \<Longrightarrow> k \<le> length (pkg_steps pkg) \<Longrightarrow>
     run_ok pkg s \<Longrightarrow> settled_before pkg (ex_log s) k \<Longrightarrow>
     run_ok pkg s' \<and> later s s' \<and> (\<forall>left. r = Inr left \<longrightarrow> settled_before pkg (ex_log s') (length (pkg_steps pkg)))"
proof (induction xs arbitrary: k polls s)
  case Nil
  then have "k = length (pkg_steps pkg)"
    by simp
  then show ?case
    using Nil by simp
next
  case (Cons x xs)
  have k: "k < length (pkg_steps pkg)"
    using Cons.prems(2,3) by (cases "k = length (pkg_steps pkg)") auto
  then have "x # xs = (k, pkg_steps pkg ! k) # drop (Suc k) (List.enumerate 0 (pkg_steps pkg))"
    using Cons_nth_drop_Suc [of k "List.enumerate 0 (pkg_steps pkg)"] by (simp add: nth_enumerate_eq Cons.prems(2))
  then have x: "x = (k, pkg_steps pkg ! k)" and xs: "xs = drop (Suc k) (List.enumerate 0 (pkg_steps pkg))"
    by simp_all
  show ?case
  proof (cases "is_sweep (pkg_steps pkg ! k)")
    case True
    then have "settled_before pkg (ex_log s) (Suc k)"
      using Cons.prems(5) by (auto simp: settled_before_def less_Suc_eq)
    then show ?thesis
      using Cons.IH [OF _ xs] Cons.prems(1,4) k True by (simp add: x)
  next
    case False
    obtain q s1 where run: "run_step io pkg polls k (pkg_steps pkg ! k) s = (q, s1)"
      by force
    note s1 = run_step_ok [OF run Cons.prems(4) k Cons.prems(5) False]
    show ?thesis
    proof (cases q)
      case (Inl e)
      then show ?thesis
        using Cons.prems(1) s1 run False by (auto simp: x)
    next
      case (Inr left)
      have before: "settled_before pkg (ex_log s1) (Suc k)"
        using s1 Inr later_settled(2) [of s s1 pkg k] Cons.prems(5) by (auto simp: settled_before_def less_Suc_eq)
      have "run_steps io pkg left xs s1 = (r, s')"
        using Cons.prems(1) run False Inr by (simp add: x)
      then show ?thesis
        using Cons.IH [OF _ xs _ _ before] s1 k later_trans [of s s1 s'] by auto
    qed
  qed
qed

text \<open>Sweeping changes nothing about what is dead.\<close>

definition sweeps_to :: "ExitPackage \<Rightarrow> 'w exit_run \<Rightarrow> 'w exit_run \<Rightarrow> bool" where
  "sweeps_to pkg s s' \<longleftrightarrow> run_ok pkg s' \<and> later s s' \<and> dead_in pkg (ex_log s') = dead_in pkg (ex_log s)"

lemma sweeps_to_trans: "sweeps_to pkg s s1 \<Longrightarrow> sweeps_to pkg s1 s2 \<Longrightarrow> sweeps_to pkg s s2"
  using later_trans by (auto simp: sweeps_to_def)

lemma sweeps_to_quiet: "run_ok pkg s \<Longrightarrow> quietly s s' \<Longrightarrow> sweeps_to pkg s s'"
  by (simp add: sweeps_to_def quietly_ok quietly_later quietly_dead)

lemma sweeps_to_state:
  "sweeps_to pkg s s1 \<Longrightarrow> ex_log s2 = ex_log s1 \<Longrightarrow> ex_dead s2 = ex_dead s1 \<Longrightarrow> sweeps_to pkg s s2"
  by (simp add: sweeps_to_def run_ok_def later_def)

lemma sweeps_to_yield:
  assumes "sweeps_to pkg s s1" and "kills pkg (pkg_steps pkg ! i) = []" and "i < length (pkg_steps pkg)"
  shows "sweeps_to pkg s (yield_event i stp status t fv r s1)"
proof (cases "status = EvFailed")
  case True
  then show ?thesis
    using assms dead_fail [OF assms(3), of stp t fv r s1] yield_guarded [of pkg i stp status t fv r s1] yield_later [of s1] later_trans [of s s1]
    by (auto simp: sweeps_to_def run_ok_def yield_event_def)
next
  case False
  have "sweeps_to pkg s1 (yield_event i stp status t fv r s1)"
    using assms(1) yield_quiet [OF False] by (intro sweeps_to_quiet) (auto simp: sweeps_to_def)
  then show ?thesis
    by (rule sweeps_to_trans [OF assms(1)])
qed

lemma sweep_one_ok:
  assumes run: "sweep_one io i (pkg_steps pkg ! i) s = (r, s')" and ok: "run_ok pkg s" and i: "i < length (pkg_steps pkg)"
    and stp: "pkg_steps pkg ! i = SweepStep v t h d w" and alive: "v \<notin> dead_in pkg (ex_log s)"
    and before: "settled_before pkg (ex_log s) (length (pkg_steps pkg))"
  shows "sweeps_to pkg s s'"
proof -
  have kills: "kills pkg (pkg_steps pkg ! i) = []"
    by (simp add: stp)
  have refl: "sweeps_to pkg s s"
    using ok by (simp add: sweeps_to_def)
  obtain sw s1 where st1: "exit_status io t s = (sw, s1)" by force
  obtain dp s2 where st2: "exit_status io d s1 = (dp, s2)" by force
  have q1: "quietly s s1" and q2: "quietly s1 s2"
    using exit_status_ok(1) [OF st1] exit_status_ok(1) [OF st2] by auto
  note s1 = sweeps_to_quiet [OF ok q1] and s2 = sweeps_to_quiet [OF ok quietly_trans [OF q1 q2]]
  consider (skip) "i \<in> set (ex_done s) \<or> io_aborted io (ex_world s)" | (seen) "\<not> (i \<in> set (ex_done s) \<or> io_aborted io (ex_world s))" "sw \<noteq> None"
    | (go) "\<not> (i \<in> set (ex_done s) \<or> io_aborted io (ex_world s))" "sw = None"
    by blast
  then show ?thesis
  proof cases
    case skip
    then show ?thesis
      using run refl by (auto simp: stp split: if_splits)
  next
    case seen
    have "s' = s1 \<or> (\<exists>x y. s' = yield_event i (SweepStep v t h d w) EvConfirmed x y None (s1\<lparr>ex_done := js_add i (ex_done s1)\<rparr>))"
      using run seen st1 by (auto simp: stp split: if_splits)
    then show ?thesis
      using s1 sweeps_to_yield [OF sweeps_to_state [OF s1] kills i] by auto
  next
    case go
    show ?thesis
    proof (cases "confirmed_status dp")
      case False
      then have "s' = s2"
        using run go st1 st2 by (auto simp: stp confirmed_status_def split: option.splits)
      then show ?thesis
        using s2 by simp
    next
      case True
      then obtain dep where dep: "dp = Some dep" "ts_confirmed dep"
        by (auto simp: confirmed_status_def split: option.splits)
      obtain tp u where tip: "io_tip io (ex_world s2) = (tp, u)" by force
      show ?thesis
      proof (cases tp)
        case (Inl e)
        then have "s' = s2\<lparr>ex_world := u\<rparr>"
          using run go st1 st2 dep tip by (simp add: stp confirmed_status_def)
        then show ?thesis
          using sweeps_to_state [OF s2] by simp
      next
        case (Inr ht)
        obtain hh tt where ht: "ht = (hh, tt)" by force
        define s3 where "s3 = note_action (ReadTip hh tt) (s2\<lparr>ex_world := u\<rparr>)"
        have "quietly s2 s3"
          by (simp add: s3_def quietly_def silent_def)
        then have s3: "sweeps_to pkg s s3" and q3: "quietly s s3"
          using sweeps_to_quiet [OF ok] quietly_trans [OF quietly_trans [OF q1 q2]] by blast+
        have log3: "ex_log s3 = ex_log s @ [ReadStatus t None, ReadStatus d (Some dep), ReadTip hh tt]"
          using exit_status_ok(2) [OF st1] exit_status_ok(2) [OF st2] go(2) dep(1) by (simp add: s3_def)
        show ?thesis
        proof (cases "mature w dep hh tt")
          case False
          have "s' = s3 \<or> s' = note_action (Yielded (waiting_event i v t w dep)) (s3\<lparr>ex_waiting := js_add i (ex_waiting s3)\<rparr>)"
            using run go st1 st2 dep tip Inr ht False by (auto simp: stp confirmed_status_def Let_def s3_def)
          moreover have "quietly s3 (note_action (Yielded (waiting_event i v t w dep)) (s3\<lparr>ex_waiting := js_add i (ex_waiting s3)\<rparr>))"
            by (simp add: quietly_def silent_def waiting_event_def)
          ultimately show ?thesis
            using s3 sweeps_to_quiet [OF ok quietly_trans [OF q3]] by blast
        next
          case mat: True
          obtain e s4 where sent: "send_txs io i [h] s3 = (e, s4)" by force
          have "send_ok pkg (ex_log s3) i [h]"
            using i alive before later_settled(2) [OF quietly_later [OF q3]] quietly_dead [OF q3, of pkg] log3 dep(2) mat
            by (auto simp: send_ok_def stp)
          then have s4: "sweeps_to pkg s s4"
            using send_txs_ok [OF sent] s3 later_trans [of s s3 s4] by (auto simp: sweeps_to_def)
          show ?thesis
          proof (cases e)
            case None
            then have "s' = yield_event i (SweepStep v t h d w) EvBroadcast (Some t) (Some [v]) None s4"
              using run go st1 st2 dep tip Inr ht mat sent by (auto simp: stp confirmed_status_def Let_def s3_def [symmetric])
            then show ?thesis
              using sweeps_to_yield [OF s4 kills i] by simp
          next
            case (Some reason)
            then have "s' = s4 \<or> s' = yield_event i (SweepStep v t h d w) EvFailed (Some t) (Some [v]) (Some reason) (s4\<lparr>ex_done := js_add i (ex_done s4)\<rparr>)"
              using run go st1 st2 dep tip Inr ht mat sent by (auto simp: stp confirmed_status_def Let_def s3_def [symmetric] split: if_splits)
            then show ?thesis
              using s4 sweeps_to_yield [OF sweeps_to_state [OF s4] kills i] by auto
          qed
        qed
      qed
    qed
  qed
qed


text \<open>A list of sweeps of outputs that are not given up.\<close>

definition live_sweeps :: "ExitPackage \<Rightarrow> action list \<Rightarrow> (nat \<times> ExitStep) list \<Rightarrow> bool" where
  "live_sweeps pkg acts xs \<longleftrightarrow> (\<forall>(i, stp) \<in> set xs. i < length (pkg_steps pkg) \<and> pkg_steps pkg ! i = stp \<and> is_sweep stp \<and>
     sweep_vtxo stp \<notin> dead_in pkg acts)"

lemma sweep_cases: "is_sweep stp \<Longrightarrow> \<exists>v t h d w. stp = SweepStep v t h d w"
  by (cases stp) auto

lemma sweep_round_ok:
  "sweep_round io xs s = (r, s') \<Longrightarrow> run_ok pkg s \<Longrightarrow> live_sweeps pkg (ex_log s) xs \<Longrightarrow>
     settled_before pkg (ex_log s) (length (pkg_steps pkg)) \<Longrightarrow> sweeps_to pkg s s'"
proof (induction xs arbitrary: s)
  case Nil
  then show ?case
    by (simp add: sweeps_to_def)
next
  case (Cons x xs)
  obtain i stp where x: "x = (i, stp)" by force
  have i: "i < length (pkg_steps pkg)" "pkg_steps pkg ! i = stp" "is_sweep stp" "sweep_vtxo stp \<notin> dead_in pkg (ex_log s)"
    using Cons.prems(3) by (auto simp: live_sweeps_def x)
  obtain v t h d w where stp: "stp = SweepStep v t h d w"
    using sweep_cases [OF i(3)] by blast
  obtain q s1 where one: "sweep_one io i stp s = (q, s1)"
    by force
  have s1: "sweeps_to pkg s s1"
    by (rule sweep_one_ok [OF one [folded i(2)] Cons.prems(2) i(1) i(2) [unfolded stp] _ Cons.prems(4)])
      (use i(4) in \<open>simp add: stp sweep_vtxo_def\<close>)
  show ?case
  proof (cases q)
    case (Inl e)
    then show ?thesis
      using Cons.prems(1) s1 one by (simp add: x)
  next
    case (Inr u)
    have "live_sweeps pkg (ex_log s1) xs" "settled_before pkg (ex_log s1) (length (pkg_steps pkg))"
      using Cons.prems(3,4) s1 later_settled(2) [of s s1 pkg] by (auto simp: live_sweeps_def sweeps_to_def)
    then show ?thesis
      using Cons.IH [of s1] Cons.prems(1) one Inr s1 sweeps_to_trans [OF s1] by (auto simp: x sweeps_to_def)
  qed
qed

lemma sweep_loop_ok:
  "sweep_loop io polls xs s = (r, s') \<Longrightarrow> run_ok pkg s \<Longrightarrow> live_sweeps pkg (ex_log s) xs \<Longrightarrow>
     settled_before pkg (ex_log s) (length (pkg_steps pkg)) \<Longrightarrow> sweeps_to pkg s s'"
proof (induction polls arbitrary: s)
  case 0
  then show ?case
    using sweep_round_ok [of io xs s _ _ pkg]
    by (auto simp: sweep_loop.simps [of io 0] sweeps_to_def split: if_splits prod.splits sum.splits)
next
  case (Suc polls)
  obtain q s1 where round: "sweep_round io xs s = (q, s1)" by force
  obtain rejected s2 where sl: "exit_sleep io s1 = (rejected, s2)" by force
  have s1: "sweeps_to pkg s s1"
    by (rule sweep_round_ok [OF round Suc.prems(2-4)])
  have s2: "sweeps_to pkg s s2"
    using s1 sweeps_to_quiet [OF _ exit_sleep_ok [OF sl]] sweeps_to_trans [OF s1] by (auto simp: sweeps_to_def)
  have keeps: "live_sweeps pkg (ex_log s2) xs" "settled_before pkg (ex_log s2) (length (pkg_steps pkg))"
    using Suc.prems(3,4) s2 later_settled(2) [of s s2 pkg] by (auto simp: live_sweeps_def sweeps_to_def)
  have "s' = s \<or> s' = s1 \<or> s' = s2 \<or> sweep_loop io polls xs s2 = (r, s')"
    using Suc.prems(1) round sl by (auto simp: sweep_loop.simps [of io "Suc polls"] split: if_splits sum.splits)
  then show ?case
    using s1 s2 Suc.IH [of s2] keeps Suc.prems(2) sweeps_to_trans [OF s2] by (auto simp: sweeps_to_def)
qed

lemma dead_sweeps_ok:
  assumes "run_ok pkg s" and "\<forall>(i, stp) \<in> set xs. i < length (pkg_steps pkg) \<and> pkg_steps pkg ! i = stp \<and> is_sweep stp"
  shows "sweeps_to pkg s (fold (\<lambda>(i, stp) s. if sweep_vtxo stp \<in> set (ex_dead s)
    then yield_event i stp EvFailed (Some (anchorTxid stp)) (Some [sweep_vtxo stp]) (Some reason) s else s) xs s)"
  using assms(2)
proof (induction xs rule: rev_induct)
  case Nil
  then show ?case
    using assms(1) by (simp add: sweeps_to_def)
next
  case (snoc x xs)
  obtain i stp where x: "x = (i, stp)" by force
  have "kills pkg (pkg_steps pkg ! i) = []" "i < length (pkg_steps pkg)"
    using snoc.prems sweep_cases [of stp] by (auto simp: x)
  then show ?case
    using snoc sweeps_to_yield [of pkg s _ i stp] by (auto simp: x)
qed

lemma run_sweeps_ok:
  assumes run: "run_sweeps io pkg polls s = (r, s')" and ok: "run_ok pkg s"
    and before: "settled_before pkg (ex_log s) (length (pkg_steps pkg))"
  shows "sweeps_to pkg s s'"
proof -
  let ?xs = "filter (\<lambda>(i, stp). is_sweep stp) (List.enumerate 0 (pkg_steps pkg))"
  have xs: "\<forall>(i, stp) \<in> set ?xs. i < length (pkg_steps pkg) \<and> pkg_steps pkg ! i = stp \<and> is_sweep stp"
    by (auto simp: in_set_enumerate_eq)
  define s1 where "s1 = fold (\<lambda>(i, stp) s. if sweep_vtxo stp \<in> set (ex_dead s)
    then yield_event i stp EvFailed (Some (anchorTxid stp)) (Some [sweep_vtxo stp]) (Some ''branch failed earlier'') s else s) ?xs s"
  have s1: "sweeps_to pkg s s1"
    unfolding s1_def by (rule dead_sweeps_ok [OF ok xs])
  let ?live = "filter (\<lambda>(i, stp). sweep_vtxo stp \<notin> set (ex_dead s1)) ?xs"
  have "live_sweeps pkg (ex_log s1) ?live"
    using xs s1 by (auto simp: live_sweeps_def sweeps_to_def run_ok_def)
  moreover have "sweep_loop io polls ?live s1 = (r, s')"
    using run by (simp add: run_sweeps_def s1_def Let_def)
  ultimately show ?thesis
    using sweep_loop_ok [of io polls ?live s1 r s' pkg] s1 later_settled(2) [of s s1 pkg] before sweeps_to_trans [OF s1]
    by (auto simp: sweeps_to_def)
qed

lemma start_ok: "run_ok pkg (start_run io pkg w)"
proof -
  have "quietly (no_run w) (start_run io pkg w)"
    by (simp add: start_run_def quietly_def silent_def late_warning_def)
  then show ?thesis
    by (rule quietly_ok) (simp add: run_ok_def dead_in_def failed_at_def no_run_def)
qed

lemma execute_guarded: "guarded pkg (ex_log (snd (execute io pkg polls w)))"
proof -
  obtain q s where steps: "run_steps io pkg polls (List.enumerate 0 (pkg_steps pkg)) (start_run io pkg w) = (q, s)"
    by force
  have s: "run_ok pkg s \<and> (\<forall>left. q = Inr left \<longrightarrow> settled_before pkg (ex_log s) (length (pkg_steps pkg)))"
    using run_steps_ok [OF steps, where k = 0, OF _ _ start_ok] by (simp add: settled_before_def)
  show ?thesis
  proof (cases q)
    case (Inl e)
    then show ?thesis
      using s steps by (simp add: execute_def run_ok_def no_run_def)
  next
    case (Inr left)
    obtain r s' where sweeps: "run_sweeps io pkg left s = (r, s')"
      by force
    then show ?thesis
      using s run_sweeps_ok [OF sweeps] steps Inr by (simp add: execute_def run_ok_def sweeps_to_def no_run_def)
  qed
qed

text \<open>
  C2. Whatever the chain answers, whenever the run is stopped: a transaction of the package is only sent right after it was looked for and not
  found. An unrolling step is sent as the package has it, only while an output it serves is not given up, and only after every
  earlier step was seen confirmed or given up. A sweep is sent only when its output is not given up, every unrolling step is settled, the
  transaction it depends on is confirmed and the chain tip read just before is past the delay.
\<close>

theorem exit_sends_guarded:
  assumes "ex_log (snd (execute io pkg polls w)) = before @ SentTx i hexes result # after"
  shows "send_ok pkg before i hexes"
  using execute_guarded [of pkg io polls w] assms unfolding guarded_def by blast

section \<open>A run\<close>

text \<open>One output behind one transaction, on a chain where the package confirms at height 5 and the tip is at 10. The world lists what was sent.\<close>

definition sample_net :: "string list exit_io" where
  "sample_net =
     \<lparr>io_status = (\<lambda>txid w. (if (txid = ''p'' \<and> ''ph'' \<in> set w) \<or> (txid = ''s'' \<and> ''sh'' \<in> set w)
        then Inr \<lparr>ts_confirmed = True, ts_blockHeight = Some 5, ts_blockTime = Some 500\<rparr> else Inl ''not found'', w)),
      io_broadcast = (\<lambda>hexes w. (Inr (), hexes @ w)), io_tip = (\<lambda>w. (Inr (10, 1000), w)), io_bump = None, io_aborted = (\<lambda>w. False),
      io_sleep = (\<lambda>w. w), io_now = (\<lambda>w. 1000)\<rparr>"

definition sample_package :: ExitPackage where
  "sample_package =
     \<lparr>pkg_mode = Some Funded, pkg_network = ''regtest'', pkg_createdAt = 0, pkg_validUntil = None, pkg_feeRate = 1, pkg_sweepAddress = ''a'',
      pkg_totals = \<lparr>txCount = 3, totalFeeSats = 300, fundingRequiredSats = 700, recoveredSats = 900\<rparr>, pkg_vtxos = [],
      pkg_steps = [PackageStep ''p'' ''ph'' ''c'' ''ch'' [''v''], SweepStep ''v'' ''s'' ''sh'' ''p'' (DelayBlocks 2)]\<rparr>"

theorem exit_sends_guarded_witness:
  "ex_log (snd (execute sample_net sample_package 1 [])) =
     take 8 (ex_log (snd (execute sample_net sample_package 1 []))) @ SentTx 1 [''sh''] None #
       drop 9 (ex_log (snd (execute sample_net sample_package 1 []))) \<and>
   send_ok sample_package (take 8 (ex_log (snd (execute sample_net sample_package 1 [])))) 1 [''sh'']"
proof -
  have "ex_log (snd (execute sample_net sample_package 1 [])) =
     take 8 (ex_log (snd (execute sample_net sample_package 1 []))) @ SentTx 1 [''sh''] None #
       drop 9 (ex_log (snd (execute sample_net sample_package 1 [])))"
    by code_simp
  from exit_sends_guarded [OF this] this show ?thesis
    by blast
qed

end
