(* ===== verification/Onchain_Funds.thy ===== *)
theory Onchain_Funds
  imports Batch_Handler
begin

text \<open>
  Paying for onchain transactions: the size estimator \<open>utils/txSizeEstimator.ts\<close>, the anchor child of \<open>utils/anchor.ts\<close>, and the coin
  selection, \<open>send\<close> and fee bumping of \<open>wallet/onchain.ts\<close>.

  Decoding an address to its script and signing are third-party code: \<open>script_of\<close> and \<open>sign\<close> are arguments. Fee rates are
  rational numbers, without the rounding of floating point; amounts are integers of satoshis. What a transaction is made of (its inputs,
  outputs and fee) is a record of the arguments the code passes to the signer package.
\<close>

section \<open>Sizes\<close>

record TxWeightEstimator =
  hasWitness :: bool
  inputCount :: nat
  outputCount :: nat
  inputSize :: nat
  inputWitnessSize :: nat
  outputSize :: nat

definition getVarIntSize :: "nat \<Rightarrow> nat" where
  "getVarIntSize n = (if n < 0xfd then 1 else if n \<le> 0xffff then 3 else if n \<le> 0xffffffff then 5 else 9)"

definition P2PKH_SCRIPT_SIG_SIZE :: nat where "P2PKH_SCRIPT_SIG_SIZE = 1 + 73 + 1 + 33"
definition INPUT_SIZE :: nat where "INPUT_SIZE = 32 + 4 + 1 + 4"
definition BASE_CONTROL_BLOCK_SIZE :: nat where "BASE_CONTROL_BLOCK_SIZE = 1 + 32"
definition OUTPUT_SIZE :: nat where "OUTPUT_SIZE = 8 + 1"
definition P2WPKH_OUTPUT_SIZE :: nat where "P2WPKH_OUTPUT_SIZE = 1 + 1 + 20"
definition BASE_TX_SIZE :: nat where "BASE_TX_SIZE = 8 + 2"
definition WITNESS_HEADER_SIZE :: nat where "WITNESS_HEADER_SIZE = 2"
definition WITNESS_SCALE_FACTOR :: nat where "WITNESS_SCALE_FACTOR = 4"
definition P2TR_OUTPUT_SIZE :: nat where "P2TR_OUTPUT_SIZE = 1 + 1 + 32"

lemmas size_constants = P2PKH_SCRIPT_SIG_SIZE_def INPUT_SIZE_def BASE_CONTROL_BLOCK_SIZE_def OUTPUT_SIZE_def P2WPKH_OUTPUT_SIZE_def
  BASE_TX_SIZE_def WITNESS_HEADER_SIZE_def WITNESS_SCALE_FACTOR_def P2TR_OUTPUT_SIZE_def

definition new_estimator :: TxWeightEstimator where
  "new_estimator = \<lparr>hasWitness = False, inputCount = 0, outputCount = 0, inputSize = 0, inputWitnessSize = 0, outputSize = 0\<rparr>"

definition addP2AInput :: "TxWeightEstimator \<Rightarrow> TxWeightEstimator" where
  "addP2AInput t = t\<lparr>inputCount := inputCount t + 1, inputSize := inputSize t + INPUT_SIZE\<rparr>"

definition addKeySpendInput :: "bool \<Rightarrow> TxWeightEstimator \<Rightarrow> TxWeightEstimator" where
  "addKeySpendInput isDefault t = t\<lparr>inputCount := inputCount t + 1,
     inputWitnessSize := inputWitnessSize t + (64 + 1 + (if isDefault then 0 else 1)), inputSize := inputSize t + INPUT_SIZE, hasWitness := True\<rparr>"

definition addP2PKHInput :: "TxWeightEstimator \<Rightarrow> TxWeightEstimator" where
  "addP2PKHInput t = t\<lparr>inputCount := inputCount t + 1, inputWitnessSize := inputWitnessSize t + 1,
     inputSize := inputSize t + (INPUT_SIZE + P2PKH_SCRIPT_SIG_SIZE)\<rparr>"

definition addTapscriptInput :: "nat \<Rightarrow> nat \<Rightarrow> nat \<Rightarrow> TxWeightEstimator \<Rightarrow> TxWeightEstimator" where
  "addTapscriptInput leafWitnessSize leafScriptSize leafControlBlockSize t =
     (let controlBlockWitnessSize = 1 + BASE_CONTROL_BLOCK_SIZE + 1 + leafScriptSize + 1 + leafControlBlockSize in
      t\<lparr>inputCount := inputCount t + 1, inputWitnessSize := inputWitnessSize t + (leafWitnessSize + 1 + controlBlockWitnessSize),
        inputSize := inputSize t + INPUT_SIZE, hasWitness := True\<rparr>)"

definition addP2WPKHOutput :: "TxWeightEstimator \<Rightarrow> TxWeightEstimator" where
  "addP2WPKHOutput t = t\<lparr>outputCount := outputCount t + 1, outputSize := outputSize t + (OUTPUT_SIZE + P2WPKH_OUTPUT_SIZE)\<rparr>"

definition addP2TROutput :: "TxWeightEstimator \<Rightarrow> TxWeightEstimator" where
  "addP2TROutput t = t\<lparr>outputCount := outputCount t + 1, outputSize := outputSize t + (OUTPUT_SIZE + P2TR_OUTPUT_SIZE)\<rparr>"

definition addOutputScript :: "bytes \<Rightarrow> TxWeightEstimator \<Rightarrow> TxWeightEstimator" where
  "addOutputScript script t = t\<lparr>outputCount := outputCount t + 1,
     outputSize := outputSize t + (8 + getVarIntSize (length script) + length script)\<rparr>"

definition tx_weight :: "TxWeightEstimator \<Rightarrow> nat" where
  "tx_weight t =
     (let txSizeStripped = BASE_TX_SIZE + getVarIntSize (inputCount t) + inputSize t + getVarIntSize (outputCount t) + outputSize t
      in txSizeStripped * WITNESS_SCALE_FACTOR + (if hasWitness t then WITNESS_HEADER_SIZE + inputWitnessSize t else 0))"

text \<open>The weight divided by four, rounded up.\<close>

definition tx_vsize :: "TxWeightEstimator \<Rightarrow> int" where
  "tx_vsize t = int ((tx_weight t + (WITNESS_SCALE_FACTOR - 1)) div WITNESS_SCALE_FACTOR)"

definition vsize_fee :: "TxWeightEstimator \<Rightarrow> int \<Rightarrow> int" where
  "vsize_fee t feeRate = feeRate * tx_vsize t"

definition key_inputs :: "nat \<Rightarrow> TxWeightEstimator \<Rightarrow> TxWeightEstimator" where
  "key_inputs n t = (addKeySpendInput True ^^ n) t"

definition outputs_to :: "bytes \<Rightarrow> nat \<Rightarrow> TxWeightEstimator \<Rightarrow> TxWeightEstimator" where
  "outputs_to script n t = (addOutputScript script ^^ n) t"

section \<open>Choosing coins\<close>

record Coin =
  cn_txid :: string
  cn_vout :: int
  cn_value :: int
  cn_confirmed :: bool

datatype fund_err =
    TargetNegative | InsufficientFunds | AnchorWrongAmount int | AnchorNotFound | InsufficientChange int | InvalidFee | NotConverged
  | AmountNotPositive | AmountBelowDust | AddressUndecodable | SignerThrew

definition DUST_AMOUNT :: int where "DUST_AMOUNT = 546"
definition CHILD_DUST_AMOUNT :: int where "CHILD_DUST_AMOUNT = 546"
definition MIN_FEE_RATE :: rat where "MIN_FEE_RATE = 1"

fun take_coins :: "bool \<Rightarrow> int \<Rightarrow> Coin list \<Rightarrow> Coin list \<Rightarrow> int \<Rightarrow> Coin list \<times> int" where
  "take_coins forceChange targetAmount [] selectedCoins selectedAmount = (selectedCoins, selectedAmount)"
| "take_coins forceChange targetAmount (coin # coins) selectedCoins selectedAmount =
     (let chosen = selectedCoins @ [coin]; amount = selectedAmount + cn_value coin in
      if (if forceChange then targetAmount < amount else targetAmount \<le> amount) then (chosen, amount)
      else take_coins forceChange targetAmount coins chosen amount)"

definition selectCoins :: "Coin list \<Rightarrow> int \<Rightarrow> bool \<Rightarrow> fund_err + Coin list \<times> int" where
  "selectCoins coins targetAmount forceChange =
     (if targetAmount < 0 then Inl TargetNegative
      else if targetAmount = 0 then Inr ([], 0)
      else let (selectedCoins, selectedAmount) = take_coins forceChange targetAmount (sort_desc cn_value coins) [] 0 in
        if selectedAmount = targetAmount then Inr (selectedCoins, 0)
        else if selectedAmount < targetAmount then Inl InsufficientFunds
        else Inr (selectedCoins, selectedAmount - targetAmount))"

section \<open>The anchor child\<close>

record final_tx =
  ft_id :: string
  ft_hex :: string
  ft_vsize :: int
  ft_inputs :: "string option list"
  ft_outputs :: "(bytes option \<times> int) list"

record FundingCoin =
  fc_txid :: string
  fc_vout :: nat
  fc_value :: int

fun find_P2A :: "nat \<Rightarrow> (bytes option \<times> int) list \<Rightarrow> fund_err + nat" where
  "find_P2A i [] = Inl AnchorNotFound"
| "find_P2A i ((script, amount) # outs) =
     (if script = Some ANCHOR_PKSCRIPT
      then if amount \<noteq> snd P2A then Inl (AnchorWrongAmount amount) else Inr i
      else find_P2A (i + 1) outs)"

definition findP2AOutput :: "final_tx \<Rightarrow> fund_err + string \<times> nat" where
  "findP2AOutput tx = r_bind (find_P2A 0 (ft_outputs tx)) (\<lambda>i. Inr (ft_id tx, i))"

record anchor_child =
  ac_anchor :: "string \<times> nat"
  ac_funding :: "FundingCoin list"
  ac_changeScript :: bytes
  ac_change :: int

definition child_estimator :: "bytes \<Rightarrow> nat \<Rightarrow> TxWeightEstimator" where
  "child_estimator changeScript n = addOutputScript changeScript (key_inputs n (addP2AInput new_estimator))"

definition buildAnchorChild :: "final_tx \<Rightarrow> rat \<Rightarrow> FundingCoin list \<Rightarrow> bytes \<Rightarrow> fund_err + anchor_child \<times> int" where
  "buildAnchorChild parent feeRate fundingCoins changeScript =
     r_bind (findP2AOutput parent) (\<lambda>anchor.
       let childVsize = tx_vsize (child_estimator changeScript (length fundingCoins));
           fee = \<lceil>feeRate * of_int (ft_vsize parent + childVsize)\<rceil>;
           total = sum_list (map fc_value fundingCoins);
           change = total + snd P2A - fee
       in if change < CHILD_DUST_AMOUNT then Inl (InsufficientChange change)
          else Inr (\<lparr>ac_anchor = anchor, ac_funding = fundingCoins, ac_changeScript = changeScript, ac_change = change\<rparr>, fee))"

definition at_least_min :: "rat option \<Rightarrow> rat" where
  "at_least_min feeRate = (case feeRate of None \<Rightarrow> MIN_FEE_RATE | Some f \<Rightarrow> if f = 0 \<or> f < MIN_FEE_RATE then MIN_FEE_RATE else f)"

definition funding_of :: "Coin \<Rightarrow> FundingCoin" where
  "funding_of c = \<lparr>fc_txid = cn_txid c, fc_vout = nat (cn_vout c), fc_value = cn_value c\<rparr>"

definition buildBumpPackage :: "bytes \<Rightarrow> (anchor_child \<Rightarrow> fund_err + string) \<Rightarrow> final_tx \<Rightarrow> rat \<Rightarrow> Coin list \<Rightarrow> fund_err + string" where
  "buildBumpPackage address sign parent feeRate coins =
     (let rate = at_least_min (Some feeRate);
          probeVsize = tx_vsize (addOutputScript address (addP2AInput (addKeySpendInput True new_estimator)));
          probeFee = \<lceil>rate * of_int (ft_vsize parent + probeVsize)\<rceil>
      in r_bind (r_require (probeFee \<noteq> 0) InvalidFee) (\<lambda>_.
         r_bind (selectCoins coins probeFee True) (\<lambda>(inputs, _).
         r_bind (buildAnchorChild parent rate (map funding_of inputs) address) (\<lambda>(child, _). sign child))))"

definition bumpAnchor :: "bytes \<Rightarrow> (anchor_child \<Rightarrow> fund_err + string) \<Rightarrow> final_tx \<Rightarrow> rat \<Rightarrow> Coin list \<Rightarrow> fund_err + string \<times> string" where
  "bumpAnchor address sign parent feeRate coins =
     r_bind (buildBumpPackage address sign parent feeRate (filter cn_confirmed coins)) (\<lambda>child. Inr (ft_hex parent, child))"

section \<open>Sending\<close>

definition send_estimator :: "bytes \<Rightarrow> bytes \<Rightarrow> nat \<Rightarrow> int \<Rightarrow> TxWeightEstimator" where
  "send_estimator recipient own n change =
     (let t = addOutputScript recipient (key_inputs n new_estimator) in
      if DUST_AMOUNT \<le> change then addOutputScript own t else t)"

fun converge :: "nat \<Rightarrow> Coin list \<Rightarrow> int \<Rightarrow> rat \<Rightarrow> bytes \<Rightarrow> bytes \<Rightarrow> int \<Rightarrow> fund_err + Coin list \<times> int \<times> int" where
  "converge 0 coins amount feeRate recipient own fee = Inl NotConverged"
| "converge (Suc n) coins amount feeRate recipient own fee =
     r_bind (selectCoins coins (amount + fee) False) (\<lambda>(inputs, changeAmount).
       let roundedNewFee = \<lceil>of_int (tx_vsize (send_estimator recipient own (length inputs) changeAmount)) * feeRate\<rceil> in
       if roundedNewFee \<le> fee then Inr (inputs, changeAmount, roundedNewFee)
       else converge n coins amount feeRate recipient own roundedNewFee)"

definition MAX_ITERATIONS :: nat where "MAX_ITERATIONS = 10"

definition estimateFeesAndSelectCoins :: "Coin list \<Rightarrow> int \<Rightarrow> rat \<Rightarrow> bytes \<Rightarrow> bytes \<Rightarrow> fund_err + Coin list \<times> int \<times> int" where
  "estimateFeesAndSelectCoins coins amount feeRate recipient own = converge MAX_ITERATIONS coins amount feeRate recipient own 0"

record payment_tx =
  pt_inputs :: "Coin list"
  pt_outputs :: "(bytes \<times> int) list"

definition send_rate :: "rat option \<Rightarrow> rat option \<Rightarrow> rat" where
  "send_rate feeRate providerRate = at_least_min (if feeRate = None \<or> feeRate = Some 0 then providerRate else feeRate)"

definition onchain_send :: "(string \<Rightarrow> bytes option) \<Rightarrow> bytes \<Rightarrow> Coin list \<Rightarrow> rat option \<Rightarrow> rat option \<Rightarrow> string \<Rightarrow> int \<Rightarrow> fund_err + payment_tx" where
  "onchain_send script_of own coins feeRate providerRate address amount =
     (if amount \<le> 0 then Inl AmountNotPositive
      else if amount < DUST_AMOUNT then Inl AmountBelowDust
      else let rate = send_rate feeRate providerRate in
        case script_of address of
          None \<Rightarrow> (case selectCoins coins amount False of Inl e \<Rightarrow> Inl e | Inr _ \<Rightarrow> Inl AddressUndecodable)
        | Some recipient \<Rightarrow>
            r_bind (estimateFeesAndSelectCoins coins amount rate recipient own) (\<lambda>(inputs, changeAmount, _).
              Inr \<lparr>pt_inputs = inputs,
                pt_outputs = (recipient, amount) # (if DUST_AMOUNT \<le> changeAmount then [(own, changeAmount)] else [])\<rparr>))"

section \<open>What the estimates say\<close>

lemma key_inputs_fields:
  "inputCount (key_inputs n t) = inputCount t + n" "inputSize (key_inputs n t) = inputSize t + n * INPUT_SIZE"
  "inputWitnessSize (key_inputs n t) = inputWitnessSize t + 65 * n" "hasWitness (key_inputs n t) = (hasWitness t \<or> 0 < n)"
  "outputCount (key_inputs n t) = outputCount t" "outputSize (key_inputs n t) = outputSize t"
  by (induction n) (auto simp: key_inputs_def addKeySpendInput_def)

lemma outputs_to_fields:
  "inputCount (outputs_to s n t) = inputCount t" "inputSize (outputs_to s n t) = inputSize t"
  "inputWitnessSize (outputs_to s n t) = inputWitnessSize t" "hasWitness (outputs_to s n t) = hasWitness t"
  "outputCount (outputs_to s n t) = outputCount t + n"
  "outputSize (outputs_to s n t) = outputSize t + n * (8 + getVarIntSize (length s) + length s)"
  by (induction n) (auto simp: outputs_to_def addOutputScript_def)

lemma getVarIntSize_mono: "m \<le> n \<Longrightarrow> getVarIntSize m \<le> getVarIntSize n"
  by (auto simp: getVarIntSize_def)

definition estimate_le :: "TxWeightEstimator \<Rightarrow> TxWeightEstimator \<Rightarrow> bool" where
  "estimate_le s t \<longleftrightarrow> inputCount s \<le> inputCount t \<and> outputCount s \<le> outputCount t \<and> inputSize s \<le> inputSize t \<and>
     inputWitnessSize s \<le> inputWitnessSize t \<and> outputSize s \<le> outputSize t \<and> (hasWitness s \<longrightarrow> hasWitness t)"

lemma vsize_mono:
  assumes "estimate_le s t"
  shows "tx_vsize s \<le> tx_vsize t"
proof -
  have "getVarIntSize (inputCount s) \<le> getVarIntSize (inputCount t)" "getVarIntSize (outputCount s) \<le> getVarIntSize (outputCount t)"
    using assms getVarIntSize_mono by (auto simp: estimate_le_def)
  then have "tx_weight s \<le> tx_weight t"
    using assms unfolding tx_weight_def estimate_le_def Let_def size_constants by auto
  then show ?thesis
    by (simp add: tx_vsize_def div_le_mono)
qed

lemma vsize_pos: "0 < tx_vsize t"
  by (auto simp: tx_vsize_def tx_weight_def Let_def size_constants)

section \<open>What is chosen\<close>

lemma take_coins_ok:
  "take_coins force target coins chosen amount = (cs, a) \<Longrightarrow> amount = sum_list (map cn_value chosen) \<Longrightarrow>
     \<exists>k. cs = chosen @ take k coins \<and> a = sum_list (map cn_value cs) \<and>
       ((if force then target < a else target \<le> a) \<or> cs = chosen @ coins)"
proof (induction coins arbitrary: chosen amount)
  case (Cons c coins)
  show ?case
  proof (cases "if force then target < amount + cn_value c else target \<le> amount + cn_value c")
    case True
    then show ?thesis
      using Cons.prems by (intro exI [of _ 1]) (auto simp: Let_def split: if_splits)
  next
    case False
    then have "take_coins force target coins (chosen @ [c]) (amount + cn_value c) = (cs, a)"
      using Cons.prems(1) by (simp add: Let_def)
    then obtain k where "cs = (chosen @ [c]) @ take k coins" "a = sum_list (map cn_value cs)"
      "(if force then target < a else target \<le> a) \<or> cs = (chosen @ [c]) @ coins"
      using Cons.IH [of "chosen @ [c]" "amount + cn_value c"] Cons.prems(2) by (metis (no_types, lifting) list.map(1,2) map_append sum_list.Cons sum_list.Nil sum_list_append add.right_neutral)
    then show ?thesis
      by (intro exI [of _ "Suc k"]) auto
  qed
qed simp

lemma sort_desc_mset: "mset (sort_desc f xs) = mset xs"
  by (simp add: sort_desc_def)

lemma selectCoins_ok:
  assumes "selectCoins coins target force = Inr (inputs, change)"
  shows "sum_list (map cn_value inputs) = target + change" and "0 \<le> change" and "mset inputs \<subseteq># mset coins"
    and "\<exists>k. inputs = take k (sort_desc cn_value coins)"
proof -
  have "sum_list (map cn_value inputs) = target + change \<and> 0 \<le> change \<and> (\<exists>k. inputs = take k (sort_desc cn_value coins))"
  proof (cases "target = 0")
    case True
    then show ?thesis
      using assms by (auto simp: selectCoins_def intro: exI [of _ 0])
  next
    case False
    obtain cs a where t: "take_coins force target (sort_desc cn_value coins) [] 0 = (cs, a)"
      by force
    obtain k where "cs = take k (sort_desc cn_value coins)" "a = sum_list (map cn_value cs)"
      using take_coins_ok [OF t] by auto
    then show ?thesis
      using assms False t by (auto simp: selectCoins_def split: if_splits)
  qed
  then show "sum_list (map cn_value inputs) = target + change" "0 \<le> change" and k: "\<exists>k. inputs = take k (sort_desc cn_value coins)"
    by blast+
  then obtain k where "inputs = take k (sort_desc cn_value coins)"
    by blast
  then have "mset inputs \<subseteq># mset (sort_desc cn_value coins)"
    by (metis append_take_drop_id mset_append mset_subset_eq_add_left)
  then show "mset inputs \<subseteq># mset coins"
    by (simp add: sort_desc_mset)
qed

lemma sum_sorted: "sum_list (map cn_value (sort_desc cn_value coins)) = sum_list (map cn_value coins)"
  by (metis mset_map sort_desc_mset sum_mset_sum_list)

text \<open>With coins of positive value, selection fails exactly when all coins together do not cover the target.\<close>

lemma selectCoins_fails:
  assumes "\<forall>c \<in> set coins. 0 \<le> cn_value c" and "0 \<le> target"
  shows "(\<exists>e. selectCoins coins target False = Inl e) \<longleftrightarrow> sum_list (map cn_value coins) < target"
proof (cases "target = 0")
  case True
  have "0 \<le> sum_list (map cn_value coins)"
    using assms(1) by (intro sum_list_nonneg) auto
  then show ?thesis
    using True by (auto simp: selectCoins_def)
next
  case False
  obtain cs a where t: "take_coins False target (sort_desc cn_value coins) [] 0 = (cs, a)"
    by force
  obtain k where cs: "cs = take k (sort_desc cn_value coins)" "a = sum_list (map cn_value cs)" "target \<le> a \<or> cs = sort_desc cn_value coins"
    using take_coins_ok [OF t] by (auto simp del: take_all_iff)
  have "0 \<le> sum_list (map cn_value (drop k (sort_desc cn_value coins)))"
    using assms(1) by (intro sum_list_nonneg) (auto dest!: in_set_dropD)
  moreover have "sum_list (map cn_value (sort_desc cn_value coins)) =
      sum_list (map cn_value (take k (sort_desc cn_value coins))) + sum_list (map cn_value (drop k (sort_desc cn_value coins)))"
    by (metis append_take_drop_id map_append sum_list_append)
  ultimately have "a \<le> sum_list (map cn_value coins)"
    unfolding cs(1,2) sum_sorted by simp
  then show ?thesis
    using False assms(2) cs(2,3) t sum_sorted [of coins] by (auto simp: selectCoins_def)
qed

section \<open>What a payment costs\<close>

lemma converge_ok:
  "converge n coins amount feeRate recipient own fee = Inr (inputs, changeAmount, newFee) \<Longrightarrow>
     \<exists>paid. newFee \<le> paid \<and> selectCoins coins (amount + paid) False = Inr (inputs, changeAmount) \<and>
       newFee = \<lceil>of_int (tx_vsize (send_estimator recipient own (length inputs) changeAmount)) * feeRate\<rceil>"
  by (induction n arbitrary: fee) (auto simp: Let_def split: if_splits)


definition sample_coins :: "Coin list" where
  "sample_coins = [\<lparr>cn_txid = ''aa'', cn_vout = 0, cn_value = 3000, cn_confirmed = True\<rparr>,
     \<lparr>cn_txid = ''bb'', cn_vout = 1, cn_value = 10000, cn_confirmed = True\<rparr>]"

lemma sample_send:
  "onchain_send (\<lambda>a. Some (replicate 22 0)) (replicate 34 1) sample_coins None (Some 2) ''bc1q'' 5000 =
     Inr \<lparr>pt_inputs = [\<lparr>cn_txid = ''bb'', cn_vout = 1, cn_value = 10000, cn_confirmed = True\<rparr>],
       pt_outputs = [(replicate 22 0, 5000), (replicate 34 1, 4712)]\<rparr>"
  by code_simp


text \<open>
  The child of a bump must leave at least the dust amount as change, but coins are chosen only until they exceed the fee: here the larger coin
  alone is taken although the change is then too small, and the bump fails although the two coins together would do.
\<close>

definition sample_parent :: final_tx where
  "sample_parent = \<lparr>ft_id = ''p'', ft_hex = ''00'', ft_vsize = 150, ft_inputs = [], ft_outputs = [(Some ANCHOR_PKSCRIPT, 0)]\<rparr>"

definition sample_bump_coins :: "int \<Rightarrow> Coin list" where
  "sample_bump_coins v = [\<lparr>cn_txid = ''aa'', cn_vout = 0, cn_value = 700, cn_confirmed = True\<rparr>,
     \<lparr>cn_txid = ''bb'', cn_vout = 1, cn_value = v, cn_confirmed = True\<rparr>]"

lemma bump_takes_too_little:
  "bumpAnchor (replicate 34 1) (\<lambda>c. Inr ''child'') sample_parent 2 (sample_bump_coins 700) = Inl (InsufficientChange 92)"
  "map_sum id (ac_change \<circ> fst) (buildAnchorChild sample_parent 2 (map funding_of (sample_bump_coins 700)) (replicate 34 1)) = Inr 678"
  by code_simp code_simp

end
