(* ===== verification/Exit_Path.thy ===== *)
theory Exit_Path
  imports Exit_Executor Onchain_Funds
begin

text \<open>
  How an exited output is swept: the unilateral path of \<open>wallet/exit/path.ts\<close>, the fee and the signed sweep of
  \<open>wallet/exit/sweep.ts\<close>, and the finalization of fetched transactions (\<open>wallet/exit/finalizeVirtualTx.ts\<close>).

  The registry of contract handlers is open (packages register their own), so a handler is an argument with the two operations used;
  \<open>vhtlc_handler\<close> and \<open>default_handler\<close> are the code's own. PSBTs, signing and control blocks belong to the signer package.
\<close>

section \<open>The path\<close>

record exit_handler =
  xh_createScript :: "(string \<times> string) list \<Rightarrow> path_err + bytes"
  xh_paths :: "(string \<times> string) list \<Rightarrow> Contract \<Rightarrow> PathContext \<Rightarrow> path_err + PathSelection list"

record exit_lib =
  xl_script :: script_lib
  xl_hex :: hex_encode
  xl_decodeTree :: "bytes \<Rightarrow> vscript_err + VtxoScript"
  xl_handler :: "string \<Rightarrow> exit_handler option"
  xl_controlBlock :: "TapLeafScript \<Rightarrow> bytes"

datatype exit_path_err = NoUnilateralPath "string option" | NoHandler string | PathThrew path_err | ScriptThrew vscript_err | TimelockThrew tap_err

datatype path_label = ContractUnilateral string | DefaultExit

record ResolvedExitPath =
  rp_selection :: PathSelection
  rp_label :: path_label

text \<open>A delay in units of blocks; a second counts as \<open>1 / 600\<close> of one.\<close>

definition delayWeight :: "script_lib \<Rightarrow> js_number \<Rightarrow> exit_path_err + rat" where
  "delayWeight L sequence =
     (case sequenceToTimelock L (case sequence of NaN \<Rightarrow> 0 | JsInt n \<Rightarrow> n) of
        Inl e \<Rightarrow> Inl (TimelockThrew e)
      | Inr t \<Rightarrow> Inr (if tl_type t = InBlocks then of_int (tl_value t) else of_int (tl_value t) / 600))"

text \<open>Sorting calls the comparator when there are two paths to compare.\<close>

definition shortest_path :: "script_lib \<Rightarrow> string \<Rightarrow> PathSelection list \<Rightarrow> exit_path_err + PathSelection" where
  "shortest_path L type paths =
     (case paths of
        [] \<Rightarrow> Inl (NoUnilateralPath (Some type))
      | [p] \<Rightarrow> Inr p
      | _ \<Rightarrow> r_bind (r_map (\<lambda>p. r_bind (delayWeight L (the (sel_sequence p))) (\<lambda>w. Inr (w, p))) paths) (\<lambda>ps. Inr (snd (hd (sort_key fst ps)))))"

text \<open>\<open>exit.params.timelock\<close>: exit paths are of the two forms with a relative timelock.\<close>

definition params_timelock :: "TapParams \<Rightarrow> RelativeTimelock option" where
  "params_timelock p = (case p of CSVMultisig t m \<Rightarrow> Some t | ConditionCSVMultisig c t m \<Rightarrow> Some t | _ \<Rightarrow> None)"

definition exit_candidate :: "exit_lib \<Rightarrow> VtxoScript \<Rightarrow> ArkTapscript \<Rightarrow> RelativeTimelock \<Rightarrow> exit_path_err + PathSelection \<times> rat" where
  "exit_candidate X decoded e timelock =
     (case findLeaf (xl_hex X) decoded (xl_hex X (tap_script e)) of
        Inl err \<Rightarrow> Inl (ScriptThrew err)
      | Inr leaf \<Rightarrow>
          (case timelockToSequence (xl_script X) timelock of
             Inl err \<Rightarrow> Inl (TimelockThrew err)
           | Inr n \<Rightarrow> r_bind (delayWeight (xl_script X) (JsInt n)) (\<lambda>weight.
               Inr (\<lparr>sel_leaf = leaf, sel_extraWitness = None, sel_sequence = Some (JsInt n)\<rparr>, weight))))"

fun scan_exits :: "exit_lib \<Rightarrow> VtxoScript \<Rightarrow> ArkTapscript list \<Rightarrow> (PathSelection \<times> rat) option
     \<Rightarrow> exit_path_err + (PathSelection \<times> rat) option" where
  "scan_exits X decoded [] best = Inr best"
| "scan_exits X decoded (e # es) best =
     (case params_timelock (tap_params e) of
        None \<Rightarrow> scan_exits X decoded es best
      | Some timelock \<Rightarrow> r_bind (exit_candidate X decoded e timelock) (\<lambda>(selection, weight).
          scan_exits X decoded es (if (case best of None \<Rightarrow> True | Some (_, w) \<Rightarrow> weight < w) then Some (selection, weight) else best)))"

record ExitVtxo =
  xv_txid :: string
  xv_vout :: int
  xv_value :: int
  xv_tapTree :: bytes

definition exit_context :: "int \<Rightarrow> string option \<Rightarrow> string option \<Rightarrow> PathContext" where
  "exit_context now descriptor pubKey = \<lparr>collaborative = False, currentTime = now, blockHeight = None, walletDescriptor = descriptor,
     walletPubKey = pubKey, ctx_role = None, chainTime = None, ctx_vtxo = None\<rparr>"

definition by_script :: "string \<Rightarrow> ContractFilter option" where
  "by_script s = Some \<lparr>f_script = Some (One s), f_state = None, f_type = None, f_watch = None\<rparr>"

definition resolveUnilateralPath :: "exit_lib \<Rightarrow> ExitVtxo \<Rightarrow> string \<Rightarrow> (string \<times> Contract) list option \<Rightarrow> PathContext
     \<Rightarrow> exit_path_err + ResolvedExitPath" where
  "resolveUnilateralPath X vtxo scriptHex contractRepository context =
     (case (case contractRepository of None \<Rightarrow> [] | Some m \<Rightarrow> getContracts m (by_script scriptHex)) of
        contract # _ \<Rightarrow>
          (case xl_handler X (c_type contract) of
             None \<Rightarrow> Inl (NoHandler (c_type contract))
           | Some handler \<Rightarrow>
               (case xh_paths handler (c_params contract) contract context of
                  Inl e \<Rightarrow> Inl (PathThrew e)
                | Inr paths \<Rightarrow> r_bind (shortest_path (xl_script X) (c_type contract) (filter (\<lambda>p. sel_sequence p \<noteq> None) paths)) (\<lambda>p.
                    Inr \<lparr>rp_selection = p, rp_label = ContractUnilateral (c_type contract)\<rparr>)))
      | [] \<Rightarrow>
          (case xl_decodeTree X (xv_tapTree vtxo) of
             Inl e \<Rightarrow> Inl (ScriptThrew e)
           | Inr decoded \<Rightarrow>
               r_bind (scan_exits X decoded (exitPaths (xl_script X) decoded) None) (\<lambda>best.
                 case best of None \<Rightarrow> Inl (NoUnilateralPath None) | Some (selection, _) \<Rightarrow> Inr \<lparr>rp_selection = selection, rp_label = DefaultExit\<rparr>)))"

text \<open>The code's own handlers of hash time lock and default contracts.\<close>

definition vhtlc_handler :: "contract_lib \<Rightarrow> nat \<Rightarrow> exit_handler" where
  "vhtlc_handler E lv = \<lparr>
     xh_createScript = (\<lambda>ps. r_bind (Vhtlc_createScript E ps) (\<lambda>v. Inr (VtxoScript_encode lv (cl_taptree E) (base_script v)))),
     xh_paths = (\<lambda>ps c ctx. r_bind (Vhtlc_createScript E ps) (\<lambda>v. Vhtlc_getAllSpendingPaths E v c ctx))\<rparr>"

definition default_handler :: "contract_lib \<Rightarrow> nat \<Rightarrow> exit_handler" where
  "default_handler E lv = \<lparr>
     xh_createScript = (\<lambda>ps. r_bind (Default_createScript E ps) (\<lambda>v. Inr (VtxoScript_encode lv (cl_taptree E) (base_script v)))),
     xh_paths = (\<lambda>ps c ctx. r_bind (Default_createScript E ps) (\<lambda>v. Default_getAllSpendingPaths E v c ctx))\<rparr>"

section \<open>The sweep\<close>

definition extraWitnessSize :: "PathSelection \<Rightarrow> nat" where
  "extraWitnessSize path = sum_list (map (\<lambda>item. 1 + length item) (or_default (sel_extraWitness path) []))"

definition sweepFeeFor :: "exit_lib \<Rightarrow> PathSelection \<Rightarrow> bytes \<Rightarrow> int \<Rightarrow> int" where
  "sweepFeeFor X path outputScript feeRate =
     vsize_fee (addOutputScript outputScript (addTapscriptInput (64 + extraWitnessSize path) (length (leaf_bytes (sel_leaf path)))
       (length (xl_controlBlock X (sel_leaf path))) new_estimator)) feeRate"

record sweep_draft =
  sd_txid :: string
  sd_vout :: int
  sd_value :: int
  sd_pkScript :: bytes
  sd_leaf :: TapLeafScript
  sd_sequence :: js_number
  sd_output :: "bytes \<times> int"

record signed_sweep =
  ss_txid :: string
  ss_signature :: "bytes option"
  ss_finalized :: "string + string"
  ss_withWitness :: "bytes list \<Rightarrow> string"

datatype sweep_err = Uneconomic | SignFailed string | FinalizeFailed string | AdditionalSigners | SweepScriptThrew vscript_err

definition buildSignedSweep :: "exit_lib \<Rightarrow> (sweep_draft \<Rightarrow> string + signed_sweep) \<Rightarrow> ExitVtxo \<Rightarrow> bytes \<Rightarrow> PathSelection \<Rightarrow> bytes \<Rightarrow> int
     \<Rightarrow> sweep_err + (sweep_draft \<times> string \<times> string) \<times> int" where
  "buildSignedSweep X sign vtxo spent path outputScript feeRate =
     (let fee = sweepFeeFor X path outputScript feeRate; sendAmount = xv_value vtxo - fee in
      if sendAmount < DUST_AMOUNT then Inl Uneconomic
      else let draft = \<lparr>sd_txid = xv_txid vtxo, sd_vout = xv_vout vtxo, sd_value = xv_value vtxo, sd_pkScript = spent,
                        sd_leaf = sel_leaf path, sd_sequence = or_default (sel_sequence path) NaN, sd_output = (outputScript, sendAmount)\<rparr>
        in case sign draft of
             Inl e \<Rightarrow> Inl (SignFailed e)
           | Inr sgd \<Rightarrow>
               (case or_default (sel_extraWitness path) [] of
                  [] \<Rightarrow> (case ss_finalized sgd of Inl e \<Rightarrow> Inl (FinalizeFailed e) | Inr hex \<Rightarrow> Inr ((draft, ss_txid sgd, hex), fee))
                | extra \<Rightarrow>
                    (case ss_signature sgd of
                       None \<Rightarrow> Inl AdditionalSigners
                     | Some sig \<Rightarrow> Inr ((draft, ss_txid sgd, ss_withWitness sgd
                         (sig # extra @ [scriptFromTapLeafScript (sel_leaf path), xl_controlBlock X (sel_leaf path)])), fee))))"

section \<open>Fetched transactions\<close>

record 'raw psbt_lib =
  pl_fromPSBT :: "string \<Rightarrow> 'raw option"
  pl_id :: "'raw \<Rightarrow> string"
  pl_tapKeySig :: "'raw \<Rightarrow> bytes option option"
  pl_withWitness :: "bytes list \<Rightarrow> 'raw \<Rightarrow> final_tx"
  pl_finalize :: "'raw \<Rightarrow> final_tx option"

datatype finalize_err = Undecodable | InputNotFound | TapKeySigNotFound | FinalizeThrew

text \<open>\<open>pl_tapKeySig\<close> is \<open>None\<close> for a transaction without inputs.\<close>

definition finalizeVirtualTx :: "'raw psbt_lib \<Rightarrow> ChainTxType \<Rightarrow> string \<Rightarrow> finalize_err + final_tx" where
  "finalizeVirtualTx lib type psbt =
     (case pl_fromPSBT lib psbt of
        None \<Rightarrow> Inl Undecodable
      | Some tx \<Rightarrow>
          if type = TREE then
            (case pl_tapKeySig lib tx of
               None \<Rightarrow> Inl InputNotFound
             | Some None \<Rightarrow> Inl TapKeySigNotFound
             | Some (Some tapKeySig) \<Rightarrow> Inr (pl_withWitness lib [tapKeySig] tx))
          else (case pl_finalize lib tx of None \<Rightarrow> Inl FinalizeThrew | Some t \<Rightarrow> Inr t))"

section \<open>The shortest way out\<close>

definition no_longer_than :: "script_lib \<Rightarrow> js_number \<Rightarrow> js_number \<Rightarrow> bool" where
  "no_longer_than L m n \<longleftrightarrow> (case (delayWeight L m, delayWeight L n) of (Inr v, Inr w) \<Rightarrow> v \<le> w | _ \<Rightarrow> m = n)"

lemma shortest_path_ok:
  assumes "shortest_path L type paths = Inr p" and "\<forall>q \<in> set paths. sel_sequence q \<noteq> None"
  shows "p \<in> set paths" and "q \<in> set paths \<Longrightarrow> no_longer_than L (the (sel_sequence p)) (the (sel_sequence q))"
proof -
  have "p \<in> set paths \<and> (\<forall>q \<in> set paths. no_longer_than L (the (sel_sequence p)) (the (sel_sequence q)))"
  proof (cases "length paths = 1")
    case True
    then have "paths = [p]"
      using assms(1) by (cases paths) (auto simp: shortest_path_def)
    then show ?thesis
      by (auto simp: no_longer_than_def split: sum.splits)
  next
    case False
    let ?f = "\<lambda>p. r_bind (delayWeight L (the (sel_sequence p))) (\<lambda>w. Inr (w, p))"
    obtain ps where ps: "r_map ?f paths = Inr ps" and p: "p = snd (hd (sort_key fst ps))" and nonempty: "paths \<noteq> []"
      using assms(1) False by (auto simp: shortest_path_def split: list.splits)
    have all: "list_all2 (\<lambda>x y. ?f x = Inr y) paths ps"
      by (rule r_map_all2 [OF ps])
    have ps_nonempty: "sort_key fst ps \<noteq> []"
      using nonempty list_all2_lengthD [OF all] by (metis length_0_conv length_sort)
    have hd: "hd (sort_key fst ps) \<in> set ps"
      using hd_in_set [OF ps_nonempty] by simp
    have least: "fst (hd (sort_key fst ps)) \<le> fst y" if "y \<in> set ps" for y
    proof -
      obtain z zs where z: "sort_key fst ps = z # zs"
        using ps_nonempty by (cases "sort_key fst ps") auto
      have "sorted (map fst (z # zs))" "y \<in> set (z # zs)"
        using sorted_sort_key [of fst ps] set_sort [of fst ps] that z by auto
      then show ?thesis
        unfolding z by auto
    qed
    have nth: "snd (ps ! i) = paths ! i \<and> delayWeight L (the (sel_sequence (paths ! i))) = Inr (fst (ps ! i))" if "i < length ps" for i
    proof -
      have "?f (paths ! i) = Inr (ps ! i)"
        using list_all2_nthD2 [OF all that] .
      then obtain w where "delayWeight L (the (sel_sequence (paths ! i))) = Inr w" "(w, paths ! i) = ps ! i"
        by (auto simp: r_bind_eq_Inr)
      then show ?thesis
        by (metis fst_conv snd_conv)
    qed
    have same: "length ps = length paths"
      using list_all2_lengthD [OF all] by simp
    have entry: "snd y \<in> set paths \<and> delayWeight L (the (sel_sequence (snd y))) = Inr (fst y)" if "y \<in> set ps" for y
    proof -
      obtain i where "i < length ps" "y = ps ! i"
        using \<open>y \<in> set ps\<close> by (auto simp: in_set_conv_nth)
      then show ?thesis
        using nth [of i] nth_mem [of i paths] same by metis
    qed
    have weight: "\<exists>y \<in> set ps. snd y = q" if "q \<in> set paths" for q
    proof -
      obtain i where "i < length paths" "q = paths ! i"
        using \<open>q \<in> set paths\<close> by (auto simp: in_set_conv_nth)
      then show ?thesis
        using nth [of i] nth_mem [of i ps] same by metis
    qed
    have "no_longer_than L (the (sel_sequence p)) (the (sel_sequence q))" if "q \<in> set paths" for q
    proof -
      obtain y where y: "y \<in> set ps" "snd y = q"
        using weight [OF \<open>q \<in> set paths\<close>] by blast
      then show ?thesis
        using entry [OF y(1)] entry [OF hd] least [OF y(1)] p by (simp add: no_longer_than_def)
    qed
    then show ?thesis
      using entry [OF hd] p by blast
  qed
  then show "p \<in> set paths" "q \<in> set paths \<Longrightarrow> no_longer_than L (the (sel_sequence p)) (the (sel_sequence q))"
    by blast+
qed


lemma scan_exits_best:
  "scan_exits X d es best = Inr (Some (s, w)) \<Longrightarrow>
     (best = Some (s, w) \<or> (\<exists>e \<in> set es. \<exists>t. params_timelock (tap_params e) = Some t \<and> exit_candidate X d e t = Inr (s, w))) \<and>
     (\<forall>s0 w0. best = Some (s0, w0) \<longrightarrow> w \<le> w0) \<and>
     (\<forall>e \<in> set es. \<forall>t. params_timelock (tap_params e) = Some t \<longrightarrow> (\<exists>s' w'. exit_candidate X d e t = Inr (s', w') \<and> w \<le> w'))"
proof (induction es arbitrary: best)
  case (Cons e es)
  show ?case
  proof (cases "params_timelock (tap_params e)")
    case None
    then show ?thesis
      using Cons.IH [of best] Cons.prems by auto
  next
    case (Some t)
    then obtain s1 w1 where c: "exit_candidate X d e t = Inr (s1, w1)"
      and run: "scan_exits X d es (if (case best of None \<Rightarrow> True | Some (_, w) \<Rightarrow> w1 < w) then Some (s1, w1) else best) = Inr (Some (s, w))"
      using Cons.prems by auto
    note ih = Cons.IH [OF run]
    show ?thesis
    proof (cases "case best of None \<Rightarrow> True | Some (_, w) \<Rightarrow> w1 < w")
      case True
      then have "w \<le> w1" and "best = Some (s0, w0) \<Longrightarrow> w1 < w0" for s0 w0
        using ih by auto
      then show ?thesis
        using ih True Some c by (auto split: if_splits)
    next
      case False
      then obtain s0 w0 where "best = Some (s0, w0)" "w0 \<le> w1"
        by (auto split: option.splits)
      then show ?thesis
        using ih False Some c by auto
    qed
  qed
qed auto



text \<open>A contract with a path after twenty blocks and one after 1024 seconds: the second is shorter.\<close>

definition sample_selection :: "int option \<Rightarrow> PathSelection" where
  "sample_selection n = \<lparr>sel_leaf = \<lparr>leaf_internalKey = [], leaf_merklePath = [], leaf_bytes = [1, 2, 3]\<rparr>, sel_extraWitness = None,
     sel_sequence = map_option JsInt n\<rparr>"

definition sample_exit_lib :: exit_lib where
  "sample_exit_lib = \<lparr>xl_script = std_lib, xl_hex = (\<lambda>b. []), xl_decodeTree = (\<lambda>b. Inl TapTreeUndecodable),
     xl_handler = (\<lambda>t. if t = ''vhtlc'' then Some \<lparr>xh_createScript = (\<lambda>ps. Inr []),
         xh_paths = (\<lambda>ps c ctx. Inr [sample_selection None, sample_selection (Some 20), sample_selection (Some 0x400002)])\<rparr> else None),
     xl_controlBlock = (\<lambda>l. replicate 33 0)\<rparr>"

definition sample_exit_vtxo :: ExitVtxo where
  "sample_exit_vtxo = \<lparr>xv_txid = ''a1'', xv_vout = 0, xv_value = 5000, xv_tapTree = []\<rparr>"

lemma sample_resolved:
  "resolveUnilateralPath sample_exit_lib sample_exit_vtxo ''5120'' (Some [(''5120'', sample_contract)]) (exit_context 0 None None) =
     Inr \<lparr>rp_selection = sample_selection (Some 0x400002), rp_label = ContractUnilateral ''vhtlc''\<rparr>"
  by (simp add: resolveUnilateralPath_def getContracts_def by_script_def criterion_matches_def sample_contract_def sample_exit_lib_def
      sample_selection_def shortest_path_def delayWeight_def sequenceToTimelock_def std_lib_def)


end
