(* ===== verification/Spec2Isabelle.thy ===== *)
theory Spec2Isabelle
  imports Extension Asset_Coins Balance Batch Discovery Settle_Session Offchain_Tx Exit_Path
begin

text \<open>
  A verification library for the Arkade TypeScript SDK (\<open>packages/ts-sdk/src\<close>).
\<close>

end
